(* ===== verification/Prelude.thy ===== *)
theory Prelude
  imports Complex_Main "HOL-Library.AList" "HOL-Library.List_Lexorder"
    "HOL-Library.Multiset"
begin

text \<open>
  Shared vocabulary of the development: the JavaScript string operations, the insertion-ordered
  \<open>Map\<close> and the few generic list facts that the component theories use.

  A JavaScript string is a sequence of UTF-16 code units, so \<open>ustring\<close> is a list of code units;
  a literal of the source is written \<open>lit ''...''\<close>. The order on code-unit lists from
  \<open>List_Lexorder\<close> is the order of JavaScript's \<open>&lt;\<close> and of \<open>Array.prototype.sort\<close> without a
  comparator. An ES \<open>Map\<close> is an association list in insertion order: \<open>AList.update\<close> overwrites in
  place and otherwise appends, \<open>AList.delete\<close> removes, \<open>map_of\<close> looks up.
\<close>

named_theorems store_simps \<open>equations of the stores: lookups after updates\<close>
named_theorems inv_intros \<open>preservation of the component invariants\<close>

section \<open>Strings\<close>

type_synonym ustring = "nat list"

definition lit :: "string \<Rightarrow> ustring" where
  "lit s = map of_char s"

lemma lit_Nil [simp]: "lit [] = []"
  by (simp add: lit_def)

lemma lit_Cons [simp]: "lit (c # s) = of_char c # lit s"
  by (simp add: lit_def)

lemma lit_eq_iff: "lit s = lit t \<longleftrightarrow> s = t"
proof -
  have "inj (of_char :: char \<Rightarrow> nat)"
    by (rule injI) simp
  then show ?thesis by (simp add: lit_def inj_map_eq_map)
qed

text \<open>\<open>s.startsWith(p)\<close>, \<open>s.endsWith(p)\<close>, \<open>s.includes(c)\<close> for a one-unit \<open>c\<close>.\<close>

definition starts_with :: "ustring \<Rightarrow> ustring \<Rightarrow> bool" where
  "starts_with s p \<longleftrightarrow> take (length p) s = p"

definition ends_with :: "ustring \<Rightarrow> ustring \<Rightarrow> bool" where
  "ends_with s p \<longleftrightarrow> length p \<le> length s \<and> drop (length s - length p) s = p"

lemma starts_with_append [simp]: "starts_with (p @ s) p"
  by (simp add: starts_with_def)

lemma starts_with_Nil [simp]: "starts_with s []"
  by (simp add: starts_with_def)

lemma starts_with_iff: "starts_with s p \<longleftrightarrow> (\<exists>r. s = p @ r)"
  unfolding starts_with_def by (metis append_eq_conv_conj append_take_drop_id)

lemma ends_with_append [simp]: "ends_with (s @ p) p"
  by (simp add: ends_with_def)

text \<open>\<open>s.indexOf(p)\<close>: the first position, \<open>None\<close> for \<open>-1\<close>.\<close>

fun index_of :: "ustring \<Rightarrow> ustring \<Rightarrow> nat option" where
  "index_of s p =
     (if starts_with s p then Some 0
      else case s of [] \<Rightarrow> None | _ # s' \<Rightarrow> map_option Suc (index_of s' p))"

declare index_of.simps [simp del]

lemma index_of_Some:
  "index_of s p = Some i \<Longrightarrow> \<exists>r. s = take i s @ p @ r \<and> i + length p \<le> length s"
proof (induction s arbitrary: i)
  case Nil
  then show ?case
    by (subst (asm) index_of.simps) (auto simp: starts_with_def split: if_splits)
next
  case (Cons c s)
  show ?case
  proof (cases "starts_with (c # s) p")
    case True
    then obtain r where "c # s = p @ r" by (auto simp: starts_with_iff)
    moreover from True Cons.prems have "i = 0" by (subst (asm) index_of.simps) simp
    ultimately show ?thesis by (metis append_Nil le_add1 length_append take0 add_0)
  next
    case False
    with Cons.prems obtain j where j: "index_of s p = Some j" and i: "i = Suc j"
      by (subst (asm) index_of.simps) auto
    from Cons.IH [OF j] obtain r where "s = take j s @ p @ r" "j + length p \<le> length s" by blast
    with i show ?thesis by (intro exI [of _ r]) simp
  qed
qed

text \<open>\<open>xs.join(sep)\<close> and \<open>s.split(c)\<close> for a one-unit separator \<open>c\<close>.\<close>

fun join :: "ustring \<Rightarrow> ustring list \<Rightarrow> ustring" where
  "join sep [] = []"
| "join sep [x] = x"
| "join sep (x # y # ys) = x @ sep @ join sep (y # ys)"

fun split_on :: "nat \<Rightarrow> ustring \<Rightarrow> ustring list" where
  "split_on c [] = [[]]"
| "split_on c (x # xs) =
     (if x = c then [] # split_on c xs
      else case split_on c xs of [] \<Rightarrow> [[x]] | y # ys \<Rightarrow> (x # y) # ys)"

lemma split_on_not_Nil [simp]: "split_on c s \<noteq> []"
  by (cases s) (auto split: list.splits)

lemma split_on_no_sep: "c \<notin> set s \<Longrightarrow> split_on c s = [s]"
  by (induction s) auto

lemma split_on_append_sep:
  "c \<notin> set s \<Longrightarrow> split_on c (s @ c # r) = s # split_on c r"
  by (induction s) auto

lemma split_on_join:
  "xs \<noteq> [] \<Longrightarrow> \<forall>x \<in> set xs. c \<notin> set x \<Longrightarrow> split_on c (join [c] xs) = xs"
  by (induction "[c]" xs rule: join.induct) (auto simp: split_on_no_sep split_on_append_sep)

lemma split_on_parts: "x \<in> set (split_on c s) \<Longrightarrow> c \<notin> set x"
  by (induction s arbitrary: x) (auto split: if_splits list.splits)

lemma join_split_on: "join [c] (split_on c s) = s"
proof (induction s)
  case (Cons x s)
  obtain y ys where yys: "split_on c s = y # ys" by (cases "split_on c s") auto
  with Cons.IH have "join [c] (y # ys) = s" by simp
  then show ?case using yys by (cases ys) auto
qed simp

text \<open>\<open>s.padStart(n, c)\<close> for a one-unit filler.\<close>

definition pad_start :: "nat \<Rightarrow> nat \<Rightarrow> ustring \<Rightarrow> ustring" where
  "pad_start n c s = replicate (n - length s) c @ s"

lemma length_pad_start [simp]: "length (pad_start n c s) = max n (length s)"
  by (simp add: pad_start_def)

text \<open>
  The white space that \<open>trim\<close> removes: the WhiteSpace and LineTerminator code units of ECMAScript.
\<close>

definition is_space :: "nat \<Rightarrow> bool" where
  "is_space u \<longleftrightarrow> u \<in> {9, 10, 11, 12, 13, 32, 160, 5760, 8232, 8233, 8239, 8287, 12288, 65279}
     \<or> (8192 \<le> u \<and> u \<le> 8202)"

definition trim :: "ustring \<Rightarrow> ustring" where
  "trim s = rev (dropWhile is_space (rev (dropWhile is_space s)))"

section \<open>Decimal numerals\<close>

text \<open>\<open>String(n)\<close> on integers.\<close>

fun show_nat :: "nat \<Rightarrow> ustring" where
  "show_nat n = (if n < 10 then [48 + n] else show_nat (n div 10) @ [48 + n mod 10])"

declare show_nat.simps [simp del]

definition show_int :: "int \<Rightarrow> ustring" where
  "show_int i = (if i < 0 then 45 # show_nat (nat (- i)) else show_nat (nat i))"

definition is_digit :: "nat \<Rightarrow> bool" where
  "is_digit u \<longleftrightarrow> 48 \<le> u \<and> u \<le> 57"

text \<open>The value of a string of digits, the reading of \<open>parseInt(s, 10)\<close> on \<open>\d+\<close>.\<close>

definition digits_value :: "ustring \<Rightarrow> nat" where
  "digits_value s = foldl (\<lambda>a u. 10 * a + (u - 48)) 0 s"

lemma digits_value_snoc [simp]: "digits_value (s @ [u]) = 10 * digits_value s + (u - 48)"
  by (simp add: digits_value_def)

lemma show_nat_digits: "u \<in> set (show_nat n) \<Longrightarrow> is_digit u"
proof (induction n arbitrary: u rule: show_nat.induct)
  case (1 n)
  from "1.prems" show ?case
    by (subst (asm) show_nat.simps) (auto simp: is_digit_def split: if_splits dest: "1.IH")
qed

lemma show_nat_not_Nil [simp]: "show_nat n \<noteq> []"
  by (subst show_nat.simps) simp

lemma digits_value_show_nat [simp]: "digits_value (show_nat n) = n"
proof (induction n rule: show_nat.induct)
  case (1 n)
  show ?case
  proof (cases "n < 10")
    case True
    then show ?thesis by (subst show_nat.simps) (simp add: digits_value_def)
  next
    case False
    with 1 show ?thesis by (subst show_nat.simps) simp
  qed
qed

lemma show_nat_inj: "show_nat m = show_nat n \<longleftrightarrow> m = n"
  by (metis digits_value_show_nat)

section \<open>Insertion-ordered maps\<close>

text \<open>
  What every client of the \<open>Map\<close> model needs: one entry per key, kept by the updates, and the order
  of the keys.
\<close>

definition distinct_keys :: "('k \<times> 'v) list \<Rightarrow> bool" where
  "distinct_keys m \<longleftrightarrow> distinct (map fst m)"

lemma distinct_keys_Nil [simp, inv_intros]: "distinct_keys []"
  by (simp add: distinct_keys_def)

lemma distinct_keys_update [simp, inv_intros]:
  "distinct_keys m \<Longrightarrow> distinct_keys (AList.update k v m)"
  by (simp add: distinct_keys_def distinct_update)

lemma distinct_keys_delete [simp, inv_intros]:
  "distinct_keys m \<Longrightarrow> distinct_keys (AList.delete k m)"
  by (simp add: distinct_keys_def distinct_delete)

lemma distinct_keys_filter [simp]: "distinct_keys m \<Longrightarrow> distinct_keys (filter P m)"
  by (simp add: distinct_keys_def distinct_map_filter)

lemma distinct_keys_drop [simp]: "distinct_keys m \<Longrightarrow> distinct_keys (drop n m)"
  by (simp add: distinct_keys_def drop_map [symmetric])

lemma distinct_keys_append_iff:
  "distinct_keys (m @ n) \<longleftrightarrow>
     distinct_keys m \<and> distinct_keys n \<and> fst ` set m \<inter> fst ` set n = {}"
  by (auto simp: distinct_keys_def)

lemma distinct_keys_Cons_iff:
  "distinct_keys ((k, v) # m) \<longleftrightarrow> distinct_keys m \<and> k \<notin> fst ` set m"
  by (auto simp: distinct_keys_def)

lemma update_fresh: "k \<notin> fst ` set m \<Longrightarrow> AList.update k v m = m @ [(k, v)]"
  by (induction m) auto

lemma map_of_update [store_simps]: "map_of (AList.update k v m) = (map_of m)(k \<mapsto> v)"
  by (rule update_conv')

lemma map_of_delete [store_simps]: "map_of (AList.delete k m) = (map_of m)(k := None)"
  by (rule delete_conv')

lemma map_of_eq_None_iff': "map_of m k = None \<longleftrightarrow> k \<notin> fst ` set m"
  by (rule map_of_eq_None_iff)

lemma map_of_Some_split:
  "map_of m k = Some v \<Longrightarrow> \<exists>xs ys. m = xs @ (k, v) # ys \<and> k \<notin> fst ` set xs"
proof (induction m)
  case (Cons p m)
  obtain k' v' where p: "p = (k', v')" by (cases p)
  show ?case
  proof (cases "k' = k")
    case True
    with Cons.prems p show ?thesis by (intro exI [of _ "[]"] exI [of _ m]) simp
  next
    case False
    with Cons p obtain xs ys where "m = xs @ (k, v) # ys" "k \<notin> fst ` set xs" by auto
    with p False show ?thesis by (intro exI [of _ "p # xs"] exI [of _ ys]) auto
  qed
qed simp

text \<open>A sum over the entries of a map, and how the updates change it.\<close>

definition sum_entries :: "('v \<Rightarrow> int) \<Rightarrow> ('k \<times> 'v) list \<Rightarrow> int" where
  "sum_entries f m = sum_list (map (\<lambda>p. f (snd p)) m)"

lemma sum_entries_simps [simp]:
  "sum_entries f [] = 0"
  "sum_entries f ((k, v) # m) = f v + sum_entries f m"
  "sum_entries f (m @ n) = sum_entries f m + sum_entries f n"
  by (simp_all add: sum_entries_def)

lemma sum_entries_nonneg: "(\<And>p. p \<in> set m \<Longrightarrow> 0 \<le> f (snd p)) \<Longrightarrow> 0 \<le> sum_entries f m"
  unfolding sum_entries_def by (rule sum_list_nonneg) auto

lemma sum_entries_update:
  "distinct_keys m \<Longrightarrow> sum_entries f (AList.update k v m) =
     sum_entries f m + f v - (case map_of m k of None \<Rightarrow> 0 | Some w \<Rightarrow> f w)"
  by (induction m) (auto simp: distinct_keys_Cons_iff split: option.splits)

lemma delete_idem': "k \<notin> fst ` set m \<Longrightarrow> AList.delete k m = m"
  by (simp add: delete_idem)

lemma sum_entries_delete:
  "distinct_keys m \<Longrightarrow> sum_entries f (AList.delete k m) =
     sum_entries f m - (case map_of m k of None \<Rightarrow> 0 | Some w \<Rightarrow> f w)"
proof (induction m)
  case (Cons p m)
  obtain k' v' where p: "p = (k', v')" by (cases p)
  with Cons show ?case
    by (cases "k' = k")
      (auto simp: distinct_keys_Cons_iff delete_idem' map_of_eq_None_iff split: option.splits)
qed simp


section \<open>Plain objects\<close>

text \<open>
  Properties of a plain object come out in insertion order, except that array-index keys (canonical
  decimals below \<open>2 ^ 32 - 1\<close>) come first, in ascending order.
\<close>

definition index_key :: "ustring \<Rightarrow> nat option" where
  "index_key k =
     (if \<not> list_all is_digit k then None
      else if show_nat (digits_value k) = k \<and> digits_value k < 2 ^ 32 - 1 then Some (digits_value k)
      else None)"

fun insert_index :: "nat \<Rightarrow> (ustring \<times> 'v) \<Rightarrow> (ustring \<times> 'v) list \<Rightarrow> (ustring \<times> 'v) list" where
  "insert_index n e [] = [e]"
| "insert_index n e (p # ps) =
     (case index_key (fst p) of
        Some m \<Rightarrow> if m < n then p # insert_index n e ps else e # p # ps
      | None \<Rightarrow> e # p # ps)"

definition obj_set :: "ustring \<Rightarrow> 'v \<Rightarrow> (ustring \<times> 'v) list \<Rightarrow> (ustring \<times> 'v) list" where
  "obj_set k v ob =
     (if k \<in> fst ` set ob then AList.update k v ob
      else case index_key k of
        None \<Rightarrow> ob @ [(k, v)]
      | Some n \<Rightarrow> insert_index n (k, v) ob)"

definition obj_of :: "(ustring \<times> 'v) list \<Rightarrow> (ustring \<times> 'v) list" where
  "obj_of es = foldl (\<lambda>ob (k, v). obj_set k v ob) [] es"

lemma mset_insert_index: "mset (insert_index n e ob) = add_mset e (mset ob)"
  by (induction ob) (auto split: option.splits)

lemma set_insert_index [simp]: "set (insert_index n e ob) = insert e (set ob)"
  using mset_insert_index [of n e ob, THEN arg_cong, of set_mset] by simp

lemma mset_obj_set:
  "k \<notin> fst ` set ob \<Longrightarrow> mset (obj_set k v ob) = add_mset (k, v) (mset ob)"
  by (auto simp: obj_set_def mset_insert_index split: option.splits)

lemma map_of_insert_index:
  "k \<notin> fst ` set ob \<Longrightarrow> map_of (insert_index n (k, v) ob) = (map_of ob)(k \<mapsto> v)"
  by (induction ob) (auto split: option.splits)

lemma map_of_obj_set [store_simps]: "map_of (obj_set k v ob) = (map_of ob)(k \<mapsto> v)"
proof (cases "k \<in> fst ` set ob")
  case True
  then show ?thesis by (simp add: obj_set_def map_of_update)
next
  case False
  then have "map_of ob k = None" by (simp add: map_of_eq_None_iff)
  then have "map_of (ob @ [(k, v)]) = (map_of ob)(k \<mapsto> v)"
    by (auto simp: map_add_def fun_eq_iff split: option.splits)
  with False show ?thesis
    by (auto simp: obj_set_def map_of_insert_index split: option.splits)
qed

lemma distinct_keys_mset:
  "mset m = mset m' \<Longrightarrow> distinct_keys m \<longleftrightarrow> distinct_keys m'"
  unfolding distinct_keys_def by (metis mset_eq_imp_distinct_iff mset_map)

lemma distinct_keys_obj_set [simp, inv_intros]:
  "distinct_keys ob \<Longrightarrow> distinct_keys (obj_set k v ob)"
proof (cases "k \<in> fst ` set ob")
  case False
  assume "distinct_keys ob"
  with False have "distinct_keys ((k, v) # ob)" by (simp add: distinct_keys_Cons_iff)
  moreover have "mset (obj_set k v ob) = mset ((k, v) # ob)" using False by (simp add: mset_obj_set)
  ultimately show ?thesis by (metis distinct_keys_mset)
qed (simp add: obj_set_def)

lemma obj_of_snoc: "obj_of (es @ [(k, v)]) = obj_set k v (obj_of es)"
  by (simp add: obj_of_def)

lemma obj_of_Nil [simp]: "obj_of [] = []"
  by (simp add: obj_of_def)

lemma mset_obj_of: "distinct_keys es \<Longrightarrow> mset (obj_of es) = mset es"
proof (induction es rule: rev_induct)
  case (snoc e es)
  obtain k v where e: "e = (k, v)" by (cases e)
  from snoc.prems e have d: "distinct_keys es" "k \<notin> fst ` set es"
    by (auto simp: distinct_keys_append_iff)
  with snoc.IH have m: "mset (obj_of es) = mset es" by simp
  then have "set (obj_of es) = set es" by (metis set_mset_mset)
  with d m e show ?case by (simp add: obj_of_snoc mset_obj_set)
qed simp

lemma set_obj_of: "distinct_keys es \<Longrightarrow> set (obj_of es) = set es"
  by (metis mset_obj_of set_mset_mset)

lemma distinct_keys_obj_of [simp]: "distinct_keys (obj_of es)"
proof (induction es rule: rev_induct)
  case (snoc e es)
  then show ?case by (cases e) (simp add: obj_of_snoc)
qed simp

lemma map_of_mset:
  "distinct_keys m \<Longrightarrow> mset m = mset m' \<Longrightarrow> map_of m = map_of m'"
  unfolding distinct_keys_def by (metis map_of_inject_set mset_eq_imp_distinct_iff mset_map set_mset_mset)

lemma map_of_obj_of: "distinct_keys es \<Longrightarrow> map_of (obj_of es) = map_of es"
  by (metis distinct_keys_obj_of map_of_mset mset_obj_of)

lemma sum_entries_mset: "mset m = mset m' \<Longrightarrow> sum_entries f m = sum_entries f m'"
proof -
  assume "mset m = mset m'"
  then have "mset (map (\<lambda>p. f (snd p)) m) = mset (map (\<lambda>p. f (snd p)) m')" by simp
  then show ?thesis unfolding sum_entries_def by (metis sum_mset_sum_list)
qed

lemma sum_entries_obj_of: "distinct_keys es \<Longrightarrow> sum_entries f (obj_of es) = sum_entries f es"
  by (rule sum_entries_mset) (rule mset_obj_of)

lemma map_of_obj_of_rev: "map_of (obj_of es) = map_of (rev es)"
proof (induction es rule: rev_induct)
  case (snoc e es)
  then show ?case by (cases e) (simp add: obj_of_snoc store_simps)
qed simp

lemma map_of_rev: "distinct_keys m \<Longrightarrow> map_of (rev m) = map_of m"
  by (rule map_of_mset) (simp_all add: distinct_keys_def rev_map [symmetric])

lemma set_update_subset: "set (AList.update k v m) \<subseteq> insert (k, v) (set m)"
  by (induction m) auto

lemma set_obj_set: "set (obj_set k v m) \<subseteq> insert (k, v) (set m)"
  using set_update_subset [of k v m]
  by (auto simp: obj_set_def split: option.splits)

section \<open>Histories of calls\<close>

text \<open>
  The answers a component gives to a history of calls, and the simulation argument the component
  theories share: when every call is simulated by an abstract one, the answers agree.
\<close>

fun answers :: "('s \<Rightarrow> 'c \<Rightarrow> 'r \<times> 's) \<Rightarrow> 's \<Rightarrow> 'c list \<Rightarrow> 'r list" where
  "answers step s [] = []"
| "answers step s (c # cs) = (case step s c of (r, s') \<Rightarrow> r # answers step s' cs)"

lemma answers_simulation:
  assumes "good s"
    and "\<And>s c. good s \<Longrightarrow> fst (step s c) = fst (spec (view s) c) \<and> good (snd (step s c)) \<and>
            view (snd (step s c)) = snd (spec (view s) c)"
  shows "answers step s cs = answers spec (view s) cs"
  using assms(1)
proof (induction cs arbitrary: s)
  case (Cons c cs)
  from assms(2) [OF Cons.prems, of c] Cons.IH [of "snd (step s c)"]
  show ?case by (auto split: prod.splits)
qed simp

end
