(* ===== verification/Task_Queues.thy ===== *)
theory Task_Queues
  imports Prelude
begin

text \<open>
  The contract between the task schedulers (\<open>core/src/tasks/tasks-pool.class.ts\<close>,
  \<open>tasks-runner.class.ts\<close>) and their queues. The scheduler calls \<open>enqueue\<close>, \<open>dequeue\<close> and
  \<open>length\<close>; what it relies on is that no task is lost or duplicated and that \<open>dequeue\<close> answers
  null exactly on an empty queue. The queue with a first-in-first-out promise extends it.
\<close>

text \<open>
  The scheduler's drain of a queue with nothing new arriving: \<open>dequeue\<close> until null. The fuel bounds
  the number of calls; \<open>drain_all\<close> shows that one more than the number of tasks is enough.
\<close>

fun drain :: "('q \<Rightarrow> 'a option \<times> 'q) \<Rightarrow> nat \<Rightarrow> 'q \<Rightarrow> ('a list \<times> 'q) option" where
  "drain deq 0 q = None"
| "drain deq (Suc n) q =
     (case deq q of
        (None, q') \<Rightarrow> Some ([], q')
      | (Some x, q') \<Rightarrow> map_option (\<lambda>(xs, r). (x # xs, r)) (drain deq n q'))"

locale task_queue =
  fixes enq :: "'q \<Rightarrow> 'a \<Rightarrow> 'q"
    and deq :: "'q \<Rightarrow> 'a option \<times> 'q"
    and len :: "'q \<Rightarrow> nat"
    and good :: "'q \<Rightarrow> bool"
    and tasks :: "'q \<Rightarrow> 'a multiset"
  assumes good_enq: "good q \<Longrightarrow> good (enq q x)"
    and good_deq: "good q \<Longrightarrow> good (snd (deq q))"
    and tasks_enq: "good q \<Longrightarrow> tasks (enq q x) = add_mset x (tasks q)"
    and deq_empty: "good q \<Longrightarrow> tasks q = {#} \<Longrightarrow> deq q = (None, q)"
    and deq_task: "good q \<Longrightarrow> tasks q \<noteq> {#} \<Longrightarrow>
          \<exists>x q'. deq q = (Some x, q') \<and> tasks q = add_mset x (tasks q')"
    and len_tasks: "good q \<Longrightarrow> len q = size (tasks q)"
begin

lemma deq_None_iff: "good q \<Longrightarrow> fst (deq q) = None \<longleftrightarrow> tasks q = {#}"
  using deq_empty deq_task by fastforce

lemma good_foldl_enq: "good q \<Longrightarrow> good (foldl enq q xs)"
  by (induction xs arbitrary: q) (auto simp: good_enq)

lemma tasks_foldl_enq: "good q \<Longrightarrow> tasks (foldl enq q xs) = tasks q + mset xs"
  by (induction xs arbitrary: q) (auto simp: good_enq tasks_enq)

lemma drain_all:
  assumes "good q" "size (tasks q) < n"
  shows "\<exists>xs r. drain deq n q = Some (xs, r) \<and> mset xs = tasks q \<and> good r \<and> tasks r = {#}"
  using assms
proof (induction n arbitrary: q)
  case (Suc n)
  show ?case
  proof (cases "tasks q = {#}")
    case True
    with Suc.prems deq_empty show ?thesis by simp
  next
    case False
    with Suc.prems deq_task obtain x q' where q': "deq q = (Some x, q')"
      and t: "tasks q = add_mset x (tasks q')" by blast
    from good_deq [OF Suc.prems(1)] q' have "good q'" by simp
    moreover from t Suc.prems have "size (tasks q') < n" by simp
    ultimately obtain xs r where "drain deq n q' = Some (xs, r)" "mset xs = tasks q'"
        "good r" "tasks r = {#}"
      using Suc.IH by blast
    with q' t show ?thesis by auto
  qed
qed simp

text \<open>Every submitted task comes out exactly once.\<close>

lemma drain_submitted:
  assumes "good q" "tasks q = {#}" "length xs < n"
  shows "\<exists>ys r. drain deq n (foldl enq q xs) = Some (ys, r) \<and> mset ys = mset xs \<and> tasks r = {#}"
proof -
  from assms have "tasks (foldl enq q xs) = mset xs" by (simp add: tasks_foldl_enq)
  moreover from assms(1) have "good (foldl enq q xs)" by (rule good_foldl_enq)
  ultimately show ?thesis using drain_all [of "foldl enq q xs" n] assms(3) by auto
qed

end

text \<open>
  A queue that promises an order of service: \<open>place\<close> says where a new task goes among the waiting
  ones, and \<open>dequeue\<close> takes the first.
\<close>

locale service_queue =
  fixes enq :: "'q \<Rightarrow> 'a \<Rightarrow> 'q"
    and deq :: "'q \<Rightarrow> 'a option \<times> 'q"
    and len :: "'q \<Rightarrow> nat"
    and good :: "'q \<Rightarrow> bool"
    and items :: "'q \<Rightarrow> 'a list"
    and place :: "'a list \<Rightarrow> 'a \<Rightarrow> 'a list"
  assumes keeps_enq: "good q \<Longrightarrow> good (enq q x)"
    and keeps_deq: "good q \<Longrightarrow> good (snd (deq q))"
    and items_enq: "good q \<Longrightarrow> items (enq q x) = place (items q) x"
    and mset_place: "mset (place xs x) = add_mset x (mset xs)"
    and deq_Nil: "good q \<Longrightarrow> items q = [] \<Longrightarrow> deq q = (None, q)"
    and deq_Cons: "good q \<Longrightarrow> items q = x # xs \<Longrightarrow>
          fst (deq q) = Some x \<and> items (snd (deq q)) = xs"
    and length_items: "good q \<Longrightarrow> len q = length (items q)"

sublocale service_queue \<subseteq> task_queue enq deq len good "\<lambda>q. mset (items q)"
proof unfold_locales
  fix q assume g: "good q" and ne: "mset (items q) \<noteq> {#}"
  then obtain x xs where "items q = x # xs" by (cases "items q") auto
  with deq_Cons [OF g this] show "\<exists>x q'. deq q = (Some x, q') \<and> mset (items q) = add_mset x (mset (items q'))"
    by (intro exI [of _ x] exI [of _ "snd (deq q)"]) (auto simp: prod_eq_iff)
qed (auto simp: keeps_enq keeps_deq items_enq mset_place deq_Nil length_items)

context service_queue
begin

lemma items_foldl_enq: "good q \<Longrightarrow> items (foldl enq q xs) = foldl place (items q) xs"
  by (induction xs arbitrary: q) (auto simp: good_enq items_enq)

lemma drain_in_order:
  assumes "good q" "length (items q) < n"
  shows "\<exists>r. drain deq n q = Some (items q, r) \<and> good r \<and> items r = []"
  using assms
proof (induction n arbitrary: q)
  case (Suc n)
  show ?case
  proof (cases "items q")
    case Nil
    with Suc.prems deq_Nil show ?thesis by simp
  next
    case (Cons x xs)
    with deq_Cons [OF Suc.prems(1)] obtain q' where q': "deq q = (Some x, q')" "items q' = xs"
      by (metis prod.collapse)
    from good_deq [OF Suc.prems(1)] q' have "good q'" by simp
    with Suc.IH [of q'] Suc.prems Cons q' obtain r
      where "drain deq n q' = Some (xs, r)" "good r" "items r = []" by auto
    with q' Cons show ?thesis by simp
  qed
qed simp

lemma length_foldl_place: "length (foldl place ys xs) = length ys + length xs"
proof (induction xs arbitrary: ys)
  case (Cons x xs)
  have "length (place ys x) = Suc (length ys)"
    using mset_place [of ys x] by (metis size_mset size_add_mset)
  with Cons show ?case by simp
qed simp

lemma drain_foldl_enq:
  assumes "good q" "items q = []" "length xs < n"
  shows "\<exists>r. drain deq n (foldl enq q xs) = Some (foldl place [] xs, r) \<and> items r = []"
proof -
  have i: "items (foldl enq q xs) = foldl place [] xs" using assms by (simp add: items_foldl_enq)
  moreover have "good (foldl enq q xs)" using assms(1) by (rule good_foldl_enq)
  ultimately show ?thesis
    using drain_in_order [of "foldl enq q xs" n] assms(3) by (auto simp: length_foldl_place)
qed

end

text \<open>The queue of light mode: the tasks come out in the order they went in.\<close>

locale fifo_queue =
  service_queue enq deq len good items "\<lambda>xs x. xs @ [x]"
  for enq :: "'q \<Rightarrow> 'a \<Rightarrow> 'q" and deq len good and items :: "'q \<Rightarrow> 'a list"
begin

lemma foldl_snoc: "foldl (\<lambda>xs x. xs @ [x]) ys xs = ys @ xs"
  by (induction xs arbitrary: ys) simp_all

lemma drain_submission_order:
  assumes "good q" "items q = []" "length xs < n"
  shows "\<exists>r. drain deq n (foldl enq q xs) = Some (xs, r) \<and> items r = []"
  using drain_foldl_enq [OF assms] by (simp add: foldl_snoc)

end

end
