(* ===== verification/Js_Value.thy ===== *)
theory Js_Value
  imports Prelude
begin

text \<open>
  JavaScript values as the code passes them around: \<open>undefined\<close>, \<open>null\<close>, booleans, numbers, strings,
  arrays and plain objects (their entries in enumeration order).
\<close>

text \<open>A number is a rational (every finite double is one), an infinity or \<open>NaN\<close>.\<close>

datatype js_number = Num rat | PosInf | NegInf | NaN

datatype js_value =
    JUndefined
  | JNull
  | JBool bool
  | JNumber js_number
  | JString ustring
  | JArray "js_value list"
  | JObject "(ustring \<times> js_value) list"

text \<open>
  \<open>String(v)\<close>. The decimal form of a number (\<open>Number::toString\<close>, the shortest digits that read back
  as the same double) is the parameter \<open>num_text\<close>. An array joins its items with commas, with
  nothing for \<open>undefined\<close> and \<open>null\<close>; a plain object has no text of its own.
\<close>

fun js_string :: "(js_number \<Rightarrow> ustring) \<Rightarrow> js_value \<Rightarrow> ustring" where
  "js_string num_text JUndefined = lit ''undefined''"
| "js_string num_text JNull = lit ''null''"
| "js_string num_text (JBool b) = (if b then lit ''true'' else lit ''false'')"
| "js_string num_text (JNumber n) = num_text n"
| "js_string num_text (JString s) = s"
| "js_string num_text (JArray vs) =
     join (lit '','') (map (\<lambda>v. case v of JUndefined \<Rightarrow> [] | JNull \<Rightarrow> [] | _ \<Rightarrow> js_string num_text v) vs)"
| "js_string num_text (JObject es) = lit ''[object Object]''"

text \<open>The values an \<open>if\<close> takes as true.\<close>

fun js_truthy :: "js_value \<Rightarrow> bool" where
  "js_truthy JUndefined = False"
| "js_truthy JNull = False"
| "js_truthy (JBool b) = b"
| "js_truthy (JNumber n) = (n \<noteq> Num 0 \<and> n \<noteq> NaN)"
| "js_truthy (JString s) = (s \<noteq> [])"
| "js_truthy (JArray _) = True"
| "js_truthy (JObject _) = True"

text \<open>The own entries an object spread \<open>...v\<close> copies.\<close>

fun spread_entries :: "js_value \<Rightarrow> (ustring \<times> js_value) list" where
  "spread_entries (JObject es) = es"
| "spread_entries (JArray vs) = zip (map show_nat [0..<length vs]) vs"
| "spread_entries (JString s) = zip (map show_nat [0..<length s]) (map (\<lambda>u. JString [u]) s)"
| "spread_entries _ = []"

text \<open>Reading a missing property gives \<open>undefined\<close>.\<close>

definition prop_of :: "(ustring \<times> js_value) list \<Rightarrow> ustring \<Rightarrow> js_value" where
  "prop_of es k = (case map_of es k of None \<Rightarrow> JUndefined | Some v \<Rightarrow> v)"

text \<open>The strings that name a member every object inherits from \<open>Object.prototype\<close>.\<close>

definition prototype_keys :: "ustring list" where
  "prototype_keys =
     map lit [''constructor'', ''__defineGetter__'', ''__defineSetter__'', ''hasOwnProperty'',
       ''__lookupGetter__'', ''__lookupSetter__'', ''isPrototypeOf'', ''propertyIsEnumerable'',
       ''toString'', ''valueOf'', ''__proto__'', ''toLocaleString'']"

end
