(* ===== verification/Fifo_Task_Queue.thy ===== *)
theory Fifo_Task_Queue
  imports Task_Queues Js_Value "HOL-Library.Word"
begin

unbundle bit_operations_syntax

text \<open>
  \<open>core/src/tasks/concerns/fifo-task-queue.ts\<close>: the ring buffer of the light task queue. The
  buffer is a JavaScript array of slots (\<open>None\<close> is \<open>undefined\<close>), \<open>head\<close> and \<open>tail\<close> count all
  tasks ever taken and put and are reduced by \<open>& mask\<close> on every access.
\<close>

section \<open>State\<close>

record 'a fifo =
  fq_buffer :: "'a option list"
  fq_mask :: nat
  fq_head :: nat
  fq_tail :: nat

text \<open>
  Reads and writes of a JavaScript array by index: a read past the end is \<open>undefined\<close>, a write past
  the end extends the array with empty slots.
\<close>

definition slot_get :: "'a option list \<Rightarrow> nat \<Rightarrow> 'a option" where
  "slot_get xs i = (if i < length xs then xs ! i else None)"

definition slot_set :: "'a option list \<Rightarrow> nat \<Rightarrow> 'a option \<Rightarrow> 'a option list" where
  "slot_set xs i v =
     (if i < length xs then xs[i := v] else xs @ replicate (i - length xs) None @ [v])"

section \<open>Operations\<close>

text \<open>
  \<open>_normalizeCapacity\<close>. The capacity is a JavaScript number. The loop doubles by \<open>size <<= 1\<close>, which
  works on 32-bit two's complement integers, so it is a \<open>partial_function\<close>: \<open>None\<close> is a loop that
  does not end.
\<close>

definition shl1_int32 :: "int \<Rightarrow> int" where
  "shl1_int32 n = sint (push_bit 1 (word_of_int n :: 32 word))"

partial_function (option) double_until :: "int \<Rightarrow> int \<Rightarrow> int option" where
  "double_until sz target =
     (if sz < target then double_until (shl1_int32 sz) target else Some sz)"

fun normalize_capacity :: "js_number \<Rightarrow> int option" where
  "normalize_capacity (Num r) =
     double_until 8 (max 8 (if r > 0 then \<lceil>r\<rceil> else 8))"
| "normalize_capacity _ = double_until 8 (max 8 8)"

definition fifo_new :: "js_number \<Rightarrow> 'a fifo option" where
  "fifo_new capacity = map_option
     (\<lambda>sz. \<lparr>fq_buffer = replicate (nat sz) None, fq_mask = nat sz - 1,
              fq_head = 0, fq_tail = 0\<rparr>) (normalize_capacity capacity)"

definition fifo_length :: "'a fifo \<Rightarrow> nat" where
  "fifo_length q = fq_tail q - fq_head q"

definition fifo_slot :: "'a fifo \<Rightarrow> nat \<Rightarrow> 'a option" where
  "fifo_slot q i = slot_get (fq_buffer q) (i AND fq_mask q)"

definition fifo_grow :: "'a fifo \<Rightarrow> 'a fifo" where
  "fifo_grow q =
     (let newSize = length (fq_buffer q) * 2; len = fifo_length q;
          next = map (\<lambda>i. fifo_slot q (fq_head q + i)) [0..<len] @ replicate (newSize - len) None
      in \<lparr>fq_buffer = next, fq_mask = newSize - 1, fq_head = 0, fq_tail = len\<rparr>)"

definition fifo_enqueue :: "'a fifo \<Rightarrow> 'a \<Rightarrow> 'a fifo" where
  "fifo_enqueue q value =
     (let q = (if length (fq_buffer q) \<le> fifo_length q then fifo_grow q else q);
          index = fq_tail q AND fq_mask q
      in q\<lparr>fq_buffer := slot_set (fq_buffer q) index (Some value), fq_tail := Suc (fq_tail q)\<rparr>)"

definition fifo_dequeue :: "'a fifo \<Rightarrow> 'a option \<times> 'a fifo" where
  "fifo_dequeue q =
     (if fq_head q = fq_tail q then (None, q)
      else
        let index = fq_head q AND fq_mask q;
            value = slot_get (fq_buffer q) index;
            q = q\<lparr>fq_buffer := slot_set (fq_buffer q) index None, fq_head := Suc (fq_head q)\<rparr>;
            q = (if fq_head q = fq_tail q then q\<lparr>fq_head := 0, fq_tail := 0\<rparr> else q)
        in (value, q))"

definition fifo_clear :: "'a fifo \<Rightarrow> 'a fifo" where
  "fifo_clear q =
     (let buf = (if fq_head q \<noteq> fq_tail q
                 then foldl (\<lambda>b i. slot_set b (i AND fq_mask q) None) (fq_buffer q)
                        [fq_head q..<fq_tail q]
                 else fq_buffer q)
      in q\<lparr>fq_buffer := buf, fq_head := 0, fq_tail := 0\<rparr>)"

text \<open>\<open>flush(callback)\<close>: the tasks the callback receives, in order, and the cleared queue.\<close>

definition fifo_flush :: "'a fifo \<Rightarrow> 'a list \<times> 'a fifo" where
  "fifo_flush q =
     (List.map_filter (fifo_slot q) [fq_head q..<fq_tail q], fifo_clear q)"

definition fifo_to_array :: "'a fifo \<Rightarrow> 'a option list" where
  "fifo_to_array q =
     (let len = fifo_length q
      in if len = 0 then [] else map (\<lambda>i. fifo_slot q (fq_head q + i)) [0..<len])"

section \<open>Invariant and abstraction\<close>

text \<open>
  The buffer has a power-of-two length, the mask is one less, the live window fits and every slot of
  the window holds a task; all other slots are empty.
\<close>

definition fifo_inv :: "'a fifo \<Rightarrow> bool" where
  "fifo_inv q \<longleftrightarrow>
     (\<exists>k. length (fq_buffer q) = 2 ^ k \<and> fq_mask q = 2 ^ k - 1) \<and>
     fq_head q \<le> fq_tail q \<and> fq_tail q - fq_head q \<le> length (fq_buffer q) \<and>
     (\<forall>i \<in> {fq_head q..<fq_tail q}. fifo_slot q i \<noteq> None)"

definition fifo_items :: "'a fifo \<Rightarrow> 'a list" where
  "fifo_items q = map (\<lambda>i. the (fifo_slot q i)) [fq_head q..<fq_tail q]"

lemma and_mask_mod: "m = 2 ^ k - 1 \<Longrightarrow> (i::nat) AND m = i mod 2 ^ k"
  by (simp only: mask_eq_exp_minus_1 [symmetric] take_bit_eq_mask [symmetric] take_bit_eq_mod)

lemma mod_window_inj:
  fixes i j n :: nat
  assumes "i mod n = j mod n" "a \<le> i" "i < a + n" "a \<le> j" "j < a + n"
  shows "i = j"
proof -
  have "\<bar>int i - int j\<bar> < int n" using assms by linarith
  moreover have "int n dvd int i - int j"
    using assms(1) by (metis mod_eq_dvd_iff of_nat_mod)
  ultimately have "int i - int j = 0" using zdvd_not_zless [of "\<bar>int i - int j\<bar>" "int n"]
    by (metis dvd_abs_iff zero_less_abs_iff)
  then show ?thesis by simp
qed

lemma fifo_slot_mod:
  assumes "fifo_inv q"
  shows "fifo_slot q i = fq_buffer q ! (i mod length (fq_buffer q))"
    and "i mod length (fq_buffer q) < length (fq_buffer q)"
proof -
  from assms obtain k where k: "length (fq_buffer q) = 2 ^ k" "fq_mask q = 2 ^ k - 1"
    by (auto simp: fifo_inv_def)
  then show "fifo_slot q i = fq_buffer q ! (i mod length (fq_buffer q))"
    by (simp add: fifo_slot_def slot_get_def and_mask_mod)
  show "i mod length (fq_buffer q) < length (fq_buffer q)" using k by simp
qed

lemma length_fifo_items: "length (fifo_items q) = fifo_length q"
  by (simp add: fifo_items_def fifo_length_def)

lemma fifo_items_nth:
  "i < fifo_length q \<Longrightarrow> fifo_items q ! i = the (fifo_slot q (fq_head q + i))"
  by (simp add: fifo_items_def fifo_length_def)

lemma fifo_grow_inv:
  assumes "fifo_inv q"
  shows "fifo_inv (fifo_grow q)" "fifo_items (fifo_grow q) = fifo_items q"
    "fifo_length (fifo_grow q) < length (fq_buffer (fifo_grow q))"
proof -
  let ?q = "fifo_grow q" and ?n = "length (fq_buffer q)"
  from assms obtain k where k: "?n = 2 ^ k" "fq_mask q = 2 ^ k - 1"
    and ht: "fq_head q \<le> fq_tail q" "fq_tail q - fq_head q \<le> ?n"
    and live: "\<forall>i \<in> {fq_head q..<fq_tail q}. fifo_slot q i \<noteq> None"
    by (auto simp: fifo_inv_def)
  have len: "length (fq_buffer ?q) = 2 ^ Suc k" "fq_mask ?q = 2 ^ Suc k - 1"
    and w: "fq_head ?q = 0" "fq_tail ?q = fifo_length q"
    using k ht by (simp_all add: fifo_grow_def Let_def fifo_length_def)
  have n0: "0 < ?n" using k by simp
  have slot: "fifo_slot ?q i = fifo_slot q (fq_head q + i)" if "i < fifo_length q" for i
  proof -
    have "i < 2 ^ Suc k" using that ht k by (simp add: fifo_length_def)
    then have "fifo_slot ?q i = fq_buffer ?q ! i"
      using len by (simp add: fifo_slot_def slot_get_def and_mask_mod [of _ "Suc k"])
    also have "\<dots> = fifo_slot q (fq_head q + i)"
      using that by (simp add: fifo_grow_def Let_def nth_append)
    finally show ?thesis .
  qed
  show "fifo_inv ?q" unfolding fifo_inv_def
  proof (intro conjI ballI)
    show "\<exists>k. length (fq_buffer ?q) = 2 ^ k \<and> fq_mask ?q = 2 ^ k - 1" using len by blast
    show "fq_tail ?q - fq_head ?q \<le> length (fq_buffer ?q)"
      using w len ht k by (simp add: fifo_length_def)
    fix i assume "i \<in> {fq_head ?q..<fq_tail ?q}"
    then show "fifo_slot ?q i \<noteq> None" using w slot live by (auto simp: fifo_length_def)
  qed (use w in simp)
  show "fifo_items ?q = fifo_items q"
    by (rule nth_equalityI)
      (use w slot in \<open>auto simp: length_fifo_items fifo_length_def fifo_items_nth\<close>)
  show "fifo_length ?q < length (fq_buffer ?q)"
  proof -
    have "fifo_length q < 2 * length (fq_buffer q)"
      using ht n0 unfolding fifo_length_def by linarith
    then show ?thesis using w len k by (simp add: fifo_length_def)
  qed
qed

lemma fifo_put_slot:
  fixes v :: 'a
  assumes inv: "fifo_inv q" and room: "fifo_length q < length (fq_buffer q)"
  defines "q' \<equiv> q\<lparr>fq_buffer := slot_set (fq_buffer q) (fq_tail q AND fq_mask q) (Some v),
                    fq_tail := Suc (fq_tail q)\<rparr>"
  shows "fifo_inv q'" "fifo_items q' = fifo_items q @ [v]"
proof -
  let ?n = "length (fq_buffer q)" and ?t = "fq_tail q mod length (fq_buffer q)"
  from inv obtain k where k: "?n = 2 ^ k" "fq_mask q = 2 ^ k - 1"
    and ht: "fq_head q \<le> fq_tail q" "fq_tail q - fq_head q \<le> ?n"
    and live: "\<forall>i \<in> {fq_head q..<fq_tail q}. fifo_slot q i \<noteq> None"
    by (auto simp: fifo_inv_def)
  have t: "fq_tail q AND fq_mask q = ?t" "?t < ?n" using k by (simp_all add: and_mask_mod)
  then have buf: "fq_buffer q' = (fq_buffer q)[?t := Some v]"
    by (simp add: q'_def slot_set_def)
  have w: "fq_head q' = fq_head q" "fq_tail q' = Suc (fq_tail q)" "fq_mask q' = fq_mask q"
    by (simp_all add: q'_def)
  have slot': "fifo_slot q' i = fq_buffer q' ! (i mod ?n)" for i
    using k buf w by (simp add: fifo_slot_def slot_get_def and_mask_mod)
  have new: "fifo_slot q' (fq_tail q) = Some v" using slot' buf t by simp
  have old: "fifo_slot q' i = fifo_slot q i" if "fq_head q \<le> i" "i < fq_tail q" for i
  proof -
    have "i < fq_head q + ?n" "fq_tail q < fq_head q + ?n"
      using that ht room unfolding fifo_length_def by linarith+
    then have "i mod ?n \<noteq> ?t"
      using mod_window_inj [of i ?n "fq_tail q" "fq_head q"] that ht by auto
    then show ?thesis using slot' buf fifo_slot_mod(1) [OF inv] by simp
  qed
  show "fifo_inv q'" unfolding fifo_inv_def
  proof (intro conjI ballI)
    show "\<exists>k. length (fq_buffer q') = 2 ^ k \<and> fq_mask q' = 2 ^ k - 1" using k buf w by auto
    show "fq_tail q' - fq_head q' \<le> length (fq_buffer q')"
      using w room ht buf by (simp add: fifo_length_def)
    fix i assume "i \<in> {fq_head q'..<fq_tail q'}"
    then show "fifo_slot q' i \<noteq> None"
      using w new old live by (cases "i = fq_tail q") auto
  qed (use w ht in simp)
  have "map (\<lambda>i. the (fifo_slot q' i)) [fq_head q..<fq_tail q]
        = map (\<lambda>i. the (fifo_slot q i)) [fq_head q..<fq_tail q]"
    using old by simp
  then show "fifo_items q' = fifo_items q @ [v]"
    using w new ht by (simp add: fifo_items_def)
qed

lemma fifo_enqueue_ok:
  assumes "fifo_inv q"
  shows "fifo_inv (fifo_enqueue q v) \<and> fifo_items (fifo_enqueue q v) = fifo_items q @ [v]"
proof (cases "length (fq_buffer q) \<le> fifo_length q")
  case True
  with fifo_put_slot [OF fifo_grow_inv(1,3) [OF assms], of v] fifo_grow_inv(2) [OF assms]
  show ?thesis by (simp add: fifo_enqueue_def Let_def)
next
  case False
  with fifo_put_slot [OF assms, of v] show ?thesis by (simp add: fifo_enqueue_def Let_def)
qed

lemma fifo_reset_inv:
  assumes "fifo_inv q" "fq_head q = fq_tail q"
  shows "fifo_inv (q\<lparr>fq_head := 0, fq_tail := 0\<rparr>)"
  using assms by (auto simp: fifo_inv_def)

lemma fifo_dequeue_Cons:
  assumes inv: "fifo_inv q" and ne: "fq_head q \<noteq> fq_tail q"
  shows "fifo_inv (snd (fifo_dequeue q)) \<and> fst (fifo_dequeue q) = Some (hd (fifo_items q)) \<and>
         fifo_items (snd (fifo_dequeue q)) = tl (fifo_items q)"
proof -
  let ?n = "length (fq_buffer q)" and ?h = "fq_head q mod length (fq_buffer q)"
  let ?q = "q\<lparr>fq_buffer := slot_set (fq_buffer q) (fq_head q AND fq_mask q) None,
              fq_head := Suc (fq_head q)\<rparr>"
  from inv obtain k where k: "?n = 2 ^ k" "fq_mask q = 2 ^ k - 1"
    and ht: "fq_head q \<le> fq_tail q" "fq_tail q - fq_head q \<le> ?n"
    and live: "\<forall>i \<in> {fq_head q..<fq_tail q}. fifo_slot q i \<noteq> None"
    by (auto simp: fifo_inv_def)
  have h: "fq_head q AND fq_mask q = ?h" "?h < ?n" using k by (simp_all add: and_mask_mod)
  have slot': "fifo_slot ?q i = (fq_buffer q)[?h := None] ! (i mod ?n)" for i
    using k h by (simp add: fifo_slot_def slot_get_def slot_set_def and_mask_mod)
  have old: "fifo_slot ?q i = fifo_slot q i" if "fq_head q < i" "i < fq_tail q" for i
  proof -
    have "i < fq_head q + ?n" "fq_head q < fq_head q + ?n" using that ht by linarith+
    then have "i mod ?n \<noteq> ?h"
      using mod_window_inj [of i ?n "fq_head q" "fq_head q"] that by auto
    then show ?thesis using slot' fifo_slot_mod(1) [OF inv] by simp
  qed
  have inv': "fifo_inv ?q" unfolding fifo_inv_def
  proof (intro conjI ballI)
    show "\<exists>k. length (fq_buffer ?q) = 2 ^ k \<and> fq_mask ?q = 2 ^ k - 1"
      using k h by (auto simp: slot_set_def)
    fix i assume "i \<in> {fq_head ?q..<fq_tail ?q}"
    then have "fq_head q < i" "i < fq_tail q" by auto
    with old live show "fifo_slot ?q i \<noteq> None" by simp
  qed (use ht ne h in \<open>auto simp: slot_set_def\<close>)
  have range: "[fq_head q..<fq_tail q] = fq_head q # [Suc (fq_head q)..<fq_tail q]"
    using ht ne by (simp add: upt_conv_Cons)
  have items: "fifo_items ?q = tl (fifo_items q)"
    using old range by (simp add: fifo_items_def)
  have hd: "hd (fifo_items q) = the (fifo_slot q (fq_head q))"
    using range by (simp add: fifo_items_def)
  have val: "fifo_slot q (fq_head q) = Some (hd (fifo_items q))"
    using live ht ne hd by auto
  have empty: "tl (fifo_items q) = []" if "Suc (fq_head q) = fq_tail q"
    using that range by (simp add: fifo_items_def)
  show ?thesis
  proof (cases "Suc (fq_head q) = fq_tail q")
    case True
    with fifo_reset_inv [OF inv'] ne val empty show ?thesis
      by (simp add: fifo_dequeue_def Let_def fifo_slot_def fifo_items_def)
  next
    case False
    with inv' items ne val show ?thesis
      by (simp add: fifo_dequeue_def Let_def fifo_slot_def)
  qed
qed

interpretation fifo_ring: fifo_queue fifo_enqueue fifo_dequeue fifo_length fifo_inv fifo_items
proof unfold_locales
  fix q :: "'a fifo"
  assume inv: "fifo_inv q"
  have nil: "fifo_items q = [] \<longleftrightarrow> fq_head q = fq_tail q"
    using inv by (auto simp: fifo_items_def fifo_inv_def)
  show "fifo_inv (snd (fifo_dequeue q))"
    using inv fifo_dequeue_Cons [OF inv] by (cases "fq_head q = fq_tail q") (auto simp: fifo_dequeue_def)
  { assume "fifo_items q = []"
    then show "fifo_dequeue q = (None, q)" by (simp add: nil fifo_dequeue_def) }
  { fix x xs assume "fifo_items q = x # xs"
    with fifo_dequeue_Cons [OF inv] nil
    show "fst (fifo_dequeue q) = Some x \<and> fifo_items (snd (fifo_dequeue q)) = xs" by auto }
qed (auto simp: fifo_enqueue_ok length_fifo_items)


section \<open>Capacity\<close>

lemma power_below_30: "k < 30 \<Longrightarrow> (2::int) ^ k < 2 ^ 30"
  by (rule power_strict_increasing) simp_all

lemma power_upto_30: "k \<le> 30 \<Longrightarrow> (2::int) ^ k \<le> 2 ^ 30"
  by (rule power_increasing) simp_all

lemma shl1_int32_wrap: "shl1_int32 n = signed_take_bit 31 (2 * n)"
proof -
  have "push_bit 1 (word_of_int n :: 32 word) = word_of_int (2 * n)"
    by (simp add: push_bit_eq_mult)
  then show ?thesis by (simp only: shl1_int32_def sint_sbintrunc') simp
qed

lemma shl1_int32_small: "- (2 ^ 30) \<le> n \<Longrightarrow> n < 2 ^ 30 \<Longrightarrow> shl1_int32 n = 2 * n"
  unfolding shl1_int32_wrap by (rule signed_take_bit_int_eq_self) simp_all

lemma shl1_int32_power: "k < 30 \<Longrightarrow> shl1_int32 (2 ^ k) = 2 ^ Suc k"
  by (subst shl1_int32_small) (auto intro: order_trans [of _ 0] dest: power_below_30 [simplified])

lemma shl1_int32_top: "shl1_int32 (2 ^ 30) = - (2 ^ 31)" "shl1_int32 (- (2 ^ 31)) = 0"
  by (simp_all add: shl1_int32_def)

lemma shl1_int32_0 [simp]: "shl1_int32 0 = 0"
  by (simp add: shl1_int32_def)

lemma double_until_stops:
  "k \<le> 30 \<Longrightarrow> target \<le> 2 ^ 30 \<Longrightarrow>
     \<exists>m. k \<le> m \<and> double_until (2 ^ k) target = Some (2 ^ m) \<and> target \<le> 2 ^ m"
proof (induction "30 - k" arbitrary: k)
  case 0
  then have "k = 30" by simp
  with 0 show ?case by (subst double_until.simps) auto
next
  case (Suc j)
  show ?case
  proof (cases "(2::int) ^ k < target")
    case True
    have k30: "k < 30" using Suc by simp
    then have "shl1_int32 (2 ^ k) = 2 ^ Suc k" by (rule shl1_int32_power)
    then have step: "double_until (2 ^ k) target = double_until (2 ^ Suc k) target"
      using True by (subst double_until.simps) simp
    have "j = 30 - Suc k" "Suc k \<le> 30" using Suc(2) k30 by simp_all
    from Suc(1) [OF this Suc.prems(2)] obtain m where "Suc k \<le> m"
        "double_until (2 ^ Suc k) target = Some (2 ^ m)" "target \<le> 2 ^ m" by blast
    with step show ?thesis by (intro exI [of _ m]) simp
  next
    case False
    then show ?thesis by (subst double_until.simps) auto
  qed
qed

text \<open>The sizes the loop runs through once the 32-bit shift has overflowed.\<close>

definition int32_powers :: "int set" where
  "int32_powers = {2 ^ k |k. k \<le> 30} \<union> {- (2 ^ 31), 0}"

lemma int32_powers_shl1: "n \<in> int32_powers \<Longrightarrow> shl1_int32 n \<in> int32_powers"
proof -
  assume "n \<in> int32_powers"
  then consider k where "n = 2 ^ k" "k < 30" | "n = 2 ^ 30" | "n = - (2 ^ 31)" | "n = 0"
    unfolding int32_powers_def by (auto simp: le_less)
  then show ?thesis
  proof cases
    case 1
    then have "shl1_int32 n = 2 ^ Suc k" by (simp only: shl1_int32_power)
    with 1 show ?thesis unfolding int32_powers_def by (intro UnI1 CollectI exI [of _ "Suc k"]) simp
  qed (unfold int32_powers_def, simp_all add: shl1_int32_top [simplified])
qed

lemma double_until_diverges:
  assumes big: "2 ^ 30 < target" and start: "n \<in> int32_powers"
  shows "double_until n target = None"
proof (rule ccontr)
  assume "double_until n target \<noteq> None"
  then obtain r where r: "double_until n target = Some r" by blast
  have "\<not> (2 ^ 30 < target \<and> n \<in> int32_powers)"
  proof (rule double_until.raw_induct [where P = "\<lambda>n target r. \<not> (2 ^ 30 < target \<and> n \<in> int32_powers)", OF _ r])
    fix f :: "int \<Rightarrow> int \<Rightarrow> int option" and n target r :: int
    assume IH: "\<And>n target r. f n target = Some r \<Longrightarrow> \<not> (2 ^ 30 < target \<and> n \<in> int32_powers)"
      and eq: "(if n < target then f (shl1_int32 n) target else Some n) = Some r"
    show "\<not> (2 ^ 30 < target \<and> n \<in> int32_powers)"
    proof
      assume a: "2 ^ 30 < target \<and> n \<in> int32_powers"
      have "n \<le> 2 ^ 30"
      proof -
        consider k where "n = 2 ^ k" "k \<le> 30" | "n \<le> 0"
          using a unfolding int32_powers_def by auto
        then show ?thesis by cases (auto dest: power_upto_30)
      qed
      with a eq have "f (shl1_int32 n) target = Some r" by auto
      with IH a int32_powers_shl1 show False by blast
    qed
  qed
  with big start show False by simp
qed

lemma eight_power: "(8::int) = 2 ^ 3"
  by simp

section \<open>Whole histories\<close>

text \<open>
  A history of calls on a queue, and the answers it gives: on the ring buffer of the code and on a
  plain list, the specification.
\<close>

datatype 'a queue_call = Enqueue 'a | Dequeue | Flush | Clear

datatype 'a queue_answer = Done | Task "'a option" | Flushed "'a list"

fun fifo_call :: "'a fifo \<Rightarrow> 'a queue_call \<Rightarrow> 'a queue_answer \<times> 'a fifo" where
  "fifo_call q (Enqueue x) = (Done, fifo_enqueue q x)"
| "fifo_call q Dequeue = (case fifo_dequeue q of (v, q') \<Rightarrow> (Task v, q'))"
| "fifo_call q Flush = (case fifo_flush q of (xs, q') \<Rightarrow> (Flushed xs, q'))"
| "fifo_call q Clear = (Done, fifo_clear q)"

fun list_call :: "'a list \<Rightarrow> 'a queue_call \<Rightarrow> 'a queue_answer \<times> 'a list" where
  "list_call xs (Enqueue x) = (Done, xs @ [x])"
| "list_call xs Dequeue = (case xs of [] \<Rightarrow> (Task None, []) | x # ys \<Rightarrow> (Task (Some x), ys))"
| "list_call xs Flush = (Flushed xs, [])"
| "list_call xs Clear = (Done, [])"

lemma fifo_clear_ok: "fifo_inv q \<Longrightarrow> fifo_inv (fifo_clear q) \<and> fifo_items (fifo_clear q) = []"
proof -
  assume inv: "fifo_inv q"
  let ?f = "foldl (\<lambda>b i. slot_set b (i AND fq_mask q) None)"
  obtain k where k: "length (fq_buffer q) = 2 ^ k" "fq_mask q = 2 ^ k - 1"
    using inv by (auto simp: fifo_inv_def)
  have "length (?f b is) = length b" if "length b = 2 ^ k" for b :: "'a option list" and "is"
    using that k by (induction "is" arbitrary: b) (simp_all add: slot_set_def and_mask_mod)
  then have "length (fq_buffer (fifo_clear q)) = 2 ^ k"
    using k by (simp add: fifo_clear_def Let_def)
  then show ?thesis
    using k by (auto simp: fifo_inv_def fifo_items_def fifo_clear_def Let_def)
qed

lemma fifo_flush_items: "fifo_inv q \<Longrightarrow> fst (fifo_flush q) = fifo_items q"
proof -
  assume inv: "fifo_inv q"
  have "List.map_filter f xs = map (\<lambda>i. the (f i)) xs" if "\<forall>i \<in> set xs. f i \<noteq> None"
    for f :: "nat \<Rightarrow> 'a option" and xs
    using that by (induction xs) (auto simp: List.map_filter_def)
  from this [of "[fq_head q..<fq_tail q]" "fifo_slot q"] inv show ?thesis
    by (simp add: fifo_flush_def fifo_items_def fifo_inv_def)
qed

lemma fifo_call_refines:
  assumes "fifo_inv q"
  shows "fst (fifo_call q c) = fst (list_call (fifo_items q) c) \<and>
         fifo_inv (snd (fifo_call q c)) \<and>
         fifo_items (snd (fifo_call q c)) = snd (list_call (fifo_items q) c)"
proof (cases c)
  case (Enqueue x)
  with assms show ?thesis by (simp add: fifo_enqueue_ok)
next
  case Dequeue
  with fifo_ring.deq_Nil [OF assms] fifo_ring.deq_Cons [OF assms] fifo_ring.keeps_deq [OF assms] assms
  show ?thesis by (cases "fifo_items q") (auto split: prod.splits)
next
  case Flush
  with fifo_clear_ok [OF assms] fifo_flush_items [OF assms] show ?thesis
    by (simp add: fifo_flush_def)
next
  case Clear
  with fifo_clear_ok [OF assms] show ?thesis by simp
qed

lemma fifo_answers_refine:
  "fifo_inv q \<Longrightarrow> answers fifo_call q cs = answers list_call (fifo_items q) cs"
  by (rule answers_simulation [where good = fifo_inv and view = fifo_items]) (simp_all add: fifo_call_refines)

lemma normalize_capacity_cases:
  "(case normalize_capacity (Num r) of
      None \<Rightarrow> 2 ^ 30 < r
    | Some n \<Rightarrow> (\<exists>m. n = 2 ^ m) \<and> 8 \<le> n \<and> r \<le> of_int n \<and> r \<le> 2 ^ 30)"
proof (cases "r \<le> 2 ^ 30")
  case True
  let ?t = "max 8 (if r > 0 then \<lceil>r\<rceil> else 8)"
  from True have "\<lceil>r\<rceil> \<le> 2 ^ 30" by (simp add: ceiling_le_iff)
  then have "?t \<le> 2 ^ 30" by simp
  with double_until_stops [of 3 ?t] obtain m
    where m: "double_until 8 ?t = Some (2 ^ m)" "?t \<le> 2 ^ m"
    unfolding eight_power [symmetric] by auto
  have r: "r \<le> of_int (2 ^ m)"
  proof (cases "0 < r")
    case True
    with m(2) have "\<lceil>r\<rceil> \<le> 2 ^ m" by simp
    then show ?thesis by (simp only: ceiling_le_iff)
  next
    case False
    then show ?thesis by (auto intro: order_trans [of _ 0])
  qed
  have "normalize_capacity (Num r) = Some (2 ^ m)" using m(1) by simp
  then show ?thesis using m(2) r True by (simp del: normalize_capacity.simps)
next
  case False
  then have r: "2 ^ 30 < r" by simp
  then have "(2::int) ^ 30 < \<lceil>r\<rceil>" by (simp add: less_ceiling_iff)
  moreover have "0 < r" by (rule less_trans [OF _ r]) simp
  ultimately have "(2::int) ^ 30 < max 8 (if r > 0 then \<lceil>r\<rceil> else 8)" by simp
  moreover have "8 \<in> int32_powers" unfolding int32_powers_def
    by (intro UnI1 CollectI exI [of _ 3]) simp
  ultimately have "double_until 8 (max 8 (if r > 0 then \<lceil>r\<rceil> else 8)) = None"
    by (rule double_until_diverges)
  then show ?thesis using r by simp
qed

lemma double_until_8: "double_until 8 8 = Some 8"
  by (subst double_until.simps) simp

lemma normalize_capacity_power:
  "normalize_capacity c = Some n \<Longrightarrow> \<exists>m. n = 2 ^ m"
proof (cases c)
  case (Num r)
  moreover assume "normalize_capacity c = Some n"
  ultimately show ?thesis using normalize_capacity_cases [of r] by simp
qed (auto simp: double_until_8 intro: exI [of _ 3])

lemma fifo_new_inv: "fifo_new c = Some q \<Longrightarrow> fifo_inv q \<and> fifo_items q = []"
proof -
  assume "fifo_new c = Some q"
  then obtain n where n: "normalize_capacity c = Some n"
    and q: "q = \<lparr>fq_buffer = replicate (nat n) None, fq_mask = nat n - 1, fq_head = 0, fq_tail = 0\<rparr>"
    by (auto simp: fifo_new_def)
  from normalize_capacity_power [OF n] obtain m where "n = 2 ^ m" ..
  then have "nat n = 2 ^ m" by (simp add: nat_power_eq)
  with q show ?thesis by (auto simp: fifo_inv_def fifo_items_def)
qed

lemma fifo_new_Some: "fifo_new (Num 1) \<noteq> None"
  by (simp add: fifo_new_def double_until_8)

section \<open>Properties\<close>

text \<open>
  C1: The ring buffer is a queue. For every history of enqueue, dequeue, flush and clear calls on a
  fresh queue, of any length and in any interleaving (so through every wrap-around and every growth
  of the buffer), the answers are those of a plain list.
\<close>
theorem fifo_history:
  "fifo_new c = Some q \<Longrightarrow> answers fifo_call q cs = answers list_call [] cs"
  by (metis fifo_new_inv fifo_answers_refine)

lemma fifo_history_witness:
  "\<exists>q. fifo_new (Num 1) = Some q \<and>
     answers fifo_call q [Enqueue (1::nat), Enqueue 2, Dequeue, Dequeue, Dequeue]
       = [Done, Done, Task (Some 1), Task (Some 2), Task None]"
proof -
  obtain q :: "nat fifo" where q: "fifo_new (Num 1) = Some q" using fifo_new_Some by blast
  from fifo_history [OF q, of "[Enqueue 1, Enqueue 2, Dequeue, Dequeue, Dequeue]"] q
  show ?thesis by auto
qed

text \<open>
  A batch of tasks put into a fresh queue and drained (the scheduler's dequeue-until-null loop)
  comes out complete, in submission order, and leaves the queue empty; one call more than there are
  tasks is enough for the loop to end.
\<close>
theorem fifo_drains_in_order:
  "fifo_new c = Some q \<Longrightarrow> length xs < n \<Longrightarrow>
     \<exists>r. drain fifo_dequeue n (foldl fifo_enqueue q xs) = Some (xs, r) \<and> fifo_length r = 0"
  using fifo_new_inv [of c q] fifo_ring.drain_submission_order [of q xs n]
  by (auto simp: length_fifo_items [symmetric])

lemma fifo_drains_in_order_witness:
  "\<exists>q r. fifo_new (Num 1) = Some q \<and>
     drain fifo_dequeue 5 (foldl fifo_enqueue q ''task'') = Some (''task'', r)"
proof -
  obtain q :: "char fifo" where q: "fifo_new (Num 1) = Some q" using fifo_new_Some by blast
  from fifo_drains_in_order [OF q, of "''task''" 5] q show ?thesis by auto
qed

text \<open>
  The capacity computation. For every finite requested capacity up to \<open>2 ^ 30\<close> the doubling loop
  ends with a power of two that is at least 8 and at least the request; for every larger one the
  32-bit shift overflows to 0 and the constructor never returns.
\<close>
theorem fifo_capacity:
  "(case (fifo_new (Num r) :: 'a fifo option) of
      None \<Rightarrow> 2 ^ 30 < r
    | Some q \<Rightarrow> (\<exists>m. length (fq_buffer q) = 2 ^ m) \<and> 8 \<le> length (fq_buffer q) \<and>
        r \<le> of_nat (length (fq_buffer q)) \<and> r \<le> 2 ^ 30)"
proof (cases "normalize_capacity (Num r)")
  case None
  with normalize_capacity_cases [of r] show ?thesis
    by (simp add: fifo_new_def del: normalize_capacity.simps)
next
  case (Some n)
  with normalize_capacity_cases [of r] obtain m where
    m: "n = 2 ^ m" "8 \<le> n" "r \<le> of_int n" "r \<le> 2 ^ 30" by auto
  have "nat n = 2 ^ m" using m(1) by (simp add: nat_power_eq)
  moreover have "8 \<le> nat n" using m(2) by linarith
  moreover have "r \<le> of_nat (nat n)" using m(2,3) by simp
  ultimately show ?thesis using m(4) Some by (auto simp: fifo_new_def simp del: normalize_capacity.simps)
qed

end
