(* ===== verification/Text_Encoding.thy ===== *)
theory Text_Encoding
  imports Prelude
begin

text \<open>
  The part of Node's \<open>Buffer\<close> the code uses: UTF-8 encoding of JavaScript strings, its decoding
  with replacement characters, and base64 both ways. Bytes are naturals below 256. These model the
  platform, not a file under src/; what the components use of them is the round-trip contract
  \<open>byte_codec\<close>.
\<close>

type_synonym bytes = "nat list"

definition is_byte_list :: "bytes \<Rightarrow> bool" where
  "is_byte_list bs \<longleftrightarrow> (\<forall>b \<in> set bs. b < 256)"

section \<open>UTF-8\<close>

definition is_high :: "nat \<Rightarrow> bool" where
  "is_high u \<longleftrightarrow> 55296 \<le> u \<and> u < 56320"

definition is_low :: "nat \<Rightarrow> bool" where
  "is_low u \<longleftrightarrow> 56320 \<le> u \<and> u < 57344"

definition utf8_point :: "nat \<Rightarrow> bytes" where
  "utf8_point p =
     (if p < 128 then [p]
      else if p < 2048 then [192 + p div 64, 128 + p mod 64]
      else if p < 65536 then [224 + p div 4096, 128 + p div 64 mod 64, 128 + p mod 64]
      else [240 + p div 262144, 128 + p div 4096 mod 64, 128 + p div 64 mod 64, 128 + p mod 64])"

definition pair_point :: "nat \<Rightarrow> nat \<Rightarrow> nat" where
  "pair_point u v = 65536 + (u - 55296) * 1024 + (v - 56320)"

text \<open>\<open>Buffer.from(s, 'utf8')\<close>: an unpaired surrogate becomes U+FFFD.\<close>

fun utf8_encode :: "ustring \<Rightarrow> bytes" where
  "utf8_encode [] = []"
| "utf8_encode [u] = utf8_point (if is_high u \<or> is_low u then 65533 else u)"
| "utf8_encode (u # v # us) =
     (if is_high u \<and> is_low v then utf8_point (pair_point u v) @ utf8_encode us
      else utf8_point (if is_high u \<or> is_low u then 65533 else u) @ utf8_encode (v # us))"

text \<open>Strings without unpaired surrogates, the ones UTF-8 can carry.\<close>

fun well_formed :: "ustring \<Rightarrow> bool" where
  "well_formed [] = True"
| "well_formed [u] = (u < 65536 \<and> \<not> is_high u \<and> \<not> is_low u)"
| "well_formed (u # v # us) =
     (u < 65536 \<and>
      (if is_high u then is_low v \<and> well_formed us else \<not> is_low u \<and> well_formed (v # us)))"

text \<open>
  The decoder: \<open>need\<close> continuation bytes are missing, the next one must lie in \<open>lo..hi\<close>, \<open>acc\<close> is
  the code point so far. A byte that does not fit ends the sequence with U+FFFD and is read again
  as a first byte.
\<close>

definition point_units :: "nat \<Rightarrow> ustring" where
  "point_units p =
     (if p < 65536 then [p]
      else [55296 + (p - 65536) div 1024, 56320 + (p - 65536) mod 1024])"

text \<open>What a first byte starts: the units it yields at once and the state it leaves.\<close>

definition utf8_start :: "nat \<Rightarrow> ustring \<times> nat \<times> nat \<times> nat \<times> nat" where
  "utf8_start b =
     (if b < 128 then ([b], 0, 128, 191, 0)
      else if 194 \<le> b \<and> b \<le> 223 then ([], 1, 128, 191, b - 192)
      else if b = 224 then ([], 2, 160, 191, 0)
      else if b = 237 then ([], 2, 128, 159, 13)
      else if 225 \<le> b \<and> b \<le> 239 then ([], 2, 128, 191, b - 224)
      else if b = 240 then ([], 3, 144, 191, 0)
      else if b = 244 then ([], 3, 128, 143, 4)
      else if 241 \<le> b \<and> b \<le> 243 then ([], 3, 128, 191, b - 240)
      else ([65533], 0, 128, 191, 0))"

fun utf8_run :: "nat \<Rightarrow> nat \<Rightarrow> nat \<Rightarrow> nat \<Rightarrow> bytes \<Rightarrow> ustring" where
  "utf8_run need lo hi acc [] = (if need = 0 then [] else [65533])"
| "utf8_run need lo hi acc (b # bs) =
     (if need = 0 then
        (case utf8_start b of (us, n, l, h, a) \<Rightarrow> us @ utf8_run n l h a bs)
      else if lo \<le> b \<and> b \<le> hi then
        (let p = acc * 64 + (b - 128)
         in if need = 1 then point_units p @ utf8_run 0 128 191 0 bs
            else utf8_run (need - 1) 128 191 p bs)
      else
        65533 # (case utf8_start b of (us, n, l, h, a) \<Rightarrow> us @ utf8_run n l h a bs))"

definition utf8_decode :: "bytes \<Rightarrow> ustring" where
  "utf8_decode bs = utf8_run 0 128 191 0 bs"

lemma utf8_point_bytes: "p < 1114112 \<Longrightarrow> is_byte_list (utf8_point p)"
  by (auto simp: utf8_point_def is_byte_list_def)

lemma pair_point_bound: "is_high u \<Longrightarrow> is_low v \<Longrightarrow> 65536 \<le> pair_point u v \<and> pair_point u v < 1114112"
  unfolding pair_point_def is_high_def is_low_def by linarith

lemma is_byte_list_append [simp]:
  "is_byte_list (xs @ ys) \<longleftrightarrow> is_byte_list xs \<and> is_byte_list ys"
  by (auto simp: is_byte_list_def)

lemma utf8_encode_bytes: "\<forall>u \<in> set s. u < 65536 \<Longrightarrow> is_byte_list (utf8_encode s)"
proof (induction s rule: utf8_encode.induct)
  case 1
  show ?case by (simp add: is_byte_list_def)
next
  case (2 u)
  then show ?case by (auto intro!: utf8_point_bytes)
next
  case (3 u v us)
  then show ?case
    using pair_point_bound [of u v] by (auto intro!: utf8_point_bytes)
qed

lemma well_formed_units: "well_formed s \<Longrightarrow> \<forall>u \<in> set s. u < 65536"
  by (induction s rule: well_formed.induct) (auto simp: is_low_def split: if_splits)

lemma utf8_run_point1: "p < 128 \<Longrightarrow> utf8_run 0 lo hi acc (p # bs) = p # utf8_decode bs"
  by (simp add: utf8_start_def utf8_decode_def)

lemma utf8_run_point2:
  assumes "128 \<le> p" "p < 2048"
  shows "utf8_run 0 lo hi acc ([192 + p div 64, 128 + p mod 64] @ bs) = p # utf8_decode bs"
proof -
  have "2 \<le> p div 64" "p div 64 < 32" "p mod 64 < 64" using assms by auto
  then show ?thesis using assms
    by (simp add: utf8_start_def utf8_decode_def point_units_def)
qed

lemma utf8_run_point3:
  assumes "2048 \<le> p" "p < 65536" "\<not> is_high p" "\<not> is_low p"
  shows "utf8_run 0 lo hi acc ([224 + p div 4096, 128 + p div 64 mod 64, 128 + p mod 64] @ bs)
         = p # utf8_decode bs"
proof -
  define a b c where "a = p div 4096" "b = p div 64 mod 64" "c = p mod 64"
  have p: "p = a * 4096 + b * 64 + c"
    using div_mult_mod_eq [of p 64] div_mult_mod_eq [of "p div 64" 64] div_mult2_eq [of p 64 64, simplified]
    unfolding a_b_c_def by linarith
  have bnd: "a < 16" "b < 64" "c < 64" using assms(2) by (auto simp: a_b_c_def)
  have e0: "32 \<le> b" if "a = 0" using p that assms(1) bnd by linarith
  have ed: "b < 32" if "a = 13"
    using p that assms(3,4) bnd unfolding is_high_def is_low_def by linarith
  have run: "utf8_run 0 lo hi acc ([224 + a, 128 + b, 128 + c] @ bs) = point_units ((a * 64 + b) * 64 + c) @ utf8_decode bs"
    using bnd e0 ed by (auto simp: utf8_start_def utf8_decode_def)
  have "(a * 64 + b) * 64 + c = p" using p by simp
  with run assms(2) show ?thesis unfolding a_b_c_def by (simp add: point_units_def)
qed

lemma utf8_run_point4:
  assumes "65536 \<le> p" "p < 1114112"
  shows "utf8_run 0 lo hi acc ([240 + p div 262144, 128 + p div 4096 mod 64, 128 + p div 64 mod 64, 128 + p mod 64] @ bs)
         = point_units p @ utf8_decode bs"
proof -
  define a b c d where "a = p div 262144" "b = p div 4096 mod 64" "c = p div 64 mod 64" "d = p mod 64"
  have p: "p = a * 262144 + b * 4096 + c * 64 + d"
    using div_mult_mod_eq [of p 64] div_mult_mod_eq [of "p div 64" 64]
      div_mult_mod_eq [of "p div 4096" 64] div_mult2_eq [of p 64 64, simplified] div_mult2_eq [of p 4096 64, simplified]
    unfolding a_b_c_d_def by linarith
  have bnd: "a < 5" "b < 64" "c < 64" "d < 64" using assms(2) by (auto simp: a_b_c_d_def)
  have f0: "16 \<le> b" if "a = 0" using p that assms(1) bnd by linarith
  have f4: "b < 16" if "a = 4" using p that assms(2) bnd by linarith
  have run: "utf8_run 0 lo hi acc ([240 + a, 128 + b, 128 + c, 128 + d] @ bs)
      = point_units (((a * 64 + b) * 64 + c) * 64 + d) @ utf8_decode bs"
  proof -
    consider "a = 0" | "a = 4" | "1 \<le> a" "a \<le> 3" using bnd by linarith
    then show ?thesis
      by cases (use bnd f0 f4 in \<open>simp_all add: utf8_start_def utf8_decode_def\<close>)
  qed
  have "((a * 64 + b) * 64 + c) * 64 + d = p" using p by simp
  with run show ?thesis unfolding a_b_c_d_def by simp
qed

lemma utf8_decode_point:
  assumes "p < 65536" "\<not> is_high p" "\<not> is_low p"
  shows "utf8_decode (utf8_point p @ bs) = p # utf8_decode bs"
proof -
  consider "p < 128" | "128 \<le> p" "p < 2048" | "2048 \<le> p" by linarith
  then show ?thesis
  proof cases
    case 1
    then show ?thesis unfolding utf8_decode_def [of "utf8_point p @ bs"]
      using utf8_run_point1 [of p 128 191 0 bs] by (simp add: utf8_point_def)
  next
    case 2
    then show ?thesis unfolding utf8_decode_def [of "utf8_point p @ bs"]
      using utf8_run_point2 [of p 128 191 0 bs] by (simp add: utf8_point_def)
  next
    case 3
    with assms show ?thesis unfolding utf8_decode_def [of "utf8_point p @ bs"]
      using utf8_run_point3 [of p 128 191 0 bs] by (simp add: utf8_point_def)
  qed
qed

lemma utf8_decode_pair:
  assumes "is_high u" "is_low v"
  shows "utf8_decode (utf8_point (pair_point u v) @ bs) = u # v # utf8_decode bs"
proof -
  have b: "65536 \<le> pair_point u v" "pair_point u v < 1114112"
    using pair_point_bound [OF assms] by simp_all
  obtain x where x: "u = 55296 + x" using assms(1) unfolding is_high_def using le_Suc_ex by blast
  obtain y where y: "v = 56320 + y" using assms(2) unfolding is_low_def using le_Suc_ex by blast
  have y': "y < 1024" using assms(2) y unfolding is_low_def by linarith
  have "point_units (pair_point u v) = [u, v]"
    using y' by (simp add: point_units_def pair_point_def x y)
  with utf8_run_point4 [OF b, of 128 191 0 bs] b show ?thesis
    unfolding utf8_decode_def [of "utf8_point (pair_point u v) @ bs"] by (simp add: utf8_point_def)
qed

lemma utf8_roundtrip: "well_formed s \<Longrightarrow> utf8_decode (utf8_encode s) = s"
proof (induction s rule: utf8_encode.induct)
  case 1
  show ?case by (simp add: utf8_decode_def)
next
  case (2 u)
  then show ?case using utf8_decode_point [of u "[]"] by (auto simp: utf8_decode_def [of "[]"])
next
  case (3 u v us)
  show ?case
  proof (cases "is_high u")
    case True
    with 3 show ?thesis by (simp add: utf8_decode_pair)
  next
    case False
    with 3 show ?thesis by (simp add: utf8_decode_point)
  qed
qed

lemma utf8_encode_Nil_iff [simp]: "utf8_encode s = [] \<longleftrightarrow> s = []"
  by (cases s rule: utf8_encode.cases) (auto simp: utf8_point_def)

lemma utf8_encode_ascii: "\<forall>u \<in> set s. u < 128 \<Longrightarrow> utf8_encode s = s"
  by (induction s rule: utf8_encode.induct) (auto simp: utf8_point_def is_high_def is_low_def)

lemma well_formed_ascii: "\<forall>u \<in> set s. u < 128 \<Longrightarrow> well_formed s"
  by (induction s rule: well_formed.induct) (auto simp: is_high_def is_low_def)

section \<open>Base64\<close>

definition b64_char :: "nat \<Rightarrow> nat" where
  "b64_char v =
     (if v < 26 then 65 + v else if v < 52 then 71 + v else if v < 62 then v - 4
      else if v = 62 then 43 else 47)"

text \<open>The decoder also takes the URL-safe alphabet.\<close>

definition b64_value :: "nat \<Rightarrow> nat option" where
  "b64_value u =
     (if 65 \<le> u \<and> u \<le> 90 then Some (u - 65)
      else if 97 \<le> u \<and> u \<le> 122 then Some (u - 71)
      else if 48 \<le> u \<and> u \<le> 57 then Some (u + 4)
      else if u = 43 \<or> u = 45 then Some 62
      else if u = 47 \<or> u = 95 then Some 63
      else None)"

fun b64_encode :: "bytes \<Rightarrow> ustring" where
  "b64_encode [] = []"
| "b64_encode [a] = [b64_char (a div 4), b64_char (a mod 4 * 16), 61, 61]"
| "b64_encode [a, b] =
     [b64_char (a div 4), b64_char (a mod 4 * 16 + b div 16), b64_char (b mod 16 * 4), 61]"
| "b64_encode (a # b # c # bs) =
     b64_char (a div 4) # b64_char (a mod 4 * 16 + b div 16)
     # b64_char (b mod 16 * 4 + c div 64) # b64_char (c mod 64) # b64_encode bs"

fun b64_groups :: "nat list \<Rightarrow> bytes" where
  "b64_groups (w # x # y # z # vs) =
     (w * 4 + x div 16) # (x mod 16 * 16 + y div 4) # (y mod 4 * 64 + z) # b64_groups vs"
| "b64_groups [w, x, y] = [w * 4 + x div 16, x mod 16 * 16 + y div 4]"
| "b64_groups [w, x] = [w * 4 + x div 16]"
| "b64_groups _ = []"

text \<open>\<open>Buffer.from(s, 'base64')\<close>: characters outside the alphabet, padding included, are skipped.\<close>

definition b64_decode :: "ustring \<Rightarrow> bytes" where
  "b64_decode s = b64_groups (List.map_filter b64_value s)"

lemma b64_value_char: "v < 64 \<Longrightarrow> b64_value (b64_char v) = Some v"
  unfolding b64_value_def b64_char_def by auto

lemma map_filter_simps' [simp]:
  "List.map_filter f [] = []"
  "List.map_filter f (x # xs) = (case f x of None \<Rightarrow> List.map_filter f xs | Some y \<Rightarrow> y # List.map_filter f xs)"
  by (auto simp: List.map_filter_def split: option.splits)

lemma b64_pad [simp]: "b64_value 61 = None"
  by (simp add: b64_value_def)

lemma b64_split: "a < 256 \<Longrightarrow> a div 4 < 64" "a mod 4 * 16 < (64::nat)"
  "b < 256 \<Longrightarrow> a mod 4 * 16 + b div 16 < (64::nat)" "b mod 16 * 4 < (64::nat)"
  "c < 256 \<Longrightarrow> b mod 16 * 4 + c div 64 < (64::nat)" for a b c :: nat
  by linarith+

lemma b64_roundtrip: "is_byte_list bs \<Longrightarrow> b64_decode (b64_encode bs) = bs"
proof (induction bs rule: b64_encode.induct)
  case (2 a)
  then have a: "a < 256" by (simp add: is_byte_list_def)
  then show ?case
    by (simp add: b64_decode_def b64_value_char b64_split)
next
  case (3 a b)
  then have "a < 256" "b < 256" by (simp_all add: is_byte_list_def)
  moreover then have "(a mod 4 * 16 + b div 16) div 16 = a mod 4"
    "(a mod 4 * 16 + b div 16) mod 16 = b div 16" by auto
  ultimately show ?case
    by (simp add: b64_decode_def b64_value_char b64_split)
next
  case (4 a b c bs)
  then have "a < 256" "b < 256" "c < 256" and bs: "b64_decode (b64_encode bs) = bs"
    by (simp_all add: is_byte_list_def)
  moreover then have "(a mod 4 * 16 + b div 16) div 16 = a mod 4"
    "(a mod 4 * 16 + b div 16) mod 16 = b div 16"
    "(b mod 16 * 4 + c div 64) div 4 = b mod 16" "(b mod 16 * 4 + c div 64) mod 4 = c div 64"
    by auto
  ultimately show ?case
    by (simp add: b64_decode_def b64_value_char b64_split)
qed (simp add: b64_decode_def)

lemma length_b64_encode: "length (b64_encode bs) = 4 * ((length bs + 2) div 3)"
proof (induction bs rule: b64_encode.induct)
  case (4 a b c bs)
  have "(length bs + 2 + 3) div 3 = Suc ((length bs + 2) div 3)" by simp
  with 4 show ?case by (simp add: algebra_simps)
qed simp_all

lemma b64_encode_Nil_iff [simp]: "b64_encode bs = [] \<longleftrightarrow> bs = []"
  by (cases bs rule: b64_encode.cases) auto

lemma b64_encode_no_space: "u \<in> set (b64_encode bs) \<Longrightarrow> \<not> is_space u"
proof -
  have c: "\<not> is_space (b64_char v)" for v
    unfolding is_space_def b64_char_def by auto
  have p: "\<not> is_space 61" by (simp add: is_space_def)
  assume "u \<in> set (b64_encode bs)"
  then show ?thesis by (induction bs rule: b64_encode.induct) (auto simp: c p)
qed

lemma trim_no_space: "(\<And>u. u \<in> set s \<Longrightarrow> \<not> is_space u) \<Longrightarrow> trim s = s"
  by (simp add: trim_def dropWhile_eq_self_iff hd_rev)
    (metis dropWhile_eq_self_iff hd_in_set rev_rev_ident set_rev)

section \<open>The codec contract\<close>

locale byte_codec =
  fixes enc :: "'a \<Rightarrow> 'b" and dec :: "'b \<Rightarrow> 'a" and valid :: "'a \<Rightarrow> bool"
  assumes dec_enc: "valid x \<Longrightarrow> dec (enc x) = x"
begin

lemma enc_inj: "valid x \<Longrightarrow> valid y \<Longrightarrow> enc x = enc y \<longleftrightarrow> x = y"
  by (metis dec_enc)

lemma dec_enc_map: "\<forall>x \<in> set xs. valid x \<Longrightarrow> map dec (map enc xs) = xs"
  by (induction xs) (auto simp: dec_enc)

end

interpretation utf8: byte_codec utf8_encode utf8_decode well_formed
  by unfold_locales (rule utf8_roundtrip)

interpretation b64: byte_codec b64_encode b64_decode is_byte_list
  by unfold_locales (rule b64_roundtrip)

text \<open>\<open>Buffer.from(s, 'utf8').toString('base64')\<close> and its inverse.\<close>

definition text_to_b64 :: "ustring \<Rightarrow> ustring" where
  "text_to_b64 s = b64_encode (utf8_encode s)"

definition b64_to_text :: "ustring \<Rightarrow> ustring" where
  "b64_to_text s = utf8_decode (b64_decode s)"

interpretation b64_text: byte_codec text_to_b64 b64_to_text well_formed
  by unfold_locales
    (simp add: text_to_b64_def b64_to_text_def b64_roundtrip utf8_roundtrip utf8_encode_bytes
      well_formed_units)

end
