(* ===== verification/Memory_Storage.thy ===== *)
theory Memory_Storage
  imports Text_Encoding
begin

text \<open>
  \<open>adapters/memory/src/memory-storage.class.ts\<close>: the in-memory object store with ETags,
  conditional writes, size limits, least-recently-used eviction, paged listing and snapshots.

  The objects are an insertion-ordered \<open>Map\<close>. What comes from the platform is a parameter: \<open>md5\<close>
  (Node's hash, hex), \<open>now\<close> (the ISO time of the call) and \<open>write_file\<close> (whether the file write_file of a
  snapshot to a path succeeds). Logging is not modelled, and \<open>getStats\<close> only as far as its fields
  are fields of the state. Sizes and limits are integers.
\<close>

section \<open>State\<close>

type_synonym metadata = "(ustring \<times> ustring) list"

record storage_object =
  so_body :: bytes
  so_metadata :: metadata
  so_content_type :: ustring
  so_etag :: ustring
  so_last_modified :: ustring
  so_size :: int
  so_content_encoding :: "ustring option"
  so_content_length :: int

record memory_storage =
  ms_objects :: "(ustring \<times> storage_object) list"
  ms_bucket :: ustring
  ms_enforce_limits :: bool
  ms_metadata_limit :: int
  ms_max_object_size :: int
  ms_persist_path :: "ustring option"
  ms_auto_persist :: bool
  ms_max_memory_mb :: int
  ms_max_memory_bytes :: int
  ms_current_memory_bytes :: int
  ms_eviction_enabled :: bool
  ms_evictions :: int
  ms_evicted_bytes :: int
  ms_peak_memory_bytes :: int

record storage_config =
  sc_bucket :: "ustring option"
  sc_enforce_limits :: bool
  sc_metadata_limit :: "int option"
  sc_max_object_size :: "int option"
  sc_persist_path :: "ustring option"
  sc_auto_persist :: bool
  sc_max_memory_mb :: "int option"
  sc_eviction_enabled :: "bool option"

datatype storage_error =
    MetadataLimitError int int
  | ObjectTooLarge int int
  | PreconditionFailed ustring
  | NoSuchKey ustring
  | InvalidContinuationToken
  | InvalidSnapshot
  | NoPersistPath
  | SaveFailed ustring
  | LoadFailed ustring

text \<open>A string option is truthy when it is present and not empty.\<close>

definition truthy :: "ustring option \<Rightarrow> ustring option" where
  "truthy s = (case s of None \<Rightarrow> None | Some t \<Rightarrow> if t = [] then None else Some t)"

definition nullish :: "'a option \<Rightarrow> 'a \<Rightarrow> 'a" where
  "nullish a d = (case a of None \<Rightarrow> d | Some x \<Rightarrow> x)"

definition new_storage :: "storage_config \<Rightarrow> memory_storage" where
  "new_storage c =
     (let mb = nullish (sc_max_memory_mb c) 512
      in \<lparr>ms_objects = [],
          ms_bucket = nullish (truthy (sc_bucket c)) (lit ''s3db''),
          ms_enforce_limits = sc_enforce_limits c,
          ms_metadata_limit = nullish (sc_metadata_limit c) 2048,
          ms_max_object_size = nullish (sc_max_object_size c) (5 * 1024 * 1024 * 1024),
          ms_persist_path = sc_persist_path c,
          ms_auto_persist = sc_auto_persist c,
          ms_max_memory_mb = mb,
          ms_max_memory_bytes = mb * 1024 * 1024,
          ms_current_memory_bytes = 0,
          ms_eviction_enabled = (sc_eviction_enabled c \<noteq> Some False),
          ms_evictions = 0, ms_evicted_bytes = 0, ms_peak_memory_bytes = 0\<rparr>)"

section \<open>Bodies, ETags, tokens and limits\<close>

text \<open>A body is absent (undefined or null), a \<open>Buffer\<close>, or a string.\<close>

datatype body_arg = NoBody | Buffer bytes | Text ustring

fun to_buffer :: "body_arg \<Rightarrow> bytes" where
  "to_buffer (Buffer b) = b"
| "to_buffer NoBody = []"
| "to_buffer (Text s) = utf8_encode s"

definition format_etag :: "ustring \<Rightarrow> ustring" where
  "format_etag e = 34 # e @ [34]"

definition is_quote :: "nat \<Rightarrow> bool" where
  "is_quote u \<longleftrightarrow> u = 34 \<or> u = 39"

definition strip_weak :: "ustring \<Rightarrow> ustring" where
  "strip_weak v = (if take 2 v \<in> {[87, 47], [119, 47]} then drop 2 v else v)"

definition strip_quotes :: "ustring \<Rightarrow> ustring" where
  "strip_quotes v =
     (let v = (if v \<noteq> [] \<and> is_quote (hd v) then tl v else v)
      in if v \<noteq> [] \<and> is_quote (last v) then butlast v else v)"

definition normalize_etag_header :: "ustring option \<Rightarrow> ustring list" where
  "normalize_etag_header h =
     (case h of
        None \<Rightarrow> []
      | Some s \<Rightarrow> map (\<lambda>v. strip_quotes (strip_weak v))
                   (filter (\<lambda>v. v \<noteq> []) (map trim (split_on 44 s))))"

definition encode_token :: "ustring \<Rightarrow> ustring" where
  "encode_token key = text_to_b64 key"

definition strip_padding :: "ustring \<Rightarrow> ustring" where
  "strip_padding s = rev (dropWhile (\<lambda>u. u = 61) (rev s))"

definition decode_token :: "ustring \<Rightarrow> storage_error + ustring" where
  "decode_token token =
     (let normalized = trim token;
          decoded = b64_to_text normalized;
          reencoded = strip_padding (text_to_b64 decoded);
          normalizedNoPad = strip_padding normalized
      in if decoded = [] \<or> reencoded \<noteq> normalizedNoPad then Inl InvalidContinuationToken
         else Inr decoded)"

definition extract_common_prefix :: "ustring \<Rightarrow> ustring \<Rightarrow> ustring \<Rightarrow> ustring option" where
  "extract_common_prefix prefix delimiter key =
     (if delimiter = [] then None
      else if prefix \<noteq> [] \<and> \<not> starts_with key prefix then None
      else
        let remainder = (if prefix \<noteq> [] then drop (length prefix) key else key)
        in case index_of remainder delimiter of
             None \<Rightarrow> None
           | Some index \<Rightarrow> Some (take (length prefix + index + length delimiter) key))"

definition byte_length :: "ustring \<Rightarrow> int" where
  "byte_length s = int (length (utf8_encode s))"

definition calculate_metadata_size :: "metadata option \<Rightarrow> int" where
  "calculate_metadata_size m =
     (case m of
        None \<Rightarrow> 0
      | Some es \<Rightarrow> foldl (\<lambda>size (k, v). size + byte_length k + byte_length v) 0 es)"

definition body_size :: "body_arg \<Rightarrow> int" where
  "body_size b = (case b of Buffer bs \<Rightarrow> int (length bs) | Text s \<Rightarrow> byte_length s | NoBody \<Rightarrow> 0)"

definition validate_limits ::
    "memory_storage \<Rightarrow> body_arg \<Rightarrow> metadata option \<Rightarrow> storage_error option" where
  "validate_limits s body metadata =
     (if \<not> ms_enforce_limits s then None
      else if calculate_metadata_size metadata > ms_metadata_limit s then
        Some (MetadataLimitError (calculate_metadata_size metadata) (ms_metadata_limit s))
      else if body_size body > ms_max_object_size s then
        Some (ObjectTooLarge (body_size body) (ms_max_object_size s))
      else None)"

section \<open>Memory accounting and eviction\<close>

definition track_memory :: "memory_storage \<Rightarrow> int \<Rightarrow> memory_storage" where
  "track_memory s delta =
     (let current = ms_current_memory_bytes s + delta
      in s\<lparr>ms_current_memory_bytes := current,
           ms_peak_memory_bytes := max current (ms_peak_memory_bytes s)\<rparr>)"

definition touch_key :: "memory_storage \<Rightarrow> ustring \<Rightarrow> memory_storage" where
  "touch_key s key =
     (case map_of (ms_objects s) key of
        None \<Rightarrow> s
      | Some ob \<Rightarrow> s\<lparr>ms_objects := AList.update key ob (AList.delete key (ms_objects s))\<rparr>)"

text \<open>The scan of \<open>_evictIfNeeded\<close>: walk the map from the oldest entry until the rest fits.\<close>

fun evict_scan ::
    "int \<Rightarrow> int \<Rightarrow> int \<Rightarrow> (ustring \<times> storage_object) list \<Rightarrow> int \<Rightarrow> ustring list \<times> int" where
  "evict_scan current required target [] evicted = ([], evicted)"
| "evict_scan current required target ((key, ob) # rest) evicted =
     (if current - evicted + required \<le> target then ([], evicted)
      else case evict_scan current required target rest (evicted + so_size ob) of
             (keys, freed) \<Rightarrow> (key # keys, freed))"

definition evict_key :: "memory_storage \<Rightarrow> ustring \<Rightarrow> memory_storage" where
  "evict_key s key =
     (case map_of (ms_objects s) key of
        None \<Rightarrow> s
      | Some ob \<Rightarrow> s\<lparr>ms_objects := AList.delete key (ms_objects s),
                     ms_evictions := ms_evictions s + 1,
                     ms_evicted_bytes := ms_evicted_bytes s + so_size ob\<rparr>)"

definition evict_if_needed :: "memory_storage \<Rightarrow> int \<Rightarrow> int \<times> memory_storage" where
  "evict_if_needed s required =
     (if \<not> ms_eviction_enabled s then (0, s)
      else
        let target = ms_max_memory_bytes s;
            neededSpace = ms_current_memory_bytes s + required
        in if neededSpace \<le> target then (0, s)
           else case evict_scan (ms_current_memory_bytes s) required target (ms_objects s) 0 of
                  (keys, evicted) \<Rightarrow>
                    let s' = foldl evict_key s keys
                    in (evicted,
                        s'\<lparr>ms_current_memory_bytes := ms_current_memory_bytes s' - evicted\<rparr>))"

section \<open>Snapshots\<close>

record snapshot_object =
  sn_body :: ustring
  sn_metadata :: metadata
  sn_content_type :: ustring
  sn_etag :: ustring
  sn_last_modified :: ustring
  sn_size :: int
  sn_content_encoding :: "ustring option"
  sn_content_length :: int

record snapshot =
  sn_timestamp :: ustring
  sn_bucket :: ustring
  sn_object_count :: nat
  sn_objects :: "(ustring \<times> snapshot_object) list"

definition snapshot_object_of :: "storage_object \<Rightarrow> snapshot_object" where
  "snapshot_object_of ob =
     \<lparr>sn_body = b64_encode (so_body ob), sn_metadata = so_metadata ob,
      sn_content_type = so_content_type ob, sn_etag = so_etag ob,
      sn_last_modified = so_last_modified ob, sn_size = so_size ob,
      sn_content_encoding = so_content_encoding ob,
      sn_content_length = so_content_length ob\<rparr>"

definition storage_object_of :: "snapshot_object \<Rightarrow> storage_object" where
  "storage_object_of sn =
     \<lparr>so_body = b64_decode (sn_body sn), so_metadata = sn_metadata sn,
      so_content_type = sn_content_type sn, so_etag = sn_etag sn,
      so_last_modified = sn_last_modified sn, so_size = sn_size sn,
      so_content_encoding = sn_content_encoding sn,
      so_content_length = sn_content_length sn\<rparr>"

text \<open>\<open>snapshot.objects\<close> is a plain object, so its entries come out in plain-object order.\<close>

definition snapshot_of :: "ustring \<Rightarrow> memory_storage \<Rightarrow> snapshot" where
  "snapshot_of now s =
     \<lparr>sn_timestamp = now, sn_bucket = ms_bucket s,
      sn_object_count = length (ms_objects s),
      sn_objects = obj_of (map (\<lambda>(k, ob). (k, snapshot_object_of ob)) (ms_objects s))\<rparr>"

text \<open>\<open>restore\<close>: \<open>None\<close> is a snapshot that is missing or has no \<open>objects\<close>.\<close>

definition restore :: "memory_storage \<Rightarrow> snapshot option \<Rightarrow> (storage_error + unit) \<times> memory_storage" where
  "restore s snap =
     (case snap of
        None \<Rightarrow> (Inl InvalidSnapshot, s)
      | Some sn \<Rightarrow>
          let s0 = s\<lparr>ms_objects := [], ms_current_memory_bytes := 0\<rparr>;
              (obs, totalBytes) =
                foldl (\<lambda>(m, n) (k, sob).
                         let ob = storage_object_of sob
                         in (AList.update k ob m, n + int (length (so_body ob))))
                  ([], 0) (sn_objects sn);
              s1 = track_memory (s0\<lparr>ms_objects := obs\<rparr>) totalBytes;
              s2 = (if ms_current_memory_bytes s1 > ms_max_memory_bytes s1
                    then snd (evict_if_needed s1 0) else s1)
          in (Inr (), s2\<lparr>ms_peak_memory_bytes := ms_current_memory_bytes s2\<rparr>))"

definition save_to_disk ::
    "(ustring \<Rightarrow> snapshot \<Rightarrow> bool) \<Rightarrow> ustring \<Rightarrow> memory_storage \<Rightarrow> ustring option
       \<Rightarrow> storage_error + ustring" where
  "save_to_disk write_file now s customPath =
     (case (case truthy customPath of None \<Rightarrow> truthy (ms_persist_path s) | p \<Rightarrow> p) of
        None \<Rightarrow> Inl NoPersistPath
      | Some path \<Rightarrow> if write_file path (snapshot_of now s) then Inr path else Inl (SaveFailed path))"

text \<open>\<open>loadFromDisk\<close>: \<open>read\<close> gives the parsed snapshot of a readable file, \<open>None\<close> if the read fails.\<close>

definition load_from_disk ::
    "(ustring \<Rightarrow> snapshot option) \<Rightarrow> memory_storage \<Rightarrow> ustring option
       \<Rightarrow> (storage_error + snapshot) \<times> memory_storage" where
  "load_from_disk read s customPath =
     (case (case truthy customPath of None \<Rightarrow> truthy (ms_persist_path s) | p \<Rightarrow> p) of
        None \<Rightarrow> (Inl NoPersistPath, s)
      | Some path \<Rightarrow>
          (case read path of
             None \<Rightarrow> (Inl (LoadFailed path), s)
           | Some sn \<Rightarrow> (Inr sn, snd (restore s (Some sn)))))"

text \<open>The tail of \<open>put\<close> and \<open>delete\<close>: save when auto-persistence is configured.\<close>

definition persisted ::
    "(ustring \<Rightarrow> snapshot \<Rightarrow> bool) \<Rightarrow> ustring \<Rightarrow> memory_storage \<Rightarrow> 'a \<Rightarrow> storage_error + 'a" where
  "persisted write_file now s r =
     (if ms_auto_persist s \<and> truthy (ms_persist_path s) \<noteq> None
      then (case save_to_disk write_file now s None of Inl e \<Rightarrow> Inl e | Inr _ \<Rightarrow> Inr r)
      else Inr r)"

section \<open>Object operations\<close>

record put_params =
  pp_body :: body_arg
  pp_metadata :: "metadata option"
  pp_content_type :: "ustring option"
  pp_content_encoding :: "ustring option"
  pp_content_length :: "int option"
  pp_if_match :: "ustring option"
  pp_if_none_match :: "ustring option"

record put_response =
  pr_etag :: ustring
  pr_location :: ustring

definition if_match_fails :: "storage_object option \<Rightarrow> ustring option \<Rightarrow> bool" where
  "if_match_fails existing ifMatch \<longleftrightarrow>
     ifMatch \<noteq> None \<and>
     (let expectedEtags = normalize_etag_header ifMatch;
          matches = (case existing of
                       None \<Rightarrow> False
                     | Some ob \<Rightarrow> expectedEtags \<noteq> [] \<and> so_etag ob \<noteq> [] \<and>
                                 so_etag ob \<in> set expectedEtags)
      in existing = None \<or> \<not> matches)"

definition if_none_match_fails :: "storage_object option \<Rightarrow> ustring option \<Rightarrow> bool" where
  "if_none_match_fails existing ifNoneMatch \<longleftrightarrow>
     ifNoneMatch \<noteq> None \<and>
     (let normalized = normalize_etag_header ifNoneMatch
      in (ifNoneMatch = Some (lit ''*'') \<and> existing \<noteq> None) \<or>
         (case existing of
            None \<Rightarrow> False
          | Some ob \<Rightarrow> normalized \<noteq> [] \<and> so_etag ob \<noteq> [] \<and> so_etag ob \<in> set normalized))"

definition new_object ::
    "(bytes \<Rightarrow> ustring) \<Rightarrow> ustring \<Rightarrow> put_params \<Rightarrow> storage_object" where
  "new_object md5 now p =
     (let buffer = to_buffer (pp_body p); size = int (length buffer)
      in \<lparr>so_body = buffer,
          so_metadata = nullish (pp_metadata p) [],
          so_content_type = nullish (truthy (pp_content_type p)) (lit ''application/octet-stream''),
          so_etag = md5 buffer,
          so_last_modified = now,
          so_size = size,
          so_content_encoding = pp_content_encoding p,
          so_content_length = nullish (pp_content_length p) size\<rparr>)"

definition storage_put ::
    "(bytes \<Rightarrow> ustring) \<Rightarrow> (ustring \<Rightarrow> snapshot \<Rightarrow> bool) \<Rightarrow> ustring \<Rightarrow> memory_storage
       \<Rightarrow> ustring \<Rightarrow> put_params \<Rightarrow> (storage_error + put_response) \<times> memory_storage" where
  "storage_put md5 write_file now s key p =
     (case validate_limits s (pp_body p) (pp_metadata p) of
        Some e \<Rightarrow> (Inl e, s)
      | None \<Rightarrow>
          let existing = map_of (ms_objects s) key
          in if if_match_fails existing (pp_if_match p) then (Inl (PreconditionFailed key), s)
             else if if_none_match_fails existing (pp_if_none_match p) then
               (Inl (PreconditionFailed key), s)
             else
               let ob = new_object md5 now p;
                   existingSize = (case existing of None \<Rightarrow> 0 | Some e \<Rightarrow> so_size e);
                   memoryDelta = so_size ob - existingSize;
                   s1 = snd (evict_if_needed s (if memoryDelta > 0 then memoryDelta else 0));
                   s2 = s1\<lparr>ms_objects := AList.update key ob (ms_objects s1)\<rparr>;
                   s3 = track_memory s2 memoryDelta
               in (persisted write_file now s3
                     \<lparr>pr_etag = format_etag (so_etag ob),
                      pr_location = lit ''/'' @ ms_bucket s3 @ lit ''/'' @ key\<rparr>, s3))"

record object_response =
  or_body :: "bytes option"
  or_metadata :: metadata
  or_content_type :: ustring
  or_content_length :: int
  or_etag :: ustring
  or_last_modified :: ustring
  or_content_encoding :: "ustring option"

definition object_response_of :: "bool \<Rightarrow> storage_object \<Rightarrow> object_response" where
  "object_response_of with_body ob =
     \<lparr>or_body = (if with_body then Some (so_body ob) else None),
      or_metadata = so_metadata ob, or_content_type = so_content_type ob,
      or_content_length = so_size ob, or_etag = format_etag (so_etag ob),
      or_last_modified = so_last_modified ob,
      or_content_encoding = so_content_encoding ob\<rparr>"

definition storage_get ::
    "memory_storage \<Rightarrow> ustring \<Rightarrow> (storage_error + object_response) \<times> memory_storage" where
  "storage_get s key =
     (case map_of (ms_objects s) key of
        None \<Rightarrow> (Inl (NoSuchKey key), s)
      | Some ob \<Rightarrow> (Inr (object_response_of True ob), touch_key s key))"

definition storage_head ::
    "memory_storage \<Rightarrow> ustring \<Rightarrow> (storage_error + object_response) \<times> memory_storage" where
  "storage_head s key =
     (case map_of (ms_objects s) key of
        None \<Rightarrow> (Inl (NoSuchKey key), s)
      | Some ob \<Rightarrow> (Inr (object_response_of False ob), touch_key s key))"

datatype directive = Copy | Replace

record copy_params =
  cp_metadata :: "metadata option"
  cp_directive :: "directive option"
  cp_content_type :: "ustring option"

definition merge_metadata :: "metadata \<Rightarrow> metadata \<Rightarrow> metadata" where
  "merge_metadata base extra = foldl (\<lambda>m (k, v). obj_set k v m) base extra"

definition copy_metadata :: "storage_object \<Rightarrow> copy_params \<Rightarrow> metadata" where
  "copy_metadata source p =
     (case cp_metadata p of
        None \<Rightarrow> so_metadata source
      | Some m \<Rightarrow> if cp_directive p = Some Replace then m
                  else merge_metadata (so_metadata source) m)"

text \<open>
  \<open>copy\<close> puts the source's body under the destination key. The response names the destination's
  ETag and time: the destination is read back after the put, which has just written it.
\<close>

definition storage_copy ::
    "(bytes \<Rightarrow> ustring) \<Rightarrow> (ustring \<Rightarrow> snapshot \<Rightarrow> bool) \<Rightarrow> ustring \<Rightarrow> memory_storage
       \<Rightarrow> ustring \<Rightarrow> ustring \<Rightarrow> copy_params
       \<Rightarrow> (storage_error + (ustring \<times> ustring) option) \<times> memory_storage" where
  "storage_copy md5 write_file now s src dst p =
     (case map_of (ms_objects s) src of
        None \<Rightarrow> (Inl (NoSuchKey src), s)
      | Some source \<Rightarrow>
          (case storage_put md5 write_file now s dst
                  \<lparr>pp_body = Buffer (so_body source),
                   pp_metadata = Some (copy_metadata source p),
                   pp_content_type = (case truthy (cp_content_type p) of
                                        None \<Rightarrow> Some (so_content_type source) | t \<Rightarrow> t),
                   pp_content_encoding = so_content_encoding source,
                   pp_content_length = None, pp_if_match = None, pp_if_none_match = None\<rparr> of
             (Inl e, s') \<Rightarrow> (Inl e, s')
           | (Inr _, s') \<Rightarrow>
               (Inr (map_option (\<lambda>d. (format_etag (so_etag d), so_last_modified d))
                       (map_of (ms_objects s') dst)), s')))"

definition storage_exists :: "memory_storage \<Rightarrow> ustring \<Rightarrow> bool" where
  "storage_exists s key \<longleftrightarrow> key \<in> fst ` set (ms_objects s)"

definition storage_delete ::
    "(ustring \<Rightarrow> snapshot \<Rightarrow> bool) \<Rightarrow> ustring \<Rightarrow> memory_storage \<Rightarrow> ustring
       \<Rightarrow> (storage_error + unit) \<times> memory_storage" where
  "storage_delete write_file now s key =
     (let s1 = (case map_of (ms_objects s) key of
                  None \<Rightarrow> s | Some ob \<Rightarrow> track_memory s (- so_size ob));
          s2 = s1\<lparr>ms_objects := AList.delete key (ms_objects s1)\<rparr>
      in (persisted write_file now s2 (), s2))"

text \<open>\<open>deleteMultiple\<close>: the keys that were deleted, the keys whose deletion threw, in order.\<close>

fun storage_delete_multiple ::
    "(ustring \<Rightarrow> snapshot \<Rightarrow> bool) \<Rightarrow> ustring \<Rightarrow> memory_storage \<Rightarrow> ustring list
       \<Rightarrow> (ustring list \<times> (ustring \<times> storage_error) list) \<times> memory_storage" where
  "storage_delete_multiple write_file now s [] = (([], []), s)"
| "storage_delete_multiple write_file now s (key # keys) =
     (case storage_delete write_file now s key of
        (r, s1) \<Rightarrow>
          (case storage_delete_multiple write_file now s1 keys of
             ((deleted, errors), s2) \<Rightarrow>
               (case r of
                  Inr _ \<Rightarrow> ((key # deleted, errors), s2)
                | Inl e \<Rightarrow> ((deleted, (key, e) # errors), s2))))"

section \<open>Listing\<close>

record list_params =
  lp_prefix :: ustring
  lp_delimiter :: "ustring option"
  lp_max_keys :: int
  lp_token :: "ustring option"
  lp_start_after :: "ustring option"

record object_info =
  oi_key :: ustring
  oi_size :: int
  oi_last_modified :: ustring
  oi_etag :: ustring

record list_response =
  lr_contents :: "object_info list"
  lr_common_prefixes :: "ustring list"
  lr_is_truncated :: bool
  lr_token :: "ustring option"
  lr_next_token :: "ustring option"
  lr_key_count :: int
  lr_max_keys :: int
  lr_prefix :: "ustring option"
  lr_delimiter :: "ustring option"
  lr_start_after :: "ustring option"

record list_page =
  pg_contents :: "object_info list"
  pg_prefixes :: "ustring list"
  pg_processed :: int
  pg_last :: "ustring option"
  pg_more :: bool

text \<open>The listed keys are keys of the map, so the last branch is never taken (the code would throw).\<close>

definition info_of :: "(ustring \<times> storage_object) list \<Rightarrow> ustring \<Rightarrow> object_info" where
  "info_of obs key =
     (case map_of obs key of
        Some ob \<Rightarrow> \<lparr>oi_key = key, oi_size = so_size ob, oi_last_modified = so_last_modified ob,
                    oi_etag = format_etag (so_etag ob)\<rparr>
      | None \<Rightarrow> \<lparr>oi_key = key, oi_size = 0, oi_last_modified = [], oi_etag = []\<rparr>)"

text \<open>The loop over the filtered keys; the page is its accumulator.\<close>

fun list_loop ::
    "(ustring \<times> storage_object) list \<Rightarrow> ustring \<Rightarrow> ustring option \<Rightarrow> int
       \<Rightarrow> ustring list \<Rightarrow> list_page \<Rightarrow> list_page" where
  "list_loop obs prefix delimiter maxKeys [] pg = pg"
| "list_loop obs prefix delimiter maxKeys (key # keys) pg =
     (if pg_processed pg \<ge> maxKeys then pg\<lparr>pg_more := True\<rparr>
      else case (case truthy delimiter of
                   None \<Rightarrow> None | Some d \<Rightarrow> truthy (extract_common_prefix prefix d key)) of
             Some entry \<Rightarrow>
               list_loop obs prefix delimiter maxKeys keys
                 (if entry \<in> set (pg_prefixes pg) then pg
                  else pg\<lparr>pg_prefixes := pg_prefixes pg @ [entry],
                          pg_processed := pg_processed pg + 1, pg_last := Some key\<rparr>)
           | None \<Rightarrow>
               list_loop obs prefix delimiter maxKeys keys
                 (pg\<lparr>pg_contents := pg_contents pg @ [info_of obs key],
                     pg_processed := pg_processed pg + 1, pg_last := Some key\<rparr>))"

definition list_start :: "list_params \<Rightarrow> storage_error + ustring option" where
  "list_start p =
     (case truthy (lp_token p) of
        Some t \<Rightarrow> (case decode_token t of Inl e \<Rightarrow> Inl e | Inr k \<Rightarrow> Inr (Some k))
      | None \<Rightarrow> Inr (truthy (lp_start_after p)))"

definition list_keys :: "memory_storage \<Rightarrow> ustring \<Rightarrow> ustring option \<Rightarrow> ustring list" where
  "list_keys s prefix startAfter =
     (let sortedKeys = sort (map fst (ms_objects s));
          filteredKeys = (if prefix \<noteq> [] then filter (\<lambda>k. starts_with k prefix) sortedKeys
                          else sortedKeys)
      in case truthy startAfter of
           None \<Rightarrow> filteredKeys
         | Some a \<Rightarrow> filter (\<lambda>k. k > a) filteredKeys)"

definition storage_list ::
    "memory_storage \<Rightarrow> list_params \<Rightarrow> storage_error + list_response" where
  "storage_list s p =
     (case list_start p of
        Inl e \<Rightarrow> Inl e
      | Inr startAfter \<Rightarrow>
          let pg = list_loop (ms_objects s) (lp_prefix p) (lp_delimiter p) (lp_max_keys p)
                     (list_keys s (lp_prefix p) startAfter)
                     \<lparr>pg_contents = [], pg_prefixes = [], pg_processed = 0, pg_last = None,
                      pg_more = False\<rparr>;
              token = (if pg_more pg then map_option encode_token (truthy (pg_last pg)) else None)
          in Inr \<lparr>lr_contents = pg_contents pg,
                  lr_common_prefixes = pg_prefixes pg,
                  lr_is_truncated = (truthy token \<noteq> None),
                  lr_token = truthy (lp_token p),
                  lr_next_token = token,
                  lr_key_count = int (length (pg_contents pg)),
                  lr_max_keys = lp_max_keys p,
                  lr_prefix = truthy (Some (lp_prefix p)),
                  lr_delimiter = truthy (lp_delimiter p),
                  lr_start_after = truthy (lp_start_after p)\<rparr>)"

section \<open>Remaining operations\<close>

definition get_keys :: "memory_storage \<Rightarrow> ustring list" where
  "get_keys s = sort (map fst (ms_objects s))"

definition storage_clear :: "memory_storage \<Rightarrow> memory_storage" where
  "storage_clear s =
     s\<lparr>ms_objects := [], ms_current_memory_bytes := 0, ms_evictions := 0, ms_evicted_bytes := 0,
       ms_peak_memory_bytes := 0\<rparr>"

definition reset_stats :: "memory_storage \<Rightarrow> memory_storage" where
  "reset_stats s =
     s\<lparr>ms_evictions := 0, ms_evicted_bytes := 0,
       ms_peak_memory_bytes := ms_current_memory_bytes s\<rparr>"

record storage_stats =
  st_object_count :: nat
  st_total_size :: int
  st_keys :: "ustring list"
  st_bucket :: ustring
  st_max_memory_mb :: int
  st_evictions :: int
  st_evicted_bytes :: int
  st_peak_memory_bytes :: int

definition get_stats :: "memory_storage \<Rightarrow> storage_stats" where
  "get_stats s =
     \<lparr>st_object_count = length (ms_objects s), st_total_size = ms_current_memory_bytes s,
      st_keys = get_keys s, st_bucket = ms_bucket s, st_max_memory_mb = ms_max_memory_mb s,
      st_evictions = ms_evictions s, st_evicted_bytes = ms_evicted_bytes s,
      st_peak_memory_bytes = ms_peak_memory_bytes s\<rparr>"

end
