(* ===== verification/Memory_Storage_Laws.thy ===== *)
theory Memory_Storage_Laws
  imports Memory_Storage
begin

text \<open>
  The laws of the in-memory object store: the invariant every operation keeps, what eviction
  removes, reads after writes, conditional writes, memory accounting and snapshots.
\<close>

section \<open>Invariant\<close>

definition object_ok :: "(bytes \<Rightarrow> ustring) \<Rightarrow> storage_object \<Rightarrow> bool" where
  "object_ok md5 ob \<longleftrightarrow> so_size ob = int (length (so_body ob)) \<and> so_etag ob = md5 (so_body ob)"

text \<open>One entry per key, and every stored size and ETag is that of the stored body.\<close>

definition storage_inv :: "(bytes \<Rightarrow> ustring) \<Rightarrow> memory_storage \<Rightarrow> bool" where
  "storage_inv md5 s \<longleftrightarrow>
     distinct_keys (ms_objects s) \<and> (\<forall>p \<in> set (ms_objects s). object_ok md5 (snd p))"

text \<open>\<open>currentMemoryBytes\<close> is the number of bytes the stored bodies take.\<close>

definition accounted :: "memory_storage \<Rightarrow> bool" where
  "accounted s \<longleftrightarrow> ms_current_memory_bytes s = sum_entries so_size (ms_objects s)"

abbreviation stored :: "memory_storage \<Rightarrow> ustring \<Rightarrow> storage_object option" where
  "stored s \<equiv> map_of (ms_objects s)"

lemma storage_inv_distinct: "storage_inv md5 s \<Longrightarrow> distinct_keys (ms_objects s)"
  by (simp add: storage_inv_def)

lemma object_ok_new [simp]: "object_ok md5 (new_object md5 now p)"
  by (simp add: object_ok_def new_object_def Let_def)

lemma new_object_simps [simp]:
  "so_body (new_object md5 now p) = to_buffer (pp_body p)"
  "so_size (new_object md5 now p) = int (length (to_buffer (pp_body p)))"
  "so_etag (new_object md5 now p) = md5 (to_buffer (pp_body p))"
  by (simp_all add: new_object_def Let_def)

lemma object_ok_all_update:
  "\<forall>p \<in> set m. object_ok md5 (snd p) \<Longrightarrow> object_ok md5 ob \<Longrightarrow>
     \<forall>p \<in> set (AList.update k ob m). object_ok md5 (snd p)"
  by (induction m) auto

lemma set_delete_subset: "set (AList.delete k m) \<subseteq> set m"
  by (induction m) auto

lemma storage_inv_objects:
  "storage_inv md5 s \<Longrightarrow> distinct_keys obs \<Longrightarrow> set obs \<subseteq> set (ms_objects s) \<Longrightarrow>
     ms_objects s' = obs \<Longrightarrow> storage_inv md5 s'"
  by (auto simp: storage_inv_def)

lemma storage_inv_update:
  "storage_inv md5 s \<Longrightarrow> object_ok md5 ob \<Longrightarrow>
     storage_inv md5 (s\<lparr>ms_objects := AList.update k ob (ms_objects s)\<rparr>)"
proof -
  assume "storage_inv md5 s" "object_ok md5 ob"
  then have "\<forall>p \<in> set (AList.update k ob (ms_objects s)). object_ok md5 (snd p)"
    unfolding storage_inv_def by (intro object_ok_all_update) simp_all
  with \<open>storage_inv md5 s\<close> show ?thesis unfolding storage_inv_def by simp
qed

lemma size_nonneg: "storage_inv md5 s \<Longrightarrow> p \<in> set (ms_objects s) \<Longrightarrow> 0 \<le> so_size (snd p)"
  by (auto simp: storage_inv_def object_ok_def)

section \<open>Eviction\<close>

lemma evict_scan_spec:
  "evict_scan c r t obs e = (keys, freed) \<Longrightarrow>
     \<exists>n \<le> length obs. keys = map fst (take n obs) \<and>
       freed = e + sum_entries so_size (take n obs) \<and>
       (n = length obs \<or> c - freed + r \<le> t) \<and>
       (\<forall>m < n. t < c - (e + sum_entries so_size (take m obs)) + r)"
proof (induction obs arbitrary: e keys freed)
  case (Cons p obs)
  obtain k ob where p: "p = (k, ob)" by (cases p)
  show ?case
  proof (cases "c - e + r \<le> t")
    case True
    with Cons.prems p show ?thesis by (intro exI [of _ 0]) auto
  next
    case False
    with Cons.prems p obtain keys' where keys': "evict_scan c r t obs (e + so_size ob) = (keys', freed)"
      and keys: "keys = k # keys'" by (auto split: prod.splits)
    from Cons.IH [OF keys'] obtain n where n: "n \<le> length obs" "keys' = map fst (take n obs)"
      "freed = e + so_size ob + sum_entries so_size (take n obs)"
      "n = length obs \<or> c - freed + r \<le> t"
      "\<forall>m < n. t < c - (e + so_size ob + sum_entries so_size (take m obs)) + r" by auto
    have "t < c - (e + sum_entries so_size (take m (p # obs))) + r" if "m < Suc n" for m
      using that n(5) False p by (cases m) (auto simp: algebra_simps)
    with n keys p show ?thesis by (intro exI [of _ "Suc n"]) auto
  qed
qed auto

lemma evict_keys:
  "distinct_keys obs \<Longrightarrow> ms_objects s = obs \<Longrightarrow> n \<le> length obs \<Longrightarrow>
     foldl evict_key s (map fst (take n obs)) =
       s\<lparr>ms_objects := drop n obs, ms_evictions := ms_evictions s + int n,
         ms_evicted_bytes := ms_evicted_bytes s + sum_entries so_size (take n obs)\<rparr>"
proof (induction obs arbitrary: s n)
  case (Cons p obs)
  obtain k ob where p: "p = (k, ob)" by (cases p)
  show ?case
  proof (cases n)
    case (Suc m)
    let ?s = "evict_key s k"
    from Cons.prems p have k: "k \<notin> fst ` set obs" "distinct_keys obs"
      by (auto simp: distinct_keys_Cons_iff)
    then have s: "?s = s\<lparr>ms_objects := obs, ms_evictions := ms_evictions s + 1,
        ms_evicted_bytes := ms_evicted_bytes s + so_size ob\<rparr>"
      using Cons.prems(2) p by (simp add: evict_key_def delete_idem')
    then have "ms_objects ?s = obs" by simp
    from Cons.IH [OF k(2) this, of m] Suc p Cons.prems(3) s show ?thesis by simp
  qed (use Cons.prems in simp)
qed simp

text \<open>
  What \<open>_evictIfNeeded\<close> does: it removes the \<open>n\<close> oldest entries, where \<open>n\<close> is the least number
  after which the required space fits (or all of them, when nothing is enough).
\<close>

definition evicted_state :: "memory_storage \<Rightarrow> nat \<Rightarrow> memory_storage" where
  "evicted_state s n =
     s\<lparr>ms_objects := drop n (ms_objects s), ms_evictions := ms_evictions s + int n,
       ms_evicted_bytes := ms_evicted_bytes s + sum_entries so_size (take n (ms_objects s)),
       ms_current_memory_bytes :=
         ms_current_memory_bytes s - sum_entries so_size (take n (ms_objects s))\<rparr>"

definition fits :: "memory_storage \<Rightarrow> int \<Rightarrow> nat \<Rightarrow> bool" where
  "fits s required n \<longleftrightarrow>
     ms_current_memory_bytes s - sum_entries so_size (take n (ms_objects s)) + required
       \<le> ms_max_memory_bytes s"

lemma evict_if_needed_spec:
  assumes "distinct_keys (ms_objects s)"
  shows "\<exists>n \<le> length (ms_objects s).
     snd (evict_if_needed s r) = evicted_state s n \<and>
     fst (evict_if_needed s r) = sum_entries so_size (take n (ms_objects s)) \<and>
     (ms_eviction_enabled s \<longrightarrow> n = length (ms_objects s) \<or> fits s r n) \<and>
     (\<forall>m < n. ms_eviction_enabled s \<and> \<not> fits s r m)"
proof (cases "ms_eviction_enabled s \<and> ms_max_memory_bytes s < ms_current_memory_bytes s + r")
  case False
  then have "evict_if_needed s r = (0, s)" "ms_eviction_enabled s \<longrightarrow> fits s r 0"
    by (auto simp: evict_if_needed_def fits_def Let_def)
  then show ?thesis by (intro exI [of _ 0]) (simp add: evicted_state_def)
next
  case True
  obtain keys freed where scan: "evict_scan (ms_current_memory_bytes s) r (ms_max_memory_bytes s)
      (ms_objects s) 0 = (keys, freed)" by fastforce
  from evict_scan_spec [OF scan] obtain n where n: "n \<le> length (ms_objects s)"
    "keys = map fst (take n (ms_objects s))" "freed = sum_entries so_size (take n (ms_objects s))"
    "n = length (ms_objects s) \<or> fits s r n" "\<forall>m < n. \<not> fits s r m"
    by (auto simp: fits_def not_le)
  from evict_keys [OF assms refl n(1)] n(2,3)
  have "snd (evict_if_needed s r) = evicted_state s n" "fst (evict_if_needed s r) = freed"
    using True scan by (simp_all add: evict_if_needed_def evicted_state_def Let_def)
  with n True show ?thesis by blast
qed

lemma evicted_state_inv: "storage_inv md5 s \<Longrightarrow> storage_inv md5 (evicted_state s n)"
  by (rule storage_inv_objects [of _ s "drop n (ms_objects s)"])
    (auto simp: evicted_state_def storage_inv_def dest: in_set_dropD)

lemma evicted_state_accounted: "accounted s \<Longrightarrow> accounted (evicted_state s n)"
  using sum_entries_simps(3) [of so_size "take n (ms_objects s)" "drop n (ms_objects s)"]
  by (simp add: accounted_def evicted_state_def)

lemma map_of_drop:
  "distinct_keys m \<Longrightarrow> map_of (drop n m) k = (if k \<in> fst ` set (drop n m) then map_of m k else None)"
proof -
  assume d: "distinct_keys m"
  have m: "m = take n m @ drop n m" by simp
  with d have "distinct_keys (take n m @ drop n m)" by simp
  then have disj: "fst ` set (take n m) \<inter> fst ` set (drop n m) = {}"
    by (simp only: distinct_keys_append_iff)
  have "map_of m k = map_of (take n m @ drop n m) k" by simp
  also have "\<dots> = (map_of (take n m) ++ map_of (drop n m)) k"
  proof (cases "k \<in> fst ` set (take n m)")
    case True
    with disj have "map_of (drop n m) k = None" by (auto simp: map_of_eq_None_iff)
    then show ?thesis by (simp only: map_of_append map_add_def) (auto split: option.splits)
  next
    case False
    then have "map_of (take n m) k = None" by (auto simp: map_of_eq_None_iff)
    then show ?thesis by (simp only: map_of_append map_add_def) (auto split: option.splits)
  qed
  finally show ?thesis by (auto simp: map_add_def map_of_eq_None_iff split: option.splits)
qed

lemma stored_evicted:
  "distinct_keys (ms_objects s) \<Longrightarrow> stored (evicted_state s n) k \<in> {None, stored s k}"
  by (simp add: evicted_state_def map_of_drop)

section \<open>Put\<close>

definition put_delta :: "memory_storage \<Rightarrow> ustring \<Rightarrow> put_params \<Rightarrow> int" where
  "put_delta s key p =
     int (length (to_buffer (pp_body p))) - (case stored s key of None \<Rightarrow> 0 | Some e \<Rightarrow> so_size e)"

text \<open>The state a put leaves that has passed its checks, evicting \<open>n\<close> entries.\<close>

definition put_state ::
    "(bytes \<Rightarrow> ustring) \<Rightarrow> ustring \<Rightarrow> memory_storage \<Rightarrow> ustring \<Rightarrow> put_params \<Rightarrow> nat \<Rightarrow> memory_storage" where
  "put_state md5 now s key p n =
     (let s1 = evicted_state s n
      in track_memory (s1\<lparr>ms_objects := AList.update key (new_object md5 now p) (ms_objects s1)\<rparr>)
           (put_delta s key p))"

definition put_checks :: "memory_storage \<Rightarrow> ustring \<Rightarrow> put_params \<Rightarrow> storage_error option" where
  "put_checks s key p =
     (case validate_limits s (pp_body p) (pp_metadata p) of
        Some e \<Rightarrow> Some e
      | None \<Rightarrow>
          if if_match_fails (stored s key) (pp_if_match p) \<or>
             if_none_match_fails (stored s key) (pp_if_none_match p)
          then Some (PreconditionFailed key) else None)"

definition put_after ::
    "(bytes \<Rightarrow> ustring) \<Rightarrow> ustring \<Rightarrow> memory_storage \<Rightarrow> ustring \<Rightarrow> put_params \<Rightarrow> memory_storage" where
  "put_after md5 now s key p =
     (let s1 = snd (evict_if_needed s (max 0 (put_delta s key p)))
      in track_memory (s1\<lparr>ms_objects := AList.update key (new_object md5 now p) (ms_objects s1)\<rparr>)
           (put_delta s key p))"

lemma pos_part: "(if 0 < d then d else 0) = max 0 (d::int)"
  by simp

text \<open>A put either is rejected and changes nothing, or moves to \<open>put_after\<close> and then saves.\<close>

lemma storage_put_eq:
  "storage_put md5 write_file now s key p =
     (case put_checks s key p of
        Some e \<Rightarrow> (Inl e, s)
      | None \<Rightarrow>
          (persisted write_file now (put_after md5 now s key p)
             \<lparr>pr_etag = format_etag (md5 (to_buffer (pp_body p))),
              pr_location = lit ''/'' @ ms_bucket (put_after md5 now s key p) @ lit ''/'' @ key\<rparr>,
           put_after md5 now s key p))"
proof (cases "validate_limits s (pp_body p) (pp_metadata p)")
  case None
  show ?thesis
  proof (cases "if_match_fails (stored s key) (pp_if_match p) \<or>
                if_none_match_fails (stored s key) (pp_if_none_match p)")
    case True
    with None show ?thesis by (auto simp: storage_put_def put_checks_def Let_def)
  next
    case False
    with None show ?thesis
      by (simp add: storage_put_def put_checks_def put_after_def put_delta_def Let_def pos_part
          del: max_def)
  qed
qed (simp add: storage_put_def put_checks_def)

lemma storage_put_rejected:
  "put_checks s key p = Some e \<Longrightarrow> storage_put md5 write_file now s key p = (Inl e, s)"
  by (simp add: storage_put_eq)

lemma put_after_state:
  assumes "distinct_keys (ms_objects s)"
  shows "\<exists>n \<le> length (ms_objects s).
     put_after md5 now s key p = put_state md5 now s key p n \<and>
     (ms_eviction_enabled s \<longrightarrow>
        n = length (ms_objects s) \<or> fits s (max 0 (put_delta s key p)) n) \<and>
     (\<forall>m < n. ms_eviction_enabled s \<and> \<not> fits s (max 0 (put_delta s key p)) m)"
  using evict_if_needed_spec [OF assms, of "max 0 (put_delta s key p)"]
  by (auto simp: put_after_def put_state_def Let_def)

lemma storage_put_accepted:
  "put_checks s key p = None \<Longrightarrow> snd (storage_put md5 write_file now s key p) = put_after md5 now s key p"
  by (simp add: storage_put_eq)

lemma storage_put_Inr:
  "storage_put md5 write_file now s key p = (Inr r, s') \<Longrightarrow>
     put_checks s key p = None \<and> s' = put_after md5 now s key p \<and>
     pr_etag r = format_etag (md5 (to_buffer (pp_body p)))"
  by (auto simp: storage_put_eq persisted_def split: option.splits if_splits sum.splits)

lemma evicted_state_frame [simp]:
  "ms_auto_persist (evicted_state s n) = ms_auto_persist s"
  "ms_max_memory_bytes (evicted_state s n) = ms_max_memory_bytes s"
  "ms_eviction_enabled (evicted_state s n) = ms_eviction_enabled s"
  "ms_enforce_limits (evicted_state s n) = ms_enforce_limits s"
  by (simp_all add: evicted_state_def)

lemma put_state_frame [simp]:
  "ms_auto_persist (put_state md5 now s key p n) = ms_auto_persist s"
  "ms_max_memory_bytes (put_state md5 now s key p n) = ms_max_memory_bytes s"
  "ms_eviction_enabled (put_state md5 now s key p n) = ms_eviction_enabled s"
  "ms_enforce_limits (put_state md5 now s key p n) = ms_enforce_limits s"
  by (simp_all add: put_state_def track_memory_def Let_def)

lemma storage_put_no_persist:
  assumes "put_checks s key p = None" "\<not> ms_auto_persist s" "distinct_keys (ms_objects s)"
  shows "\<exists>r. storage_put md5 write_file now s key p = (Inr r, put_after md5 now s key p)"
  using assms(1,2) put_after_state [OF assms(3), of md5 now key p]
  by (auto simp: storage_put_eq persisted_def)

lemma put_state_inv: "storage_inv md5 s \<Longrightarrow> storage_inv md5 (put_state md5 now s key p n)"
proof -
  assume "storage_inv md5 s"
  then have "storage_inv md5 (evicted_state s n)" by (rule evicted_state_inv)
  from storage_inv_update [OF this object_ok_new, of key now p] show ?thesis
    by (simp add: put_state_def track_memory_def Let_def storage_inv_def)
qed

lemma stored_put_state:
  "stored (put_state md5 now s key p n) =
     (stored (evicted_state s n))(key \<mapsto> new_object md5 now p)"
  by (simp add: put_state_def track_memory_def Let_def store_simps)

text \<open>
  The accounting after a put: right exactly when the old version of the key, if there was one, was
  not among the evicted entries.
\<close>

lemma put_state_accounted:
  assumes "storage_inv md5 s" "accounted s"
  shows "ms_current_memory_bytes (put_state md5 now s key p n) =
     sum_entries so_size (ms_objects (put_state md5 now s key p n))
       - (case stored s key of
            Some e \<Rightarrow> if stored (evicted_state s n) key = None then so_size e else 0
          | None \<Rightarrow> 0)"
proof -
  let ?s = "evicted_state s n"
  have d: "distinct_keys (ms_objects ?s)" "distinct_keys (ms_objects s)"
    using evicted_state_inv [OF assms(1)] assms(1) by (auto simp: storage_inv_def)
  have acc: "ms_current_memory_bytes ?s = sum_entries so_size (ms_objects ?s)"
    using evicted_state_accounted [OF assms(2)] by (simp add: accounted_def)
  have "ms_current_memory_bytes (put_state md5 now s key p n)
        = sum_entries so_size (ms_objects ?s) + put_delta s key p"
    using acc by (simp add: put_state_def track_memory_def Let_def)
  moreover have "sum_entries so_size (ms_objects (put_state md5 now s key p n)) =
      sum_entries so_size (ms_objects ?s) + int (length (to_buffer (pp_body p)))
        - (case stored ?s key of None \<Rightarrow> 0 | Some w \<Rightarrow> so_size w)"
    using sum_entries_update [OF d(1), of so_size key "new_object md5 now p"]
    by (simp add: put_state_def track_memory_def Let_def)
  ultimately show ?thesis
    using stored_evicted [OF d(2), of n key] by (auto simp: put_delta_def split: option.splits)
qed

section \<open>Histories\<close>

text \<open>The calls that change the store, and their effect on it.\<close>

datatype storage_call =
    Put ustring put_params
  | Get ustring
  | Head ustring
  | CopyTo ustring ustring copy_params
  | Delete ustring
  | DeleteMany "ustring list"
  | ClearAll
  | ResetStats

fun storage_step ::
    "(bytes \<Rightarrow> ustring) \<Rightarrow> (ustring \<Rightarrow> snapshot \<Rightarrow> bool) \<Rightarrow> memory_storage
       \<Rightarrow> ustring \<times> storage_call \<Rightarrow> memory_storage" where
  "storage_step md5 write_file s (now, Put key p) = snd (storage_put md5 write_file now s key p)"
| "storage_step md5 write_file s (now, Get key) = snd (storage_get s key)"
| "storage_step md5 write_file s (now, Head key) = snd (storage_head s key)"
| "storage_step md5 write_file s (now, CopyTo src dst p) = snd (storage_copy md5 write_file now s src dst p)"
| "storage_step md5 write_file s (now, Delete key) = snd (storage_delete write_file now s key)"
| "storage_step md5 write_file s (now, DeleteMany keys) =
     snd (storage_delete_multiple write_file now s keys)"
| "storage_step md5 write_file s (now, ClearAll) = storage_clear s"
| "storage_step md5 write_file s (now, ResetStats) = reset_stats s"

definition storage_run ::
    "(bytes \<Rightarrow> ustring) \<Rightarrow> (ustring \<Rightarrow> snapshot \<Rightarrow> bool) \<Rightarrow> memory_storage
       \<Rightarrow> (ustring \<times> storage_call) list \<Rightarrow> memory_storage" where
  "storage_run md5 write_file s calls = foldl (storage_step md5 write_file) s calls"

lemma set_update_delete:
  "map_of m k = Some v \<Longrightarrow> distinct_keys m \<Longrightarrow> mset (AList.update k v (AList.delete k m)) = mset m"
proof (induction m)
  case (Cons p m)
  obtain k' v' where p: "p = (k', v')" by (cases p)
  show ?case
  proof (cases "k' = k")
    case True
    with Cons.prems p have "k \<notin> fst ` set m" "v' = v" by (auto simp: distinct_keys_Cons_iff)
    with True p show ?thesis by (simp add: delete_idem' update_fresh)
  next
    case False
    with Cons p show ?thesis by (auto simp: distinct_keys_Cons_iff)
  qed
qed simp

lemma touch_key_mset:
  "distinct_keys (ms_objects s) \<Longrightarrow> mset (ms_objects (touch_key s k)) = mset (ms_objects s)"
  by (auto simp: touch_key_def set_update_delete split: option.splits)

lemma touch_key_frame:
  "ms_current_memory_bytes (touch_key s k) = ms_current_memory_bytes s"
  "ms_eviction_enabled (touch_key s k) = ms_eviction_enabled s"
  by (auto simp: touch_key_def split: option.splits)

lemma storage_inv_mset:
  "storage_inv md5 s \<Longrightarrow> mset (ms_objects s') = mset (ms_objects s) \<Longrightarrow> storage_inv md5 s'"
  unfolding storage_inv_def by (metis distinct_keys_mset set_mset_mset)

lemma touch_key_inv: "storage_inv md5 s \<Longrightarrow> storage_inv md5 (touch_key s k)"
  by (metis storage_inv_mset touch_key_mset storage_inv_distinct)

lemma stored_touch_key:
  "distinct_keys (ms_objects s) \<Longrightarrow> stored (touch_key s k) = stored s"
proof -
  assume d: "distinct_keys (ms_objects s)"
  note m = touch_key_mset [OF d, of k]
  with d have "distinct_keys (ms_objects (touch_key s k))" by (simp add: distinct_keys_mset [OF m])
  then show ?thesis by (rule map_of_mset [OF _ m])
qed

lemma storage_get_state: "snd (storage_get s k) = touch_key s k"
  "snd (storage_head s k) = touch_key s k"
  by (auto simp: storage_get_def storage_head_def touch_key_def split: option.splits)

lemma put_inv:
  assumes "storage_inv md5 s"
  shows "storage_inv md5 (snd (storage_put md5 write_file now s key p))"
proof (cases "put_checks s key p")
  case None
  with put_after_state [OF storage_inv_distinct [OF assms], of md5 now key p]
    put_state_inv [OF assms, of now key p] show ?thesis
    by (auto simp: storage_put_accepted)
qed (use assms in \<open>simp add: storage_put_rejected\<close>)

lemma copy_state:
  "\<exists>p. snd (storage_copy md5 write_file now s src dst c) = s \<or>
       snd (storage_copy md5 write_file now s src dst c) = snd (storage_put md5 write_file now s dst p)"
proof (cases "stored s src")
  case (Some source)
  let ?p = "\<lparr>pp_body = Buffer (so_body source), pp_metadata = Some (copy_metadata source c),
      pp_content_type = (case truthy (cp_content_type c) of
        None \<Rightarrow> Some (so_content_type source) | t \<Rightarrow> t),
      pp_content_encoding = so_content_encoding source,
      pp_content_length = None, pp_if_match = None, pp_if_none_match = None\<rparr>"
  obtain r t where "storage_put md5 write_file now s dst ?p = (r, t)" by fastforce
  with Some have "snd (storage_copy md5 write_file now s src dst c)
      = snd (storage_put md5 write_file now s dst ?p)"
    by (cases r) (simp_all add: storage_copy_def)
  then show ?thesis by blast
qed (simp add: storage_copy_def)

definition delete_state :: "memory_storage \<Rightarrow> ustring \<Rightarrow> memory_storage" where
  "delete_state s key =
     (let s1 = (case stored s key of None \<Rightarrow> s | Some ob \<Rightarrow> track_memory s (- so_size ob))
      in s1\<lparr>ms_objects := AList.delete key (ms_objects s1)\<rparr>)"

lemma storage_delete_state: "snd (storage_delete write_file now s key) = delete_state s key"
  by (simp add: storage_delete_def delete_state_def Let_def)

lemma ms_objects_delete_state [simp]:
  "ms_objects (delete_state s key) = AList.delete key (ms_objects s)"
  by (simp add: delete_state_def track_memory_def Let_def split: option.splits)

lemma delete_state_frame:
  "ms_eviction_enabled (delete_state s key) = ms_eviction_enabled s"
  "ms_auto_persist (delete_state s key) = ms_auto_persist s"
  by (auto simp: delete_state_def track_memory_def Let_def split: option.splits)

lemma delete_state_inv: "storage_inv md5 s \<Longrightarrow> storage_inv md5 (delete_state s key)"
  by (rule storage_inv_objects [of _ s "AList.delete key (ms_objects s)"])
    (auto simp: storage_inv_def dest: set_delete_subset [THEN subsetD])

lemma delete_state_accounted:
  "storage_inv md5 s \<Longrightarrow> accounted s \<Longrightarrow> accounted (delete_state s key)"
  by (cases "stored s key")
    (simp_all add: accounted_def storage_inv_def sum_entries_delete delete_state_def
      track_memory_def Let_def)

lemma delete_multiple_state:
  "snd (storage_delete_multiple write_file now s keys) = foldl delete_state s keys"
proof (induction keys arbitrary: s)
  case (Cons key keys)
  obtain r s1 where d: "storage_delete write_file now s key = (r, s1)" by fastforce
  with storage_delete_state [of write_file now s key] have "s1 = delete_state s key" by simp
  with d Cons.IH [of s1] show ?case by (auto split: prod.splits sum.splits)
qed simp

lemma foldl_delete_inv: "storage_inv md5 s \<Longrightarrow> storage_inv md5 (foldl delete_state s keys)"
  by (induction keys arbitrary: s) (auto simp: delete_state_inv)

lemma reset_inv:
  "storage_inv md5 (storage_clear s)"
  "storage_inv md5 s \<Longrightarrow> storage_inv md5 (reset_stats s)"
  by (simp_all add: storage_inv_def storage_clear_def reset_stats_def)

lemma step_inv: "storage_inv md5 s \<Longrightarrow> storage_inv md5 (storage_step md5 write_file s c)"
proof (induction md5 write_file s c rule: storage_step.induct)
  case (4 md5 write_file s now src dst p)
  then show ?case
    using copy_state [of md5 write_file now s src dst p] put_inv [of md5 s write_file now dst] by auto
qed (simp_all add: put_inv storage_get_state touch_key_inv storage_delete_state delete_state_inv
    delete_multiple_state foldl_delete_inv reset_inv)

lemma run_inv: "storage_inv md5 s \<Longrightarrow> storage_inv md5 (storage_run md5 write_file s calls)"
  by (induction calls arbitrary: s) (auto simp: storage_run_def step_inv)

lemma new_storage_inv: "storage_inv md5 (new_storage c) \<and> accounted (new_storage c)"
  by (simp add: storage_inv_def accounted_def new_storage_def Let_def)

text \<open>Without eviction a put keeps every entry, and the accounting is exact.\<close>

lemma put_accounted_no_evict:
  assumes "storage_inv md5 s" "accounted s" "\<not> ms_eviction_enabled s"
  shows "accounted (snd (storage_put md5 write_file now s key p)) \<and>
         \<not> ms_eviction_enabled (snd (storage_put md5 write_file now s key p))"
proof (cases "put_checks s key p")
  case None
  from put_after_state [OF storage_inv_distinct [OF assms(1)], of md5 now key p]
  obtain n where n: "put_after md5 now s key p = put_state md5 now s key p n"
    "\<forall>m < n. ms_eviction_enabled s" by blast
  with assms(3) have "put_after md5 now s key p = put_state md5 now s key p 0"
    by (cases n) auto
  with None have p: "snd (storage_put md5 write_file now s key p) = put_state md5 now s key p 0"
    by (simp add: storage_put_accepted)
  have "stored (evicted_state s 0) key = stored s key" by (simp add: evicted_state_def)
  with put_state_accounted [OF assms(1,2), of now key p 0] p assms(3) show ?thesis
    by (auto simp: accounted_def split: option.splits)
qed (use assms in \<open>simp add: storage_put_rejected\<close>)

lemma sum_entries_touch:
  "storage_inv md5 s \<Longrightarrow> accounted s \<Longrightarrow> accounted (touch_key s k)"
  using sum_entries_mset [OF touch_key_mset, of s so_size k]
  by (simp add: accounted_def touch_key_frame storage_inv_def)

lemma foldl_delete_accounted:
  "storage_inv md5 s \<Longrightarrow> accounted s \<Longrightarrow> accounted (foldl delete_state s keys) \<and>
     ms_eviction_enabled (foldl delete_state s keys) = ms_eviction_enabled s"
  by (induction keys arbitrary: s)
    (auto simp: delete_state_inv delete_state_accounted delete_state_frame)

lemma reset_accounted:
  "accounted (storage_clear s)"
  "ms_eviction_enabled (storage_clear s) = ms_eviction_enabled s"
  "accounted s \<Longrightarrow> accounted (reset_stats s)"
  "ms_eviction_enabled (reset_stats s) = ms_eviction_enabled s"
  by (simp_all add: accounted_def storage_clear_def reset_stats_def)

lemma step_accounted:
  assumes "storage_inv md5 s" "accounted s" "\<not> ms_eviction_enabled s"
  shows "accounted (storage_step md5 write_file s c) \<and> \<not> ms_eviction_enabled (storage_step md5 write_file s c)"
  using assms
proof (induction md5 write_file s c rule: storage_step.induct)
  case (4 md5 write_file s now src dst p)
  then show ?case
    using copy_state [of md5 write_file now s src dst p] put_accounted_no_evict [of md5 s write_file now dst]
    by auto
next
  case (6 md5 write_file s now keys)
  then show ?case using foldl_delete_accounted [of md5 s keys] by (simp add: delete_multiple_state)
qed (simp_all add: put_accounted_no_evict storage_get_state sum_entries_touch touch_key_frame
    storage_delete_state delete_state_accounted delete_state_frame reset_accounted)

lemma run_accounted:
  "storage_inv md5 s \<Longrightarrow> accounted s \<Longrightarrow> \<not> ms_eviction_enabled s \<Longrightarrow>
     accounted (storage_run md5 write_file s calls)"
  by (induction calls arbitrary: s) (simp_all add: storage_run_def step_inv step_accounted)

section \<open>Conditional writes\<close>

text \<open>An ETag as the store produces them: hexadecimal digits.\<close>

definition hex_etag :: "ustring \<Rightarrow> bool" where
  "hex_etag e \<longleftrightarrow> e \<noteq> [] \<and> (\<forall>u \<in> set e. is_digit u \<or> (97 \<le> u \<and> u \<le> 102))"

lemma hex_etag_units:
  "hex_etag e \<Longrightarrow> u \<in> set e \<Longrightarrow> u \<noteq> 44 \<and> \<not> is_space u \<and> \<not> is_quote u \<and> u \<noteq> 47"
  unfolding hex_etag_def is_digit_def is_space_def is_quote_def by fastforce

text \<open>The ETag header of a response names exactly that ETag when it is sent back.\<close>

lemma normalize_format_etag:
  assumes "hex_etag e"
  shows "normalize_etag_header (Some (format_etag e)) = [e]"
proof -
  have sp: "\<not> is_space u" if "u \<in> set (format_etag e)" for u
    using that hex_etag_units [OF assms] by (auto simp: format_etag_def is_space_def)
  have "44 \<notin> set (format_etag e)"
    using hex_etag_units [OF assms] by (auto simp: format_etag_def)
  then have "split_on 44 (format_etag e) = [format_etag e]" by (rule split_on_no_sep)
  moreover have "trim (format_etag e) = format_etag e" using sp by (rule trim_no_space)
  moreover have "strip_weak (format_etag e) = format_etag e"
    by (cases e) (simp_all add: strip_weak_def format_etag_def)
  moreover have "strip_quotes (format_etag e) = e"
    by (simp add: strip_quotes_def format_etag_def Let_def is_quote_def)
  ultimately show ?thesis by (simp add: normalize_etag_header_def format_etag_def)
qed

lemma if_match_format:
  assumes "hex_etag e"
  shows "if_match_fails existing (Some (format_etag e)) \<longleftrightarrow> map_option so_etag existing \<noteq> Some e"
  using assms
  by (auto simp: if_match_fails_def normalize_format_etag Let_def hex_etag_def split: option.splits)

lemma if_none_match_star:
  "if_none_match_fails existing (Some (lit ''*'')) \<longleftrightarrow> existing \<noteq> None \<or>
     (\<exists>ob. existing = Some ob \<and> so_etag ob = [42])"
proof -
  have "normalize_etag_header (Some (lit ''*'')) = [[42]]"
    by (simp add: normalize_etag_header_def trim_def is_space_def strip_weak_def strip_quotes_def
        is_quote_def Let_def)
  then show ?thesis by (auto simp: if_none_match_fails_def Let_def split: option.splits)
qed

section \<open>Paged listing\<close>

lemma list_loop_flat:
  assumes "truthy delimiter = None"
  shows "list_loop obs prefix delimiter maxKeys keys pg =
    (let n = nat (maxKeys - pg_processed pg)
     in pg\<lparr>pg_contents := pg_contents pg @ map (info_of obs) (take n keys),
           pg_processed := pg_processed pg + int (length (take n keys)),
           pg_last := (if take n keys = [] then pg_last pg else Some (last (take n keys))),
           pg_more := (pg_more pg \<or> n < length keys)\<rparr>)"
proof (induction keys arbitrary: pg)
  case (Cons key keys)
  show ?case
  proof (cases "maxKeys \<le> pg_processed pg")
    case True
    then show ?thesis by (simp add: Let_def)
  next
    case False
    define n where "n = nat (maxKeys - (pg_processed pg + 1))"
    with False have n: "nat (maxKeys - pg_processed pg) = Suc n"
      "nat (maxKeys - (pg_processed pg + 1)) = n" by simp_all
    with False assms show ?thesis by (simp add: Cons.IH Let_def)
  qed
qed (simp add: Let_def)

lemma list_flat:
  assumes "truthy (lp_delimiter p) = None" "list_start p = Inr start"
  shows "storage_list s p = Inr
    (let keys = list_keys s (lp_prefix p) start; n = nat (lp_max_keys p);
         token = (if n < length keys \<and> n \<noteq> 0
                  then map_option encode_token (truthy (Some (keys ! (n - 1)))) else None)
     in \<lparr>lr_contents = map (info_of (ms_objects s)) (take n keys),
         lr_common_prefixes = [], lr_is_truncated = (truthy token \<noteq> None),
         lr_token = truthy (lp_token p), lr_next_token = token,
         lr_key_count = int (length (take n keys)), lr_max_keys = lp_max_keys p,
         lr_prefix = truthy (Some (lp_prefix p)), lr_delimiter = None,
         lr_start_after = truthy (lp_start_after p)\<rparr>)"
proof -
  have last: "last (take n keys) = keys ! (n - 1)" if "n < length keys" "n \<noteq> 0"
    for n and keys :: "ustring list"
    using that by (subst last_conv_nth) (auto simp: min_def)
  show ?thesis
    using assms last [of "nat (lp_max_keys p)"]
    by (auto simp: storage_list_def list_loop_flat Let_def truthy_def)
qed

lemma sorted_filter_greater:
  "sorted ks \<Longrightarrow> distinct ks \<Longrightarrow> i < length ks \<Longrightarrow>
     filter (\<lambda>k. ks ! i < k) ks = drop (Suc i) (ks :: ustring list)"
proof -
  assume s: "sorted ks" "distinct ks" and i: "i < length ks"
  have ss: "sorted_wrt (<) ks" using s by (simp add: strict_sorted_iff)
  have "filter (\<lambda>k. ks ! i < k) (take (Suc i) ks) = []"
  proof (rule filter_False, rule ballI)
    fix k assume "k \<in> set (take (Suc i) ks)"
    then obtain j where "j \<le> i" "k = ks ! j" by (auto simp: in_set_conv_nth less_Suc_eq_le)
    then have "k \<le> ks ! i" using s(1) i by (simp add: sorted_nth_mono)
    then show "\<not> ks ! i < k" by simp
  qed
  moreover have "filter (\<lambda>k. ks ! i < k) (drop (Suc i) ks) = drop (Suc i) ks"
  proof (rule filter_True, rule ballI)
    fix k assume "k \<in> set (drop (Suc i) ks)"
    then obtain j where "j < length ks - Suc i" "k = ks ! (Suc i + j)"
      by (auto simp: in_set_conv_nth)
    with ss i show "ks ! i < k" by (simp add: sorted_wrt_iff_nth_less)
  qed
  ultimately have "filter (\<lambda>k. ks ! i < k) (take (Suc i) ks @ drop (Suc i) ks) = drop (Suc i) ks"
    by (simp only: filter_append) simp
  then show ?thesis by simp
qed

text \<open>All keys with a prefix, in order: what paging has to deliver.\<close>

definition matching_keys :: "memory_storage \<Rightarrow> ustring \<Rightarrow> ustring list" where
  "matching_keys s prefix = filter (\<lambda>k. starts_with k prefix) (get_keys s)"

lemma list_keys_first: "list_keys s prefix None = matching_keys s prefix"
  by (auto simp: list_keys_def matching_keys_def get_keys_def truthy_def Let_def)

lemma matching_keys_sorted:
  "distinct_keys (ms_objects s) \<Longrightarrow>
     sorted (matching_keys s prefix) \<and> distinct (matching_keys s prefix)"
  by (simp add: matching_keys_def get_keys_def distinct_keys_def sorted_filter [of id, simplified])

lemma set_matching_keys:
  "set (matching_keys s prefix) = {k \<in> fst ` set (ms_objects s). starts_with k prefix}"
  by (auto simp: matching_keys_def get_keys_def)

lemma list_keys_after:
  assumes "distinct_keys (ms_objects s)" "i < length (matching_keys s prefix)"
    "matching_keys s prefix ! i \<noteq> []"
  shows "list_keys s prefix (Some (matching_keys s prefix ! i)) = drop (Suc i) (matching_keys s prefix)"
proof -
  have "list_keys s prefix (Some (matching_keys s prefix ! i))
      = filter (\<lambda>k. matching_keys s prefix ! i < k) (matching_keys s prefix)"
    using assms(3) list_keys_first [of s prefix] by (simp add: list_keys_def truthy_def Let_def)
  also have "\<dots> = drop (Suc i) (matching_keys s prefix)"
    using matching_keys_sorted [OF assms(1), of prefix] assms(2) by (simp add: sorted_filter_greater)
  finally show ?thesis .
qed

text \<open>Continuation tokens: what one page encodes, the next one decodes.\<close>

lemma encode_token_not_Nil: "k \<noteq> [] \<Longrightarrow> encode_token k \<noteq> []"
  by (simp add: encode_token_def text_to_b64_def)

lemma decode_encode_token: "well_formed k \<Longrightarrow> k \<noteq> [] \<Longrightarrow> decode_token (encode_token k) = Inr k"
proof -
  assume k: "well_formed k" "k \<noteq> []"
  have "trim (encode_token k) = encode_token k"
    unfolding encode_token_def text_to_b64_def
    by (rule trim_no_space) (rule b64_encode_no_space)
  with k b64_text.dec_enc [OF k(1)] show ?thesis
    by (simp add: decode_token_def encode_token_def Let_def)
qed

text \<open>
  Paging through a listing: ask for a page, follow \<open>NextContinuationToken\<close> while \<open>IsTruncated\<close>, as
  \<open>getKeysPage\<close> of \<open>memory-client.class.ts\<close> does. The fuel bounds the number of pages.
\<close>

fun list_pages :: "nat \<Rightarrow> memory_storage \<Rightarrow> list_params \<Rightarrow> (storage_error + ustring list) option" where
  "list_pages 0 s p = None"
| "list_pages (Suc fuel) s p =
     (case storage_list s p of
        Inl e \<Rightarrow> Some (Inl e)
      | Inr r \<Rightarrow>
          if lr_is_truncated r then
            (case list_pages fuel s (p\<lparr>lp_token := lr_next_token r\<rparr>) of
               None \<Rightarrow> None
             | Some (Inl e) \<Rightarrow> Some (Inl e)
             | Some (Inr ks) \<Rightarrow> Some (Inr (map oi_key (lr_contents r) @ ks)))
          else Some (Inr (map oi_key (lr_contents r))))"

lemma oi_key_info_of [simp]: "oi_key (info_of obs k) = k"
  by (simp add: info_of_def split: option.splits)

lemma oi_keys_info: "map (oi_key \<circ> info_of obs) ks = ks"
  by (induction ks) simp_all

lemma list_pages_from:
  assumes d: "distinct_keys (ms_objects s)"
    and wf: "\<forall>k \<in> set (matching_keys s (lp_prefix p)). well_formed k \<and> k \<noteq> []"
    and flat: "truthy (lp_delimiter p) = None" and pos: "0 < lp_max_keys p"
    and start: "list_start p = Inr start"
      "list_keys s (lp_prefix p) start = drop i (matching_keys s (lp_prefix p))"
    and fuel: "length (matching_keys s (lp_prefix p)) - i < fuel"
  shows "list_pages fuel s p = Some (Inr (drop i (matching_keys s (lp_prefix p))))"
  using start fuel flat pos wf
proof (induction fuel arbitrary: i p start)
  case (Suc fuel)
  let ?m = "matching_keys s (lp_prefix p)" and ?n = "nat (lp_max_keys p)"
  have n0: "?n \<noteq> 0" using Suc.prems by simp
  note page = list_flat [OF Suc.prems(4) Suc.prems(1), of s, unfolded Suc.prems(2)]
  show ?case
  proof (cases "?n < length (drop i ?m)")
    case False
    with page show ?thesis by (simp add: Let_def truthy_def oi_keys_info)
  next
    case True
    let ?k = "?m ! (i + (?n - 1))" and ?j = "i + ?n"
    from True have j: "i + (?n - 1) < length ?m" using n0 by simp
    then have k: "well_formed ?k" "?k \<noteq> []" using Suc.prems(6) by (auto dest: nth_mem)
    have nth: "drop i ?m ! (?n - 1) = ?k" using True by simp
    let ?q = "p\<lparr>lp_token := Some (encode_token ?k)\<rparr>"
    have "list_start ?q = Inr (Some ?k)"
      using decode_encode_token [OF k] encode_token_not_Nil [OF k(2)]
      by (simp add: list_start_def truthy_def)
    moreover have "list_keys s (lp_prefix ?q) (Some ?k) = drop ?j ?m"
      using list_keys_after [OF d j k(2)] n0 by simp
    moreover have "length (matching_keys s (lp_prefix ?q)) - ?j < fuel"
      using Suc.prems(3) n0 True by simp
    ultimately have rest: "list_pages fuel s ?q = Some (Inr (drop ?j ?m))"
      using Suc.IH [of ?q "Some ?k" ?j] Suc.prems(4,5,6) by simp
    have "drop i ?m = take ?n (drop i ?m) @ drop ?j ?m"
      by (metis add.commute append_take_drop_id drop_drop)
    with page rest True n0 nth k(2) encode_token_not_Nil [OF k(2)] show ?thesis
      by (simp add: Let_def truthy_def oi_keys_info)
  qed
qed simp

end
