(* ===== verification/Memory_Storage_Props.thy ===== *)
theory Memory_Storage_Props
  imports Memory_Storage_Laws "HOL-Library.Code_Target_Nat"
begin

text \<open>
  The properties of the in-memory object store, each over the laws of \<open>Memory_Storage_Laws\<close>, with
  witnesses on small stores.
\<close>

section \<open>A small store for the witnesses\<close>

definition small_config :: storage_config where
  "small_config = \<lparr>sc_bucket = None, sc_enforce_limits = False, sc_metadata_limit = None,
     sc_max_object_size = None, sc_persist_path = None, sc_auto_persist = False,
     sc_max_memory_mb = Some 0, sc_eviction_enabled = Some False\<rparr>"

definition plain_put :: "bytes \<Rightarrow> put_params" where
  "plain_put b = \<lparr>pp_body = Buffer b, pp_metadata = None, pp_content_type = None,
     pp_content_encoding = None, pp_content_length = None, pp_if_match = None,
     pp_if_none_match = None\<rparr>"

text \<open>A stand-in hash for the witnesses: the length in unary, in hexadecimal digits.\<close>

definition toy_md5 :: "bytes \<Rightarrow> ustring" where
  "toy_md5 b = replicate (Suc (length b)) 97"

abbreviation no_write :: "ustring \<Rightarrow> snapshot \<Rightarrow> bool" where
  "no_write \<equiv> \<lambda>_ _. True"

definition put_on :: "memory_storage \<Rightarrow> ustring \<Rightarrow> bytes \<Rightarrow> memory_storage" where
  "put_on s key b = snd (storage_put toy_md5 no_write [] s key (plain_put b))"

definition limited_store :: "int \<Rightarrow> memory_storage" where
  "limited_store n = (new_storage small_config)\<lparr>ms_max_memory_bytes := n, ms_eviction_enabled := True\<rparr>"

lemmas store_eval = put_on_def small_config_def plain_put_def toy_md5_def limited_store_def new_storage_def
  nullish_def truthy_def storage_put_def validate_limits_def if_match_fails_def
  if_none_match_fails_def new_object_def evict_if_needed_def evict_key_def track_memory_def
  persisted_def Let_def

lemma limited_store_inv: "storage_inv toy_md5 (limited_store n)"
  by (simp add: storage_inv_def limited_store_def new_storage_def Let_def)

lemma put_on_inv: "storage_inv toy_md5 s \<Longrightarrow> storage_inv toy_md5 (put_on s k b)"
  unfolding put_on_def by (rule put_inv)

lemma fst_storage_get:
  "fst (storage_get s k) =
     (case stored s k of None \<Rightarrow> Inl (NoSuchKey k) | Some ob \<Rightarrow> Inr (object_response_of True ob))"
  by (simp add: storage_get_def split: option.splits)

lemma evicted_iff:
  assumes "distinct_keys m" "map_of m k \<noteq> None"
  shows "map_of (drop n m) k = None \<longleftrightarrow> k \<in> fst ` set (take n m)"
proof -
  have "distinct_keys (take n m @ drop n m)" using assms(1) by simp
  then have disj: "fst ` set (take n m) \<inter> fst ` set (drop n m) = {}"
    by (simp only: distinct_keys_append_iff)
  have "k \<in> fst ` set (take n m @ drop n m)" using assms(2) by (simp add: map_of_eq_None_iff)
  then have "k \<in> fst ` set (take n m) \<or> k \<in> fst ` set (drop n m)"
    by (simp only: set_append image_Un Un_iff)
  with disj show ?thesis by (auto simp: map_of_eq_None_iff)
qed

lemma if_match_none: "\<not> if_match_fails ob None" and if_none_match_none: "\<not> if_none_match_fails ob None"
  by (simp_all add: if_match_fails_def if_none_match_fails_def)

lemma if_none_match_any: "if_none_match_fails ob (Some [42]) \<longleftrightarrow> ob \<noteq> None"
  using if_none_match_star [of ob] by auto

text \<open>Snapshots: an object survives the round trip, and restoring rebuilds the map and its size.\<close>

lemma storage_object_inverse:
  "is_byte_list (so_body ob) \<Longrightarrow> storage_object_of (snapshot_object_of ob) = ob"
  by (simp add: storage_object_of_def snapshot_object_of_def b64.dec_enc)

lemma restore_fold_from:
  assumes "distinct_keys (acc @ map (\<lambda>(k, sn). (k, storage_object_of sn)) es)"
  shows "foldl (\<lambda>(m, n) (k, sob). (AList.update k (storage_object_of sob) m,
         n + int (length (so_body (storage_object_of sob))))) (acc, n) es
     = (acc @ map (\<lambda>(k, sn). (k, storage_object_of sn)) es,
        n + sum_entries (\<lambda>ob. int (length (so_body ob))) (map (\<lambda>(k, sn). (k, storage_object_of sn)) es))"
  using assms
proof (induction es arbitrary: acc n)
  case (Cons e es)
  obtain k sn where e: "e = (k, sn)" by (cases e)
  with Cons.prems have "k \<notin> fst ` set acc" by (auto simp: distinct_keys_append_iff)
  then have "AList.update k (storage_object_of sn) acc = acc @ [(k, storage_object_of sn)]"
    by (rule update_fresh)
  with Cons e show ?case by (simp add: Let_def)
qed simp

lemma restore_fold:
  assumes "distinct_keys (map (\<lambda>(k, sn). (k, storage_object_of sn)) es)"
    "\<forall>p \<in> set (map (\<lambda>(k, sn). (k, storage_object_of sn)) es).
       so_size (snd p) = int (length (so_body (snd p)))"
  shows "foldl (\<lambda>(m, n) (k, sob). (AList.update k (storage_object_of sob) m,
         n + int (length (so_body (storage_object_of sob))))) ([], 0) es
     = (map (\<lambda>(k, sn). (k, storage_object_of sn)) es,
        sum_entries so_size (map (\<lambda>(k, sn). (k, storage_object_of sn)) es))"
proof -
  have "sum_entries (\<lambda>ob. int (length (so_body ob))) obs = sum_entries so_size obs"
    if "\<forall>p \<in> set obs. so_size (snd p) = int (length (so_body (snd p)))" for obs
    using that by (induction obs) auto
  from this [OF assms(2)] restore_fold_from [of "[]" es 0] assms(1) show ?thesis
    by (simp only: append_Nil add_0)
qed

lemma restore_result:
  assumes "foldl (\<lambda>(m, n) (k, sob). (AList.update k (storage_object_of sob) m,
         n + int (length (so_body (storage_object_of sob))))) ([], 0) (sn_objects sn) = (obs, n)"
    "n \<le> ms_max_memory_bytes t"
  shows "restore t (Some sn) =
     (Inr (), t\<lparr>ms_objects := obs, ms_current_memory_bytes := n, ms_peak_memory_bytes := n\<rparr>)"
  using assms by (simp add: restore_def track_memory_def Let_def)

text \<open>What a successful put leaves for the key itself.\<close>

lemma put_get:
  assumes "storage_inv md5 s" "storage_put md5 write_file now s key p = (Inr r, s')"
  shows "fst (storage_get s' key) = Inr (object_response_of True (new_object md5 now p)) \<and>
    or_etag (object_response_of True (new_object md5 now p)) = pr_etag r"
proof -
  note put = storage_put_Inr [OF assms(2)]
  from put_after_state [OF storage_inv_distinct [OF assms(1)], of md5 now key p]
  obtain n where "put_after md5 now s key p = put_state md5 now s key p n" by blast
  with put show ?thesis
    by (simp add: fst_storage_get stored_put_state object_response_of_def)
qed

section \<open>Properties\<close>

text \<open>
  C2: Every store reached from a new one by any history of put, get, head, copy, delete, batch
  delete, clear and statistics resets, successful or failing, with or without eviction and
  auto-persistence, has one entry per key, and each entry's size and ETag are those of its body.
\<close>
theorem storage_history_inv:
  "storage_inv md5 (storage_run md5 write_file (new_storage c) calls)"
  by (intro run_inv conjunct1 [OF new_storage_inv])



text \<open>
  Memory accounting. Along any history of a store with eviction disabled, \<open>currentMemoryBytes\<close>
  is the number of bytes the stored bodies take.
\<close>
theorem memory_accounting_exact:
  assumes "sc_eviction_enabled c = Some False"
  shows "ms_current_memory_bytes (storage_run md5 write_file (new_storage c) calls) =
    sum_entries so_size (ms_objects (storage_run md5 write_file (new_storage c) calls))"
proof -
  have "\<not> ms_eviction_enabled (new_storage c)" using assms by (simp add: new_storage_def Let_def)
  from run_accounted [OF conjunct1 [OF new_storage_inv] conjunct2 [OF new_storage_inv] this]
  show ?thesis by (simp add: accounted_def)
qed

lemma memory_accounting_exact_witness:
  "ms_current_memory_bytes (storage_run toy_md5 no_write (new_storage small_config)
       [([], Put [97] (plain_put [1, 2])), ([], Delete [97])]) =
   sum_entries so_size (ms_objects (storage_run toy_md5 no_write (new_storage small_config)
       [([], Put [97] (plain_put [1, 2])), ([], Delete [97])]))"
  by (rule memory_accounting_exact) (simp add: small_config_def)

text \<open>
  Eviction on overwrite loses the accounting. Right after a successful put into an accounted
  store, the tracked total is the stored total, less the size of the old version of the key when the
  put itself evicted that version: the growth was computed before the eviction.
\<close>
theorem put_accounting:
  assumes "storage_inv md5 s" "accounted s" "storage_put md5 write_file now s key p = (Inr r, s')"
  shows "\<exists>n \<le> length (ms_objects s).
    (n = 0 \<or> ms_eviction_enabled s \<and> \<not> fits s (max 0 (put_delta s key p)) (n - 1)) \<and>
    ms_current_memory_bytes s' = sum_entries so_size (ms_objects s') -
      (case stored s key of
         None \<Rightarrow> 0 | Some e \<Rightarrow> if key \<in> fst ` set (take n (ms_objects s)) then so_size e else 0)"
proof -
  note d = storage_inv_distinct [OF assms(1)]
  from put_after_state [OF d, of md5 now key p] storage_put_Inr [OF assms(3)]
  obtain n where n: "n \<le> length (ms_objects s)" "s' = put_state md5 now s key p n"
    "\<forall>m < n. ms_eviction_enabled s \<and> \<not> fits s (max 0 (put_delta s key p)) m" by blast
  have gone: "stored (evicted_state s n) key = None \<longleftrightarrow> key \<in> fst ` set (take n (ms_objects s))"
    if "stored s key \<noteq> None" for key
    using that evicted_iff [OF d] by (simp add: evicted_state_def)
  show ?thesis
    using put_state_accounted [OF assms(1,2), of now key p n] n gone [of key]
    by (intro exI [of _ n]) (auto split: option.splits)
qed

lemma put_accounting_witness:
  "ms_current_memory_bytes (put_on (put_on (limited_store 4) [97] [1, 2, 3]) [97] [1, 2, 3, 4, 5]) = 2 \<and>
   sum_entries so_size (ms_objects (put_on (put_on (limited_store 4) [97] [1, 2, 3]) [97] [1, 2, 3, 4, 5])) = 5 \<and>
   (\<exists>n. (case stored (put_on (limited_store 4) [97] [1, 2, 3]) [97] of None \<Rightarrow> 0
      | Some e \<Rightarrow> if [97] \<in> fst ` set (take n (ms_objects (put_on (limited_store 4) [97] [1, 2, 3])))
                 then so_size e else 0) = (3::int))"
proof -
  let ?s = "put_on (limited_store 4) [97] [1, 2, 3]"
  have inv: "storage_inv toy_md5 ?s" "accounted ?s"
    by (simp_all add: storage_inv_def accounted_def object_ok_def distinct_keys_def store_eval)
  have val: "ms_current_memory_bytes (put_on ?s [97] [1, 2, 3, 4, 5]) = 2 \<and>
    sum_entries so_size (ms_objects (put_on ?s [97] [1, 2, 3, 4, 5])) = 5"
    by (simp add: store_eval)
  obtain r where "storage_put toy_md5 no_write [] ?s [97] (plain_put [1, 2, 3, 4, 5]) =
    (Inr r, put_on ?s [97] [1, 2, 3, 4, 5])"
    by (simp add: store_eval)
  from put_accounting [OF inv this] val show ?thesis by fastforce
qed

text \<open>
  C5: Eviction. A successful put of a new key into an accounted store removes exactly the \<open>n\<close> least
  recently used entries, for the least \<open>n\<close> that makes room; what is stored afterwards is at most the
  limit, or the new body alone when that is larger than the limit.
\<close>
theorem put_evicts_lru:
  assumes "storage_inv md5 s" "accounted s" "ms_eviction_enabled s" "stored s key = None"
    "storage_put md5 write_file now s key p = (Inr r, s')"
  shows "(\<exists>n \<le> length (ms_objects s).
      ms_objects s' = drop n (ms_objects s) @ [(key, new_object md5 now p)] \<and>
      ms_evictions s' = ms_evictions s + int n \<and>
      (\<forall>m < n. ms_max_memory_bytes s <
         sum_entries so_size (drop m (ms_objects s)) + int (length (to_buffer (pp_body p))))) \<and>
    sum_entries so_size (ms_objects s') \<le>
      max (ms_max_memory_bytes s) (int (length (to_buffer (pp_body p))))"
proof -
  note d = storage_inv_distinct [OF assms(1)]
  let ?z = "int (length (to_buffer (pp_body p)))"
  have delta: "max 0 (put_delta s key p) = ?z" using assms(4) by (simp add: put_delta_def)
  from put_after_state [OF d, of md5 now key p] storage_put_Inr [OF assms(5)] assms(3) delta
  obtain n where n: "n \<le> length (ms_objects s)" "s' = put_state md5 now s key p n"
    "n = length (ms_objects s) \<or> fits s ?z n" "\<forall>m < n. \<not> fits s ?z m" by auto
  have rest: "ms_current_memory_bytes s - sum_entries so_size (take m (ms_objects s)) =
      sum_entries so_size (drop m (ms_objects s))" for m
    using assms(2) sum_entries_simps(3) [of so_size "take m (ms_objects s)" "drop m (ms_objects s)"]
    by (simp add: accounted_def)
  have "key \<notin> fst ` set (drop n (ms_objects s))"
    using assms(4) by (auto simp: map_of_eq_None_iff dest: in_set_dropD)
  then have obs: "ms_objects s' = drop n (ms_objects s) @ [(key, new_object md5 now p)]"
    by (simp add: n(2) put_state_def evicted_state_def track_memory_def Let_def update_fresh)
  moreover have "ms_evictions s' = ms_evictions s + int n"
    by (simp add: n(2) put_state_def evicted_state_def track_memory_def Let_def)
  moreover have "\<forall>m < n. ms_max_memory_bytes s < sum_entries so_size (drop m (ms_objects s)) + ?z"
    using n(4) by (simp add: fits_def rest not_le)
  moreover have "sum_entries so_size (ms_objects s') \<le> max (ms_max_memory_bytes s) ?z"
    using n(3) by (auto simp: obs fits_def rest)
  ultimately show ?thesis using n(1) by blast
qed

lemma put_evicts_lru_witness:
  "sum_entries so_size (ms_objects (put_on (put_on (limited_store 4) [97] [1, 2, 3]) [98] [4, 5])) \<le> (4::int)"
proof -
  let ?s = "put_on (limited_store 4) [97] [1, 2, 3]"
  have inv: "storage_inv toy_md5 ?s" "accounted ?s" "ms_eviction_enabled ?s" "stored ?s [98] = None"
    "ms_max_memory_bytes ?s = 4"
    by (simp_all add: storage_inv_def accounted_def object_ok_def distinct_keys_def store_eval)
  obtain r where "storage_put toy_md5 no_write [] ?s [98] (plain_put [4, 5]) =
    (Inr r, put_on ?s [98] [4, 5])"
    by (simp add: store_eval)
  from put_evicts_lru [OF inv(1-4) this] inv(5) show ?thesis by (simp add: plain_put_def)
qed

text \<open>
  C4: Conditional writes. On a store that does not save to disk, a put within the limits with
  \<open>ifNoneMatch: '*'\<close> succeeds exactly when the key is absent, and one with \<open>ifMatch\<close> set to an ETag
  header the store produced succeeds exactly when the key is present with that ETag; a put that fails
  leaves the store as it was.
\<close>
theorem conditional_put:
  assumes "storage_inv md5 s" "\<not> ms_auto_persist s" "validate_limits s (pp_body p) (pp_metadata p) = None"
    "pp_if_match p = None \<and> pp_if_none_match p = Some (lit ''*'') \<and> ok = (stored s key = None) \<or>
     pp_if_match p = Some (format_etag e) \<and> pp_if_none_match p = None \<and> hex_etag e \<and>
       ok = (map_option so_etag (stored s key) = Some e)"
  shows "if ok then \<exists>r. storage_put md5 write_file now s key p = (Inr r, put_after md5 now s key p)
         else storage_put md5 write_file now s key p = (Inl (PreconditionFailed key), s)"
proof -
  have "put_checks s key p = (if ok then None else Some (PreconditionFailed key))"
    using assms(3,4)
    by (auto simp: put_checks_def if_match_format if_none_match_any if_match_none if_none_match_none)
  then show ?thesis
    using storage_put_no_persist [OF _ assms(2) storage_inv_distinct [OF assms(1)]]
      storage_put_rejected by (auto split: if_splits)
qed

lemma conditional_put_witness:
  "storage_put toy_md5 no_write [] (put_on (limited_store 10) [107] [1]) [107]
     ((plain_put [2])\<lparr>pp_if_none_match := Some (lit ''*'')\<rparr>)
   = (Inl (PreconditionFailed [107]), put_on (limited_store 10) [107] [1]) \<and>
   (\<exists>r. storage_put toy_md5 no_write [] (put_on (limited_store 10) [107] [1]) [107]
     ((plain_put [2])\<lparr>pp_if_match := Some (format_etag [97, 97])\<rparr>)
   = (Inr r, put_after toy_md5 [] (put_on (limited_store 10) [107] [1]) [107]
     ((plain_put [2])\<lparr>pp_if_match := Some (format_etag [97, 97])\<rparr>)))"
proof -
  let ?s = "put_on (limited_store 10) [107] [1]"
  have s: "storage_inv toy_md5 ?s" "\<not> ms_auto_persist ?s" "\<And>b m. validate_limits ?s b m = None"
    "map_option so_etag (stored ?s [107]) = Some [97, 97]" "stored ?s [107] \<noteq> None"
    by (simp_all add: storage_inv_def object_ok_def distinct_keys_def small_config_def store_eval)
  show ?thesis
    using conditional_put [OF s(1,2) s(3), where p = "(plain_put [2])\<lparr>pp_if_none_match := Some (lit ''*'')\<rparr>"
        and ok = False and key = "[107]" and e = "[97]"]
      conditional_put [OF s(1,2) s(3), where p = "(plain_put [2])\<lparr>pp_if_match := Some (format_etag [97, 97])\<rparr>"
        and ok = True and key = "[107]" and e = "[97, 97]"] s(4,5)
    by (simp add: plain_put_def hex_etag_def)
qed

text \<open>
  C6: Paging is complete. Following the continuation tokens of a listing without delimiter, from the
  first page on, delivers every key with the prefix once, in order, whatever the page size.
\<close>
theorem paging_complete:
  assumes "storage_inv md5 s"
    "\<forall>k \<in> fst ` set (ms_objects s). starts_with k (lp_prefix p) \<longrightarrow> well_formed k \<and> k \<noteq> []"
    "truthy (lp_delimiter p) = None" "0 < lp_max_keys p"
    "lp_token p = None" "lp_start_after p = None" "length (ms_objects s) < fuel"
  shows "list_pages fuel s p =
    Some (Inr (filter (\<lambda>k. starts_with k (lp_prefix p)) (sort (map fst (ms_objects s)))))"
proof -
  have start: "list_start p = Inr None" using assms(5,6) by (simp add: list_start_def truthy_def)
  have "length (matching_keys s (lp_prefix p)) \<le> length (ms_objects s)"
    using length_filter_le [of _ "get_keys s"] by (simp add: matching_keys_def get_keys_def)
  then have "list_pages fuel s p = Some (Inr (drop 0 (matching_keys s (lp_prefix p))))"
    using assms start
    by (intro list_pages_from [where start = None]) (auto simp: storage_inv_distinct list_keys_first set_matching_keys)
  then show ?thesis by (simp add: matching_keys_def get_keys_def)
qed

lemma paging_complete_witness:
  "list_pages 4 (put_on (put_on (put_on (limited_store 10) [99] []) [97] [1]) [98] [2])
     \<lparr>lp_prefix = [], lp_delimiter = None, lp_max_keys = 2, lp_token = None, lp_start_after = None\<rparr>
   = Some (Inr [[97], [98], [99]])"
proof -
  let ?s = "put_on (put_on (put_on (limited_store 10) [99] []) [97] [1]) [98] [2]"
  have s: "storage_inv toy_md5 ?s" "map fst (ms_objects ?s) = [[99], [97], [98]]"
    by (intro put_on_inv limited_store_inv, code_simp)
  then have ks: "fst ` set (ms_objects ?s) = {[99], [97], [98]}" "length (ms_objects ?s) = 3"
    using arg_cong [OF s(2), of set] arg_cong [OF s(2), of length] unfolding list.set_map length_map by simp_all
  let ?p = "\<lparr>lp_prefix = [], lp_delimiter = None, lp_max_keys = 2, lp_token = None,
    lp_start_after = None\<rparr> :: list_params"
  have "\<forall>k \<in> fst ` set (ms_objects ?s). starts_with k (lp_prefix ?p) \<longrightarrow> well_formed k \<and> k \<noteq> []"
    unfolding ks by (simp add: is_high_def is_low_def)
  moreover have "length (ms_objects ?s) < 4" unfolding ks by simp
  ultimately have "list_pages 4 ?s ?p =
      Some (Inr (filter (\<lambda>k. starts_with k (lp_prefix ?p)) (sort (map fst (ms_objects ?s)))))"
    using paging_complete [OF s(1), of ?p 4]
    by (simp only: truthy_def list_params.simps option.case refl simp_thms zero_less_numeral)
  then show ?thesis unfolding s(2) by (simp add: starts_with_def)
qed

text \<open>
  Paging with a delimiter repeats common prefixes. A page that ends inside a group of keys under
  one common prefix is followed by a page that lists the same common prefix again, since the
  token names the first key of the group.
\<close>
theorem delimiter_pages_repeat_prefix:
  "let s = put_on (put_on (limited_store 10) (lit ''a/1'') [1]) (lit ''a/2'') [2];
       p = \<lparr>lp_prefix = [], lp_delimiter = Some (lit ''/''), lp_max_keys = 1, lp_token = None,
            lp_start_after = None\<rparr>
   in case storage_list s p of
        Inl _ \<Rightarrow> False
      | Inr r1 \<Rightarrow>
          lr_is_truncated r1 \<and> lr_common_prefixes r1 = [lit ''a/''] \<and>
          (case storage_list s (p\<lparr>lp_token := lr_next_token r1\<rparr>) of
             Inl _ \<Rightarrow> False
           | Inr r2 \<Rightarrow> lr_common_prefixes r2 = [lit ''a/''])"
  by code_simp

text \<open>
  Snapshots. Restoring the snapshot of a store whose bodies are bytes and fit in the limit gives
  back every object under its key, whatever the store held before.
\<close>
theorem snapshot_restores:
  assumes "storage_inv md5 s" "\<forall>p \<in> set (ms_objects s). is_byte_list (so_body (snd p))"
    "sum_entries so_size (ms_objects s) \<le> ms_max_memory_bytes t"
  shows "fst (restore t (Some (snapshot_of now s))) = Inr () \<and>
    stored (snd (restore t (Some (snapshot_of now s)))) = stored s \<and>
    accounted (snd (restore t (Some (snapshot_of now s))))"
proof -
  note d = storage_inv_distinct [OF assms(1)]
  let ?es = "map (\<lambda>(k, ob). (k, snapshot_object_of ob)) (ms_objects s)"
  have d': "distinct_keys ?es" using d by (simp add: distinct_keys_def comp_def case_prod_beta)
  have ob: "\<forall>p \<in> set (obj_of ?es). \<exists>ob. snd p = snapshot_object_of ob \<and> (fst p, ob) \<in> set (ms_objects s)"
    unfolding set_obj_of [OF d'] by auto
  let ?obs = "map (\<lambda>(k, sn). (k, storage_object_of sn)) (obj_of ?es)"
  have inverse: "storage_object_of (snapshot_object_of ob) = ob"
    if "(k, ob) \<in> set (ms_objects s)" for k ob
    using that assms(2) by (intro storage_object_inverse) auto
  have "mset ?obs = mset (map (\<lambda>(k, sn). (k, storage_object_of sn)) ?es)"
    using mset_obj_of [OF d'] by (simp only: mset_map)
  also have "map (\<lambda>(k, sn). (k, storage_object_of sn)) ?es = ms_objects s"
    using inverse by (auto simp: comp_def case_prod_beta intro!: map_idI prod_eqI)
  finally have m: "mset ?obs = mset (ms_objects s)" .
  have dobs: "distinct_keys ?obs" unfolding distinct_keys_mset [OF m] by (rule d)
  have "set ?obs = set (ms_objects s)" using m by (metis set_mset_mset)
  moreover have "\<forall>p \<in> set (ms_objects s). so_size (snd p) = int (length (so_body (snd p)))"
    using assms(1) by (simp add: storage_inv_def object_ok_def)
  ultimately have ok: "\<forall>p \<in> set ?obs. so_size (snd p) = int (length (so_body (snd p)))"
    by (simp only:)
  have fold: "foldl (\<lambda>(m, n) (k, sob). (AList.update k (storage_object_of sob) m,
         n + int (length (so_body (storage_object_of sob))))) ([], 0) (obj_of ?es)
     = (?obs, sum_entries so_size ?obs)"
    by (rule restore_fold) (use dobs ok in auto)
  have sum: "sum_entries so_size ?obs = sum_entries so_size (ms_objects s)"
    by (rule sum_entries_mset) (rule m)
  have "restore t (Some (snapshot_of now s)) =
      (Inr (), t\<lparr>ms_objects := ?obs, ms_current_memory_bytes := sum_entries so_size ?obs,
                 ms_peak_memory_bytes := sum_entries so_size ?obs\<rparr>)"
    by (rule restore_result) (use fold sum assms(3) in \<open>simp_all only: snapshot_of_def snapshot.simps\<close>)
  then show ?thesis using map_of_mset [OF dobs m] by (simp add: accounted_def)
qed

lemma snapshot_restores_witness:
  "stored (snd (restore (limited_store 2) (Some (snapshot_of [] (put_on (limited_store 10) [97] [200, 7]))))) =
   stored (put_on (limited_store 10) [97] [200, 7])"
proof -
  have inv: "storage_inv toy_md5 (put_on (limited_store 10) [97] [200, 7])"
    by (intro put_on_inv limited_store_inv)
  have "\<forall>p \<in> set (ms_objects (put_on (limited_store 10) [97] [200, 7])). is_byte_list (so_body (snd p))"
    "sum_entries so_size (ms_objects (put_on (limited_store 10) [97] [200, 7])) \<le>
       ms_max_memory_bytes (limited_store 2)"
    by (simp_all add: store_eval is_byte_list_def)
  from snapshot_restores [OF inv this] show ?thesis by blast
qed

end
