(* ===== verification/Dictionary_Encoding.thy ===== *)
theory Dictionary_Encoding
  imports Js_Value "HOL-Library.Code_Target_Nat"
begin

text \<open>
  \<open>core/src/concerns/dictionary-encoding.ts\<close>: well-known values and URL prefixes are replaced by a
  two- or three-character code behind the tag \<open>d:\<close>.
\<close>

section \<open>The dictionaries\<close>

definition dict :: "(string \<times> string) list \<Rightarrow> (ustring \<times> ustring) list" where
  "dict es = map (\<lambda>(k, v). (lit k, lit v)) es"

definition content_type_dict :: "(ustring \<times> ustring) list" where
  "content_type_dict = dict [
     (''application/json'', ''j''), (''application/xml'', ''X''), (''application/ld+json'', ''J''),
     (''text/html'', ''H''), (''text/plain'', ''T''), (''text/css'', ''C''),
     (''text/javascript'', ''V''), (''text/csv'', ''v''), (''image/png'', ''P''),
     (''image/jpeg'', ''I''), (''image/gif'', ''G''), (''image/svg+xml'', ''S''),
     (''image/webp'', ''W''), (''application/pdf'', ''Q''), (''application/zip'', ''z''),
     (''application/octet-stream'', ''o''), (''application/x-www-form-urlencoded'', ''u''),
     (''multipart/form-data'', ''F''), (''font/woff'', ''w''), (''font/woff2'', ''f'')]"

definition url_prefix_dict :: "(ustring \<times> ustring) list" where
  "url_prefix_dict = dict [
     (''/api/v1/'', ''@1''), (''/api/v2/'', ''@2''), (''/api/v3/'', ''@3''), (''/api/'', ''@a''),
     (''https://api.example.com/'', ''@A''), (''https://api.'', ''@H''), (''https://www.'', ''@W''),
     (''https://'', ''@h''), (''http://'', ''@t''), (''https://s3.amazonaws.com/'', ''@s''),
     (''https://s3-'', ''@S''), (''http://localhost:'', ''@L''), (''http://localhost'', ''@l''),
     (''/v1/'', ''@v''), (''/users/'', ''@u''), (''/products/'', ''@p'')]"

definition status_message_dict :: "(ustring \<times> ustring) list" where
  "status_message_dict = dict [
     (''processing'', ''p''), (''completed'', ''c''), (''succeeded'', ''s''), (''failed'', ''f''),
     (''cancelled'', ''x''), (''timeout'', ''t''), (''retrying'', ''r''), (''authorized'', ''a''),
     (''captured'', ''K''), (''refunded'', ''R''), (''declined'', ''d''), (''shipped'', ''h''),
     (''delivered'', ''D''), (''returned'', ''e''), (''in_transit'', ''i''),
     (''initialized'', ''n''), (''terminated'', ''m'')]"

definition reverse_dict :: "(ustring \<times> ustring) list \<Rightarrow> (ustring \<times> ustring) list" where
  "reverse_dict d = obj_of (map (\<lambda>(k, v). (v, k)) d)"

definition combined_dict :: "(ustring \<times> ustring) list" where
  "combined_dict = obj_of (content_type_dict @ status_message_dict)"

definition combined_reverse :: "(ustring \<times> ustring) list" where
  "combined_reverse = obj_of (reverse_dict content_type_dict @ reverse_dict status_message_dict)"

text \<open>
  A property read \<open>d[val]\<close> of a plain object finds an own entry or a member of
  \<open>Object.prototype\<close>: a native function, whose text is the parameter \<open>native_text\<close> and whose
  \<open>length\<close> is its number of parameters, or \<open>__proto__\<close>, the prototype object, which has no
  \<open>length\<close>.
\<close>

datatype dict_member = Own ustring | NativeFunction ustring nat | PrototypeObject

definition native_arity :: "(ustring \<times> nat) list" where
  "native_arity = map (\<lambda>(k, n). (lit k, n))
     [(''constructor'', 1), (''__defineGetter__'', 2), (''__defineSetter__'', 2),
      (''hasOwnProperty'', 1), (''__lookupGetter__'', 1), (''__lookupSetter__'', 1),
      (''isPrototypeOf'', 1), (''propertyIsEnumerable'', 1), (''toString'', 0), (''valueOf'', 0),
      (''toLocaleString'', 0)]"

definition dict_get :: "(ustring \<times> ustring) list \<Rightarrow> ustring \<Rightarrow> dict_member option" where
  "dict_get d val =
     (case map_of d val of
        Some v \<Rightarrow> Some (Own v)
      | None \<Rightarrow>
          if val = lit ''__proto__'' then Some PrototypeObject
          else map_option (NativeFunction val) (map_of native_arity val))"

fun member_text :: "(ustring \<Rightarrow> ustring) \<Rightarrow> dict_member \<Rightarrow> ustring" where
  "member_text native_text (Own v) = v"
| "member_text native_text (NativeFunction name n) = native_text name"
| "member_text native_text PrototypeObject = lit ''[object Object]''"

text \<open>\<open>None\<close> is \<open>undefined\<close>, which makes every sum with it \<open>NaN\<close>.\<close>

fun member_length :: "dict_member \<Rightarrow> int option" where
  "member_length (Own v) = Some (int (length v))"
| "member_length (NativeFunction name n) = Some (int n)"
| "member_length PrototypeObject = None"

section \<open>Encoding and decoding\<close>

datatype dictionary_type = Exact | Prefix

record dictionary_result =
  dr_encoded :: ustring
  dr_original_length :: int
  dr_encoded_length :: "int option"
  dr_type :: dictionary_type
  dr_savings :: "int option"
  dr_prefix :: "ustring option"
  dr_remainder :: "ustring option"

definition sorted_prefixes :: "(ustring \<times> ustring) list" where
  "sorted_prefixes = sort_key (\<lambda>(p, _). - int (length p)) url_prefix_dict"

text \<open>The two tables as they are once built; evaluation uses these.\<close>

lemma combined_dict_code [code]: "combined_dict = content_type_dict @ status_message_dict"
  by code_simp

lemma sorted_prefixes_code [code]:
  "sorted_prefixes = dict [
     (''https://s3.amazonaws.com/'', ''@s''), (''https://api.example.com/'', ''@A''),
     (''http://localhost:'', ''@L''), (''http://localhost'', ''@l''), (''https://api.'',
     ''@H''), (''https://www.'', ''@W''), (''https://s3-'', ''@S''), (''/products/'',
     ''@p''), (''/api/v1/'', ''@1''), (''/api/v2/'', ''@2''), (''/api/v3/'', ''@3''),
     (''https://'', ''@h''), (''http://'', ''@t''), (''/users/'', ''@u''), (''/api/'',
     ''@a''), (''/v1/'', ''@v'')]"
  by code_simp

fun first_prefix :: "ustring \<Rightarrow> (ustring \<times> ustring) list \<Rightarrow> (ustring \<times> ustring) option" where
  "first_prefix val [] = None"
| "first_prefix val ((p, code) # ps) =
     (if starts_with val p then Some (p, code) else first_prefix val ps)"

text \<open>A truthy entry is an own non-empty string or an inherited member.\<close>

definition truthy_member :: "dict_member option \<Rightarrow> dict_member option" where
  "truthy_member m = (if m = Some (Own []) then None else m)"

definition dictionary_encode :: "(ustring \<Rightarrow> ustring) \<Rightarrow> ustring \<Rightarrow> dictionary_result option" where
  "dictionary_encode native_text val =
     (if val = [] then None
      else case truthy_member (dict_get combined_dict val) of
        Some m \<Rightarrow>
          let encodedLength = map_option (\<lambda>n. 2 + n) (member_length m)
          in Some \<lparr>dr_encoded = lit ''d:'' @ member_text native_text m,
                   dr_original_length = int (length val), dr_encoded_length = encodedLength,
                   dr_type = Exact,
                   dr_savings = map_option (\<lambda>n. int (length val) - n) encodedLength,
                   dr_prefix = None, dr_remainder = None\<rparr>
      | None \<Rightarrow>
          map_option (\<lambda>(prefix, code).
             let remainder = drop (length prefix) val;
                 encoded = lit ''d:'' @ code @ remainder
             in \<lparr>dr_encoded = encoded, dr_original_length = int (length val),
                 dr_encoded_length = Some (int (length encoded)), dr_type = Prefix,
                 dr_savings = Some (int (length val) - int (length encoded)),
                 dr_prefix = Some prefix, dr_remainder = Some remainder\<rparr>)
            (first_prefix val sorted_prefixes))"

definition dictionary_decode :: "(ustring \<Rightarrow> ustring) \<Rightarrow> ustring \<Rightarrow> ustring option" where
  "dictionary_decode native_text encoded =
     (if \<not> starts_with encoded (lit ''d:'') then None
      else
        let payload = drop 2 encoded
        in if payload = [] then None
           else case (if length payload = 1 then truthy_member (dict_get combined_reverse payload)
                      else None) of
             Some m \<Rightarrow> Some (member_text native_text m)
           | None \<Rightarrow>
               if starts_with payload (lit ''@'') then
                 map_option (\<lambda>m. member_text native_text m @ drop 2 payload)
                   (truthy_member (dict_get (reverse_dict url_prefix_dict) (take 2 payload)))
               else None)"

record compression_stats =
  cs_compressible :: bool
  cs_original :: int
  cs_encoded :: "int option"
  cs_savings :: "int option"

text \<open>The ratio and the percentage, which only restate the lengths in floating point, are left out.\<close>

definition calculate_dictionary_compression :: "(ustring \<Rightarrow> ustring) \<Rightarrow> ustring \<Rightarrow> compression_stats" where
  "calculate_dictionary_compression native_text val =
     (case dictionary_encode native_text val of
        None \<Rightarrow> \<lparr>cs_compressible = False, cs_original = int (length val),
                 cs_encoded = Some (int (length val)), cs_savings = Some 0\<rparr>
      | Some r \<Rightarrow> \<lparr>cs_compressible = True, cs_original = dr_original_length r,
                   cs_encoded = dr_encoded_length r, cs_savings = dr_savings r\<rparr>)"

section \<open>Round trip\<close>

text \<open>Every code leads back to its value, but for \<open>f\<close>, which two dictionaries use.\<close>

definition own_value :: "ustring \<Rightarrow> bool" where
  "own_value val \<longleftrightarrow> val \<noteq> lit ''__proto__'' \<and> map_of native_arity val = None"

lemma map_of_combined: "map_of combined_dict = map_of content_type_dict ++ map_of status_message_dict"
proof -
  have "distinct_keys content_type_dict" "distinct_keys status_message_dict"
    unfolding distinct_keys_def by code_simp+
  then show ?thesis
    by (simp add: combined_dict_def map_of_obj_of_rev map_add_def map_of_rev fun_eq_iff map_of_append)
qed

lemma map_of_combined_reverse:
  "map_of combined_reverse = map_of (rev (map (\<lambda>(k, v). (v, k)) content_type_dict)) ++
     map_of (rev (map (\<lambda>(k, v). (v, k)) status_message_dict))"
  by (simp add: combined_reverse_def reverse_dict_def map_of_obj_of_rev [of "_ @ _"] map_of_append
      map_of_rev map_of_obj_of_rev)

lemma combined_codes:
  assumes "map_of combined_dict k = Some v" "k \<noteq> lit ''font/woff2''"
  shows "length v = 1 \<and> map_of combined_reverse v = Some k \<and> k \<noteq> []"
proof -
  have "\<forall>(k, v) \<in> set (content_type_dict @ status_message_dict). k \<noteq> lit ''font/woff2'' \<longrightarrow>
     length v = 1 \<and> k \<noteq> [] \<and>
     (case map_of (rev (map (\<lambda>(k, v). (v, k)) status_message_dict)) v of
        Some k' \<Rightarrow> k' = k | None \<Rightarrow> map_of (rev (map (\<lambda>(k, v). (v, k)) content_type_dict)) v = Some k)"
    by code_simp
  from bspec [OF this, of "(k, v)"] have "(k, v) \<in> set (content_type_dict @ status_message_dict) \<Longrightarrow>
     length v = 1 \<and> k \<noteq> [] \<and> map_of combined_reverse v = Some k"
    using assms(2) by (simp add: map_of_combined_reverse map_add_def split: option.splits)
  moreover have "(k, v) \<in> set (content_type_dict @ status_message_dict)"
    using assms(1) by (auto simp: map_of_combined map_add_def dest: map_of_SomeD split: option.splits)
  ultimately show ?thesis by blast
qed

lemma prefix_codes:
  "\<forall>(p, c) \<in> set sorted_prefixes.
     length c = 2 \<and> hd c = 64 \<and> map_of (reverse_dict url_prefix_dict) c = Some p \<and> p \<noteq> []"
  by code_simp

lemma first_prefix_Some:
  "first_prefix val ps = Some (p, c) \<Longrightarrow> (p, c) \<in> set ps \<and> starts_with val p"
  by (induction val ps rule: first_prefix.induct) (auto split: if_splits)

lemma dict_get_own: "own_value val \<Longrightarrow> dict_get d val = map_option Own (map_of d val)"
  by (auto simp: dict_get_def own_value_def split: option.splits)

lemma dictionary_roundtrip:
  assumes "own_value val" "val \<noteq> lit ''font/woff2''" "dictionary_encode native_text val = Some r"
  shows "dictionary_decode native_text (dr_encoded r) = Some val"
proof (cases "map_of combined_dict val")
  case (Some v)
  from combined_codes [OF Some assms(2)]
  have v: "length v = 1" "map_of combined_reverse v = Some val" "val \<noteq> []" by simp_all
  then have "dr_encoded r = lit ''d:'' @ v"
    using assms Some by (cases "v = []") (auto simp: dictionary_encode_def dict_get_own truthy_member_def Let_def)
  with v show ?thesis
    by (auto simp: dictionary_decode_def starts_with_def dict_get_def truthy_member_def Let_def)
next
  case None
  with assms obtain p c where pc: "first_prefix val sorted_prefixes = Some (p, c)"
    and r: "dr_encoded r = lit ''d:'' @ c @ drop (length p) val"
    by (auto simp: dictionary_encode_def dict_get_own truthy_member_def Let_def split: if_splits)
  from first_prefix_Some [OF pc] prefix_codes
  have c: "length c = 2" "hd c = 64" "map_of (reverse_dict url_prefix_dict) c = Some p" "p \<noteq> []"
    and "starts_with val p" by auto
  then obtain us where us: "val = p @ us" by (auto simp: starts_with_iff)
  from c(1) obtain x y where "c = [x, y]" by (auto simp: length_Suc_conv numeral_2_eq_2)
  with r c us show ?thesis
    by (simp add: dictionary_decode_def starts_with_def dict_get_def truthy_member_def Let_def)
qed

end
