(* ===== verification/Text_Compression.thy ===== *)
theory Text_Compression
  imports Text_Encoding "HOL-Library.Word" "HOL-Library.Code_Target_Nat"
begin

unbundle bit_operations_syntax

text \<open>
  \<open>core/src/concerns/text-compression.ts\<close>: the base-85 codec and the prefix-tagged text compression.
  Node's raw deflate and inflate are parameters; \<open>inflate\<close> returns \<open>None\<close> where it throws.
\<close>

section \<open>Base 85\<close>

definition base85_alphabet :: ustring where
  "base85_alphabet = lit ''!#$%&()*+,-./0123456789:;<=>?@ABCDEFGHIJKLMNOPQRSTUVWXYZ[]^_abcdefghijklmnopqrstuvwxyz{|}~''"

definition base85_char :: "nat \<Rightarrow> nat" where
  "base85_char v = base85_alphabet ! v"

text \<open>
  \<open>BASE85_DECODE_MAP\<close> is a zeroed byte array of 128 entries: a character outside the alphabet counts
  as zero, and one past the array is \<open>undefined\<close>, which makes the group's value \<open>NaN\<close> (\<open>None\<close>).
\<close>

definition base85_value :: "nat \<Rightarrow> nat option" where
  "base85_value u =
     (if u < 128 then Some (case index_of base85_alphabet [u] of None \<Rightarrow> 0 | Some i \<Rightarrow> i) else None)"

fun base85_digits :: "nat \<Rightarrow> nat \<Rightarrow> ustring \<Rightarrow> ustring" where
  "base85_digits 0 val grp = grp"
| "base85_digits (Suc j) val grp = base85_digits j (val div 85) (base85_char (val mod 85) # grp)"

definition pack_word :: "nat \<Rightarrow> nat \<Rightarrow> nat \<Rightarrow> nat \<Rightarrow> nat" where
  "pack_word a b c d =
     unat (((push_bit 24 (of_nat a :: 32 word) OR push_bit 16 (of_nat b)) OR push_bit 8 (of_nat c))
       OR of_nat d)"

text \<open>The last one to three bytes: the value is padded with zero bytes, one more digit than bytes is kept.\<close>

definition encode_tail :: "bytes \<Rightarrow> ustring" where
  "encode_tail bs =
     (let val = foldl (\<lambda>val b. val * 256 + b) 0 bs;
          val = ((\<lambda>val. val * 256) ^^ (4 - length bs)) val
      in take (length bs + 1) (base85_digits 5 val []))"

fun encode_base85 :: "bytes \<Rightarrow> ustring" where
  "encode_base85 [] = []"
| "encode_base85 (a # b # c # d # bs) = base85_digits 5 (pack_word a b c d) [] @ encode_base85 bs"
| "encode_base85 bs = encode_tail bs"

text \<open>A group's value; \<open>None\<close> is \<open>NaN\<close>, which no multiplication or addition leaves.\<close>

definition group_value :: "ustring \<Rightarrow> nat option" where
  "group_value us =
     foldl (\<lambda>val u. case (val, base85_value u) of (Some v, Some d) \<Rightarrow> Some (v * 85 + d) | _ \<Rightarrow> None)
       (Some 0) us"

text \<open>The conversion to a 32-bit integer before a shift, which takes \<open>NaN\<close> to zero.\<close>

definition to_uint32 :: "nat option \<Rightarrow> 32 word" where
  "to_uint32 v = (case v of None \<Rightarrow> 0 | Some n \<Rightarrow> of_nat n)"

definition unpack_byte :: "nat option \<Rightarrow> nat \<Rightarrow> nat" where
  "unpack_byte val shift = unat (drop_bit shift (to_uint32 val) AND 255)"

definition decode_tail :: "ustring \<Rightarrow> bytes" where
  "decode_tail us =
     (let val = group_value us;
          val = ((\<lambda>val. case val of None \<Rightarrow> None | Some v \<Rightarrow> Some (v * 85 + 84)) ^^ (5 - length us)) val
      in map (\<lambda>i. unpack_byte val (24 - i * 8)) [0..<length us - 1])"

fun decode_base85 :: "ustring \<Rightarrow> bytes" where
  "decode_base85 [] = []"
| "decode_base85 (p # q # r # s # t # us) =
     (let val = group_value [p, q, r, s, t]
      in unpack_byte val 24 # unpack_byte val 16 # unpack_byte val 8 # unpack_byte val 0
         # decode_base85 us)"
| "decode_base85 us = decode_tail us"

section \<open>Compression\<close>

datatype text_encoding = Base64 | Base85

record compression_options =
  co_threshold :: "int option"
  co_encoding :: "text_encoding option"

definition compress_text :: "(bytes \<Rightarrow> bytes) \<Rightarrow> ustring \<Rightarrow> compression_options \<Rightarrow> ustring" where
  "compress_text deflate v opts =
     (if v = [] then v
      else
        let threshold = (case co_threshold opts of None \<Rightarrow> 100 | Some t \<Rightarrow> t);
            encoding = (case co_encoding opts of None \<Rightarrow> Base64 | Some e \<Rightarrow> e);
            buf = utf8_encode v
        in if int (length buf) < threshold then v
           else
             let compressed = deflate buf;
                 encoded = (case encoding of
                    Base85 \<Rightarrow> lit ''z85:'' @ encode_base85 compressed
                  | Base64 \<Rightarrow> lit ''z:'' @ b64_encode compressed)
             in if length encoded \<ge> length buf then v else encoded)"

text \<open>\<open>None\<close> is the exception \<open>inflateRawSync\<close> throws.\<close>

definition decompress_text :: "(bytes \<Rightarrow> bytes option) \<Rightarrow> ustring \<Rightarrow> ustring option" where
  "decompress_text inflate encoded =
     (if starts_with encoded (lit ''z85:'') then
        let payload = drop 4 encoded
        in if payload = [] then Some [] else map_option utf8_decode (inflate (decode_base85 payload))
      else if starts_with encoded (lit ''z:'') then
        let payload = drop 2 encoded
        in if payload = [] then Some [] else map_option utf8_decode (inflate (b64_decode payload))
      else Some encoded)"

section \<open>The base-85 round trip\<close>

lemma alphabet_facts:
  "length base85_alphabet = 90" "distinct base85_alphabet" "\<forall>u \<in> set base85_alphabet. u < 128"
  unfolding base85_alphabet_def by code_simp+

lemma index_of_nth: "distinct us \<Longrightarrow> i < length us \<Longrightarrow> index_of us [us ! i] = Some i"
proof (induction us arbitrary: i)
  case (Cons u us)
  show ?case
  proof (cases i)
    case (Suc k)
    with Cons.prems have "us ! k \<noteq> u" by (metis distinct.simps(2) length_Cons not_less_eq nth_mem)
    with Suc Cons index_of.simps [of "u # us"] show ?thesis by (simp add: starts_with_def)
  qed (simp add: starts_with_def index_of.simps [of "u # us"])
qed simp

lemma base85_value_char: "v < 85 \<Longrightarrow> base85_value (base85_char v) = Some v"
  using alphabet_facts by (simp add: base85_value_def base85_char_def index_of_nth)

lemma base85_digits_5:
  "base85_digits 5 val [] = map base85_char
     [val div 52200625 mod 85, val div 614125 mod 85, val div 7225 mod 85, val div 85 mod 85, val mod 85]"
proof -
  have five: "(5 :: nat) = Suc (Suc (Suc (Suc (Suc 0))))" by simp
  show ?thesis unfolding five by (simp add: div_mult2_eq [symmetric])
qed

lemma nat_or_shift: "y < 2 ^ n \<Longrightarrow> push_bit n z OR y = push_bit n z + (y :: nat)"
proof -
  assume y: "y < 2 ^ n"
  then have "take_bit n (int y) = int y" by (simp add: take_bit_int_eq_self)
  then have "int (push_bit n z OR y) = int (push_bit n z + y)"
    using concat_bit_eq [of n "int y" "int z"]
    by (simp add: of_nat_or_eq of_nat_push_bit concat_bit_def or.commute add.commute)
  then show ?thesis by (simp only: of_nat_eq_iff)
qed

lemma pack_word_value:
  assumes "a < 256" "b < 256" "c < 256" "d < 256"
  shows "pack_word a b c d = ((a * 256 + b) * 256 + c) * 256 + d"
proof -
  have u: "unat (push_bit n (of_nat x :: 32 word)) = push_bit n x" if "x < 256" "n \<le> 24" for x n
  proof -
    have "x * 2 ^ n < 256 * 2 ^ n" using that(1) by simp
    also have "\<dots> \<le> 256 * (2 ^ 24 :: nat)" using that(2) by (intro mult_left_mono power_increasing) simp_all
    finally have "x * 2 ^ n < 2 ^ 32" by simp
    then have "unat (of_nat (x * 2 ^ n) :: 32 word) = x * 2 ^ n" unfolding unat_of_nat by simp
    then show ?thesis by (simp add: push_bit_eq_mult)
  qed
  have v: "unat (of_nat d :: 32 word) = d" using assms(4) by (simp add: unat_of_nat)
  have "pack_word a b c d = ((push_bit 24 a OR push_bit 16 b) OR push_bit 8 c) OR d"
    using u assms by (simp add: pack_word_def unsigned_or_eq v)
  also have "push_bit 24 a OR push_bit 16 b = push_bit 16 (a * 256 + b)"
    using assms(2) nat_or_shift [of "push_bit 16 b" 24 a] by (simp add: push_bit_eq_mult)
  also have "push_bit 16 (a * 256 + b) OR push_bit 8 c = push_bit 8 ((a * 256 + b) * 256 + c)"
    using assms(3) nat_or_shift [of "push_bit 8 c" 16 "a * 256 + b"] by (simp add: push_bit_eq_mult)
  also have "push_bit 8 ((a * 256 + b) * 256 + c) OR d = ((a * 256 + b) * 256 + c) * 256 + d"
    using assms(4) nat_or_shift [of d 8 "(a * 256 + b) * 256 + c"] by (simp add: push_bit_eq_mult)
  finally show ?thesis .
qed

lemma unpack_byte_Some: "y < 2 ^ 32 \<Longrightarrow> unpack_byte (Some y) n = y div 2 ^ n mod 256"
proof -
  assume "y < 2 ^ 32"
  then have y: "unat (of_nat y :: 32 word) = y" by (simp add: unat_of_nat)
  have m: "(255 :: 32 word) = mask 8" by (simp add: mask_eq_exp_minus_1)
  show ?thesis
    unfolding unpack_byte_def to_uint32_def option.case m
    by (simp only: take_bit_eq_mask [symmetric] unsigned_take_bit_eq unat_drop_bit_eq y)
      (simp add: take_bit_eq_mod drop_bit_eq_div)
qed

lemma group_value_chars:
  "\<forall>d \<in> set ds. d < 85 \<Longrightarrow>
     group_value (map base85_char ds) = Some (foldl (\<lambda>v d. v * 85 + d) 0 ds)"
proof -
  have "foldl (\<lambda>val u. case (val, base85_value u) of (Some v, Some d) \<Rightarrow> Some (v * 85 + d) | _ \<Rightarrow> None)
       (Some n) (map base85_char ds) = Some (foldl (\<lambda>v d. v * 85 + d) n ds)"
    if "\<forall>d \<in> set ds. d < 85" for n ds
    using that by (induction ds arbitrary: n) (simp_all add: base85_value_char)
  then show "\<forall>d \<in> set ds. d < 85 \<Longrightarrow> ?thesis" by (simp add: group_value_def)
qed

lemma split_256:
  assumes "a < 256" "b < 256" "c < 256" "d < (256 :: nat)"
    "v = ((a * 256 + b) * 256 + c) * 256 + d"
  shows "v < 2 ^ 32" "v div 2 ^ 24 mod 256 = a" "v div 2 ^ 16 mod 256 = b"
    "v div 2 ^ 8 mod 256 = c" "v div 2 ^ 0 mod 256 = d"
proof -
  have v: "v = d + 256 * (c + 256 * (b + 256 * a))" using assms(5) by (simp add: algebra_simps)
  show "v div 2 ^ 0 mod 256 = d"
    using assms(4) unfolding v power_0 div_by_1 mod_mult_self2 by simp
  have c: "v div 2 ^ 8 = c + 256 * (b + 256 * a)" using assms(4) by (simp add: v)
  show "v div 2 ^ 8 mod 256 = c" using assms(3) unfolding c mod_mult_self2 by simp
  have "v div 2 ^ 16 = (c + 256 * (b + 256 * a)) div 256"
    unfolding c [symmetric] by (simp add: div_mult2_eq [symmetric])
  also have "\<dots> = b + 256 * a" using assms(3) by (subst div_mult_self2) simp_all
  finally have b: "v div 2 ^ 16 = b + 256 * a" .
  show "v div 2 ^ 16 mod 256 = b" using assms(2) unfolding b mod_mult_self2 by simp
  have "v div 2 ^ 24 = (b + 256 * a) div 256"
    unfolding b [symmetric] by (simp add: div_mult2_eq [symmetric])
  also have "\<dots> = a" using assms(2) by (subst div_mult_self2) simp_all
  finally show "v div 2 ^ 24 mod 256 = a" using assms(1) by simp
  show "v < 2 ^ 32" using assms by simp
qed

lemma split_85:
  "val < 85 ^ 5 \<Longrightarrow> val div 52200625 mod 85 * 85 + val div 614125 mod 85 = (val div 614125 :: nat)"
  "val div 614125 * 85 + val div 7225 mod 85 = (val div 7225 :: nat)"
  "val div 7225 * 85 + val div 85 mod 85 = (val div 85 :: nat)"
  "val div 85 * 85 + val mod 85 = (val :: nat)"
proof -
  have d: "val div 614125 div 85 = val div 52200625" "val div 7225 div 85 = val div 614125"
    "val div 85 div 85 = val div 7225" by (simp_all add: div_mult2_eq [symmetric])
  show "val < 85 ^ 5 \<Longrightarrow> val div 52200625 mod 85 * 85 + val div 614125 mod 85 = val div 614125"
    using div_mult_mod_eq [of "val div 614125" 85] unfolding d by simp
  show "val div 614125 * 85 + val div 7225 mod 85 = val div 7225"
    using div_mult_mod_eq [of "val div 7225" 85] unfolding d by simp
  show "val div 7225 * 85 + val div 85 mod 85 = val div 85"
    using div_mult_mod_eq [of "val div 85" 85] unfolding d by simp
  show "val div 85 * 85 + val mod 85 = val" by (rule div_mult_mod_eq)
qed

text \<open>A full group.\<close>

lemma decode_group:
  assumes "a < 256" "b < 256" "c < 256" "d < 256"
  shows "decode_base85 (base85_digits 5 (pack_word a b c d) [] @ us) =
     a # b # c # d # decode_base85 us"
proof -
  define v where "v = ((a * 256 + b) * 256 + c) * 256 + d"
  note sp = split_256 [OF assms v_def]
  have v85: "v < 85 ^ 5" using sp(1) by simp
  have "group_value (base85_digits 5 v []) = Some v"
    unfolding base85_digits_5
    by (subst group_value_chars) (simp, simp only: foldl_Cons foldl_Nil mult_0 add_0 split_85(1) [OF v85] split_85(2-4))
  then show ?thesis
    unfolding pack_word_value [OF assms] v_def [symmetric] base85_digits_5
    by (simp add: unpack_byte_Some [OF sp(1)] sp(2-5) [simplified] Let_def)
qed

text \<open>
  The tail: the dropped digits are read back as the largest ones, which can only raise the value
  within its zero padding, so the leading bytes are unchanged.
\<close>

lemma round_up_85:
  assumes "85 ^ w \<le> (P :: nat)"
  shows "((x * P) div 85 ^ w * 85 ^ w + (85 ^ w - 1)) div P = x" (is "?y div P = x")
proof (cases "P = 0")
  case False
  let ?B = "(85 :: nat) ^ w"
  have B: "0 < ?B" by simp
  have "x * P \<le> ?y"
    using div_mult_mod_eq [of "x * P" ?B] mod_less_divisor [OF B, of "x * P"] by linarith
  moreover have "?y < x * P + P"
    using div_mult_mod_eq [of "x * P" ?B] assms B by linarith
  ultimately show ?thesis
    by (metis False add.commute div_nat_eqI mult.commute mult_Suc_right)
qed (use assms in simp)

lemma group_value_take:
  assumes "v < 85 ^ 5" "w \<in> {1, 2, 3}"
  shows "group_value (take (5 - w) (base85_digits 5 v [])) = Some (v div 85 ^ w)"
proof -
  have "take (5 - w) (base85_digits 5 v []) = map base85_char (take (5 - w)
     [v div 52200625 mod 85, v div 614125 mod 85, v div 7225 mod 85, v div 85 mod 85, v mod 85])"
    by (simp only: base85_digits_5 take_map)
  moreover have "\<forall>d \<in> set (take (5 - w)
     [v div 52200625 mod 85, v div 614125 mod 85, v div 7225 mod 85, v div 85 mod 85, v mod 85]). d < 85"
    by (rule ballI, drule in_set_takeD) auto
  moreover have "foldl (\<lambda>v d. v * 85 + d) 0 (take (5 - w)
     [v div 52200625 mod 85, v div 614125 mod 85, v div 7225 mod 85, v div 85 mod 85, v mod 85])
     = v div 85 ^ w"
  proof -
    have t: "take (5 - 1) [a, b, c, d, e] = [a, b, c, d]" "take (5 - 2) [a, b, c, d, e] = [a, b, c]"
      "take (5 - 3) [a, b, c, d, e] = [a, b]" for a b c d e :: nat by simp_all
    have p: "(85 :: nat) ^ 1 = 85" "(85 :: nat) ^ 2 = 7225" "(85 :: nat) ^ 3 = 614125" by simp_all
    show ?thesis
      using assms(2) by (elim insertE emptyE; simp only: t p)
        (simp_all only: foldl_Cons foldl_Nil mult_0 add_0 split_85(1) [OF assms(1)] split_85(2-3))
  qed
  ultimately show ?thesis by (simp only: group_value_chars)
qed

lemma pad_digits:
  "((\<lambda>val. case val of None \<Rightarrow> None | Some v \<Rightarrow> Some (v * 85 + 84)) ^^ w) (Some n) =
     Some (n * 85 ^ w + (85 ^ w - 1 :: nat))"
proof (induction w)
  case (Suc w)
  have "0 < (85 :: nat) ^ w" by simp
  then have "(n * 85 ^ w + (85 ^ w - 1)) * 85 + 84 = n * 85 ^ Suc w + (85 ^ Suc w - 1)"
    by (cases "(85 :: nat) ^ w") (simp_all add: algebra_simps)
  then show ?case by (simp only: funpow.simps comp_apply Suc.IH option.case)
qed simp

lemma pad_zero: "((\<lambda>val. val * 256) ^^ w) x = x * (256 ^ w :: nat)"
  by (induction w) simp_all

lemma decode_encode_tail:
  assumes "is_byte_list bs" "bs \<noteq> []" "length bs \<le> 3"
  shows "decode_base85 (encode_tail bs) = bs"
proof -
  define w where "w = 4 - length bs"
  define x where "x = foldl (\<lambda>v b. v * 256 + b) 0 bs"
  define y where "y = (x * 256 ^ w) div 85 ^ w * 85 ^ w + (85 ^ w - 1)"
  have r: "length bs \<in> {1, 2, 3}" using assms(2,3) length_0_conv [of bs]
    by (simp; linarith)
  then have w: "w \<in> {1, 2, 3}" "5 - w = length bs + 1" "5 - (length bs + 1) = w" by (auto simp: w_def)
  have x: "x < 256 ^ length bs"
    using assms(1) unfolding x_def is_byte_list_def by (induction bs rule: rev_induct) auto
  then have "(x + 1) * 256 ^ w \<le> 256 ^ length bs * 256 ^ w" by (intro mult_right_mono) simp_all
  also have "\<dots> = 256 ^ 4" using r by (auto simp: w_def)
  finally have top: "x * 256 ^ w + 256 ^ w \<le> 4294967296" by simp
  have P: "(85 :: nat) ^ w \<le> 256 ^ w" by (rule power_mono) simp_all
  have yx: "y div 256 ^ w = x" unfolding y_def by (rule round_up_85 [OF P])
  then have "y < x * 256 ^ w + 256 ^ w"
    using div_mult_mod_eq [of y "256 ^ w", unfolded yx] mod_less_divisor [of "256 ^ w" y]
    by (metis add_less_cancel_left zero_less_numeral zero_less_power)
  with top have y32: "y < 2 ^ 32" by simp
  have e: "encode_tail bs = take (5 - w) (base85_digits 5 (x * 256 ^ w) [])"
    unfolding encode_tail_def Let_def x_def [symmetric] w_def [symmetric] pad_zero w(2) ..
  have len: "length (encode_tail bs) = length bs + 1"
    using r unfolding e w(2) base85_digits_5 by auto
  have "group_value (encode_tail bs) = Some (x * 256 ^ w div 85 ^ w)"
    unfolding e using top w(1) by (intro group_value_take) simp_all
  then have d: "decode_tail (encode_tail bs) = map (\<lambda>i. y div 2 ^ (24 - i * 8) mod 256) [0..<length bs]"
    unfolding decode_tail_def Let_def len w(3)
    by (simp only: pad_digits y_def [symmetric] unpack_byte_Some [OF y32] add_diff_cancel_right')
  have t: "decode_base85 us = decode_tail us" if "length us \<in> {2, 3, 4}" for us
    using that by (cases us rule: decode_base85.cases) auto
  have q: "y div 2 ^ 24 = y div 65536 div 256" "y div 65536 = y div 256 div 256"
    by (simp_all add: div_mult2_eq [symmetric])
  have dm: "(n * 256 + c) div 256 = n" if "c < 256" for n c :: nat using that by simp
  have "map (\<lambda>i. y div 2 ^ (24 - i * 8) mod 256) [0..<length bs] = bs"
  proof -
    from assms(2,3) consider a where "bs = [a]" | a b where "bs = [a, b]" | a b c where "bs = [a, b, c]"
      by (cases bs rule: encode_base85.cases) auto
    then show ?thesis
    proof cases
      case 1
      with yx assms(1) show ?thesis by (simp add: w_def x_def is_byte_list_def)
    next
      case 2
      then have "y div 65536 = a * 256 + b" using yx by (simp add: w_def x_def)
      moreover have "y div 2 ^ 24 mod 256 = a"
        using calculation 2 assms(1) unfolding q(1) by (simp add: is_byte_list_def)
      ultimately show ?thesis using 2 assms(1) by (simp add: is_byte_list_def upt_rec)
    next
      case 3
      then have "y div 256 = (a * 256 + b) * 256 + c" using yx by (simp add: w_def x_def)
      moreover from this have "y div 65536 = a * 256 + b"
        using 3 assms(1) dm [of c "a * 256 + b"] unfolding q(2) by (simp only: is_byte_list_def) simp
      moreover have "y div 2 ^ 24 mod 256 = a"
        using calculation 3 assms(1) unfolding q(1) by (simp add: is_byte_list_def)
      moreover have "((a * 256 + b) * 256 + c) mod 256 = c"
        using 3 assms(1) mod_mult_self3 [of "a * 256 + b" 256 c] by (simp add: is_byte_list_def)
      ultimately show ?thesis using 3 assms(1) by (simp only: is_byte_list_def) (simp add: upt_rec)
    qed
  qed
  with d t [of "encode_tail bs"] len r show ?thesis by auto
qed

lemma base85_roundtrip: "is_byte_list bs \<Longrightarrow> decode_base85 (encode_base85 bs) = bs"
proof (induction bs rule: encode_base85.induct)
  case (2 a b c d bs)
  then have "a < 256" "b < 256" "c < 256" "d < 256" "is_byte_list bs"
    by (simp_all add: is_byte_list_def)
  with 2 show ?case by (simp add: decode_group)
qed (simp_all add: decode_encode_tail)

interpretation b85: byte_codec encode_base85 decode_base85 is_byte_list
  by unfold_locales (rule base85_roundtrip)

lemma length_encode_base85: "length (encode_base85 bs) = length bs + (length bs + 3) div 4"
proof -
  have tail: "length (encode_tail bs) = length bs + 1" if "bs \<noteq> []" "length bs \<le> 3" for bs
    using that unfolding encode_tail_def Let_def base85_digits_5 by (cases bs rule: encode_base85.cases) auto
  have grp: "length (base85_digits 5 v []) = 5" for v unfolding base85_digits_5 by simp
  show ?thesis
  proof (induction bs rule: encode_base85.induct)
    case (2 a b c d bs)
    have "(length bs + 3 + 4) div 4 = Suc ((length bs + 3) div 4)" by simp
    with 2 show ?case by (simp add: grp algebra_simps)
  qed (simp_all add: tail)
qed

lemma encode_base85_Nil_iff: "encode_base85 bs = [] \<longleftrightarrow> bs = []"
  using length_encode_base85 [of bs] by (cases "encode_base85 bs") auto

lemma encode_base85_chars: "set (encode_base85 bs) \<subseteq> set (take 85 base85_alphabet)"
proof -
  have char: "base85_char v \<in> set (take 85 base85_alphabet)" if "v < 85" for v
  proof -
    have "v < length (take 85 base85_alphabet)" using that alphabet_facts(1) by simp
    then have "take 85 base85_alphabet ! v \<in> set (take 85 base85_alphabet)" by (rule nth_mem)
    then show ?thesis using that by (simp only: base85_char_def nth_take)
  qed
  have grp: "set (base85_digits 5 v []) \<subseteq> set (take 85 base85_alphabet)" for v
    unfolding base85_digits_5 by (auto intro!: char)
  have tail: "set (encode_tail bs) \<subseteq> set (take 85 base85_alphabet)" for bs
    unfolding encode_tail_def Let_def by (rule subset_trans [OF set_take_subset grp])
  show ?thesis
    by (induction bs rule: encode_base85.induct) (auto dest: subsetD [OF grp] subsetD [OF tail])
qed

section \<open>Properties\<close>

text \<open>
  The base-85 codec. Decoding an encoded byte string gives it back, whatever its length modulo
  four; the text is a quarter longer, rounded up, and uses 85 printable characters, none of them a
  space, a quote or a backslash.
\<close>
theorem base85_codec:
  assumes "is_byte_list bs"
  shows "decode_base85 (encode_base85 bs) = bs \<and>
    length (encode_base85 bs) = length bs + (length bs + 3) div 4 \<and>
    (\<forall>u \<in> set (encode_base85 bs). 33 \<le> u \<and> u \<le> 126 \<and> u \<noteq> 34 \<and> u \<noteq> 39 \<and> u \<noteq> 92)"
proof -
  have "\<forall>u \<in> set base85_alphabet. 33 \<le> u \<and> u \<le> 126 \<and> u \<noteq> 34 \<and> u \<noteq> 39 \<and> u \<noteq> 92"
    by (simp add: base85_alphabet_def)
  then have "\<forall>u \<in> set (encode_base85 bs). 33 \<le> u \<and> u \<le> 126 \<and> u \<noteq> 34 \<and> u \<noteq> 39 \<and> u \<noteq> 92"
    using subset_trans [OF encode_base85_chars set_take_subset] by (meson subsetD)
  with base85_roundtrip [OF assms] length_encode_base85 show ?thesis by blast
qed

lemma base85_codec_witness:
  "decode_base85 (encode_base85 [255, 0, 17, 200, 3, 99]) = [255, 0, 17, 200, 3, 99]"
  by (rule conjunct1 [OF base85_codec]) (simp add: is_byte_list_def)

text \<open>
  C7: Compression is lossless for untagged text and never grows it. When inflate undoes deflate, a
  well-formed text that does not itself start with one of the two tags is read back after
  compression, with either encoding and any threshold, and what is stored is no longer than the
  text in UTF-8.
\<close>
theorem compress_lossless:
  assumes "\<And>b. is_byte_list b \<Longrightarrow> inflate (deflate b) = Some b"
    "\<And>b. is_byte_list b \<Longrightarrow> is_byte_list (deflate b)"
    "\<And>b. deflate b \<noteq> []" "well_formed v" "\<not> starts_with v (lit ''z:'')" "\<not> starts_with v (lit ''z85:'')"
  shows "decompress_text inflate (compress_text deflate v opts) = Some v \<and>
    (compress_text deflate v opts = v \<or> length (compress_text deflate v opts) < length (utf8_encode v))"
proof -
  have plain: "decompress_text inflate v = Some v" using assms(5,6) by (simp add: decompress_text_def)
  have bytes: "is_byte_list (utf8_encode v)"
    using utf8_encode_bytes [OF well_formed_units [OF assms(4)]] .
  have z: "decompress_text inflate (lit ''z:'' @ b64_encode (deflate (utf8_encode v))) = Some v"
    "decompress_text inflate (lit ''z85:'' @ encode_base85 (deflate (utf8_encode v))) = Some v"
    using assms(3) assms(1,2) [OF bytes] assms(4)
    by (simp_all add: decompress_text_def starts_with_def b64.dec_enc b85.dec_enc utf8.dec_enc
        encode_base85_Nil_iff Let_def)
  show ?thesis
    using plain z by (cases "v = []")
      (simp_all add: compress_text_def Let_def split: option.splits text_encoding.splits)
qed

lemma compress_lossless_witness:
  "decompress_text (\<lambda>b. Some (tl b)) (compress_text (\<lambda>b. 7 # map (\<lambda>x. x mod 256) b) (lit ''hello'')
     \<lparr>co_threshold = Some 0, co_encoding = Some Base85\<rparr>) = Some (lit ''hello'')"
proof (rule conjunct1 [OF compress_lossless])
  fix b assume b: "is_byte_list b"
  then show "is_byte_list (7 # map (\<lambda>x. x mod 256) b)" by (simp add: is_byte_list_def)
  from b show "Some (tl (7 # map (\<lambda>x. x mod 256) b)) = Some b"
    by (simp add: is_byte_list_def map_idI)
qed (simp_all add: starts_with_def is_high_def is_low_def)

text \<open>
  Untagged text is not told apart from compressed text. Below the threshold a text is stored as it
  is even when it starts with a tag, so the text \<open>z:\<close> is read back as the empty string, whatever
  deflate and inflate do.
\<close>
theorem compress_tag_collision:
  "compress_text deflate (lit ''z:'') \<lparr>co_threshold = None, co_encoding = e\<rparr> = lit ''z:'' \<and>
   decompress_text inflate (compress_text deflate (lit ''z:'') \<lparr>co_threshold = None, co_encoding = e\<rparr>)
     = Some []"
proof -
  have "utf8_encode (lit ''z:'') = lit ''z:''" by (rule utf8_encode_ascii) simp
  then have "compress_text deflate (lit ''z:'') \<lparr>co_threshold = None, co_encoding = e\<rparr> = lit ''z:''"
    unfolding compress_text_def by simp
  moreover have "decompress_text inflate (lit ''z:'') = Some []"
    by (simp add: decompress_text_def starts_with_def)
  ultimately show ?thesis by metis
qed

end
