(* ===== verification/Uri_Encoding.thy ===== *)
theory Uri_Encoding
  imports Text_Encoding
begin

text \<open>
  \<open>encodeURIComponent\<close> and \<open>decodeURIComponent\<close>, the part of the language's standard library that the
  metadata codec and the copy-source parser use. \<open>None\<close> is the \<open>URIError\<close> they throw.
\<close>

definition uri_plain :: "nat \<Rightarrow> bool" where
  "uri_plain u \<longleftrightarrow> 65 \<le> u \<and> u \<le> 90 \<or> 97 \<le> u \<and> u \<le> 122 \<or> is_digit u \<or>
     u \<in> {45, 95, 46, 33, 126, 42, 39, 40, 41}"

definition hex_upper :: "nat \<Rightarrow> nat" where
  "hex_upper d = (if d < 10 then 48 + d else 55 + d)"

definition hex_value :: "nat \<Rightarrow> nat option" where
  "hex_value u =
     (if 48 \<le> u \<and> u \<le> 57 then Some (u - 48)
      else if 65 \<le> u \<and> u \<le> 70 then Some (u - 55)
      else if 97 \<le> u \<and> u \<le> 102 then Some (u - 87)
      else None)"

definition percent :: "bytes \<Rightarrow> ustring" where
  "percent bs = concat (map (\<lambda>b. [37, hex_upper (b div 16), hex_upper (b mod 16)]) bs)"

fun encode_uri :: "ustring \<Rightarrow> ustring option" where
  "encode_uri [] = Some []"
| "encode_uri [u] =
     (if uri_plain u then Some [u]
      else if is_high u \<or> is_low u then None else Some (percent (utf8_point u)))"
| "encode_uri (u # v # us) =
     (if uri_plain u then map_option (Cons u) (encode_uri (v # us))
      else if is_low u then None
      else if is_high u then
        (if is_low v then map_option ((@) (percent (utf8_point (pair_point u v)))) (encode_uri us)
         else None)
      else map_option ((@) (percent (utf8_point u))) (encode_uri (v # us)))"

text \<open>\<open>n\<close> percent-encoded bytes.\<close>

fun read_percent :: "nat \<Rightarrow> ustring \<Rightarrow> (bytes \<times> ustring) option" where
  "read_percent 0 us = Some ([], us)"
| "read_percent (Suc n) (p # a # b # us) =
     (if p \<noteq> 37 then None
      else case (hex_value a, hex_value b) of
        (Some x, Some y) \<Rightarrow>
          (case read_percent n us of
             None \<Rightarrow> None | Some (bs, rest) \<Rightarrow> Some ((x * 16 + y) # bs, rest))
      | _ \<Rightarrow> None)"
| "read_percent (Suc n) us = None"

lemma read_percent_code [code]:
  "read_percent n us =
     (if n = 0 then Some ([], us)
      else case us of
        p # a # b # us' \<Rightarrow>
          if p \<noteq> 37 then None
          else (case (hex_value a, hex_value b) of
            (Some x, Some y) \<Rightarrow>
              (case read_percent (n - 1) us' of
                 None \<Rightarrow> None | Some (bs, rest) \<Rightarrow> Some ((x * 16 + y) # bs, rest))
          | _ \<Rightarrow> None)
      | _ \<Rightarrow> None)"
  by (cases n) (auto split: list.splits option.splits)

definition sequence_length :: "nat \<Rightarrow> nat" where
  "sequence_length b =
     (if b < 128 then 1 else if b < 192 then 0 else if b < 224 then 2 else if b < 240 then 3
      else if b < 248 then 4 else 0)"

text \<open>The code point of a complete sequence; overlong forms, surrogates and large values are errors.\<close>

definition utf8_strict :: "bytes \<Rightarrow> nat option" where
  "utf8_strict bs =
     (case bs of
        [] \<Rightarrow> None
      | b # cs \<Rightarrow>
          let start = (case length cs of 0 \<Rightarrow> b | Suc 0 \<Rightarrow> b mod 32 | Suc (Suc 0) \<Rightarrow> b mod 16 | _ \<Rightarrow> b mod 8);
              p = foldl (\<lambda>v c. v * 64 + c mod 64) start cs
          in if p < 1114112 \<and> \<not> is_high p \<and> \<not> is_low p \<and> utf8_point p = bs then Some p else None)"

lemma read_percent_shorter:
  "read_percent n us = Some (bs, rest) \<Longrightarrow> length rest + 3 * n = length us"
  by (induction n us arbitrary: bs rule: read_percent.induct) (auto split: if_splits option.splits)

function decode_uri :: "ustring \<Rightarrow> ustring option" where
  "decode_uri [] = Some []"
| "decode_uri (u # us) =
     (if u \<noteq> 37 then map_option (Cons u) (decode_uri us)
      else case read_percent 1 (u # us) of
        Some ([b], _) \<Rightarrow>
          (if sequence_length b = 0 then None
           else case read_percent (sequence_length b) (u # us) of
             None \<Rightarrow> None
           | Some (bs, rest) \<Rightarrow>
               (case utf8_strict bs of
                  None \<Rightarrow> None
                | Some p \<Rightarrow> map_option ((@) (point_units p)) (decode_uri rest)))
      | _ \<Rightarrow> None)"
  by pat_completeness auto
termination
  by (relation "measure length") (auto dest!: read_percent_shorter)

section \<open>The round trip\<close>

lemma hex_value_upper: "d < 16 \<Longrightarrow> hex_value (hex_upper d) = Some d"
  by (simp add: hex_value_def hex_upper_def)

lemma percent_simps [simp]:
  "percent [] = []"
  "percent (b # bs) = 37 # hex_upper (b div 16) # hex_upper (b mod 16) # percent bs"
  by (simp_all add: percent_def)

lemma read_percent_percent:
  "is_byte_list bs \<Longrightarrow> read_percent (length bs) (percent bs @ us) = Some (bs, us)"
  by (induction bs) (auto simp: is_byte_list_def hex_value_upper)

lemma utf8_strict_point:
  assumes "p < 1114112" "\<not> is_high p" "\<not> is_low p"
  shows "utf8_strict (utf8_point p) = Some p"
proof -
  have c: "(128 + x mod 64) mod 64 = x mod 64" for x :: nat
    using mod_mult_self3 [of 2 64 "x mod 64"] by simp
  consider "p < 128" | "128 \<le> p" "p < 2048" | "2048 \<le> p" "p < 65536" | "65536 \<le> p" by linarith
  then show ?thesis
  proof cases
    case 1
    with assms show ?thesis by (simp add: utf8_strict_def utf8_point_def)
  next
    case 2
    then have "(192 + p div 64) mod 32 = p div 64" using mod_mult_self3 [of 6 32 "p div 64"] by simp
    with 2 assms show ?thesis by (simp add: utf8_strict_def utf8_point_def Let_def c)
  next
    case 3
    then have "p div 4096 < 16" by linarith
    then have "(224 + p div 4096) mod 16 = p div 4096"
      using mod_mult_self3 [of 14 16 "p div 4096"] by simp
    moreover have "(p div 4096 * 64 + p div 64 mod 64) * 64 + p mod 64 = p"
      using div_mult_mod_eq [of "p div 64" 64] div_mult_mod_eq [of p 64]
      by (simp add: div_mult2_eq [symmetric])
    ultimately show ?thesis using 3 assms by (simp add: utf8_strict_def utf8_point_def Let_def c)
  next
    case 4
    define a b c d where "a = p div 262144" and "b = p div 4096 mod 64" and "c = p div 64 mod 64"
      and "d = p mod 64"
    note abcd = a_def b_def c_def d_def
    have m: "b mod 64 = b" "c mod 64 = c" "d mod 64 = d" by (simp_all add: abcd)
    have "a < 8" using assms(1) unfolding abcd by linarith
    then have a: "(240 + a) mod 8 = a" using mod_mult_self3 [of 30 8 a] by simp
    have p: "((a * 64 + b) * 64 + c) * 64 + d = p"
    proof -
      have "p div 4096 div 64 = p div 262144" "p div 64 div 64 = p div 4096"
        by (simp_all add: div_mult2_eq [symmetric])
      then show ?thesis
        using div_mult_mod_eq [of "p div 4096" 64] div_mult_mod_eq [of "p div 64" 64] div_mult_mod_eq [of p 64]
        unfolding abcd by (simp only:)
    qed
    have up: "utf8_point p = [240 + a, 128 + b, 128 + c, 128 + d]"
      using 4 by (simp add: utf8_point_def abcd)
    have c64: "(128 + x) mod 64 = x mod 64" for x :: nat using mod_mult_self3 [of 2 64 x] by simp
    have "foldl (\<lambda>v c. v * 64 + c mod 64) ((240 + a) mod 8) [128 + b, 128 + c, 128 + d] = p"
      by (simp only: foldl_Cons foldl_Nil a c64 m p)
    then show ?thesis using assms by (simp only: utf8_strict_def up list.case list.size nat.case Let_def) (simp add: up)
  qed
qed

lemma sequence_length_point:
  "p < 1114112 \<Longrightarrow> sequence_length (hd (utf8_point p)) = length (utf8_point p)"
  by (auto simp: sequence_length_def utf8_point_def)

lemma decode_uri_point:
  assumes "p < 1114112" "\<not> is_high p" "\<not> is_low p"
  shows "decode_uri (percent (utf8_point p) @ us) = map_option ((@) (point_units p)) (decode_uri us)"
proof -
  obtain b bs where b: "utf8_point p = b # bs"
    by (cases "utf8_point p") (auto simp: utf8_point_def split: if_splits)
  have bytes: "is_byte_list (utf8_point p)" using assms(1) by (rule utf8_point_bytes)
  then have "b < 256" using b by (simp add: is_byte_list_def)
  then have one: "read_percent 1 (percent (utf8_point p) @ us) = Some ([b], percent bs @ us)"
    using b by (simp add: hex_value_upper)
  have all: "read_percent (length (utf8_point p)) (percent (utf8_point p) @ us) = Some (utf8_point p, us)"
    using bytes by (rule read_percent_percent)
  have n: "sequence_length b = length (utf8_point p)" "sequence_length b \<noteq> 0"
    using sequence_length_point [OF assms(1)] b by simp_all
  obtain vs where vs: "percent (utf8_point p) @ us = 37 # vs" using b by simp
  show ?thesis
    using one all n utf8_strict_point [OF assms] unfolding vs
    by (simp only: decode_uri.simps option.case prod.case list.case if_True if_False simp_thms n)
qed

lemma point_units_small: "u < 65536 \<Longrightarrow> point_units u = [u]"
  by (simp add: point_units_def)

lemma point_units_pair: "is_high u \<Longrightarrow> is_low v \<Longrightarrow> point_units (pair_point u v) = [u, v]"
proof -
  assume uv: "is_high u" "is_low v"
  obtain x where x: "u = 55296 + x" using uv(1) unfolding is_high_def using le_Suc_ex by blast
  obtain y where y: "v = 56320 + y" using uv(2) unfolding is_low_def using le_Suc_ex by blast
  have "y < 1024" using uv(2) y unfolding is_low_def by linarith
  then show ?thesis by (simp add: point_units_def pair_point_def x y)
qed

lemma pair_point_scalar:
  "is_high u \<Longrightarrow> is_low v \<Longrightarrow> \<not> is_high (pair_point u v) \<and> \<not> is_low (pair_point u v)"
  using pair_point_bound [of u v] by (simp add: is_high_def is_low_def)

lemma uri_plain_unit: "uri_plain u \<Longrightarrow> u \<noteq> 37 \<and> \<not> is_high u \<and> \<not> is_low u \<and> u < 128"
  by (auto simp: uri_plain_def is_digit_def is_high_def is_low_def)

text \<open>Encoding fails exactly on strings with unpaired surrogates; otherwise decoding undoes it.\<close>

lemma encode_uri_total:
  "\<forall>u \<in> set s. u < 65536 \<Longrightarrow> encode_uri s \<noteq> None \<longleftrightarrow> well_formed s"
  by (induction s rule: encode_uri.induct)
    (use uri_plain_unit in \<open>auto simp: is_high_def is_low_def\<close>)

lemma uri_roundtrip: "well_formed s \<Longrightarrow> encode_uri s = Some t \<Longrightarrow> decode_uri t = Some s"
proof (induction s arbitrary: t rule: encode_uri.induct)
  case (2 u)
  then show ?case
    using decode_uri_point [of u "[]"] uri_plain_unit [of u] by (auto simp: point_units_small split: if_splits)
next
  case (3 u v us)
  have u: "u < 65536" using 3(4) by simp
  show ?case
  proof (cases "uri_plain u")
    case True
    with 3 uri_plain_unit [OF True] show ?thesis by auto
  next
    case False
    note plain = False
    show ?thesis
    proof (cases "is_high u")
      case True
      with 3(4) have v: "is_low v" "well_formed us" by simp_all
      have "\<not> is_low u" using True by (simp add: is_high_def is_low_def)
      with 3(5) True plain v obtain t' where
        "encode_uri us = Some t'" "t = percent (utf8_point (pair_point u v)) @ t'" by auto
      with 3(2) True plain v \<open>\<not> is_low u\<close> pair_point_bound [OF True v(1)] pair_point_scalar [OF True v(1)]
      show ?thesis by (simp add: decode_uri_point point_units_pair)
    next
      case False
      with 3(4) have v: "\<not> is_low u" "well_formed (v # us)" by simp_all
      with 3(5) False plain obtain t' where
        "encode_uri (v # us) = Some t'" "t = percent (utf8_point u) @ t'" by auto
      with 3(3) False plain v u show ?thesis by (simp add: decode_uri_point point_units_small)
    qed
  qed
qed simp

end
