(* ===== verification/Memo_Cache.thy ===== *)
theory Memo_Cache
  imports Prelude
begin

text \<open>
  The contract of a memo table in front of a pure function, as the UTF-8 length calculator and the
  string analysis of the metadata codec keep one: the table may forget what it likes, but what it
  holds was computed. A client then cannot tell the memoised function from the function.
\<close>

definition entries_correct :: "('k \<Rightarrow> 'v) \<Rightarrow> ('k \<times> 'v) list \<Rightarrow> bool" where
  "entries_correct f cache \<longleftrightarrow> (\<forall>p \<in> set cache. snd p = f (fst p))"

lemma entries_correct_Nil [simp]: "entries_correct f []"
  by (simp add: entries_correct_def)

lemma entries_correct_subset:
  "entries_correct f cache \<Longrightarrow> set cache' \<subseteq> insert (k, f k) (set cache) \<Longrightarrow> entries_correct f cache'"
  by (auto simp: entries_correct_def)

lemma entries_correct_lookup: "entries_correct f cache \<Longrightarrow> map_of cache k = Some v \<Longrightarrow> v = f k"
  by (force simp: entries_correct_def dest: map_of_SomeD)

text \<open>
  \<open>run\<close> answers a call and moves the table; the provider promises that an answer is either read from
  the table or computed, and that the new table holds old entries and at most the computed one.
\<close>

locale memo_cache =
  fixes f :: "'k \<Rightarrow> 'v" and run :: "('k \<times> 'v) list \<Rightarrow> 'k \<Rightarrow> 'v \<times> ('k \<times> 'v) list"
  assumes answer: "fst (run cache k) = f k \<or> map_of cache k = Some (fst (run cache k))"
    and table: "set (snd (run cache k)) \<subseteq> insert (k, f k) (set cache)"
begin

lemma transparent:
  assumes "entries_correct f cache"
  shows "fst (run cache k) = f k" "entries_correct f (snd (run cache k))"
  using entries_correct_lookup [OF assms] entries_correct_subset [OF assms table [of cache k]]
    answer [of cache k]
  by auto

fun run_all :: "('k \<times> 'v) list \<Rightarrow> 'k list \<Rightarrow> 'v list" where
  "run_all cache [] = []"
| "run_all cache (k # ks) = (case run cache k of (v, cache') \<Rightarrow> v # run_all cache' ks)"

lemma run_all_transparent: "entries_correct f cache \<Longrightarrow> run_all cache ks = map f ks"
proof (induction ks arbitrary: cache)
  case (Cons k ks)
  with transparent [OF Cons.prems, of k] show ?case by (cases "run cache k") simp
qed simp

end

end
