(* ===== verification/Metadata_Encoding.thy ===== *)
theory Metadata_Encoding
  imports Dictionary_Encoding Text_Compression Uri_Encoding Memo_Cache
begin

text \<open>
  \<open>core/src/concerns/metadata-encoding.ts\<close> (and its copy in \<open>adapters/memory\<close>): how a value becomes
  an object-metadata string and back. \<open>num_text\<close> is the decimal form of a number, \<open>native_text\<close> the
  text of a built-in function, \<open>inflate\<close> Node's raw inflate.
\<close>

section \<open>String analysis\<close>

datatype encoding_type = EncNone | EncSpecial | EncAscii | EncUrl | EncBase64 | EncDictionary

record analysis_result =
  an_type :: encoding_type
  an_safe :: bool
  an_ascii :: nat
  an_latin1 :: nat
  an_multibyte :: nat

definition is_ascii_only :: "ustring \<Rightarrow> bool" where
  "is_ascii_only s \<longleftrightarrow> list_all (\<lambda>u. 32 \<le> u \<and> u \<le> 126) s"

text \<open>One pass over the code units, counting the three classes.\<close>

fun count_classes :: "ustring \<Rightarrow> nat \<times> nat \<times> nat \<Rightarrow> nat \<times> nat \<times> nat" where
  "count_classes [] (a, l, m) = (a, l, m)"
| "count_classes (u # us) (a, l, m) =
     count_classes us
       (if 32 \<le> u \<and> u \<le> 126 then (a + 1, l, m)
        else if u < 32 \<or> u = 127 then (a, l, m + 1)
        else if 128 \<le> u \<and> u \<le> 255 then (a, l + 1, m)
        else (a, l, m + 1))"

text \<open>
  The ratios are compared with 0.3 and 0.5: as quotients of lengths they are decided exactly by the
  cross-multiplied naturals.
\<close>

definition analyze_string :: "ustring \<Rightarrow> analysis_result" where
  "analyze_string str =
     (if str = [] then
        \<lparr>an_type = EncNone, an_safe = True, an_ascii = 0, an_latin1 = 0, an_multibyte = 0\<rparr>
      else if is_ascii_only str then
        \<lparr>an_type = EncAscii, an_safe = True, an_ascii = length str, an_latin1 = 0, an_multibyte = 0\<rparr>
      else case count_classes str (0, 0, 0) of
        (a, l, m) \<Rightarrow>
          if \<not> 0 < l \<and> \<not> 0 < m then
            \<lparr>an_type = EncAscii, an_safe = True, an_ascii = a, an_latin1 = 0, an_multibyte = 0\<rparr>
          else if 0 < m then
            \<lparr>an_type = (if 10 * m > 3 * length str then EncBase64 else EncUrl), an_safe = False,
             an_ascii = a, an_latin1 = l, an_multibyte = m\<rparr>
          else
            \<lparr>an_type = (if 2 * l > length str then EncBase64 else EncUrl), an_safe = False,
             an_ascii = a, an_latin1 = l, an_multibyte = 0\<rparr>)"

text \<open>The analysis cache: at most 500 entries, the oldest one leaves.\<close>

definition cache_analysis_result ::
    "(ustring \<times> analysis_result) list \<Rightarrow> ustring \<Rightarrow> analysis_result
       \<Rightarrow> (ustring \<times> analysis_result) list" where
  "cache_analysis_result cache str r =
     AList.update str r (if length cache \<ge> 500 then AList.delete (fst (hd cache)) cache else cache)"

definition analyze_cached ::
    "(ustring \<times> analysis_result) list \<Rightarrow> ustring \<Rightarrow> analysis_result \<times> (ustring \<times> analysis_result) list" where
  "analyze_cached cache str =
     (if str = [] then (analyze_string str, cache)
      else case map_of cache str of
        Some r \<Rightarrow> (r, cache)
      | None \<Rightarrow> (analyze_string str, cache_analysis_result cache str (analyze_string str)))"

section \<open>Encoding\<close>

definition common_values :: "ustring list" where
  "common_values = map lit [
    ''active'', ''inactive'', ''pending'', ''completed'', ''failed'', ''success'', ''error'',
    ''processing'', ''queued'', ''cancelled'', ''GET'', ''POST'', ''PUT'', ''DELETE'', ''PATCH'',
    ''HEAD'', ''OPTIONS'', ''200'', ''201'', ''204'', ''301'', ''302'', ''304'', ''400'',
    ''401'', ''403'', ''404'', ''405'', ''409'', ''422'', ''429'', ''500'', ''502'', ''503'',
    ''504'', ''OK'', ''Created'', ''paid'', ''unpaid'', ''refunded'', ''pending_payment'',
    ''authorized'', ''captured'', ''declined'', ''voided'', ''chargeback'', ''disputed'',
    ''settled'', ''reversed'', ''shipped'', ''delivered'', ''returned'', ''in_transit'',
    ''out_for_delivery'', ''ready_to_ship'', ''backordered'', ''pre_order'', ''on_hold'',
    ''awaiting_pickup'', ''admin'', ''moderator'', ''owner'', ''editor'', ''viewer'',
    ''contributor'', ''guest'', ''member'', ''trace'', ''debug'', ''info'', ''warn'', ''fatal'',
    ''emergency'', ''dev'', ''development'', ''staging'', ''production'', ''test'', ''qa'',
    ''uat'', ''create'', ''read'', ''update'', ''delete'', ''list'', ''search'', ''count'',
    ''enabled'', ''disabled'', ''archived'', ''draft'', ''published'', ''scheduled'',
    ''expired'', ''locked'', ''low'', ''medium'', ''high'', ''urgent'', ''critical'', ''true'',
    ''false'', ''yes'', ''no'', ''on'', ''off'', ''1'', ''0'', ''null'', ''undefined'', ''none'',
    ''N/A'']"

text \<open>\<open>encoded\<close> is \<open>None\<close> for \<open>undefined\<close>: what an inherited member has under that name.\<close>

record encode_result =
  er_encoded :: "ustring option"
  er_encoding :: "encoding_type option"

definition encoded_as :: "ustring \<Rightarrow> encoding_type \<Rightarrow> encode_result" where
  "encoded_as s e = \<lparr>er_encoded = Some s, er_encoding = Some e\<rparr>"

definition common_value :: "ustring \<Rightarrow> encode_result option" where
  "common_value s =
     (if s \<in> set common_values then
        Some (encoded_as s (if s \<in> {lit ''null'', lit ''undefined''} then EncSpecial else EncNone))
      else if s \<in> set prototype_keys then Some \<lparr>er_encoded = None, er_encoding = None\<rparr>
      else None)"

definition force_encoded :: "ustring \<Rightarrow> bool" where
  "force_encoded s \<longleftrightarrow>
     starts_with s (lit ''d:'') \<or> starts_with s (lit ''u:'') \<or> starts_with s (lit ''b:'') \<or>
     starts_with s (lit ''z:'') \<or> starts_with s (lit ''z85:'')"

text \<open>The dictionary's result counts when it saves something.\<close>

definition dictionary_hit :: "(ustring \<Rightarrow> ustring) \<Rightarrow> ustring \<Rightarrow> dictionary_result option" where
  "dictionary_hit native_text s =
     (case dictionary_encode native_text s of
        None \<Rightarrow> None
      | Some r \<Rightarrow> (case dr_savings r of Some n \<Rightarrow> if n > 0 then Some r else None | None \<Rightarrow> None))"

text \<open>The result is \<open>None\<close> when \<open>encodeURIComponent\<close> throws.\<close>

definition metadata_encode ::
    "(js_number \<Rightarrow> ustring) \<Rightarrow> (ustring \<Rightarrow> ustring) \<Rightarrow> js_value \<Rightarrow> encode_result option" where
  "metadata_encode num_text native_text v =
     (if v = JNull then Some (encoded_as (lit ''null'') EncSpecial)
      else if v = JUndefined then Some (encoded_as (lit ''undefined'') EncSpecial)
      else
        let s = js_string num_text v
        in if force_encoded s then Some (encoded_as (lit ''b:'' @ text_to_b64 s) EncBase64)
           else case dictionary_hit native_text s of
             Some r \<Rightarrow> Some (encoded_as (dr_encoded r) EncDictionary)
           | None \<Rightarrow>
               (case common_value s of
                  Some r \<Rightarrow> Some r
                | None \<Rightarrow>
                    (case an_type (analyze_string s) of
                       EncUrl \<Rightarrow> map_option (\<lambda>t. encoded_as (lit ''u:'' @ t) EncUrl) (encode_uri s)
                     | EncNone \<Rightarrow> Some (encoded_as s EncNone)
                     | EncAscii \<Rightarrow> Some (encoded_as s EncNone)
                     | _ \<Rightarrow> Some (encoded_as (lit ''b:'' @ text_to_b64 s) EncBase64))))"

text \<open>The part after \<open>String(value)\<close>, so that the text is computed once on evaluation.\<close>

definition encode_text :: "(ustring \<Rightarrow> ustring) \<Rightarrow> ustring \<Rightarrow> encode_result option" where
  "encode_text native_text s = metadata_encode (\<lambda>_. s) native_text (JString s)"

lemma encode_text_code [code]:
  "encode_text native_text s =
     (if force_encoded s then Some (encoded_as (lit ''b:'' @ text_to_b64 s) EncBase64)
      else case dictionary_hit native_text s of
        Some r \<Rightarrow> Some (encoded_as (dr_encoded r) EncDictionary)
      | None \<Rightarrow>
          (case common_value s of
             Some r \<Rightarrow> Some r
           | None \<Rightarrow>
               (case an_type (analyze_string s) of
                  EncUrl \<Rightarrow> map_option (\<lambda>t. encoded_as (lit ''u:'' @ t) EncUrl) (encode_uri s)
                | EncNone \<Rightarrow> Some (encoded_as s EncNone)
                | EncAscii \<Rightarrow> Some (encoded_as s EncNone)
                | _ \<Rightarrow> Some (encoded_as (lit ''b:'' @ text_to_b64 s) EncBase64))))"
  by (simp add: encode_text_def metadata_encode_def)

lemma metadata_encode_code [code]:
  "metadata_encode num_text native_text v =
     (if v = JNull then Some (encoded_as (lit ''null'') EncSpecial)
      else if v = JUndefined then Some (encoded_as (lit ''undefined'') EncSpecial)
      else encode_text native_text (js_string num_text v))"
  by (simp add: encode_text_code metadata_encode_def Let_def)

section \<open>Decoding\<close>

definition string_or :: "ustring option \<Rightarrow> ustring \<Rightarrow> js_value" where
  "string_or r s = JString (case r of Some t \<Rightarrow> t | None \<Rightarrow> s)"

definition metadata_decode ::
    "(ustring \<Rightarrow> ustring) \<Rightarrow> (bytes \<Rightarrow> bytes option) \<Rightarrow> js_value \<Rightarrow> js_value" where
  "metadata_decode native_text inflate v =
     (case v of
        JString s \<Rightarrow>
          if s = lit ''null'' then JNull
          else if s = lit ''undefined'' then JUndefined
          else
            (case (if starts_with s (lit ''d:'') then dictionary_decode native_text s else None) of
               Some t \<Rightarrow> JString t
             | None \<Rightarrow>
                 if starts_with s (lit ''z85:'') then
                   if length s \<le> 4 then JString s else string_or (decompress_text inflate s) s
                 else if starts_with s (lit ''z:'') then
                   if length s \<le> 2 then JString s else string_or (decompress_text inflate s) s
                 else if length s \<ge> 2 \<and> s ! 1 = 58 \<and> s ! 0 = 117 then
                   if length s = 2 then JString s else string_or (decode_uri (drop 2 s)) s
                 else if length s \<ge> 2 \<and> s ! 1 = 58 \<and> s ! 0 = 98 then
                   if length s = 2 then JString s else JString (b64_to_text (drop 2 s))
                 else JString s)
      | _ \<Rightarrow> v)"

record encoded_size_info =
  es_original :: int
  es_encoded :: int
  es_overhead :: int
  es_encoding :: encoding_type

text \<open>The ratio, a floating-point quotient of the two sizes, is left out.\<close>

definition calculate_encoded_size :: "ustring \<Rightarrow> encoded_size_info option" where
  "calculate_encoded_size s =
     (let t = an_type (analyze_string s);
          originalSize = int (length (utf8_encode s))
      in map_option
           (\<lambda>n. \<lparr>es_original = originalSize, es_encoded = n, es_overhead = n - originalSize,
                 es_encoding = t\<rparr>)
           (case t of
              EncNone \<Rightarrow> Some originalSize
            | EncAscii \<Rightarrow> Some originalSize
            | EncUrl \<Rightarrow> map_option (\<lambda>u. 2 + int (length u)) (encode_uri s)
            | _ \<Rightarrow> Some (2 + int (length (text_to_b64 s)))))"

section \<open>The analysis cache is transparent\<close>

interpretation analysis_memo: memo_cache analyze_string analyze_cached
proof
  fix cache k
  show "fst (analyze_cached cache k) = analyze_string k \<or>
      map_of cache k = Some (fst (analyze_cached cache k))"
    by (simp add: analyze_cached_def split: option.splits)
  have "set (AList.delete x cache) \<subseteq> set cache" for x by (induction cache) auto
  then have "set (if length cache \<ge> 500 then AList.delete (fst (hd cache)) cache else cache) \<subseteq> set cache"
    by simp
  with set_update_subset [of k "analyze_string k"]
  have "set (cache_analysis_result cache k (analyze_string k)) \<subseteq> insert (k, analyze_string k) (set cache)"
    unfolding cache_analysis_result_def by (meson insert_mono subset_trans)
  then show "set (snd (analyze_cached cache k)) \<subseteq> insert (k, analyze_string k) (set cache)"
    by (auto simp: analyze_cached_def split: option.splits)
qed

section \<open>Round trip\<close>

lemma starts_with_2: "starts_with s [a, b] \<longleftrightarrow> length s \<ge> 2 \<and> s ! 0 = a \<and> s ! 1 = b"
  by (cases s; cases "tl s") (auto simp: starts_with_def)

text \<open>Text without a tag is read back as it is.\<close>

lemma decode_untagged:
  assumes "\<not> force_encoded s" "s \<noteq> lit ''null''" "s \<noteq> lit ''undefined''"
  shows "metadata_decode native_text inflate (JString s) = JString s"
proof -
  have "\<not> (length s \<ge> 2 \<and> s ! 1 = 58 \<and> s ! 0 = 117)" "\<not> (length s \<ge> 2 \<and> s ! 1 = 58 \<and> s ! 0 = 98)"
    using assms(1) starts_with_2 [of s 117 58] starts_with_2 [of s 98 58] by (auto simp: force_encoded_def)
  with assms show ?thesis
    by (simp only: metadata_decode_def force_encoded_def js_value.case de_Morgan_disj if_False option.case)
qed

lemma decode_base64:
  assumes "well_formed s" "s \<noteq> []"
  shows "metadata_decode native_text inflate (JString (lit ''b:'' @ text_to_b64 s)) = JString s"
  using assms b64_text.dec_enc [OF assms(1)]
  by (simp add: metadata_decode_def starts_with_def text_to_b64_def)

lemma decode_url:
  assumes "well_formed s" "s \<noteq> []" "encode_uri s = Some t"
  shows "metadata_decode native_text inflate (JString (lit ''u:'' @ t)) = JString s"
proof -
  have "t \<noteq> []" using uri_roundtrip [OF assms(1,3)] assms(2) by auto
  with uri_roundtrip [OF assms(1,3)] show ?thesis
    by (simp add: metadata_decode_def starts_with_def string_or_def)
qed

lemma dictionary_tag: "dictionary_encode native_text s = Some r \<Longrightarrow> starts_with (dr_encoded r) (lit ''d:'')"
  by (auto simp: dictionary_encode_def starts_with_def Let_def split: if_splits option.splits)

lemma decode_dictionary:
  assumes "own_value s" "s \<noteq> lit ''font/woff2''" "dictionary_encode native_text s = Some r"
  shows "metadata_decode native_text inflate (JString (dr_encoded r)) = JString s"
  using dictionary_roundtrip [OF assms] dictionary_tag [OF assms(3)]
  by (auto simp: metadata_decode_def starts_with_def)

lemma prototype_not_own: "own_value s \<Longrightarrow> s \<notin> set prototype_keys"
  by (auto simp: own_value_def prototype_keys_def native_arity_def split: if_splits)

text \<open>The lookups behind the corrupted values.\<close>

lemmas dict_tables = dict_get_def map_of_combined content_type_dict_def status_message_dict_def
  dict_def native_arity_def map_add_def

lemma corrupting_lookups:
  "dict_get combined_dict (lit ''font/woff2'') = Some (Own (lit ''f''))"
  "dict_get combined_reverse (lit ''f'') = Some (Own (lit ''failed''))"
  "dict_get combined_dict (lit ''constructor'') = Some (NativeFunction (lit ''constructor'') 1)"
  "dict_get combined_dict (lit ''__proto__'') = Some PrototypeObject"
  "dict_get combined_dict (lit ''/users/'' @ [233]) = None"
  by (simp_all add: dict_tables map_of_combined_reverse)

lemma users_prefix: "first_prefix (lit ''/users/'' @ [233]) sorted_prefixes = Some (lit ''/users/'', lit ''@u'')"
  by code_simp

lemma proto_unknown: "common_value (lit ''__proto__'') = Some \<lparr>er_encoded = None, er_encoding = None\<rparr>"
  by code_simp

section \<open>The codec round trip\<close>

lemma metadata_roundtrip_safe:
  assumes "well_formed s" "own_value s"
    "s \<noteq> lit ''null''" "s \<noteq> lit ''undefined''" "s \<noteq> lit ''font/woff2''"
  shows "\<exists>e enc. metadata_encode num_text native_text (JString s) = Some (encoded_as e enc) \<and>
     metadata_decode native_text inflate (JString e) = JString s"
proof (cases "force_encoded s")
  case True
  then have "s \<noteq> []" by (auto simp: force_encoded_def starts_with_def)
  moreover have "metadata_encode num_text native_text (JString s) =
      Some (encoded_as (lit ''b:'' @ text_to_b64 s) EncBase64)"
    using True by (simp add: metadata_encode_def)
  ultimately show ?thesis using decode_base64 [OF assms(1)] by blast
next
  case False
  note plain = decode_untagged [OF False assms(3,4), of native_text inflate]
  have common: "common_value s = None \<or> (\<exists>enc. common_value s = Some (encoded_as s enc))"
    using prototype_not_own [OF assms(2)] by (auto simp: common_value_def)
  show ?thesis
  proof (cases "dictionary_hit native_text s")
    case (Some r)
    then have "dictionary_encode native_text s = Some r"
      by (auto simp: dictionary_hit_def split: option.splits if_splits)
    from decode_dictionary [OF assms(2,5) this] Some False show ?thesis
      by (auto simp: metadata_encode_def)
  next
    case None
    show ?thesis
    proof (cases "common_value s")
      case (Some r)
      with common None False plain show ?thesis by (auto simp: metadata_encode_def)
    next
      case unknown: None
      have uri: "encode_uri s \<noteq> None"
        using assms(1) encode_uri_total [OF well_formed_units [OF assms(1)]] by simp
      have ne: "an_type (analyze_string s) \<noteq> EncNone \<Longrightarrow> s \<noteq> []" by (auto simp: analyze_string_def)
      show ?thesis
        using None unknown False plain uri ne decode_url [OF assms(1)] decode_base64 [OF assms(1)]
        by (cases "an_type (analyze_string s)") (auto simp: metadata_encode_def)
    qed
  qed
qed

section \<open>Properties\<close>

text \<open>
  C8: The metadata codec. Encoding a string without unpaired surrogates always succeeds, and decoding
  gives the string back, except for the texts \<open>null\<close> and \<open>undefined\<close>, the content type
  \<open>font/woff2\<close> and the names of the members every object inherits.
\<close>
theorem metadata_roundtrip:
  assumes "well_formed s" "own_value s"
    "s \<noteq> lit ''null''" "s \<noteq> lit ''undefined''" "s \<noteq> lit ''font/woff2''"
  shows "\<exists>e enc. metadata_encode num_text native_text (JString s) = Some (encoded_as e enc) \<and>
     metadata_decode native_text inflate (JString e) = JString s"
  using assms by (rule metadata_roundtrip_safe)

lemma metadata_roundtrip_witness:
  "\<exists>e enc. metadata_encode (\<lambda>_. []) (\<lambda>n. n) (JString (lit ''z:raw'')) = Some (encoded_as e enc) \<and>
     metadata_decode (\<lambda>n. n) (\<lambda>_. None) (JString e) = JString (lit ''z:raw'')"
  by (rule metadata_roundtrip)
    (simp_all add: is_high_def is_low_def own_value_def native_arity_def lit_eq_iff)

text \<open>
  Values the codec corrupts. \<open>font/woff2\<close> and \<open>failed\<close> share the dictionary code \<open>f\<close>, so
  \<open>font/woff2\<close> is read back as \<open>failed\<close>; \<open>constructor\<close> finds the inherited function in the
  dictionary and is read back as the tagged text of that function; \<open>__proto__\<close> has no encoding at
  all; and the rest of a value after a known URL prefix is stored unencoded, outside ASCII included.
\<close>
theorem metadata_corrupted_values:
  "metadata_encode num_text native_text (JString (lit ''font/woff2'')) = Some (encoded_as (lit ''d:f'') EncDictionary) \<and>
   metadata_decode native_text inflate (JString (lit ''d:f'')) = JString (lit ''failed'') \<and>
   metadata_encode num_text native_text (JString (lit ''constructor'')) =
     Some (encoded_as (lit ''d:'' @ native_text (lit ''constructor'')) EncDictionary) \<and>
   metadata_encode num_text native_text (JString (lit ''__proto__'')) =
     Some \<lparr>er_encoded = None, er_encoding = None\<rparr> \<and>
   metadata_encode num_text native_text (JString (lit ''/users/'' @ [233])) =
     Some (encoded_as (lit ''d:@u'' @ [233]) EncDictionary)"
proof (intro conjI)
  note enc = metadata_encode_def dictionary_hit_def dictionary_encode_def truthy_member_def
    force_encoded_def starts_with_def Let_def
  show "metadata_encode num_text native_text (JString (lit ''font/woff2'')) =
      Some (encoded_as (lit ''d:f'') EncDictionary)"
    using corrupting_lookups(1) by (simp add: enc)
  show "metadata_decode native_text inflate (JString (lit ''d:f'')) = JString (lit ''failed'')"
    using corrupting_lookups(2)
    by (simp add: metadata_decode_def dictionary_decode_def truthy_member_def starts_with_def Let_def)
  show "metadata_encode num_text native_text (JString (lit ''constructor'')) =
      Some (encoded_as (lit ''d:'' @ native_text (lit ''constructor'')) EncDictionary)"
    using corrupting_lookups(3) by (simp add: enc)
  show "metadata_encode num_text native_text (JString (lit ''__proto__'')) =
      Some \<lparr>er_encoded = None, er_encoding = None\<rparr>"
    using corrupting_lookups(4) proto_unknown by (simp add: enc)
  show "metadata_encode num_text native_text (JString (lit ''/users/'' @ [233])) =
      Some (encoded_as (lit ''d:@u'' @ [233]) EncDictionary)"
    using corrupting_lookups(5) users_prefix by (simp add: enc)
qed

end
