(* ===== verification/Calculator.thy ===== *)
theory Calculator
  imports Js_Value Text_Encoding Memo_Cache
begin

text \<open>
  \<open>core/src/concerns/calculator.ts\<close>: the size in UTF-8 bytes of the metadata a record takes.
  \<open>num_text\<close> is the decimal form of a number and \<open>stringify\<close> is \<open>JSON.stringify\<close> of an object. A
  mapped object is its entries in enumeration order (an own \<open>__proto__\<close> key, which an assignment
  would not store, is not considered).
\<close>

section \<open>UTF-8 lengths\<close>

text \<open>The loop over code units; a pair of surrogates is one code point and skips one unit.\<close>

definition code_point_bytes :: "nat \<Rightarrow> int" where
  "code_point_bytes p =
     (if p \<le> 127 then 1 else if p \<le> 2047 then 2 else if p \<le> 65535 then 3
      else if p \<le> 1114111 then 4 else 0)"

fun count_utf8_bytes :: "ustring \<Rightarrow> int" where
  "count_utf8_bytes [] = 0"
| "count_utf8_bytes [u] = code_point_bytes u"
| "count_utf8_bytes (u # v # us) =
     (if is_high u \<and> is_low v then code_point_bytes (pair_point u v) + count_utf8_bytes us
      else code_point_bytes u + count_utf8_bytes (v # us))"

text \<open>\<open>calculateUTF8Bytes\<close> with the memory it keeps: ten thousand entries, then the older half goes.\<close>

definition calculate_utf8_bytes ::
    "(ustring \<times> int) list \<Rightarrow> ustring \<Rightarrow> int \<times> (ustring \<times> int) list" where
  "calculate_utf8_bytes memory s =
     (case map_of memory s of
        Some n \<Rightarrow> (n, memory)
      | None \<Rightarrow>
          let bytes = count_utf8_bytes s
          in (bytes,
              if length memory < 10000 then AList.update s bytes memory
              else if length memory = 10000 then AList.update s bytes (drop (10000 div 2) memory)
              else memory))"

definition clear_utf8_memory :: "(ustring \<times> int) list" where
  "clear_utf8_memory = []"

interpretation utf8_memo: memo_cache count_utf8_bytes calculate_utf8_bytes
proof
  fix memory s
  show "fst (calculate_utf8_bytes memory s) = count_utf8_bytes s \<or>
      map_of memory s = Some (fst (calculate_utf8_bytes memory s))"
    by (simp add: calculate_utf8_bytes_def Let_def split: option.splits)
  show "set (snd (calculate_utf8_bytes memory s)) \<subseteq> insert (s, count_utf8_bytes s) (set memory)"
    using set_update_subset [of s "count_utf8_bytes s" memory]
      set_update_subset [of s "count_utf8_bytes s" "drop 5000 memory"] set_drop_subset [of 5000 memory]
    by (auto simp: calculate_utf8_bytes_def Let_def split: option.splits)
qed

section \<open>Sizes of mapped objects\<close>

text \<open>
  The memory being transparent (\<open>utf8_memo\<close>), the sizes below are stated over the length function.
\<close>

definition calculate_attribute_names_size :: "(ustring \<times> 'v) list \<Rightarrow> int" where
  "calculate_attribute_names_size mapped =
     foldl (\<lambda>total (key, _). total + count_utf8_bytes key) 0 mapped"

definition transform_value :: "(js_number \<Rightarrow> ustring) \<Rightarrow> (js_value \<Rightarrow> ustring) \<Rightarrow> js_value \<Rightarrow> ustring" where
  "transform_value num_text stringify v =
     (case v of
        JNull \<Rightarrow> []
      | JUndefined \<Rightarrow> []
      | JBool b \<Rightarrow> (if b then lit ''1'' else lit ''0'')
      | JNumber n \<Rightarrow> num_text n
      | JString s \<Rightarrow> s
      | JArray vs \<Rightarrow> (if vs = [] then lit ''[]'' else join (lit ''|'') (map (js_string num_text) vs))
      | JObject es \<Rightarrow> stringify v)"

definition calculate_attribute_sizes ::
    "(js_number \<Rightarrow> ustring) \<Rightarrow> (js_value \<Rightarrow> ustring) \<Rightarrow> (ustring \<times> js_value) list \<Rightarrow> (ustring \<times> int) list" where
  "calculate_attribute_sizes num_text stringify mapped =
     foldl (\<lambda>sizes (key, v). obj_set key (count_utf8_bytes (transform_value num_text stringify v)) sizes)
       [] mapped"

definition calculate_total_size ::
    "(js_number \<Rightarrow> ustring) \<Rightarrow> (js_value \<Rightarrow> ustring) \<Rightarrow> (ustring \<times> js_value) list \<Rightarrow> int" where
  "calculate_total_size num_text stringify mapped =
     foldl (\<lambda>t (_, n). t + n) 0 (calculate_attribute_sizes num_text stringify mapped)
       + calculate_attribute_names_size mapped"

record size_breakdown =
  sb_total :: int
  sb_value_sizes :: "(ustring \<times> int) list"
  sb_names_size :: int
  sb_value_total :: int
  sb_breakdown :: "(ustring \<times> int) list"

text \<open>The percentages, formatted quotients of the listed sizes, are left out.\<close>

definition get_size_breakdown ::
    "(js_number \<Rightarrow> ustring) \<Rightarrow> (js_value \<Rightarrow> ustring) \<Rightarrow> (ustring \<times> js_value) list \<Rightarrow> size_breakdown" where
  "get_size_breakdown num_text stringify mapped =
     (let valueSizes = calculate_attribute_sizes num_text stringify mapped;
          namesSize = calculate_attribute_names_size mapped;
          valueTotal = foldl (\<lambda>t (_, n). t + n) 0 valueSizes
      in \<lparr>sb_total = valueTotal + namesSize, sb_value_sizes = valueSizes,
          sb_names_size = namesSize, sb_value_total = valueTotal,
          sb_breakdown = sort_key (\<lambda>(_, n). - n) valueSizes\<rparr>)"

record system_config =
  sy_version :: ustring
  sy_timestamps :: bool
  sy_id :: js_value

definition default_system_config :: system_config where
  "default_system_config = \<lparr>sy_version = lit ''1'', sy_timestamps = False, sy_id = JString []\<rparr>"

definition calculate_system_overhead ::
    "(js_number \<Rightarrow> ustring) \<Rightarrow> (js_value \<Rightarrow> ustring) \<Rightarrow> system_config \<Rightarrow> int" where
  "calculate_system_overhead num_text stringify c =
     calculate_total_size num_text stringify
       ([(lit ''_v'', JString (sy_version c))] @
        (if sy_timestamps c then
           [(lit ''createdAt'', JString (lit ''2024-01-01T00:00:00.000Z'')),
            (lit ''updatedAt'', JString (lit ''2024-01-01T00:00:00.000Z''))] else []) @
        (if js_truthy (sy_id c) then [(lit ''id'', sy_id c)] else []))"

definition calculate_effective_limit ::
    "(js_number \<Rightarrow> ustring) \<Rightarrow> (js_value \<Rightarrow> ustring) \<Rightarrow> int option \<Rightarrow> int option \<Rightarrow> system_config \<Rightarrow> int" where
  "calculate_effective_limit num_text stringify storageLimit s3Limit c =
     (case storageLimit of
        Some n \<Rightarrow> n
      | None \<Rightarrow> (case s3Limit of Some n \<Rightarrow> n | None \<Rightarrow> 2048))
       - calculate_system_overhead num_text stringify c"

section \<open>Lemmas\<close>

lemma count_utf8_bytes_encode:
  "\<forall>u \<in> set s. u < 65536 \<Longrightarrow> count_utf8_bytes s = int (length (utf8_encode s))"
proof (induction s rule: count_utf8_bytes.induct)
  case (2 u)
  then show ?case by (auto simp: code_point_bytes_def utf8_point_def is_high_def is_low_def)
next
  case (3 u v us)
  have pair: "code_point_bytes (pair_point u v) = int (length (utf8_point (pair_point u v)))"
    if "is_high u" "is_low v"
    using pair_point_bound [OF that] by (simp add: code_point_bytes_def utf8_point_def)
  have one: "code_point_bytes u = int (length (utf8_point (if is_high u \<or> is_low u then 65533 else u)))"
    using 3(3) by (auto simp: code_point_bytes_def utf8_point_def is_high_def is_low_def)
  show ?case
  proof (cases "is_high u \<and> is_low v")
    case True
    with 3 pair show ?thesis by simp
  next
    case False
    with 3 one show ?thesis by (auto simp del: if_split)
  qed
qed simp

lemma count_utf8_bytes_nonneg: "0 \<le> count_utf8_bytes s"
  by (induction s rule: count_utf8_bytes.induct) (auto simp: code_point_bytes_def)

lemma utf8_memory_bounded:
  "length memory \<le> 10000 \<Longrightarrow> length (snd (calculate_utf8_bytes memory s)) \<le> 10000"
proof -
  have u: "length (AList.update k v m) \<le> length m + 1" for k :: ustring and v :: int and m
    by (induction m) auto
  show "length memory \<le> 10000 \<Longrightarrow> ?thesis"
    using u [of s "count_utf8_bytes s" memory] u [of s "count_utf8_bytes s" "drop 5000 memory"]
    by (auto simp: calculate_utf8_bytes_def Let_def split: option.splits)
qed

lemma foldl_add: "foldl (\<lambda>t (k, n). t + g k n) a es = a + (\<Sum>(k, n) \<leftarrow> es. (g k n :: int))"
  by (induction es arbitrary: a) auto

lemma names_size_sum: "calculate_attribute_names_size mapped = (\<Sum>(k, _) \<leftarrow> mapped. count_utf8_bytes k)"
  unfolding calculate_attribute_names_size_def by (subst foldl_add) simp

lemma attribute_sizes_obj_of:
  "calculate_attribute_sizes num_text stringify mapped =
     obj_of (map (\<lambda>(k, v). (k, count_utf8_bytes (transform_value num_text stringify v))) mapped)"
  unfolding calculate_attribute_sizes_def obj_of_def foldl_map by (rule foldl_cong) auto

text \<open>The size of an object with distinct keys is the sum over its entries, in any order.\<close>

lemma total_size_sum:
  assumes "distinct_keys mapped"
  shows "calculate_total_size num_text stringify mapped =
    (\<Sum>(k, v) \<leftarrow> mapped. count_utf8_bytes k + count_utf8_bytes (transform_value num_text stringify v))"
proof -
  let ?es = "map (\<lambda>(k, v). (k, count_utf8_bytes (transform_value num_text stringify v))) mapped"
  have "distinct_keys ?es" using assms by (simp add: distinct_keys_def comp_def case_prod_beta)
  then have "sum_entries (\<lambda>n. n) (obj_of ?es) = sum_entries (\<lambda>n. n) ?es" by (rule sum_entries_obj_of)
  moreover have "foldl (\<lambda>t (_, n). t + n) 0 es = sum_entries (\<lambda>n. n) es" for es :: "(ustring \<times> int) list"
    unfolding foldl_add by (induction es) auto
  ultimately have "calculate_total_size num_text stringify mapped =
      sum_entries (\<lambda>n. n) ?es + calculate_attribute_names_size mapped"
    by (simp add: calculate_total_size_def attribute_sizes_obj_of)
  also have "sum_entries (\<lambda>n. n) ?es =
      (\<Sum>(k, v) \<leftarrow> mapped. count_utf8_bytes (transform_value num_text stringify v))"
    by (induction mapped) auto
  finally show ?thesis
    unfolding names_size_sum by (simp add: split_def sum_list_addf)
qed

section \<open>Properties\<close>

text \<open>
  The calculator agrees with the platform. Whatever strings were measured before, in whatever
  order and however often the memory was halved, each answer is the number of bytes
  \<open>Buffer.byteLength\<close> gives, unpaired surrogates included.
\<close>
theorem utf8_calculator_exact:
  assumes "\<forall>s \<in> set calls. \<forall>u \<in> set s. u < 65536"
  shows "utf8_memo.run_all clear_utf8_memory calls = map (\<lambda>s. int (length (utf8_encode s))) calls"
proof -
  have "utf8_memo.run_all clear_utf8_memory calls = map count_utf8_bytes calls"
    by (rule utf8_memo.run_all_transparent) (simp add: clear_utf8_memory_def)
  also have "\<dots> = map (\<lambda>s. int (length (utf8_encode s))) calls"
    using assms by (simp add: count_utf8_bytes_encode)
  finally show ?thesis .
qed

lemma utf8_calculator_exact_witness:
  "utf8_memo.run_all clear_utf8_memory [[233, 55357, 56832], [55357], [233, 55357, 56832]] = [6, 3, 6]"
  by (subst utf8_calculator_exact) (simp_all add: utf8_point_def pair_point_def is_high_def is_low_def)

end
