(* ===== verification/Behaviors.thy ===== *)
theory Behaviors
  imports Calculator
begin

text \<open>
  \<open>core/src/behaviors\<close>: what happens to a mapped record whose metadata may be too large. Each behavior
  has an insert, an update, an upsert and a get handler.

  \<open>num_text\<close> is the decimal form of a number, \<open>stringify\<close> and \<open>parse\<close> are \<open>JSON.stringify\<close> and
  \<open>JSON.parse\<close> (\<open>None\<close> where it throws). Mapped records and metadata are the entries of plain objects.
\<close>

section \<open>Parameters\<close>

type_synonym fields = "(ustring \<times> js_value) list"

record behavior_resource =
  br_version :: ustring
  br_timestamps :: bool
  br_map :: "js_value option"
  br_plugin_map :: "fields option"
  br_metadata_limit :: "int option"

record json =
  num_text :: "js_number \<Rightarrow> ustring"
  stringify :: "js_value \<Rightarrow> ustring"
  parse :: "ustring \<Rightarrow> js_value option"

datatype behavior_operation = Insert | Update | Upsert

record limit_error =
  le_operation :: behavior_operation
  le_total_size :: int
  le_effective_limit :: int
  le_absolute_limit :: int
  le_excess :: int

text \<open>The payload of the \<open>exceedsLimit\<close> event, without the record itself.\<close>

record limit_event =
  ev_operation :: behavior_operation
  ev_total_size :: int
  ev_limit :: int
  ev_excess :: int

record behavior_result =
  bh_mapped :: fields
  bh_body :: ustring

definition absolute_limit :: "behavior_resource \<Rightarrow> int" where
  "absolute_limit r = (case br_metadata_limit r of None \<Rightarrow> 2047 | Some n \<Rightarrow> n)"

definition total_size :: "json \<Rightarrow> fields \<Rightarrow> int" where
  "total_size J = calculate_total_size (num_text J) (stringify J)"

definition effective_limit :: "json \<Rightarrow> behavior_resource \<Rightarrow> js_value \<Rightarrow> int" where
  "effective_limit J r rid =
     calculate_effective_limit (num_text J) (stringify J) (Some (absolute_limit r)) None
       \<lparr>sy_version = br_version r, sy_timestamps = br_timestamps r,
        sy_id = (if rid = JUndefined then JString [] else rid)\<rparr>"

definition record_id :: "fields \<Rightarrow> js_value" where
  "record_id data = prop_of data (lit ''id'')"

definition has_plugin_map :: "behavior_resource \<Rightarrow> bool" where
  "has_plugin_map r \<longleftrightarrow> (case br_plugin_map r of None \<Rightarrow> False | Some es \<Rightarrow> es \<noteq> [])"

definition plugin_map_text :: "json \<Rightarrow> behavior_resource \<Rightarrow> ustring" where
  "plugin_map_text J r = stringify J (case br_plugin_map r of None \<Rightarrow> JUndefined | Some es \<Rightarrow> JObject es)"

section \<open>enforce-limits\<close>

definition limit_check ::
    "json \<Rightarrow> behavior_operation \<Rightarrow> behavior_resource \<Rightarrow> js_value \<Rightarrow> fields \<Rightarrow> limit_error option" where
  "limit_check J oper r rid mapped =
     (let t = total_size J mapped; e = effective_limit J r rid
      in if t > e then
           Some \<lparr>le_operation = oper, le_total_size = t, le_effective_limit = e,
                 le_absolute_limit = absolute_limit r, le_excess = t - e\<rparr>
         else None)"

definition enforce_insert ::
    "json \<Rightarrow> behavior_resource \<Rightarrow> fields \<Rightarrow> fields \<Rightarrow> limit_error + behavior_result" where
  "enforce_insert J r data mapped =
     (case limit_check J Insert r (record_id data) mapped of
        Some e \<Rightarrow> Inl e
      | None \<Rightarrow> Inr \<lparr>bh_mapped = mapped, bh_body = []\<rparr>)"

definition enforce_update ::
    "json \<Rightarrow> behavior_resource \<Rightarrow> js_value \<Rightarrow> fields \<Rightarrow> limit_error + behavior_result" where
  "enforce_update J r rid mapped =
     (case limit_check J Update r rid mapped of
        Some e \<Rightarrow> Inl e
      | None \<Rightarrow> Inr \<lparr>bh_mapped = mapped, bh_body = stringify J (JObject mapped)\<rparr>)"

definition enforce_upsert ::
    "json \<Rightarrow> behavior_resource \<Rightarrow> js_value \<Rightarrow> fields \<Rightarrow> limit_error + behavior_result" where
  "enforce_upsert J r rid mapped =
     (case limit_check J Upsert r rid mapped of
        Some e \<Rightarrow> Inl e
      | None \<Rightarrow> Inr \<lparr>bh_mapped = mapped, bh_body = []\<rparr>)"

definition enforce_get :: "fields \<Rightarrow> ustring \<Rightarrow> fields \<times> ustring" where
  "enforce_get metadata body = (metadata, body)"

section \<open>user-managed\<close>

definition limit_events ::
    "json \<Rightarrow> behavior_operation \<Rightarrow> behavior_resource \<Rightarrow> js_value \<Rightarrow> fields \<Rightarrow> limit_event list" where
  "limit_events J oper r rid mapped =
     (let t = total_size J mapped
      in if t > effective_limit J r rid then
           [\<lparr>ev_operation = oper, ev_total_size = t, ev_limit = absolute_limit r,
             ev_excess = t - absolute_limit r\<rparr>]
         else [])"

definition user_insert ::
    "json \<Rightarrow> behavior_resource \<Rightarrow> fields \<Rightarrow> fields \<Rightarrow> behavior_result \<times> limit_event list" where
  "user_insert J r data mapped =
     (let evs = limit_events J Insert r (record_id data) mapped
      in if evs \<noteq> [] then
           (let metadataOnly = [(lit ''_v'', prop_of mapped (lit ''_v''))];
                metadataOnly = (if has_plugin_map r
                  then obj_set (lit ''_pluginMap'') (JString (plugin_map_text J r)) metadataOnly
                  else metadataOnly)
            in (\<lparr>bh_mapped = metadataOnly, bh_body = stringify J (JObject mapped)\<rparr>, evs))
         else (\<lparr>bh_mapped = mapped, bh_body = []\<rparr>, []))"

definition user_update ::
    "json \<Rightarrow> behavior_resource \<Rightarrow> js_value \<Rightarrow> fields \<Rightarrow> fields \<Rightarrow> behavior_result \<times> limit_event list" where
  "user_update J r rid data mapped =
     (\<lparr>bh_mapped = mapped, bh_body = stringify J (JObject data)\<rparr>, limit_events J Update r rid mapped)"

definition user_upsert ::
    "json \<Rightarrow> behavior_resource \<Rightarrow> js_value \<Rightarrow> fields \<Rightarrow> fields \<Rightarrow> behavior_result \<times> limit_event list" where
  "user_upsert J r rid data mapped =
     (\<lparr>bh_mapped = mapped, bh_body = stringify J (JObject data)\<rparr>, limit_events J Upsert r rid mapped)"

text \<open>\<open>{...bodyData, ...metadata}\<close>\<close>

definition merge_fields :: "fields \<Rightarrow> fields \<Rightarrow> fields" where
  "merge_fields base extra = obj_of (base @ extra)"

definition user_get :: "json \<Rightarrow> fields \<Rightarrow> ustring \<Rightarrow> fields \<times> ustring" where
  "user_get J metadata body =
     (if trim body \<noteq> [] then
        (case parse J body of
           Some v \<Rightarrow> (merge_fields (spread_entries v) metadata, body)
         | None \<Rightarrow> (metadata, body))
      else (metadata, body))"

section \<open>body-only\<close>

definition body_only_insert :: "json \<Rightarrow> behavior_resource \<Rightarrow> fields \<Rightarrow> behavior_result" where
  "body_only_insert J r mapped =
     (let v = prop_of mapped (lit ''_v'');
          m1 = [(lit ''_v'', if js_truthy v then v else JString (br_version r))];
          m2 = obj_set (lit ''_map'') (JString (stringify J
                 (case br_map r of Some m \<Rightarrow> if js_truthy m then m else JObject [] | None \<Rightarrow> JObject []))) m1;
          m3 = (if has_plugin_map r
                then obj_set (lit ''_pluginMap'') (JString (plugin_map_text J r)) m2 else m2)
      in \<lparr>bh_mapped = m3, bh_body = stringify J (JObject mapped)\<rparr>)"

text \<open>The update handler repeats the insert handler; the upsert handler calls it.\<close>

definition body_only_update :: "json \<Rightarrow> behavior_resource \<Rightarrow> fields \<Rightarrow> behavior_result" where
  "body_only_update J r mapped =
     (let v = prop_of mapped (lit ''_v'');
          m1 = [(lit ''_v'', if js_truthy v then v else JString (br_version r))];
          m2 = obj_set (lit ''_map'') (JString (stringify J
                 (case br_map r of Some m \<Rightarrow> if js_truthy m then m else JObject [] | None \<Rightarrow> JObject []))) m1;
          m3 = (if has_plugin_map r
                then obj_set (lit ''_pluginMap'') (JString (plugin_map_text J r)) m2 else m2)
      in \<lparr>bh_mapped = m3, bh_body = stringify J (JObject mapped)\<rparr>)"

definition body_only_upsert :: "json \<Rightarrow> behavior_resource \<Rightarrow> fields \<Rightarrow> behavior_result" where
  "body_only_upsert J r mapped = body_only_insert J r mapped"

text \<open>The body's fields; no body, or one that does not parse, has none.\<close>

definition body_fields :: "json \<Rightarrow> ustring \<Rightarrow> fields" where
  "body_fields J body =
     (if trim body \<noteq> [] then (case parse J body of Some v \<Rightarrow> spread_entries v | None \<Rightarrow> []) else [])"

definition body_only_get :: "json \<Rightarrow> fields \<Rightarrow> ustring \<Rightarrow> fields \<times> ustring" where
  "body_only_get J metadata body = (merge_fields (body_fields J body) metadata, body)"

section \<open>body-overflow\<close>

definition overflow_flag :: ustring where
  "overflow_flag = lit ''$overflow''"

definition flag_value :: ustring where
  "flag_value = lit ''true''"

definition overflow_flag_bytes :: int where
  "overflow_flag_bytes = count_utf8_bytes overflow_flag + count_utf8_bytes flag_value"

definition attribute_sizes :: "json \<Rightarrow> fields \<Rightarrow> (ustring \<times> int) list" where
  "attribute_sizes J mapped = calculate_attribute_sizes (num_text J) (stringify J) mapped"

definition size_of :: "(ustring \<times> int) list \<Rightarrow> ustring \<Rightarrow> int" where
  "size_of sizes k = (case map_of sizes k of None \<Rightarrow> 0 | Some n \<Rightarrow> n)"

record overflow_state =
  ov_metadata :: fields
  ov_body :: fields
  ov_size :: int
  ov_overflow :: bool
  ov_reserved :: int

definition overflow_step :: "int \<Rightarrow> fields \<Rightarrow> overflow_state \<Rightarrow> ustring \<times> int \<Rightarrow> overflow_state" where
  "overflow_step limit mapped s e =
     (case e of (fieldName, sz) \<Rightarrow>
        if fieldName = lit ''_v'' then s
        else
          let s = (if \<not> ov_overflow s \<and> ov_size s + sz > limit
                   then s\<lparr>ov_reserved := ov_reserved s - overflow_flag_bytes, ov_overflow := True\<rparr>
                   else s)
          in if \<not> ov_overflow s \<and> ov_size s + sz \<le> ov_reserved s then
               s\<lparr>ov_metadata := obj_set fieldName (prop_of mapped fieldName) (ov_metadata s),
                 ov_size := ov_size s + sz\<rparr>
             else
               s\<lparr>ov_body := obj_set fieldName (prop_of mapped fieldName) (ov_body s),
                 ov_overflow := True\<rparr>)"

definition overflow_start :: "json \<Rightarrow> behavior_resource \<Rightarrow> js_value \<Rightarrow> fields \<Rightarrow> overflow_state" where
  "overflow_start J r rid mapped =
     (let v = prop_of mapped (lit ''_v'');
          s1 = (if js_truthy v
                then ([(lit ''_v'', v)], size_of (attribute_sizes J mapped) (lit ''_v''))
                else ([], 0));
          s2 = (if has_plugin_map r
                then (obj_set (lit ''_pluginMap'') (JString (plugin_map_text J r)) (fst s1),
                      snd s1 + (count_utf8_bytes (lit ''_pluginMap'')
                                + count_utf8_bytes (plugin_map_text J r)))
                else s1)
      in \<lparr>ov_metadata = fst s2, ov_body = [], ov_size = snd s2, ov_overflow = False,
          ov_reserved = effective_limit J r rid\<rparr>)"

definition overflow_insert :: "json \<Rightarrow> behavior_resource \<Rightarrow> fields \<Rightarrow> fields \<Rightarrow> behavior_result" where
  "overflow_insert J r data mapped =
     (let rid = record_id data;
          sortedFields = sort_key snd (attribute_sizes J mapped);
          s = foldl (overflow_step (effective_limit J r rid) mapped)
                (overflow_start J r rid mapped) sortedFields;
          metadataFields = (if ov_overflow s then obj_set overflow_flag (JString flag_value) (ov_metadata s)
                            else ov_metadata s)
      in \<lparr>bh_mapped = metadataFields,
          bh_body = (if ov_body s \<noteq> [] then stringify J (JObject (ov_body s)) else [])\<rparr>)"

definition overflow_update :: "json \<Rightarrow> behavior_resource \<Rightarrow> fields \<Rightarrow> fields \<Rightarrow> behavior_result" where
  "overflow_update J r data mapped = overflow_insert J r data mapped"

definition overflow_upsert :: "json \<Rightarrow> behavior_resource \<Rightarrow> fields \<Rightarrow> fields \<Rightarrow> behavior_result" where
  "overflow_upsert J r data mapped = overflow_insert J r data mapped"

definition overflow_get :: "json \<Rightarrow> fields \<Rightarrow> ustring \<Rightarrow> fields \<times> ustring" where
  "overflow_get J metadata body =
     (AList.delete overflow_flag (merge_fields (body_fields J body) metadata), body)"

section \<open>truncate-data\<close>

definition truncated_flag :: ustring where
  "truncated_flag = lit ''$truncated''"

definition truncated_flag_bytes :: int where
  "truncated_flag_bytes = count_utf8_bytes truncated_flag + count_utf8_bytes flag_value"

text \<open>The search for the longest prefix that fits, from the whole string down.\<close>

fun truncate_loop :: "ustring \<Rightarrow> int \<Rightarrow> nat \<Rightarrow> ustring" where
  "truncate_loop str maxBytes 0 = []"
| "truncate_loop str maxBytes (Suc len) =
     (if int (length (utf8_encode (take (Suc len) str))) \<le> maxBytes then take (Suc len) str
      else truncate_loop str maxBytes len)"

definition truncate_string :: "ustring \<Rightarrow> int \<Rightarrow> ustring" where
  "truncate_string str maxBytes =
     (if int (length (utf8_encode str)) \<le> maxBytes then str
      else truncate_loop str maxBytes (length str))"

definition truncate_value :: "json \<Rightarrow> js_value \<Rightarrow> int \<Rightarrow> ustring" where
  "truncate_value J v maxBytes =
     (case v of
        JString s \<Rightarrow> truncate_string s maxBytes
      | JArray _ \<Rightarrow> truncate_string (stringify J v) maxBytes
      | JObject _ \<Rightarrow> truncate_string (stringify J v) maxBytes
      | _ \<Rightarrow> truncate_string (js_string (num_text J) v) maxBytes)"

text \<open>The loop over the sorted fields, left by \<open>break\<close> at the first field that does not fit.\<close>

fun truncate_fields ::
    "json \<Rightarrow> int \<Rightarrow> fields \<Rightarrow> (ustring \<times> int) list \<Rightarrow> fields \<Rightarrow> int \<Rightarrow> fields \<times> bool" where
  "truncate_fields J limit mapped [] result currentSize = (result, False)"
| "truncate_fields J limit mapped ((fieldName, sz) # rest) result currentSize =
     (if fieldName = lit ''_v'' then truncate_fields J limit mapped rest result currentSize
      else
        let fieldValue = prop_of mapped fieldName
        in if currentSize + (sz + truncated_flag_bytes) \<le> limit then
             truncate_fields J limit mapped rest (obj_set fieldName fieldValue result) (currentSize + sz)
           else
             let availableSpace = limit - currentSize - truncated_flag_bytes
             in if availableSpace > 0 then
                  (obj_set fieldName (JString (truncate_value J fieldValue availableSpace)) result, True)
                else (obj_set fieldName (JString []) result, True))"

definition blankable :: "fields \<Rightarrow> ustring list" where
  "blankable result = filter (\<lambda>f. f \<noteq> lit ''_v'' \<and> f \<noteq> truncated_flag) (map fst result)"

text \<open>
  The final loop: while the result is too large, blank its last field. \<open>None\<close> is a loop that does not
  end.
\<close>

partial_function (option) blank_last ::
    "json \<Rightarrow> int \<Rightarrow> fields \<Rightarrow> bool \<Rightarrow> int \<Rightarrow> (fields \<times> bool) option" where
  "blank_last J limit result truncated finalSize =
     (if finalSize > limit then
        if blankable result = [] then Some (result, truncated)
        else
          let result' = obj_set (last (blankable result)) (JString []) result
          in blank_last J limit result' True (total_size J result' + truncated_flag_bytes)
      else Some (result, truncated))"

definition truncate_insert :: "json \<Rightarrow> behavior_resource \<Rightarrow> fields \<Rightarrow> fields \<Rightarrow> behavior_result option" where
  "truncate_insert J r data mapped =
     (let limit = effective_limit J r (record_id data);
          sizes = attribute_sizes J mapped;
          v = prop_of mapped (lit ''_v'');
          start = (if js_truthy v then ([(lit ''_v'', v)], size_of sizes (lit ''_v'')) else ([], 0));
          (result, truncated) = truncate_fields J limit mapped (sort_key snd sizes) (fst start) (snd start)
      in map_option
           (\<lambda>(result, truncated).
              \<lparr>bh_mapped = (if truncated then obj_set truncated_flag (JString flag_value) result else result),
               bh_body = []\<rparr>)
           (blank_last J limit result truncated
              (total_size J result + (if truncated then truncated_flag_bytes else 0))))"

definition truncate_update :: "json \<Rightarrow> behavior_resource \<Rightarrow> fields \<Rightarrow> fields \<Rightarrow> behavior_result option" where
  "truncate_update J r data mapped = truncate_insert J r data mapped"

definition truncate_upsert :: "json \<Rightarrow> behavior_resource \<Rightarrow> fields \<Rightarrow> fields \<Rightarrow> behavior_result option" where
  "truncate_upsert J r data mapped = truncate_insert J r data mapped"

definition truncate_get :: "fields \<Rightarrow> ustring \<Rightarrow> fields \<times> ustring" where
  "truncate_get metadata body = (metadata, body)"

section \<open>The registry\<close>

datatype behavior_name = UserManaged | EnforceLimits | TruncateData | BodyOverflow | BodyOnly

definition behavior_names :: "(ustring \<times> behavior_name) list" where
  "behavior_names =
     [(lit ''user-managed'', UserManaged), (lit ''enforce-limits'', EnforceLimits),
      (lit ''truncate-data'', TruncateData), (lit ''body-overflow'', BodyOverflow),
      (lit ''body-only'', BodyOnly)]"

text \<open>
  \<open>getBehavior\<close>: \<open>None\<close> is the \<open>BehaviorError\<close>. (A name every object inherits, such as
  \<open>toString\<close>, would find that member in place of a behavior; such names are not considered.)
\<close>

definition get_behavior :: "ustring \<Rightarrow> behavior_name option" where
  "get_behavior name = map_of behavior_names name"

end
