(* ===== verification/Behaviors_Laws.thy ===== *)
theory Behaviors_Laws
  imports Behaviors
begin

text \<open>
  The laws of the behaviors: reading a record back after an insert gives its fields, whatever part of
  it went into the body; which sizes are kept within the limit and which are not; and when the
  truncation loop ends.
\<close>

section \<open>The JSON contract\<close>

text \<open>
  What the behaviors need of \<open>JSON.stringify\<close> and \<open>JSON.parse\<close>: an object of strings is printed as
  a non-blank text that parses to an object with the same properties.
\<close>

definition string_fields :: "fields \<Rightarrow> bool" where
  "string_fields es \<longleftrightarrow> (\<forall>p \<in> set es. \<exists>s. snd p = JString s)"

definition json_ok :: "json \<Rightarrow> bool" where
  "json_ok J \<longleftrightarrow> (\<forall>es. distinct_keys es \<longrightarrow> string_fields es \<longrightarrow>
     trim (stringify J (JObject es)) \<noteq> [] \<and>
     (\<exists>es'. parse J (stringify J (JObject es)) = Some (JObject es') \<and>
            distinct_keys es' \<and> map_of es' = map_of es))"

lemma body_fields_json:
  "json_ok J \<Longrightarrow> distinct_keys es \<Longrightarrow> string_fields es \<Longrightarrow>
     map_of (body_fields J (stringify J (JObject es))) = map_of es \<and>
     distinct_keys (body_fields J (stringify J (JObject es)))"
  unfolding json_ok_def body_fields_def by fastforce

lemma body_fields_Nil [simp]: "body_fields J [] = []"
  by (simp add: body_fields_def trim_def)

lemma map_of_merge_fields:
  "distinct_keys base \<Longrightarrow> distinct_keys extra \<Longrightarrow>
     map_of (merge_fields base extra) = map_of base ++ map_of extra"
  by (simp add: merge_fields_def map_of_obj_of_rev map_of_append map_of_rev)

lemma distinct_keys_map_of_iff:
  "distinct_keys m \<Longrightarrow> (k, v) \<in> set m \<longleftrightarrow> map_of m k = Some v"
  by (simp add: distinct_keys_def)

section \<open>body-overflow\<close>

abbreviation overflow_view :: "overflow_state \<Rightarrow> ustring \<Rightarrow> js_value option" where
  "overflow_view s \<equiv> map_of (ov_body s) ++ map_of (ov_metadata s)"

text \<open>One step puts the field into one of the two objects.\<close>

lemma overflow_step_cases:
  assumes "k \<noteq> lit ''_v''"
  shows "(\<exists>n b. overflow_step limit mapped s (k, sz) =
       s\<lparr>ov_metadata := obj_set k (prop_of mapped k) (ov_metadata s), ov_size := ov_size s + sz,
         ov_overflow := b, ov_reserved := n\<rparr> \<and> ov_size s + sz \<le> limit) \<or>
     (\<exists>n. overflow_step limit mapped s (k, sz) =
       s\<lparr>ov_body := obj_set k (prop_of mapped k) (ov_body s), ov_overflow := True, ov_reserved := n\<rparr>)"
proof (cases "\<not> ov_overflow s \<and> ov_size s + sz > limit")
  case True
  then show ?thesis
    using assms by (intro disjI2 exI [of _ "ov_reserved s - overflow_flag_bytes"])
      (simp add: overflow_step_def Let_def)
next
  case False
  note keep = False
  show ?thesis
  proof (cases "\<not> ov_overflow s \<and> ov_size s + sz \<le> ov_reserved s")
    case True
    with keep have "ov_size s + sz \<le> limit" by simp
    with True keep assms show ?thesis
      by (intro disjI1 exI [of _ "ov_reserved s"] exI [of _ "ov_overflow s"])
        (simp add: overflow_step_def Let_def)
  next
    case False
    with keep assms show ?thesis
      by (intro disjI2 exI [of _ "ov_reserved s"]) (auto simp: overflow_step_def Let_def)
  qed
qed

lemma overflow_fold_view:
  assumes "distinct (map fst fs)" "\<forall>k \<in> fst ` set fs. k \<noteq> lit ''_v'' \<longrightarrow> map_of (ov_metadata s) k = None"
  shows "overflow_view (foldl (overflow_step limit mapped) s fs) =
     (\<lambda>k. if k \<in> fst ` set fs \<and> k \<noteq> lit ''_v'' then Some (prop_of mapped k) else overflow_view s k)"
  using assms
proof (induction fs arbitrary: s)
  case (Cons f fs)
  obtain k sz where f: "f = (k, sz)" by (cases f)
  show ?case
  proof (cases "k = lit ''_v''")
    case True
    then have "overflow_step limit mapped s f = s" by (simp add: f overflow_step_def)
    with Cons True f show ?thesis by auto
  next
    case False
    let ?s = "overflow_step limit mapped s f"
    have none: "map_of (ov_metadata s) k = None" using Cons.prems(2) f False by simp
    have view: "overflow_view ?s = (overflow_view s)(k \<mapsto> prop_of mapped k)"
      using overflow_step_cases [OF False, of limit mapped s sz] none
      by (auto simp: f map_of_obj_set map_add_def fun_eq_iff split: option.splits)
    have "\<forall>k' \<in> fst ` set fs. k' \<noteq> lit ''_v'' \<longrightarrow> map_of (ov_metadata ?s) k' = None"
    proof (intro ballI impI)
      fix k' assume k': "k' \<in> fst ` set fs" "k' \<noteq> lit ''_v''"
      with Cons.prems f have "k' \<noteq> k" "map_of (ov_metadata s) k' = None" by auto
      with overflow_step_cases [OF False, of limit mapped s sz] show "map_of (ov_metadata ?s) k' = None"
        by (auto simp: f map_of_obj_set)
    qed
    from Cons.IH [OF _ this] Cons.prems(1) f False view show ?thesis
      by (auto simp: fun_eq_iff)
  qed
qed simp

lemma overflow_fold_objects:
  assumes "distinct_keys (ov_metadata s)" "distinct_keys (ov_body s)"
    "\<forall>p \<in> set (ov_body s). snd p = prop_of mapped (fst p) \<and> fst p \<in> K" "fst ` set fs \<subseteq> K"
  shows "distinct_keys (ov_metadata (foldl (overflow_step limit mapped) s fs)) \<and>
     distinct_keys (ov_body (foldl (overflow_step limit mapped) s fs)) \<and>
     (\<forall>p \<in> set (ov_body (foldl (overflow_step limit mapped) s fs)).
        snd p = prop_of mapped (fst p) \<and> fst p \<in> K)"
  using assms
proof (induction fs arbitrary: s)
  case (Cons f fs)
  obtain k sz where f: "f = (k, sz)" by (cases f)
  let ?s = "overflow_step limit mapped s f"
  have "distinct_keys (ov_metadata ?s) \<and> distinct_keys (ov_body ?s) \<and>
      (\<forall>p \<in> set (ov_body ?s). snd p = prop_of mapped (fst p) \<and> fst p \<in> K)"
  proof (cases "k = lit ''_v''")
    case True
    with Cons.prems show ?thesis by (simp add: f overflow_step_def)
  next
    case False
    from Cons.prems(4) f have "k \<in> K" by simp
    with overflow_step_cases [OF False, of limit mapped s sz] Cons.prems(1-3)
      set_obj_set [of k "prop_of mapped k" "ov_body s"] show ?thesis
      by (auto simp: f)
  qed
  with Cons.IH [of ?s] Cons.prems(4) show ?case by simp
qed simp

lemma attribute_sizes_keys:
  assumes "distinct_keys mapped"
  shows "distinct_keys (attribute_sizes J mapped)" "fst ` set (attribute_sizes J mapped) = fst ` set mapped"
    "size_of (attribute_sizes J mapped) k =
       (case map_of mapped k of None \<Rightarrow> 0
        | Some v \<Rightarrow> count_utf8_bytes (transform_value (num_text J) (stringify J) v))"
proof -
  let ?es = "map (\<lambda>(k, v). (k, count_utf8_bytes (transform_value (num_text J) (stringify J) v))) mapped"
  have d: "distinct_keys ?es" using assms by (simp add: distinct_keys_def comp_def case_prod_beta)
  show "distinct_keys (attribute_sizes J mapped)"
    by (simp add: attribute_sizes_def attribute_sizes_obj_of)
  show "fst ` set (attribute_sizes J mapped) = fst ` set mapped"
    by (simp add: attribute_sizes_def attribute_sizes_obj_of set_obj_of [OF d] image_image case_prod_beta)
  show "size_of (attribute_sizes J mapped) k =
       (case map_of mapped k of None \<Rightarrow> 0
        | Some v \<Rightarrow> count_utf8_bytes (transform_value (num_text J) (stringify J) v))"
    by (simp add: size_of_def attribute_sizes_def attribute_sizes_obj_of map_of_obj_of [OF d] map_of_map
        split: option.splits)
qed

text \<open>
  The state an insert ends in, on a record without plugin map whose version field is present and
  truthy or absent.
\<close>

definition overflow_final :: "json \<Rightarrow> behavior_resource \<Rightarrow> fields \<Rightarrow> fields \<Rightarrow> overflow_state" where
  "overflow_final J r data mapped =
     foldl (overflow_step (effective_limit J r (record_id data)) mapped)
       (overflow_start J r (record_id data) mapped) (sort_key snd (attribute_sizes J mapped))"

lemma overflow_insert_eq:
  "overflow_insert J r data mapped =
     \<lparr>bh_mapped = (if ov_overflow (overflow_final J r data mapped)
        then obj_set overflow_flag (JString flag_value) (ov_metadata (overflow_final J r data mapped))
        else ov_metadata (overflow_final J r data mapped)),
      bh_body = (if ov_body (overflow_final J r data mapped) \<noteq> []
        then stringify J (JObject (ov_body (overflow_final J r data mapped))) else [])\<rparr>"
  by (simp add: overflow_insert_def overflow_final_def Let_def)

lemma overflow_start_plain:
  assumes "\<not> has_plugin_map r"
  shows "ov_body (overflow_start J r rid mapped) = []"
    "ov_metadata (overflow_start J r rid mapped) =
       (if js_truthy (prop_of mapped (lit ''_v'')) then [(lit ''_v'', prop_of mapped (lit ''_v''))] else [])"
  using assms by (simp_all add: overflow_start_def Let_def)

lemma overflow_final_objects:
  assumes "distinct_keys mapped" "\<not> has_plugin_map r"
    "map_of mapped (lit ''_v'') = None \<or> js_truthy (prop_of mapped (lit ''_v''))"
  shows "overflow_view (overflow_final J r data mapped) = map_of mapped"
    "distinct_keys (ov_metadata (overflow_final J r data mapped))"
    "distinct_keys (ov_body (overflow_final J r data mapped))"
    "\<forall>p \<in> set (ov_body (overflow_final J r data mapped)).
       snd p = prop_of mapped (fst p) \<and> fst p \<in> fst ` set mapped"
proof -
  let ?fs = "sort_key snd (attribute_sizes J mapped)"
  let ?s = "overflow_start J r (record_id data) mapped"
  note keys = attribute_sizes_keys [OF assms(1), of J]
  have fs: "fst ` set ?fs = fst ` set mapped" using keys(2) by simp
  have "mset (map fst ?fs) = mset (map fst (attribute_sizes J mapped))" by simp
  then have d: "distinct (map fst ?fs)"
    using keys(1) unfolding distinct_keys_def by (metis mset_eq_imp_distinct_iff)
  note start = overflow_start_plain [OF assms(2), of J "record_id data" mapped]
  have "\<forall>k \<in> fst ` set ?fs. k \<noteq> lit ''_v'' \<longrightarrow> map_of (ov_metadata ?s) k = None"
    by (simp add: start)
  from overflow_fold_view [OF d this] 
  have view: "overflow_view (overflow_final J r data mapped) = (\<lambda>k.
      if k \<in> fst ` set mapped \<and> k \<noteq> lit ''_v'' then Some (prop_of mapped k) else overflow_view ?s k)"
    unfolding overflow_final_def fs by blast
  show "overflow_view (overflow_final J r data mapped) = map_of mapped"
  proof
    fix k
    have dom: "k \<in> fst ` set mapped \<longleftrightarrow> map_of mapped k \<noteq> None" by (auto simp: map_of_eq_None_iff)
    show "overflow_view (overflow_final J r data mapped) k = map_of mapped k"
      using assms(3) by (auto simp: view start dom prop_of_def split: option.splits if_splits)
  qed
  from overflow_fold_objects [of ?s mapped "fst ` set mapped" ?fs "effective_limit J r (record_id data)"]
  show "distinct_keys (ov_metadata (overflow_final J r data mapped))"
    "distinct_keys (ov_body (overflow_final J r data mapped))"
    "\<forall>p \<in> set (ov_body (overflow_final J r data mapped)).
       snd p = prop_of mapped (fst p) \<and> fst p \<in> fst ` set mapped"
    unfolding overflow_final_def using fs by (simp_all add: start distinct_keys_def)
qed

text \<open>The sizes of the values kept in the metadata.\<close>

lemma overflow_fold_size:
  assumes "distinct (map fst fs)" "\<forall>k \<in> fst ` set fs. k \<noteq> lit ''_v'' \<longrightarrow> map_of (ov_metadata s) k = None"
    "\<forall>(k, n) \<in> set fs. size_of sizes k = n" "distinct_keys (ov_metadata s)"
    "ov_size s = (\<Sum>(k, v) \<leftarrow> ov_metadata s. size_of sizes k)" "ov_size s \<le> m" "limit \<le> m"
  shows "(\<Sum>(k, v) \<leftarrow> ov_metadata (foldl (overflow_step limit mapped) s fs). size_of sizes k) \<le> m"
  using assms
proof (induction fs arbitrary: s)
  case (Cons f fs)
  obtain k sz where f: "f = (k, sz)" by (cases f)
  show ?case
  proof (cases "k = lit ''_v''")
    case True
    then have "overflow_step limit mapped s f = s" by (simp add: f overflow_step_def)
    with Cons show ?thesis by simp
  next
    case False
    let ?s = "overflow_step limit mapped s f"
    have none: "map_of (ov_metadata s) k = None" using Cons.prems(2) f False by simp
    then have "mset (obj_set k (prop_of mapped k) (ov_metadata s)) =
        add_mset (k, prop_of mapped k) (mset (ov_metadata s))"
      by (intro mset_obj_set) (simp add: map_of_eq_None_iff)
    then have total: "(\<Sum>(k, v) \<leftarrow> obj_set k (prop_of mapped k) (ov_metadata s). size_of sizes k) =
        size_of sizes k + (\<Sum>(k, v) \<leftarrow> ov_metadata s. size_of sizes k)"
      by (metis (no_types, lifting) mset.simps(2) mset_map sum_mset_sum_list list.simps(9) sum_list.Cons case_prod_conv)
    have sz: "size_of sizes k = sz" using Cons.prems(3) f by auto
    have "ov_size ?s = (\<Sum>(k, v) \<leftarrow> ov_metadata ?s. size_of sizes k)" "ov_size ?s \<le> m"
      "distinct_keys (ov_metadata ?s)"
      using overflow_step_cases [OF False, of limit mapped s sz] Cons.prems(4-7) total sz by (auto simp: f)
    moreover have "\<forall>k' \<in> fst ` set fs. k' \<noteq> lit ''_v'' \<longrightarrow> map_of (ov_metadata ?s) k' = None"
    proof (intro ballI impI)
      fix k' assume k': "k' \<in> fst ` set fs" "k' \<noteq> lit ''_v''"
      with Cons.prems f have "k' \<noteq> k" "map_of (ov_metadata s) k' = None" by auto
      with overflow_step_cases [OF False, of limit mapped s sz] show "map_of (ov_metadata ?s) k' = None"
        by (auto simp: f map_of_obj_set)
    qed
    ultimately show ?thesis using Cons.IH [of ?s] Cons.prems f by simp
  qed
qed simp

lemma overflow_final_size:
  assumes "distinct_keys mapped" "\<not> has_plugin_map r"
    "map_of mapped (lit ''_v'') = None \<or> js_truthy (prop_of mapped (lit ''_v''))"
  shows "(\<Sum>(k, v) \<leftarrow> ov_metadata (overflow_final J r data mapped). size_of (attribute_sizes J mapped) k)
    \<le> max (effective_limit J r (record_id data)) (size_of (attribute_sizes J mapped) (lit ''_v''))"
proof -
  let ?sizes = "attribute_sizes J mapped"
  note keys = attribute_sizes_keys [OF assms(1), of J]
  note start = overflow_start_plain [OF assms(2), of J "record_id data" mapped]
  have "mset (map fst (sort_key snd ?sizes)) = mset (map fst ?sizes)" by simp
  then have d: "distinct (map fst (sort_key snd ?sizes))"
    using keys(1) unfolding distinct_keys_def by (metis mset_eq_imp_distinct_iff)
  have sizes: "\<forall>(k, n) \<in> set (sort_key snd ?sizes). size_of ?sizes k = n"
    using keys(1) by (auto simp: size_of_def distinct_keys_map_of_iff)
  have nonneg: "0 \<le> size_of ?sizes (lit ''_v'')"
    by (auto simp: keys(3) count_utf8_bytes_nonneg split: option.splits)
  have size: "ov_size (overflow_start J r (record_id data) mapped) =
      (if js_truthy (prop_of mapped (lit ''_v'')) then size_of ?sizes (lit ''_v'') else 0)"
    using assms(2) by (simp add: overflow_start_def Let_def)
  show ?thesis
    unfolding overflow_final_def
    by (rule overflow_fold_size [OF d _ sizes])
      (use nonneg in \<open>auto simp: start size distinct_keys_def\<close>)
qed

section \<open>truncate-data\<close>

text \<open>The string cut: a prefix within the budget, and no longer prefix is.\<close>

lemma truncate_loop_spec:
  "0 \<le> maxBytes \<Longrightarrow>
   \<exists>m \<le> n. truncate_loop str maxBytes n = take m str \<and> int (length (utf8_encode (take m str))) \<le> maxBytes \<and>
     (\<forall>i. m < i \<and> i \<le> n \<longrightarrow> maxBytes < int (length (utf8_encode (take i str))))"
proof (induction n)
  case (Suc n)
  then obtain m where m: "m \<le> n" "truncate_loop str maxBytes n = take m str"
    "int (length (utf8_encode (take m str))) \<le> maxBytes"
    "\<forall>i. m < i \<and> i \<le> n \<longrightarrow> maxBytes < int (length (utf8_encode (take i str)))" by blast
  show ?case
  proof (cases "int (length (utf8_encode (take (Suc n) str))) \<le> maxBytes")
    case True
    then show ?thesis by (intro exI [of _ "Suc n"]) auto
  next
    case False
    with m show ?thesis by (intro exI [of _ m]) (auto simp: le_Suc_eq)
  qed
qed auto

text \<open>
  The blanking loop: it blanks the same last field every time, so it ends within one round or not
  at all.
\<close>

lemma blankable_set_last: "blankable es \<noteq> [] \<Longrightarrow> last (blankable es) \<in> fst ` set es"
proof -
  assume "blankable es \<noteq> []"
  then have "last (blankable es) \<in> set (blankable es)" by (rule last_in_set)
  then show ?thesis by (auto simp: blankable_def)
qed

lemma map_fst_obj_set: "k \<in> fst ` set es \<Longrightarrow> map fst (obj_set k v es) = map fst es"
proof -
  have "map fst (AList.update k v es) = map fst es" if "k \<in> fst ` set es" for es
    using that by (induction es) auto
  then show "k \<in> fst ` set es \<Longrightarrow> ?thesis" by (simp add: obj_set_def)
qed

lemma obj_set_twice: "k \<in> fst ` set es \<Longrightarrow> obj_set k v (obj_set k v es) = obj_set k v es"
proof -
  assume k: "k \<in> fst ` set es"
  then have "k \<in> fst ` set (obj_set k v es)" by (metis map_fst_obj_set set_map)
  with k show ?thesis by (simp add: obj_set_def update_triv map_of_update)
qed

lemma blank_last_diverges:
  assumes "blankable es \<noteq> []" "obj_set (last (blankable es)) (JString []) es = es"
    "total_size J es + truncated_flag_bytes > limit" "finalSize = total_size J es + truncated_flag_bytes"
  shows "blank_last J limit es t finalSize = None"
proof (rule ccontr)
  let ?here = "\<lambda>J' limit' es' f'. J' = J \<and> limit' = limit \<and> es' = es \<and> f' = finalSize"
  assume "blank_last J limit es t finalSize \<noteq> None"
  then obtain y where y: "blank_last J limit es t finalSize = Some y" by blast
  have "\<not> ?here J limit es finalSize"
  proof (rule blank_last.raw_induct
      [where P = "\<lambda>J' limit' es' t' f' y. \<not> ?here J' limit' es' f'", OF _ y])
    fix rec :: "json \<Rightarrow> int \<Rightarrow> fields \<Rightarrow> bool \<Rightarrow> int \<Rightarrow> (fields \<times> bool) option"
      and J' limit' es' t' f' y
    assume "\<And>J' limit' es' t' f' y. rec J' limit' es' t' f' = Some y \<Longrightarrow> \<not> ?here J' limit' es' f'"
      and "(if f' > limit' then
          if blankable es' = [] then Some (es', t')
          else let result' = obj_set (last (blankable es')) (JString []) es'
               in rec J' limit' result' True (total_size J' result' + truncated_flag_bytes)
        else Some (es', t')) = Some y"
    with assms show "\<not> ?here J' limit' es' f'" by (cases y) (auto simp: Let_def, blast)
  qed
  then show False by simp
qed

lemma blank_last_exact [code]:
  "blank_last J limit es t finalSize =
     (if finalSize \<le> limit \<or> blankable es = [] then Some (es, t)
      else
        let es' = obj_set (last (blankable es)) (JString []) es
        in if total_size J es' + truncated_flag_bytes \<le> limit then Some (es', True) else None)"
proof (cases "finalSize \<le> limit \<or> blankable es = []")
  case True
  then show ?thesis by (subst blank_last.simps) auto
next
  case False
  let ?es = "obj_set (last (blankable es)) (JString []) es"
  note k = blankable_set_last [of es]
  have keys: "blankable ?es = blankable es" using False k by (simp add: blankable_def map_fst_obj_set)
  have again: "obj_set (last (blankable ?es)) (JString []) ?es = ?es"
    using False k by (simp add: keys obj_set_twice)
  have step: "blank_last J limit es t finalSize =
      blank_last J limit ?es True (total_size J ?es + truncated_flag_bytes)"
    using False by (subst blank_last.simps) (simp add: Let_def)
  show ?thesis
  proof (cases "total_size J ?es + truncated_flag_bytes \<le> limit")
    case True
    then have "blank_last J limit ?es True (total_size J ?es + truncated_flag_bytes) = Some (?es, True)"
      by (subst blank_last.simps) simp
    with step True False show ?thesis by (simp add: Let_def)
  next
    case big: False
    have "blank_last J limit ?es True (total_size J ?es + truncated_flag_bytes) = None"
      using False keys again big by (intro blank_last_diverges) simp_all
    with step big False show ?thesis by (simp add: Let_def)
  qed
qed

text \<open>The fields and the flag the first pass of an insert leaves.\<close>

definition truncate_scan :: "json \<Rightarrow> behavior_resource \<Rightarrow> fields \<Rightarrow> fields \<Rightarrow> fields \<times> bool" where
  "truncate_scan J r data mapped =
     (let sizes = attribute_sizes J mapped;
          v = prop_of mapped (lit ''_v'');
          start = (if js_truthy v then ([(lit ''_v'', v)], size_of sizes (lit ''_v'')) else ([], 0))
      in truncate_fields J (effective_limit J r (record_id data)) mapped (sort_key snd sizes)
           (fst start) (snd start))"

lemma truncate_insert_scan:
  "truncate_insert J r data mapped =
     (case truncate_scan J r data mapped of (kept, truncated) \<Rightarrow>
        map_option
           (\<lambda>(result, truncated).
              \<lparr>bh_mapped = (if truncated then obj_set truncated_flag (JString flag_value) result else result),
               bh_body = []\<rparr>)
           (blank_last J (effective_limit J r (record_id data)) kept truncated
              (total_size J kept + (if truncated then truncated_flag_bytes else 0))))"
  by (simp add: truncate_insert_def truncate_scan_def Let_def)

end
