(* ===== verification/Behaviors_Props.thy ===== *)
theory Behaviors_Props
  imports Behaviors_Laws "HOL-Library.Code_Target_Nat"
begin

text \<open>
  The properties of the behaviors, with a stand-in for JSON on which the witnesses run: an object of
  strings is printed as the lengths and contents of its keys and values.
\<close>

section \<open>A JSON stand-in\<close>

definition toy_value :: "js_value \<Rightarrow> ustring" where
  "toy_value v = (case v of JString s \<Rightarrow> length s # s | _ \<Rightarrow> [0])"

definition toy_stringify :: "js_value \<Rightarrow> ustring" where
  "toy_stringify v =
     (case v of
        JObject es \<Rightarrow> 123 # concat (map (\<lambda>(k, v). length k # k @ toy_value v) es)
      | _ \<Rightarrow> toy_value v)"

fun toy_entries :: "nat \<Rightarrow> ustring \<Rightarrow> fields" where
  "toy_entries 0 us = []"
| "toy_entries (Suc n) [] = []"
| "toy_entries (Suc n) (l # us) =
     (case drop l us of
        [] \<Rightarrow> []
      | m # vs \<Rightarrow> (take l us, JString (take m vs)) # toy_entries n (drop m vs))"

definition toy_json :: json where
  "toy_json = \<lparr>num_text = (\<lambda>_. []), stringify = toy_stringify,
     parse = (\<lambda>us. Some (JObject (toy_entries (length us) (tl us))))\<rparr>"

lemma toy_entries_print:
  "string_fields es \<Longrightarrow> length es \<le> n \<Longrightarrow>
     toy_entries n (concat (map (\<lambda>(k, v). length k # k @ toy_value v) es)) = es"
proof (induction es arbitrary: n)
  case Nil
  then show ?case by (cases n) simp_all
next
  case (Cons e es)
  obtain k s where e: "e = (k, JString s)"
    using Cons.prems(1) by (cases e) (auto simp: string_fields_def)
  obtain n' where "n = Suc n'" using Cons.prems(2) by (cases n) auto
  with Cons e show ?case by (simp add: toy_value_def string_fields_def)
qed

lemma toy_json_ok: "json_ok toy_json"
proof -
  have len: "length es \<le> length (concat (map (\<lambda>(k, v). length k # k @ toy_value v) es))" for es
    by (induction es) auto
  have trim: "trim (123 # us) \<noteq> []" for us
  proof -
    have "dropWhile is_space (rev us @ [123]) \<noteq> []"
      by (simp add: dropWhile_append is_space_def)
    then show ?thesis by (simp add: trim_def is_space_def)
  qed
  have print: "toy_entries (Suc (length (concat (map (\<lambda>(k, v). length k # k @ toy_value v) es))))
      (concat (map (\<lambda>(k, v). length k # k @ toy_value v) es)) = es" if "string_fields es" for es
    using len [of es] by (intro toy_entries_print that) simp
  show ?thesis
    unfolding json_ok_def
    by (intro allI impI conjI exI) (simp_all add: toy_json_def toy_stringify_def trim print)
qed

definition small_resource :: "int \<Rightarrow> behavior_resource" where
  "small_resource n = \<lparr>br_version = lit ''1'', br_timestamps = False, br_map = None,
     br_plugin_map = None, br_metadata_limit = Some n\<rparr>"

section \<open>Properties\<close>



text \<open>
  body-overflow keeps the values it leaves in the metadata within the limit: they add up to at
  most the effective limit, or to the size of \<open>_v\<close> when that alone is larger.
\<close>
theorem overflow_values_fit:
  assumes "distinct_keys mapped" "\<not> has_plugin_map r"
    "map_of mapped (lit ''_v'') = None \<or> js_truthy (prop_of mapped (lit ''_v''))"
  shows "(\<Sum>(k, v) \<leftarrow> ov_metadata (overflow_final J r data mapped). size_of (attribute_sizes J mapped) k)
    \<le> max (effective_limit J r (record_id data)) (size_of (attribute_sizes J mapped) (lit ''_v''))"
  by (rule overflow_final_size [OF assms])

lemma overflow_values_fit_witness:
  "(\<Sum>(k, v) \<leftarrow> ov_metadata (overflow_final toy_json (small_resource 12) [] [(lit ''a'', JString (lit ''12345''))]).
     size_of (attribute_sizes toy_json [(lit ''a'', JString (lit ''12345''))]) k)
    \<le> max (effective_limit toy_json (small_resource 12) (record_id []))
         (size_of (attribute_sizes toy_json [(lit ''a'', JString (lit ''12345''))]) (lit ''_v''))"
  by (rule overflow_values_fit) (simp_all add: small_resource_def has_plugin_map_def distinct_keys_def)

text \<open>
  body-overflow does not count field names. A record whose one field has a long name and an empty
  value stays in the metadata whole, beyond the metadata limit; and when a field does overflow, the
  flag is added on top of a metadata part that already fills the limit.
\<close>
theorem overflow_exceeds_limit:
  "(let mapped = [(lit ''a_name_of_thirty_characters_abc'', JString [])];
        res = overflow_insert J (small_resource 20) [] mapped
    in bh_mapped res = mapped \<and> total_size J (bh_mapped res) > absolute_limit (small_resource 20)) \<and>
   (let mapped = [(lit ''a'', JString (lit ''1234567'')), (lit ''b'', JString (lit ''1234567890''))];
        res = overflow_insert J (small_resource 12) [] mapped
    in map fst (bh_mapped res) = [lit ''a'', overflow_flag] \<and>
       total_size J (bh_mapped res) > absolute_limit (small_resource 12))"
  by code_simp

text \<open>
  body-only and an overflowing user-managed insert lose nothing. Reading back gives every field
  of a record of strings, apart from the names the behaviors add themselves; user-managed also
  gives the version back as it was.
\<close>
theorem body_roundtrip:
  assumes "json_ok J" "distinct_keys mapped" "string_fields mapped"
    "k \<notin> {lit ''_v'', lit ''_map'', lit ''_pluginMap''}"
  shows "map_of (fst (body_only_get J (bh_mapped (body_only_insert J r mapped))
      (bh_body (body_only_insert J r mapped)))) k = map_of mapped k \<and>
    map_of (fst (user_get J (bh_mapped (fst (user_insert J r data mapped)))
      (bh_body (fst (user_insert J r data mapped))))) k = map_of mapped k"
proof
  let ?body = "stringify J (JObject mapped)"
  note body = body_fields_json [OF assms(1-3)]
  let ?md = "bh_mapped (body_only_insert J r mapped)"
  have md: "distinct_keys ?md \<and> map_of ?md k = None"
    using assms(4) by (simp add: body_only_insert_def Let_def map_of_obj_set distinct_keys_def [of "[_]"])
  have "bh_body (body_only_insert J r mapped) = ?body" by (simp add: body_only_insert_def Let_def)
  with body md show "map_of (fst (body_only_get J ?md (bh_body (body_only_insert J r mapped)))) k = map_of mapped k"
    by (simp add: body_only_get_def map_of_merge_fields map_add_def)
  show "map_of (fst (user_get J (bh_mapped (fst (user_insert J r data mapped)))
      (bh_body (fst (user_insert J r data mapped))))) k = map_of mapped k"
  proof (cases "limit_events J Insert r (record_id data) mapped = []")
    case True
    then show ?thesis by (simp add: user_insert_def user_get_def trim_def Let_def)
  next
    case False
    let ?um = "bh_mapped (fst (user_insert J r data mapped))"
    have um: "distinct_keys ?um \<and> map_of ?um k = None"
      using assms(4) False by (simp add: user_insert_def Let_def map_of_obj_set distinct_keys_def [of "[_]"])
    have b: "bh_body (fst (user_insert J r data mapped)) = ?body" using False by (simp add: user_insert_def Let_def)
    have "fst (user_get J ?um ?body) = merge_fields (body_fields J ?body) ?um"
      using assms(1-3) by (auto simp: user_get_def body_fields_def json_ok_def split: option.splits)
    with body um show ?thesis unfolding b by (simp add: map_of_merge_fields map_add_def)
  qed
qed

lemma body_roundtrip_witness:
  "map_of (fst (user_get toy_json
      (bh_mapped (fst (user_insert toy_json (small_resource 5) [] [(lit ''a'', JString (lit ''12345''))])))
      (bh_body (fst (user_insert toy_json (small_resource 5) [] [(lit ''a'', JString (lit ''12345''))]))))) (lit ''a'')
    = Some (JString (lit ''12345''))"
  by (subst conjunct2 [OF body_roundtrip])
    (simp_all add: toy_json_ok string_fields_def distinct_keys_def)

text \<open>
  The string cut. The truncated string is a prefix whose UTF-8 form fits, and every longer prefix
  does not.
\<close>
theorem truncate_string_longest:
  assumes "0 \<le> maxBytes"
  shows "\<exists>n. truncate_string str maxBytes = take n str \<and>
    int (length (utf8_encode (take n str))) \<le> maxBytes \<and>
    (\<forall>i. n < i \<and> i \<le> length str \<longrightarrow> maxBytes < int (length (utf8_encode (take i str))))"
proof (cases "int (length (utf8_encode str)) \<le> maxBytes")
  case True
  then show ?thesis by (intro exI [of _ "length str"]) (simp add: truncate_string_def)
next
  case False
  with truncate_loop_spec [OF assms, of "length str" str] show ?thesis
    by (auto simp: truncate_string_def)
qed

lemma truncate_string_longest_witness:
  "\<exists>n. truncate_string (lit ''hello'') 3 = take n (lit ''hello'') \<and>
    int (length (utf8_encode (take n (lit ''hello'')))) \<le> 3 \<and>
    (\<forall>i. n < i \<and> i \<le> length (lit ''hello'') \<longrightarrow> 3 < int (length (utf8_encode (take i (lit ''hello'')))))"
  by (rule truncate_string_longest) simp

text \<open>
  C10: truncate-data ends exactly when it has little to do. The insert returns a result if and only if
  the fields kept by the first pass fit, or none of them can be blanked, or blanking the last one
  makes them fit; otherwise its final loop runs forever.
\<close>
theorem truncate_ends_iff:
  "truncate_insert J r data mapped \<noteq> None \<longleftrightarrow>
     (case truncate_scan J r data mapped of (kept, truncated) \<Rightarrow>
        total_size J kept + (if truncated then truncated_flag_bytes else 0)
          \<le> effective_limit J r (record_id data) \<or>
        blankable kept = [] \<or>
        total_size J (obj_set (last (blankable kept)) (JString []) kept) + truncated_flag_bytes
          \<le> effective_limit J r (record_id data))"
  by (auto simp: truncate_insert_scan blank_last_exact Let_def split: prod.splits)

text \<open>
  What truncate-data gets wrong: a field name longer than the limit makes it run forever, every
  field after the first one that does not fit is dropped altogether, and a string can be cut in the
  middle of a surrogate pair.
\<close>
theorem truncate_defects:
  "truncate_insert J (small_resource 20) [] [(lit ''a_name_of_thirty_characters_abc'', JString [])] = None \<and>
   map_option (map fst \<circ> bh_mapped)
     (truncate_insert J (small_resource 30) []
        [(lit ''a'', JString (lit ''1'')), (lit ''b'', JString (lit ''12345678901234567890'')),
         (lit ''c'', JString (lit ''123456789012345678901''))])
     = Some [lit ''a'', lit ''b'', truncated_flag] \<and>
   truncate_string [55357, 56832] 3 = [55357]"
  by (intro conjI; code_simp)

end
