(* ===== verification/Memory_Client.thy ===== *)
theory Memory_Client
  imports Memory_Storage_Laws Metadata_Encoding
begin

text \<open>
  \<open>adapters/memory/src/memory-client.class.ts\<close>: the client of the in-memory store, which adds a key
  prefix, the metadata codec, key listings and bulk operations. The store is passed explicitly; the
  registry that makes clients of one bucket share a store is a map to store numbers. The task
  manager is taken to run its items in order. Events and logging are not modelled.

  An encoded metadata value that is \<open>undefined\<close> is stored as the text \<open>undefined\<close>, which has the
  same size and decodes to the same value.
\<close>

section \<open>POSIX paths\<close>

text \<open>\<open>path.posix.join\<close> of two arguments: the non-empty ones are joined and normalised.\<close>

fun normalize_segments :: "bool \<Rightarrow> ustring list \<Rightarrow> ustring list \<Rightarrow> ustring list" where
  "normalize_segments up [] acc = rev acc"
| "normalize_segments up (seg # segs) acc =
     (if seg = [] \<or> seg = lit ''.'' then normalize_segments up segs acc
      else if seg = lit ''..'' then
        (if acc \<noteq> [] \<and> hd acc \<noteq> lit ''..'' then normalize_segments up segs (tl acc)
         else if up then normalize_segments up segs (seg # acc)
         else normalize_segments up segs acc)
      else normalize_segments up segs (seg # acc))"

definition posix_normalize :: "ustring \<Rightarrow> ustring" where
  "posix_normalize p =
     (if p = [] then lit ''.''
      else
        let absolute = (hd p = 47);
            trailing = (last p = 47);
            path = join (lit ''/'') (normalize_segments (\<not> absolute) (split_on 47 p) [])
        in if path = [] then (if absolute then lit ''/'' else if trailing then lit ''./'' else lit ''.'')
           else (if absolute then lit ''/'' else []) @ path @ (if trailing then lit ''/'' else []))"

definition posix_join :: "ustring \<Rightarrow> ustring \<Rightarrow> ustring" where
  "posix_join a b =
     (if a = [] then (if b = [] then lit ''.'' else posix_normalize b)
      else if b = [] then posix_normalize a
      else posix_normalize (a @ lit ''/'' @ b))"

section \<open>Clients and the registry of stores\<close>

record client_config =
  cc_bucket :: "ustring option"
  cc_key_prefix :: "ustring option"
  cc_concurrency :: "nat option"
  cc_enforce_limits :: bool
  cc_metadata_limit :: "int option"
  cc_max_object_size :: "int option"
  cc_persist_path :: "ustring option"
  cc_auto_persist :: bool
  cc_max_memory_mb :: "int option"
  cc_eviction_enabled :: "bool option"

record memory_client =
  mc_bucket :: ustring
  mc_key_prefix :: ustring
  mc_concurrency :: nat
  mc_store :: nat

record client_world =
  cw_registry :: "(ustring \<times> nat) list"
  cw_stores :: "memory_storage list"

text \<open>\<open>x || d\<close> for a number: zero counts as absent.\<close>

definition or_number :: "int option \<Rightarrow> int \<Rightarrow> int" where
  "or_number n d = (case n of None \<Rightarrow> d | Some k \<Rightarrow> if k = 0 then d else k)"

definition new_client :: "client_config \<Rightarrow> client_world \<Rightarrow> memory_client \<times> client_world" where
  "new_client c w =
     (let bucket = nullish (truthy (cc_bucket c)) (lit ''s3db'');
          concurrency = (case cc_concurrency c of None \<Rightarrow> 5 | Some n \<Rightarrow> if n = 0 then 5 else n);
          w' = (if map_of (cw_registry w) bucket \<noteq> None then w
                else \<lparr>cw_registry = AList.update bucket (length (cw_stores w)) (cw_registry w),
                      cw_stores = cw_stores w @ [new_storage
                        \<lparr>sc_bucket = Some bucket, sc_enforce_limits = cc_enforce_limits c,
                         sc_metadata_limit = Some (or_number (cc_metadata_limit c) 2048),
                         sc_max_object_size =
                           Some (or_number (cc_max_object_size c) (5 * 1024 * 1024 * 1024)),
                         sc_persist_path = cc_persist_path c, sc_auto_persist = cc_auto_persist c,
                         sc_max_memory_mb = cc_max_memory_mb c,
                         sc_eviction_enabled = cc_eviction_enabled c\<rparr>]\<rparr>)
      in (\<lparr>mc_bucket = bucket, mc_key_prefix = nullish (truthy (cc_key_prefix c)) [],
           mc_concurrency = concurrency,
           mc_store = (case map_of (cw_registry w') bucket of Some i \<Rightarrow> i | None \<Rightarrow> 0)\<rparr>, w'))"

text \<open>The static methods: the stores are emptied and forgotten, clients keep the ones they hold.\<close>

definition clear_bucket_storage :: "ustring \<Rightarrow> client_world \<Rightarrow> client_world" where
  "clear_bucket_storage bucket w =
     (case map_of (cw_registry w) bucket of
        None \<Rightarrow> w
      | Some i \<Rightarrow> w\<lparr>cw_registry := AList.delete bucket (cw_registry w),
                    cw_stores := (cw_stores w)[i := storage_clear (cw_stores w ! i)]\<rparr>)"

definition clear_all_storage :: "client_world \<Rightarrow> client_world" where
  "clear_all_storage w =
     \<lparr>cw_registry = [],
      cw_stores = foldl (\<lambda>ss (_, i). ss[i := storage_clear (ss ! i)]) (cw_stores w) (cw_registry w)\<rparr>"

section \<open>Keys and metadata\<close>

datatype client_error =
    StorageError storage_error
  | UriError
  | CrossBucketCopy ustring
  | InvalidCopySource
  | UnsupportedCommand
  | MoveError client_error
  | MoveAllError "client_error list"

definition lift_error :: "storage_error + 'a \<Rightarrow> client_error + 'a" where
  "lift_error r = (case r of Inl e \<Rightarrow> Inl (StorageError e) | Inr x \<Rightarrow> Inr x)"

text \<open>\<open>None\<close> is \<open>undefined\<close> or \<open>null\<close>.\<close>

definition apply_key_prefix :: "memory_client \<Rightarrow> ustring option \<Rightarrow> ustring" where
  "apply_key_prefix c key =
     (if mc_key_prefix c = [] then nullish key []
      else posix_join (mc_key_prefix c) (nullish key []))"

definition key_prefix_for_strip :: "memory_client \<Rightarrow> ustring" where
  "key_prefix_for_strip c = (if mc_key_prefix c = [] then [] else posix_join (mc_key_prefix c) [])"

definition strip_key_prefix :: "memory_client \<Rightarrow> ustring \<Rightarrow> ustring" where
  "strip_key_prefix c key =
     (if mc_key_prefix c = [] then key
      else if key_prefix_for_strip c \<noteq> [] \<and> starts_with key (key_prefix_for_strip c) then
        dropWhile (\<lambda>u. u = 47) (drop (length (key_prefix_for_strip c)) key)
      else key)"

definition valid_metadata_key :: "ustring \<Rightarrow> ustring" where
  "valid_metadata_key k =
     map (\<lambda>u. if 65 \<le> u \<and> u \<le> 90 then u + 32
              else if 97 \<le> u \<and> u \<le> 122 \<or> is_digit u \<or> u = 45 \<or> u = 95 then u else 95) k"

record codec =
  cd_num_text :: "js_number \<Rightarrow> ustring"
  cd_native_text :: "ustring \<Rightarrow> ustring"
  cd_inflate :: "bytes \<Rightarrow> bytes option"

fun encode_entries ::
    "codec \<Rightarrow> (ustring \<times> js_value) list \<Rightarrow> metadata \<Rightarrow> client_error + metadata" where
  "encode_entries C [] encoded = Inr encoded"
| "encode_entries C ((rawKey, v) # es) encoded =
     (case metadata_encode (cd_num_text C) (cd_native_text C) v of
        None \<Rightarrow> Inl UriError
      | Some r \<Rightarrow>
          encode_entries C es
            (obj_set (valid_metadata_key rawKey) (nullish (er_encoded r) (lit ''undefined'')) encoded))"

definition encode_metadata ::
    "codec \<Rightarrow> (ustring \<times> js_value) list option \<Rightarrow> client_error + metadata option" where
  "encode_metadata C m =
     (case m of
        None \<Rightarrow> Inr None
      | Some es \<Rightarrow> (case encode_entries C es [] of Inl e \<Rightarrow> Inl e | Inr md \<Rightarrow> Inr (Some md)))"

record client_object =
  co_object :: object_response
  co_metadata :: "(ustring \<times> js_value) list"

definition decode_metadata_response :: "codec \<Rightarrow> object_response \<Rightarrow> client_object" where
  "decode_metadata_response C r =
     \<lparr>co_object = r,
      co_metadata = foldl (\<lambda>m (k, v). obj_set k (metadata_decode (cd_native_text C) (cd_inflate C) (JString v)) m)
        [] (or_metadata r)\<rparr>"

section \<open>Object operations\<close>

record put_object_params =
  po_key :: "ustring option"
  po_metadata :: "(ustring \<times> js_value) list option"
  po_content_type :: "ustring option"
  po_body :: body_arg
  po_content_encoding :: "ustring option"
  po_content_length :: "int option"
  po_if_match :: "ustring option"
  po_if_none_match :: "ustring option"

record platform =
  pf_md5 :: "bytes \<Rightarrow> ustring"
  pf_write_file :: "ustring \<Rightarrow> snapshot \<Rightarrow> bool"
  pf_now :: ustring

definition client_put_object ::
    "platform \<Rightarrow> codec \<Rightarrow> memory_client \<Rightarrow> memory_storage \<Rightarrow> put_object_params
       \<Rightarrow> (client_error + put_response) \<times> memory_storage" where
  "client_put_object P C c s p =
     (case encode_metadata C (po_metadata p) of
        Inl e \<Rightarrow> (Inl e, s)
      | Inr md \<Rightarrow>
          (case storage_put (pf_md5 P) (pf_write_file P) (pf_now P) s (apply_key_prefix c (po_key p))
              \<lparr>pp_body = po_body p, pp_metadata = Some (nullish md []),
               pp_content_type = po_content_type p, pp_content_encoding = po_content_encoding p,
               pp_content_length = po_content_length p, pp_if_match = po_if_match p,
               pp_if_none_match = po_if_none_match p\<rparr> of
             (r, s') \<Rightarrow> (lift_error r, s')))"

definition client_get_object ::
    "codec \<Rightarrow> memory_client \<Rightarrow> memory_storage \<Rightarrow> ustring option
       \<Rightarrow> (client_error + client_object) \<times> memory_storage" where
  "client_get_object C c s key =
     (case storage_get s (apply_key_prefix c key) of
        (Inl e, s') \<Rightarrow> (Inl (StorageError e), s')
      | (Inr r, s') \<Rightarrow> (Inr (decode_metadata_response C r), s'))"

definition client_head_object ::
    "codec \<Rightarrow> memory_client \<Rightarrow> memory_storage \<Rightarrow> ustring option
       \<Rightarrow> (client_error + client_object) \<times> memory_storage" where
  "client_head_object C c s key =
     (case storage_head s (apply_key_prefix c key) of
        (Inl e, s') \<Rightarrow> (Inl (StorageError e), s')
      | (Inr r, s') \<Rightarrow> (Inr (decode_metadata_response C r), s'))"

record copy_object_params =
  cq_from :: ustring
  cq_to :: ustring
  cq_metadata :: "(ustring \<times> js_value) list option"
  cq_directive :: "directive option"
  cq_content_type :: "ustring option"

definition client_copy_object ::
    "platform \<Rightarrow> codec \<Rightarrow> memory_client \<Rightarrow> memory_storage \<Rightarrow> copy_object_params
       \<Rightarrow> (client_error + (ustring \<times> ustring) option) \<times> memory_storage" where
  "client_copy_object P C c s p =
     (case encode_metadata C (cq_metadata p) of
        Inl e \<Rightarrow> (Inl e, s)
      | Inr md \<Rightarrow>
          (case storage_copy (pf_md5 P) (pf_write_file P) (pf_now P) s
              (apply_key_prefix c (Some (cq_from p))) (apply_key_prefix c (Some (cq_to p)))
              \<lparr>cp_metadata = md, cp_directive = cq_directive p, cp_content_type = cq_content_type p\<rparr> of
             (r, s') \<Rightarrow> (lift_error r, s')))"

definition client_exists :: "memory_client \<Rightarrow> memory_storage \<Rightarrow> ustring option \<Rightarrow> bool" where
  "client_exists c s key = storage_exists s (apply_key_prefix c key)"

definition client_delete_object ::
    "platform \<Rightarrow> memory_client \<Rightarrow> memory_storage \<Rightarrow> ustring option
       \<Rightarrow> (client_error + unit) \<times> memory_storage" where
  "client_delete_object P c s key =
     (case storage_delete (pf_write_file P) (pf_now P) s (apply_key_prefix c key) of
        (r, s') \<Rightarrow> (lift_error r, s'))"

text \<open>\<open>chunk\<close> of lodash: consecutive pieces of at most \<open>n > 0\<close> elements.\<close>

function chunk :: "nat \<Rightarrow> 'a list \<Rightarrow> 'a list list" where
  "chunk n xs = (if n = 0 \<or> xs = [] then [] else take n xs # chunk n (drop n xs))"
  by pat_completeness auto
termination
  by (relation "measure (length \<circ> snd)") auto

declare chunk.simps [simp del]

definition client_delete_objects ::
    "platform \<Rightarrow> memory_client \<Rightarrow> memory_storage \<Rightarrow> ustring list
       \<Rightarrow> (ustring list \<times> (ustring \<times> storage_error) list) \<times> memory_storage" where
  "client_delete_objects P c s keys =
     (let fullKeys = map (\<lambda>k. apply_key_prefix c (Some k)) keys
      in foldl (\<lambda>((deleted, errors), s) batch.
             case storage_delete_multiple (pf_write_file P) (pf_now P) s batch of
               ((d, e), s') \<Rightarrow> ((deleted @ map (strip_key_prefix c) d, errors @ e), s'))
           (([], []), s) (chunk (mc_concurrency c) fullKeys))"

section \<open>Listing\<close>

definition normalize_list_response :: "memory_client \<Rightarrow> list_response \<Rightarrow> list_response" where
  "normalize_list_response c r =
     (let contents = map (\<lambda>i. i\<lparr>oi_key := strip_key_prefix c (oi_key i)\<rparr>) (lr_contents r)
      in r\<lparr>lr_contents := contents,
           lr_common_prefixes := map (strip_key_prefix c) (lr_common_prefixes r),
           lr_key_count := int (length contents),
           lr_prefix := map_option (strip_key_prefix c) (truthy (lr_prefix r))\<rparr>)"

definition client_list_objects ::
    "memory_client \<Rightarrow> memory_storage \<Rightarrow> list_params \<Rightarrow> client_error + list_response" where
  "client_list_objects c s p =
     (case storage_list s
         \<lparr>lp_prefix = apply_key_prefix c (Some (lp_prefix p)), lp_delimiter = lp_delimiter p,
          lp_max_keys = lp_max_keys p, lp_token = lp_token p,
          lp_start_after = map_option (\<lambda>a. apply_key_prefix c (Some a)) (truthy (lp_start_after p))\<rparr> of
        Inl e \<Rightarrow> Inl (StorageError e)
      | Inr r \<Rightarrow> Inr (normalize_list_response c r))"

definition plain_list :: "ustring \<Rightarrow> int \<Rightarrow> ustring option \<Rightarrow> list_params" where
  "plain_list prefix maxKeys token =
     \<lparr>lp_prefix = prefix, lp_delimiter = None, lp_max_keys = maxKeys, lp_token = token,
      lp_start_after = None\<rparr>"

text \<open>The page loop of \<open>getKeysPage\<close>; \<open>None\<close> would be a loop that does not end.\<close>

partial_function (option) keys_page_loop ::
    "memory_client \<Rightarrow> memory_storage \<Rightarrow> ustring \<Rightarrow> int \<Rightarrow> ustring list \<Rightarrow> bool \<Rightarrow> ustring option
       \<Rightarrow> (client_error + ustring list) option" where
  "keys_page_loop c s prefix amount keys truncated token =
     (if \<not> truncated then Some (Inr keys)
      else
        let remaining = amount - int (length keys)
        in if remaining \<le> 0 then Some (Inr keys)
           else case client_list_objects c s (plain_list prefix remaining token) of
             Inl e \<Rightarrow> Some (Inl e)
           | Inr res \<Rightarrow>
               let keys' = keys @ map oi_key (lr_contents res)
               in if int (length keys') \<ge> amount then Some (Inr (take (nat amount) keys'))
                  else keys_page_loop c s prefix amount keys' (lr_is_truncated res)
                         (truthy (lr_next_token res)))"

definition get_keys_page ::
    "memory_client \<Rightarrow> memory_storage \<Rightarrow> ustring \<Rightarrow> int \<Rightarrow> int \<Rightarrow> (client_error + ustring list) option" where
  "get_keys_page c s prefix offset amount =
     (if offset > 0 then
        Some (case storage_list s (plain_list (apply_key_prefix c (Some prefix)) (offset + amount) None) of
                Inl e \<Rightarrow> Inl (StorageError e)
              | Inr r \<Rightarrow>
                  Inr (take (nat amount)
                    (drop (nat offset) (map (\<lambda>i. strip_key_prefix c (oi_key i)) (lr_contents r)))))
      else keys_page_loop c s prefix amount [] True None)"

definition max_safe_integer :: int where
  "max_safe_integer = 2 ^ 53 - 1"

definition get_all_keys ::
    "memory_client \<Rightarrow> memory_storage \<Rightarrow> ustring \<Rightarrow> client_error + ustring list" where
  "get_all_keys c s prefix =
     (case storage_list s (plain_list (apply_key_prefix c (Some prefix)) max_safe_integer None) of
        Inl e \<Rightarrow> Inl (StorageError e)
      | Inr r \<Rightarrow> Inr (map (\<lambda>i. strip_key_prefix c (oi_key i)) (lr_contents r)))"

definition count_keys :: "memory_client \<Rightarrow> memory_storage \<Rightarrow> ustring \<Rightarrow> client_error + nat" where
  "count_keys c s prefix =
     (case get_all_keys c s prefix of Inl e \<Rightarrow> Inl e | Inr ks \<Rightarrow> Inr (length ks))"

definition delete_all ::
    "platform \<Rightarrow> memory_client \<Rightarrow> memory_storage \<Rightarrow> ustring \<Rightarrow> (client_error + nat) \<times> memory_storage" where
  "delete_all P c s prefix =
     (case get_all_keys c s prefix of
        Inl e \<Rightarrow> (Inl e, s)
      | Inr ks \<Rightarrow>
          if ks = [] then (Inr 0, s)
          else case client_delete_objects P c s ks of
            ((deleted, errors), s') \<Rightarrow> (Inr (length deleted), s'))"

definition get_continuation_token_after_offset ::
    "memory_client \<Rightarrow> memory_storage \<Rightarrow> ustring \<Rightarrow> nat \<Rightarrow> client_error + ustring option" where
  "get_continuation_token_after_offset c s prefix offset =
     (if offset = 0 then Inr None
      else case get_all_keys c s prefix of
        Inl e \<Rightarrow> Inl e
      | Inr ks \<Rightarrow>
          if offset \<ge> length ks then Inr None
          else Inr (Some (text_to_b64 (apply_key_prefix c (Some (ks ! offset))))))"

section \<open>Moves\<close>

definition move_object ::
    "platform \<Rightarrow> codec \<Rightarrow> memory_client \<Rightarrow> memory_storage \<Rightarrow> ustring \<Rightarrow> ustring
       \<Rightarrow> (client_error + bool) \<times> memory_storage" where
  "move_object P C c s src dst =
     (case client_copy_object P C c s
         \<lparr>cq_from = src, cq_to = dst, cq_metadata = None, cq_directive = Some Copy,
          cq_content_type = None\<rparr> of
        (Inl e, s1) \<Rightarrow> (Inl (MoveError e), s1)
      | (Inr _, s1) \<Rightarrow>
          (case client_delete_object P c s1 (Some src) of
             (Inl e, s2) \<Rightarrow> (Inl (MoveError e), s2)
           | (Inr _, s2) \<Rightarrow> (Inr True, s2)))"

text \<open>
  \<open>key.replace(from, to)\<close>: the first occurrence, with the \<open>$\<close> patterns of the replacement expanded
  (\<open>$$\<close>, the match, the text before and the text after it).
\<close>

fun expand_replacement :: "ustring \<Rightarrow> ustring \<Rightarrow> ustring \<Rightarrow> ustring \<Rightarrow> ustring" where
  "expand_replacement pre matched post [] = []"
| "expand_replacement pre matched post [u] = [u]"
| "expand_replacement pre matched post (u # v # us) =
     (if u = 36 \<and> v = 36 then 36 # expand_replacement pre matched post us
      else if u = 36 \<and> v = 38 then matched @ expand_replacement pre matched post us
      else if u = 36 \<and> v = 96 then pre @ expand_replacement pre matched post us
      else if u = 36 \<and> v = 39 then post @ expand_replacement pre matched post us
      else u # expand_replacement pre matched post (v # us))"

definition replace_first :: "ustring \<Rightarrow> ustring \<Rightarrow> ustring \<Rightarrow> ustring" where
  "replace_first s pat rep =
     (case index_of s pat of
        None \<Rightarrow> s
      | Some i \<Rightarrow>
          take i s @ expand_replacement (take i s) pat (drop (i + length pat) s) rep
            @ drop (i + length pat) s)"

fun move_keys ::
    "platform \<Rightarrow> codec \<Rightarrow> memory_client \<Rightarrow> memory_storage \<Rightarrow> ustring \<Rightarrow> ustring \<Rightarrow> ustring list
       \<Rightarrow> ((ustring \<times> ustring) list \<times> client_error list) \<times> memory_storage" where
  "move_keys P C c s prefixFrom prefixTo [] = (([], []), s)"
| "move_keys P C c s prefixFrom prefixTo (key # keys) =
     (let dst = replace_first key prefixFrom prefixTo
      in case move_object P C c s key dst of
           (r, s1) \<Rightarrow>
             (case move_keys P C c s1 prefixFrom prefixTo keys of
                ((results, errors), s2) \<Rightarrow>
                  (case r of
                     Inl e \<Rightarrow> ((results, e # errors), s2)
                   | Inr _ \<Rightarrow> (((key, dst) # results, errors), s2))))"

definition move_all_objects ::
    "platform \<Rightarrow> codec \<Rightarrow> memory_client \<Rightarrow> memory_storage \<Rightarrow> ustring \<Rightarrow> ustring
       \<Rightarrow> (client_error + (ustring \<times> ustring) list) \<times> memory_storage" where
  "move_all_objects P C c s prefixFrom prefixTo =
     (case get_all_keys c s prefixFrom of
        Inl e \<Rightarrow> (Inl e, s)
      | Inr keys \<Rightarrow>
          (case move_keys P C c s prefixFrom prefixTo keys of
             ((results, errors), s') \<Rightarrow>
               (if errors \<noteq> [] then Inl (MoveAllError errors) else Inr results, s')))"

section \<open>Commands\<close>

definition parse_copy_source :: "ustring option \<Rightarrow> client_error + (ustring \<times> ustring)" where
  "parse_copy_source copySource =
     (let src = nullish copySource [];
          trimmed = (if starts_with src (lit ''/'') then tl src else src);
          sourcePath = hd (split_on 63 trimmed)
      in case decode_uri sourcePath of
           None \<Rightarrow> Inl UriError
         | Some decoded \<Rightarrow>
             (case split_on 47 decoded of
                [] \<Rightarrow> Inl InvalidCopySource
              | sourceBucket # parts \<Rightarrow>
                  if sourceBucket = [] \<or> parts = [] then Inl InvalidCopySource
                  else Inr (sourceBucket, join (lit ''/'') parts)))"

datatype command =
    PutObject put_object_params
  | GetObject "ustring option"
  | HeadObject "ustring option"
  | CopyObject "ustring option" "ustring option" "(ustring \<times> js_value) list option"
      "directive option" "ustring option"
  | DeleteObject "ustring option"
  | DeleteObjects "ustring option list"
  | ListObjectsV2 list_params
  | OtherCommand

datatype command_response =
    PutResponse put_response
  | ObjectResponse client_object
  | CopyResponse "(ustring \<times> ustring) option"
  | DeleteResponse
  | DeleteObjectsResponse "ustring list" "(ustring \<times> storage_error) list"
  | ListResponse list_response

definition handle_copy_object ::
    "platform \<Rightarrow> codec \<Rightarrow> memory_client \<Rightarrow> memory_storage \<Rightarrow> ustring option \<Rightarrow> ustring option
       \<Rightarrow> (ustring \<times> js_value) list option \<Rightarrow> directive option \<Rightarrow> ustring option
       \<Rightarrow> (client_error + (ustring \<times> ustring) option) \<times> memory_storage" where
  "handle_copy_object P C c s copySource key md dir contentType =
     (case parse_copy_source copySource of
        Inl e \<Rightarrow> (Inl e, s)
      | Inr (sourceBucket, sourceKey) \<Rightarrow>
          if sourceBucket \<noteq> mc_bucket c then (Inl (CrossBucketCopy sourceBucket), s)
          else case encode_metadata C md of
            Inl e \<Rightarrow> (Inl e, s)
          | Inr enc \<Rightarrow>
              (case storage_copy (pf_md5 P) (pf_write_file P) (pf_now P) s sourceKey
                  (apply_key_prefix c key)
                  \<lparr>cp_metadata = enc, cp_directive = dir, cp_content_type = contentType\<rparr> of
                 (r, s') \<Rightarrow> (lift_error r, s')))"

definition map_response :: "('a \<Rightarrow> 'b) \<Rightarrow> ('e + 'a) \<times> 's \<Rightarrow> ('e + 'b) \<times> 's" where
  "map_response f r = (case r of (Inl e, s) \<Rightarrow> (Inl e, s) | (Inr x, s) \<Rightarrow> (Inr (f x), s))"

text \<open>\<open>sendCommand\<close>: the command's name selects the handler.\<close>

fun send_command ::
    "platform \<Rightarrow> codec \<Rightarrow> memory_client \<Rightarrow> memory_storage \<Rightarrow> command
       \<Rightarrow> (client_error + command_response) \<times> memory_storage" where
  "send_command P C c s (PutObject p) = map_response PutResponse
     (client_put_object P C c s (p\<lparr>po_metadata := Some (nullish (po_metadata p) [])\<rparr>))"
| "send_command P C c s (GetObject key) = map_response ObjectResponse (client_get_object C c s key)"
| "send_command P C c s (HeadObject key) = map_response ObjectResponse (client_head_object C c s key)"
| "send_command P C c s (CopyObject src key md dir ct) =
     map_response CopyResponse (handle_copy_object P C c s src key md dir ct)"
| "send_command P C c s (DeleteObject key) =
     map_response (\<lambda>_. DeleteResponse) (client_delete_object P c s key)"
| "send_command P C c s (DeleteObjects keys) =
     (case storage_delete_multiple (pf_write_file P) (pf_now P) s (map (apply_key_prefix c) keys) of
        ((d, e), s') \<Rightarrow> (Inr (DeleteObjectsResponse d e), s'))"
| "send_command P C c s (ListObjectsV2 p) =
     (case client_list_objects c s p of Inl e \<Rightarrow> (Inl e, s) | Inr r \<Rightarrow> (Inr (ListResponse r), s))"
| "send_command P C c s OtherCommand = (Inl UnsupportedCommand, s)"

end
