(* ===== verification/Memory_Client_Props.thy ===== *)
theory Memory_Client_Props
  imports Memory_Client Memory_Storage_Props
begin

text \<open>
  The properties of the memory client: its key prefix separates keys, its pages are slices of its
  listing, and the cases where prefix, paging and moves go wrong.
\<close>

section \<open>Plain paths\<close>

definition plain_segment :: "ustring \<Rightarrow> bool" where
  "plain_segment seg \<longleftrightarrow> seg \<noteq> [] \<and> seg \<noteq> lit ''.'' \<and> seg \<noteq> lit ''..''"

text \<open>A path without empty or dot segments, so without leading, trailing or double slashes.\<close>

definition plain_path :: "ustring \<Rightarrow> bool" where
  "plain_path p \<longleftrightarrow> list_all plain_segment (split_on 47 p)"

lemma split_on_append: "split_on c (a @ c # b) = split_on c a @ split_on c b"
  by (induction a) (auto split: list.splits)

lemma normalize_plain:
  "list_all plain_segment segs \<Longrightarrow> normalize_segments up segs acc = rev acc @ segs"
  by (induction up segs acc rule: normalize_segments.induct) (auto simp: plain_segment_def)

lemma plain_path_not_Nil: "plain_path p \<Longrightarrow> p \<noteq> []"
  by (auto simp: plain_path_def plain_segment_def)

lemma plain_path_hd: "plain_path p \<Longrightarrow> hd p \<noteq> 47"
  by (cases p) (auto simp: plain_path_def plain_segment_def)

lemma plain_path_last: "plain_path p \<Longrightarrow> last p \<noteq> 47"
proof
  assume p: "plain_path p" "last p = 47"
  then have "p = butlast p @ [47]" using plain_path_not_Nil [OF p(1)] by (metis append_butlast_last_id)
  then have "split_on 47 p = split_on 47 (butlast p) @ split_on 47 []"
    using split_on_append [of 47 "butlast p" "[]"] by simp
  with p(1) show False by (simp add: plain_path_def plain_segment_def)
qed

lemma posix_normalize_plain: "plain_path p \<Longrightarrow> posix_normalize p = p"
  using join_split_on [of 47 p] plain_path_hd plain_path_last plain_path_not_Nil
  by (simp add: posix_normalize_def plain_path_def [symmetric] normalize_plain [unfolded plain_path_def] Let_def)

lemma plain_path_append: "plain_path a \<Longrightarrow> plain_path b \<Longrightarrow> plain_path (a @ 47 # b)"
  by (simp add: plain_path_def split_on_append)

lemma apply_plain:
  "plain_path (mc_key_prefix c) \<Longrightarrow> plain_path k \<Longrightarrow>
     apply_key_prefix c (Some k) = mc_key_prefix c @ 47 # k"
  using plain_path_append [of "mc_key_prefix c" k] plain_path_not_Nil [of k] plain_path_not_Nil [of "mc_key_prefix c"]
  by (simp add: apply_key_prefix_def nullish_def posix_join_def posix_normalize_plain)

lemma strip_plain:
  "plain_path (mc_key_prefix c) \<Longrightarrow> plain_path k \<Longrightarrow>
     strip_key_prefix c (mc_key_prefix c @ 47 # k) = k"
  using plain_path_not_Nil [of "mc_key_prefix c"] plain_path_hd [of k] plain_path_not_Nil [of k]
  by (cases k)
    (simp_all add: strip_key_prefix_def key_prefix_for_strip_def posix_join_def posix_normalize_plain
      starts_with_def)

section \<open>Pages\<close>

lemma list_flat_keys:
  assumes "int (length (list_keys s prefix None)) \<le> n \<or> 0 \<le> n"
  shows "\<exists>r. storage_list s (plain_list prefix n None) = Inr r \<and>
    map oi_key (lr_contents r) = take (nat n) (list_keys s prefix None) \<and>
    (lr_is_truncated r \<longrightarrow> nat n < length (list_keys s prefix None))"
proof -
  have "truthy (lp_delimiter (plain_list prefix n None)) = None"
    "list_start (plain_list prefix n None) = Inr None"
    by (simp_all add: plain_list_def truthy_def list_start_def)
  from list_flat [OF this, of s] show ?thesis
    by (auto simp: plain_list_def oi_keys_info truthy_def Let_def)
qed

lemma length_list_keys: "length (list_keys s prefix None) \<le> length (ms_objects s)"
  using length_filter_le [of "\<lambda>k. starts_with k prefix" "get_keys s"]
  by (simp add: list_keys_first matching_keys_def get_keys_def)

section \<open>Metadata through the client\<close>

text \<open>Entries the client stores faithfully: valid names, strings the codec reads back.\<close>

definition codec_safe :: "ustring \<Rightarrow> bool" where
  "codec_safe v \<longleftrightarrow> well_formed v \<and> own_value v \<and>
     v \<noteq> lit ''null'' \<and> v \<noteq> lit ''undefined'' \<and> v \<noteq> lit ''font/woff2''"

definition safe_entries :: "(ustring \<times> js_value) list \<Rightarrow> bool" where
  "safe_entries es \<longleftrightarrow> distinct_keys es \<and>
     (\<forall>p \<in> set es. valid_metadata_key (fst p) = fst p \<and> (\<exists>v. snd p = JString v \<and> codec_safe v))"

lemma safe_entries_Cons:
  "safe_entries ((k, v) # es) \<longleftrightarrow> safe_entries es \<and> k \<notin> fst ` set es \<and> valid_metadata_key k = k \<and>
     (\<exists>t. v = JString t \<and> codec_safe t)"
  by (auto simp: safe_entries_def distinct_keys_Cons_iff)

abbreviation client_decode :: "codec \<Rightarrow> ustring \<Rightarrow> js_value" where
  "client_decode C e \<equiv> metadata_decode (cd_native_text C) (cd_inflate C) (JString e)"

lemma encode_entries_safe:
  "safe_entries es \<Longrightarrow> distinct_keys acc \<Longrightarrow>
     \<exists>md. encode_entries C es acc = Inr md \<and> distinct_keys md \<and>
       (\<forall>k. k \<notin> fst ` set es \<longrightarrow> map_of md k = map_of acc k) \<and>
       (\<forall>k v. map_of es k = Some v \<longrightarrow> (\<exists>e. map_of md k = Some e \<and> client_decode C e = v))"
proof (induction es arbitrary: acc)
  case (Cons p es)
  obtain k v where p: "p = (k, v)" by (cases p)
  from Cons.prems(1) p obtain t where t: "safe_entries es" "k \<notin> fst ` set es" "valid_metadata_key k = k"
    "v = JString t" "codec_safe t" by (auto simp: safe_entries_Cons)
  from t(5) obtain e enc where e: "metadata_encode (cd_num_text C) (cd_native_text C) v = Some (encoded_as e enc)"
    "client_decode C e = v"
    using metadata_roundtrip_safe [of t] unfolding t(4) codec_safe_def by blast
  let ?acc = "obj_set k e acc"
  from Cons.IH [OF t(1), of ?acc] Cons.prems(2) obtain md where md:
    "encode_entries C es ?acc = Inr md" "distinct_keys md"
    "\<forall>k. k \<notin> fst ` set es \<longrightarrow> map_of md k = map_of ?acc k"
    "\<forall>k v. map_of es k = Some v \<longrightarrow> (\<exists>e. map_of md k = Some e \<and> client_decode C e = v)" by auto
  have "encode_entries C (p # es) acc = Inr md"
    using e(1) md(1) by (simp add: p t(3) encoded_as_def nullish_def)
  moreover have "map_of md k = Some e" using md(3) t(2) by (simp add: map_of_obj_set)
  ultimately show ?case
    using md(2-4) e(2) t(2) by (intro exI [of _ md]) (auto simp: p map_of_obj_set)
qed simp

lemma decoded_metadata:
  assumes "distinct_keys (or_metadata r)"
  shows "map_of (co_metadata (decode_metadata_response C r)) k =
    map_option (client_decode C) (map_of (or_metadata r) k)"
proof -
  let ?es = "map (\<lambda>(k, v). (k, client_decode C v)) (or_metadata r)"
  have "distinct_keys ?es" using assms by (simp add: distinct_keys_def comp_def case_prod_beta)
  moreover have "co_metadata (decode_metadata_response C r) = obj_of ?es"
    unfolding decode_metadata_response_def obj_of_def client_object.simps foldl_map
    by (rule foldl_cong) auto
  ultimately show ?thesis by (simp add: map_of_obj_of map_of_map)
qed

section \<open>Properties\<close>

text \<open>
  The key prefix is transparent. For a plain prefix and plain keys (no empty, dot or dot-dot
  segment) the stored key is the prefix, a slash and the key; stripping gives the key back, and
  different keys stay different.
\<close>
theorem key_prefix_roundtrip:
  assumes "plain_path (mc_key_prefix c)" "plain_path k" "plain_path k'"
  shows "apply_key_prefix c (Some k) = mc_key_prefix c @ 47 # k \<and>
    strip_key_prefix c (apply_key_prefix c (Some k)) = k \<and>
    (apply_key_prefix c (Some k) = apply_key_prefix c (Some k') \<longleftrightarrow> k = k')"
  using assms by (simp add: apply_plain strip_plain)

definition app_client :: memory_client where
  "app_client = \<lparr>mc_bucket = lit ''b'', mc_key_prefix = lit ''app'', mc_concurrency = 5, mc_store = 0\<rparr>"

lemma key_prefix_roundtrip_witness:
  "strip_key_prefix app_client (apply_key_prefix app_client (Some (lit ''a/b.c''))) = lit ''a/b.c''"
proof -
  have "plain_path (mc_key_prefix app_client)" "plain_path (lit ''a/b.c'')" by code_simp+
  from key_prefix_roundtrip [OF this this(2)] show ?thesis by blast
qed

text \<open>
  A page of keys is a slice of all keys. For any offset and any positive amount, \<open>getKeysPage\<close>
  ends and returns the keys from the offset on, at most \<open>amount\<close> of them, of what \<open>getAllKeys\<close>
  returns.
\<close>
theorem keys_page_is_slice:
  assumes "0 \<le> offset" "0 < amount" "int (length (ms_objects s)) \<le> max_safe_integer"
  shows "\<exists>ks. get_all_keys c s prefix = Inr ks \<and>
    get_keys_page c s prefix offset amount = Some (Inr (take (nat amount) (drop (nat offset) ks)))"
proof -
  let ?keys = "list_keys s (apply_key_prefix c (Some prefix)) None"
  have "int (length ?keys) \<le> max_safe_integer"
    using length_list_keys [of s "apply_key_prefix c (Some prefix)"] assms(3) by linarith
  then obtain r where r: "storage_list s (plain_list (apply_key_prefix c (Some prefix)) max_safe_integer None) = Inr r"
    "map oi_key (lr_contents r) = ?keys"
    using list_flat_keys [of s "apply_key_prefix c (Some prefix)" max_safe_integer] by auto
  have strip: "map (\<lambda>i. strip_key_prefix c (oi_key i)) is = map (strip_key_prefix c) (map oi_key is)" for "is"
    by simp
  have all: "get_all_keys c s prefix = Inr (map (strip_key_prefix c) ?keys)"
    unfolding get_all_keys_def r(1) by (simp only: sum.case strip r(2))
  have "get_keys_page c s prefix offset amount =
      Some (Inr (take (nat amount) (drop (nat offset) (map (strip_key_prefix c) ?keys))))"
  proof (cases "offset > 0")
    case True
    obtain q where q: "storage_list s (plain_list (apply_key_prefix c (Some prefix)) (offset + amount) None) = Inr q"
      "map oi_key (lr_contents q) = take (nat (offset + amount)) ?keys"
      using list_flat_keys [of s "apply_key_prefix c (Some prefix)" "offset + amount"] assms(1,2) by auto
    have "nat (offset + amount) = nat amount + nat offset" using assms(1,2) by simp
    then have "take (nat amount) (drop (nat offset) (take (nat (offset + amount)) (map (strip_key_prefix c) ?keys))) =
        take (nat amount) (drop (nat offset) (map (strip_key_prefix c) ?keys))"
      by (simp add: drop_take)
    with True show ?thesis
      unfolding get_keys_page_def q(1) by (simp only: if_True sum.case strip q(2) take_map)
  next
    case False
    obtain q where q: "storage_list s (plain_list (apply_key_prefix c (Some prefix)) amount None) = Inr q"
      "map oi_key (lr_contents q) = take (nat amount) ?keys"
      "lr_is_truncated q \<longrightarrow> nat amount < length ?keys"
      using list_flat_keys [of s "apply_key_prefix c (Some prefix)" amount] assms(2) by auto
    have "client_list_objects c s (plain_list prefix amount None) = Inr (normalize_list_response c q)"
      using q(1) by (simp add: client_list_objects_def plain_list_def truthy_def)
    moreover have page: "map oi_key (lr_contents (normalize_list_response c q)) =
        take (nat amount) (map (strip_key_prefix c) ?keys)"
      unfolding take_map q(2) [symmetric] by (simp add: normalize_list_response_def Let_def)
    moreover have "lr_is_truncated (normalize_list_response c q) = lr_is_truncated q"
      by (simp add: normalize_list_response_def Let_def)
    moreover have "length (map oi_key (lr_contents (normalize_list_response c q))) \<ge> nat amount"
      if "lr_is_truncated q"
      using that q(3) unfolding page by simp
    ultimately have "keys_page_loop c s prefix amount [] True None =
        Some (Inr (take (nat amount) (map (strip_key_prefix c) ?keys)))"
      using assms(2)
      by (subst keys_page_loop.simps, subst keys_page_loop.simps) (auto simp: Let_def)
    moreover have "nat offset = 0" using False by simp
    ultimately show ?thesis using False unfolding get_keys_page_def by simp
  qed
  with all show ?thesis by blast
qed

lemma keys_page_is_slice_witness:
  "\<exists>ks. get_all_keys app_client (limited_store 0) [] = Inr ks \<and>
    get_keys_page app_client (limited_store 0) [] 0 2 = Some (Inr (take (nat 2) (drop (nat 0) ks)))"
  by (rule keys_page_is_slice) (simp_all add: limited_store_def new_storage_def max_safe_integer_def Let_def)

definition toy_platform :: platform where
  "toy_platform = \<lparr>pf_md5 = toy_md5, pf_write_file = no_write, pf_now = []\<rparr>"

definition toy_codec :: codec where
  "toy_codec = \<lparr>cd_num_text = (\<lambda>_. []), cd_native_text = (\<lambda>n. n), cd_inflate = (\<lambda>_. None)\<rparr>"

text \<open>
  Where the client goes wrong. A key with dot-dot segments leaves the key prefix; a client with
  prefix \<open>app\<close> lists the keys of \<open>app2\<close> under wrong names and reports them deleted without deleting
  them; moving an object onto itself deletes it; and the token for offset 1 resumes the listing
  after the key at that offset, which no page then contains.
\<close>
theorem client_defects:
  "apply_key_prefix app_client (Some (lit ''../other/x'')) = lit ''other/x'' \<and>
   (let s = put_on (limited_store 100) (lit ''app2/x'') [1]
    in get_all_keys app_client s [] = Inr [lit ''2/x''] \<and>
       fst (delete_all toy_platform app_client s []) = Inr 1 \<and>
       storage_exists (snd (delete_all toy_platform app_client s [])) (lit ''app2/x'')) \<and>
   (let s = put_on (limited_store 100) (lit ''app/x'') [1];
        (r, s') = move_object toy_platform toy_codec app_client s (lit ''x'') (lit ''x'')
    in r = Inr True \<and> \<not> client_exists app_client s' (Some (lit ''x''))) \<and>
   (let c = app_client\<lparr>mc_key_prefix := []\<rparr>;
        s = put_on (put_on (put_on (limited_store 100) (lit ''a'') []) (lit ''b'') []) (lit ''c'') []
    in get_all_keys c s [] = Inr [lit ''a'', lit ''b'', lit ''c''] \<and>
       (case get_continuation_token_after_offset c s [] 1 of
          Inl _ \<Rightarrow> False
        | Inr token \<Rightarrow>
            (case client_list_objects c s (plain_list [] 10 token) of
               Inl _ \<Rightarrow> False | Inr r \<Rightarrow> map oi_key (lr_contents r) = [lit ''c''])))"
  by (intro conjI; code_simp)

text \<open>
  C11: Metadata written through the client is read back. After a successful put of a record of strings
  under valid metadata names, a get of the key returns the body and exactly those properties, through
  the key prefix, the metadata codec and the store together.
\<close>
theorem client_put_then_get:
  assumes "storage_inv (pf_md5 P) s" "po_metadata p = Some es" "safe_entries es"
    "client_put_object P C c s p = (Inr r, s')"
  shows "\<exists>ob. fst (client_get_object C c s' (po_key p)) = Inr ob \<and>
    or_body (co_object ob) = Some (to_buffer (po_body p)) \<and>
    or_etag (co_object ob) = pr_etag r \<and>
    map_of (co_metadata ob) = map_of es"
proof -
  from encode_entries_safe [OF assms(3), of "[]" C] obtain md where md:
    "encode_entries C es [] = Inr md" "distinct_keys md"
    "\<forall>k. k \<notin> fst ` set es \<longrightarrow> map_of md k = None"
    "\<forall>k v. map_of es k = Some v \<longrightarrow> (\<exists>e. map_of md k = Some e \<and> client_decode C e = v)" by auto
  let ?key = "apply_key_prefix c (po_key p)"
  let ?p = "\<lparr>pp_body = po_body p, pp_metadata = Some md, pp_content_type = po_content_type p,
    pp_content_encoding = po_content_encoding p, pp_content_length = po_content_length p,
    pp_if_match = po_if_match p, pp_if_none_match = po_if_none_match p\<rparr>"
  let ?r = "object_response_of True (new_object (pf_md5 P) (pf_now P) ?p)"
  have put: "storage_put (pf_md5 P) (pf_write_file P) (pf_now P) s ?key ?p = (Inr r, s')"
    using assms(2,4) md(1)
    by (auto simp: client_put_object_def encode_metadata_def lift_error_def nullish_def
        split: prod.splits sum.splits)
  have get: "fst (storage_get s' ?key) = Inr ?r" "or_etag ?r = pr_etag r"
    using put_get [OF assms(1) put] by simp_all
  then have "fst (client_get_object C c s' (po_key p)) = Inr (decode_metadata_response C ?r)"
    by (auto simp: client_get_object_def split: prod.splits sum.splits)
  moreover have meta: "or_metadata ?r = md"
    by (simp add: object_response_of_def new_object_def nullish_def Let_def)
  have "map_of (co_metadata (decode_metadata_response C ?r)) = map_of es"
  proof
    fix k
    show "map_of (co_metadata (decode_metadata_response C ?r)) k = map_of es k"
    proof (cases "map_of es k")
      case None
      with md(3) have "map_of md k = None" by (simp add: map_of_eq_None_iff)
      with None md(2) show ?thesis by (simp add: decoded_metadata meta)
    next
      case (Some v)
      with md(4) obtain e where "map_of md k = Some e" "client_decode C e = v" by blast
      with Some md(2) show ?thesis by (simp add: decoded_metadata meta)
    qed
  qed
  ultimately show ?thesis
    using get(2) by (intro exI [of _ "decode_metadata_response C ?r"])
      (simp add: decode_metadata_response_def object_response_of_def)
qed

lemma client_put_then_get_witness:
  "\<exists>ob. fst (client_get_object toy_codec app_client
       (snd (client_put_object toy_platform toy_codec app_client (limited_store 100)
         \<lparr>po_key = Some (lit ''k''), po_metadata = Some [(lit ''kind'', JString (lit ''failed''))],
          po_content_type = None, po_body = Buffer [1, 2], po_content_encoding = None,
          po_content_length = None, po_if_match = None, po_if_none_match = None\<rparr>)) (Some (lit ''k''))) = Inr ob \<and>
     map_of (co_metadata ob) = map_of [(lit ''kind'', JString (lit ''failed''))]"
proof -
  let ?p = "\<lparr>po_key = Some (lit ''k''), po_metadata = Some [(lit ''kind'', JString (lit ''failed''))],
          po_content_type = None, po_body = Buffer [1, 2], po_content_encoding = None,
          po_content_length = None, po_if_match = None, po_if_none_match = None\<rparr>"
  have inv: "storage_inv (pf_md5 toy_platform) (limited_store 100)"
    by (simp add: toy_platform_def limited_store_inv)
  have safe: "safe_entries [(lit ''kind'', JString (lit ''failed''))]"
    by (simp add: safe_entries_def distinct_keys_def valid_metadata_key_def codec_safe_def own_value_def
        native_arity_def is_high_def is_low_def is_digit_def)
  let ?put = "client_put_object toy_platform toy_codec app_client (limited_store 100) ?p"
  have "case fst ?put of Inl _ \<Rightarrow> False | Inr _ \<Rightarrow> True" by code_simp
  then obtain q where "fst ?put = Inr q" by (cases "fst ?put") simp_all
  then have "?put = (Inr q, snd ?put)" by (metis prod.collapse)
  from client_put_then_get [OF inv _ safe this] show ?thesis by auto
qed

end
