(* ===== verification/Priority_Task_Queue.thy ===== *)
theory Priority_Task_Queue
  imports Task_Queues "HOL-Library.Product_Lexorder"
begin

text \<open>
  \<open>core/src/tasks/concerns/priority-task-queue.ts\<close>: the binary heap of the full task queue, with the
  optional aging of waiting tasks. Priorities, times and the aging settings are rational numbers
  (finite doubles); the clock readings of a call are its arguments.
\<close>

section \<open>State\<close>

record 'a priority_node =
  pn_task :: 'a
  pn_priority :: rat
  pn_order :: nat
  pn_enqueued_at :: "rat option"

record 'a priority_queue =
  pq_heap :: "'a priority_node list"
  pq_counter :: nat
  pq_aging_ms :: rat
  pq_max_aging_boost :: rat
  pq_aging_multiplier :: rat
  pq_aging_enabled :: bool

definition pq_new :: "rat option \<Rightarrow> rat option \<Rightarrow> 'a priority_queue" where
  "pq_new agingMs maxAgingBoost =
     (let ms = (case agingMs of None \<Rightarrow> 0 | Some m \<Rightarrow> m);
          boost = (case maxAgingBoost of None \<Rightarrow> 0 | Some b \<Rightarrow> b)
      in \<lparr>pq_heap = [], pq_counter = 0, pq_aging_ms = ms, pq_max_aging_boost = boost,
          pq_aging_multiplier = 1, pq_aging_enabled = (ms > 0 \<and> boost > 0)\<rparr>)"

definition pq_length :: "'a priority_queue \<Rightarrow> nat" where
  "pq_length q = length (pq_heap q)"

section \<open>The order of service\<close>

definition aging_timestamp :: "'a priority_queue \<Rightarrow> rat \<Rightarrow> rat" where
  "aging_timestamp q clock = (if pq_aging_enabled q then clock else 0)"

definition aging_base :: "'a priority_queue \<Rightarrow> rat" where
  "aging_base q = (if \<not> pq_aging_enabled q then 0 else pq_aging_ms q * pq_aging_multiplier q)"

definition priority_value :: "'a priority_queue \<Rightarrow> rat \<Rightarrow> rat \<Rightarrow> 'a priority_node \<Rightarrow> rat" where
  "priority_value q now base n =
     (if \<not> pq_aging_enabled q \<or> base = 0 then pn_priority n
      else
        let waited = max 0 (now - (case pn_enqueued_at n of None \<Rightarrow> 0 | Some t \<Rightarrow> t))
        in if waited \<le> 0 then pn_priority n
           else pn_priority n + min (pq_max_aging_boost q) (waited / base))"

definition is_higher_priority ::
    "'a priority_queue \<Rightarrow> rat \<Rightarrow> rat \<Rightarrow> 'a priority_node list \<Rightarrow> nat \<Rightarrow> nat \<Rightarrow> bool" where
  "is_higher_priority q now base heap a b =
     (if a \<ge> length heap then False
      else if b \<ge> length heap then True
      else
        let priorityA = priority_value q now base (heap ! a);
            priorityB = priority_value q now base (heap ! b)
        in if priorityA = priorityB then pn_order (heap ! a) < pn_order (heap ! b)
           else priorityA > priorityB)"

section \<open>The heap\<close>

definition swap :: "'n list \<Rightarrow> nat \<Rightarrow> nat \<Rightarrow> 'n list" where
  "swap xs i j = xs[i := xs ! j, j := xs ! i]"

lemma length_swap [simp]: "length (swap xs i j) = length xs"
  by (simp add: swap_def)

text \<open>The loops of \<open>_bubbleUp\<close> and \<open>_bubbleDown\<close>, for a comparison of two positions of the heap.\<close>

function bubble_up :: "('n list \<Rightarrow> nat \<Rightarrow> nat \<Rightarrow> bool) \<Rightarrow> 'n list \<Rightarrow> nat \<Rightarrow> 'n list" where
  "bubble_up higher heap index =
     (if index > 0 then
        let parent = (index - 1) div 2
        in if higher heap parent index then heap
           else bubble_up higher (swap heap index parent) parent
      else heap)"
  by pat_completeness auto
termination
  by (relation "measure (\<lambda>(_, _, i). i)") auto

function bubble_down :: "('n list \<Rightarrow> nat \<Rightarrow> nat \<Rightarrow> bool) \<Rightarrow> 'n list \<Rightarrow> nat \<Rightarrow> 'n list" where
  "bubble_down higher heap index =
     (let len = length heap;
          left = index * 2 + 1;
          right = left + 1;
          largest = (if left < len \<and> higher heap left index then left else index);
          largest' = (if right < len \<and> higher heap right largest then right else largest)
      in if largest' = index then heap
         else bubble_down higher (swap heap index largest') largest')"
  by pat_completeness auto
termination
  by (relation "measure (\<lambda>(_, h, i). length h - i)") (auto simp: Let_def split: if_splits)

declare bubble_up.simps [simp del] bubble_down.simps [simp del]

section \<open>Operations\<close>

text \<open>
  \<open>enqueue\<close>: \<open>prio\<close> reads the optional priority of a task, \<open>t\<close> and \<open>t'\<close> are the clock when the
  node is stamped and when it is moved up.
\<close>

definition pq_enqueue ::
    "('a \<Rightarrow> rat option) \<Rightarrow> rat \<Rightarrow> rat \<Rightarrow> 'a priority_queue \<Rightarrow> 'a \<Rightarrow> 'a priority_queue" where
  "pq_enqueue prio t t' q task =
     (let node = \<lparr>pn_task = task, pn_priority = (case prio task of None \<Rightarrow> 0 | Some p \<Rightarrow> p),
                  pn_order = pq_counter q,
                  pn_enqueued_at = (if pq_aging_enabled q then Some t else None)\<rparr>;
          heap = pq_heap q @ [node]
      in q\<lparr>pq_heap := bubble_up (is_higher_priority q (aging_timestamp q t') (aging_base q)) heap
             (length heap - 1),
           pq_counter := pq_counter q + 1\<rparr>)"

definition pq_dequeue :: "rat \<Rightarrow> 'a priority_queue \<Rightarrow> 'a option \<times> 'a priority_queue" where
  "pq_dequeue t q =
     (if pq_heap q = [] then (None, q)
      else
        let topNode = hd (pq_heap q);
            lastNode = last (pq_heap q);
            rest = butlast (pq_heap q);
            heap = (if rest = [] then []
                    else bubble_down (is_higher_priority q (aging_timestamp q t) (aging_base q))
                           (rest[0 := lastNode]) 0)
        in (Some (pn_task topNode), q\<lparr>pq_heap := heap\<rparr>))"

definition pq_clear :: "'a priority_queue \<Rightarrow> 'a priority_queue" where
  "pq_clear q = q\<lparr>pq_heap := []\<rparr>"

text \<open>\<open>flush\<close> hands the tasks over in heap order, not in the order of service.\<close>

definition pq_flush :: "'a priority_queue \<Rightarrow> 'a list \<times> 'a priority_queue" where
  "pq_flush q = (map pn_task (pq_heap q), pq_clear q)"

definition pq_set_aging_multiplier :: "rat option \<Rightarrow> 'a priority_queue \<Rightarrow> 'a priority_queue" where
  "pq_set_aging_multiplier multiplier q =
     (if \<not> pq_aging_enabled q then q
      else case multiplier of
        None \<Rightarrow> q
      | Some m \<Rightarrow> q\<lparr>pq_aging_multiplier := min 4 (max (1 / 4) m)\<rparr>)"

section \<open>Binary heaps in an array\<close>

text \<open>
  What \<open>_bubbleUp\<close> and \<open>_bubbleDown\<close> need from the comparison: it compares the keys of two
  positions of the heap (a smaller key is served first).
\<close>

abbreviation par :: "nat \<Rightarrow> nat" where
  "par i \<equiv> (i - 1) div 2"

lemma par_facts: "0 < i \<Longrightarrow> par i < i" "0 < i \<Longrightarrow> par i = k \<longleftrightarrow> i = k * 2 + 1 \<or> i = k * 2 + 2"
  by (arith, arith)

lemma nth_swap:
  "i < length xs \<Longrightarrow> j < length xs \<Longrightarrow> m < length xs \<Longrightarrow>
     swap xs i j ! m = (if m = i then xs ! j else if m = j then xs ! i else xs ! m)"
  by (simp add: swap_def nth_list_update)

lemma mset_swap_positions [simp]:
  "i < length xs \<Longrightarrow> j < length xs \<Longrightarrow> mset (swap xs i j) = mset xs"
  using mset_swap [of j xs i] by (cases "i = j") (simp_all add: swap_def)

locale binary_heap =
  fixes key :: "'n \<Rightarrow> 'k::linorder"
    and higher :: "'n list \<Rightarrow> nat \<Rightarrow> nat \<Rightarrow> bool"
  assumes higher_iff: "higher h a b \<longleftrightarrow> a < length h \<and> (b < length h \<longrightarrow> key (h ! a) < key (h ! b))"
begin

definition heap_ok :: "'n list \<Rightarrow> bool" where
  "heap_ok h \<longleftrightarrow> (\<forall>i < length h. 0 < i \<longrightarrow> key (h ! par i) \<le> key (h ! i))"

lemma heap_ok_Nil: "heap_ok []"
  by (simp add: heap_ok_def)

lemma root_first: "heap_ok h \<Longrightarrow> i < length h \<Longrightarrow> key (h ! 0) \<le> key (h ! i)"
proof (induction i rule: less_induct)
  case (less i)
  show ?case
  proof (cases "i = 0")
    case False
    with less.prems par_facts(1) [of i] have "key (h ! 0) \<le> key (h ! par i)"
      by (intro less.IH) simp_all
    also have "\<dots> \<le> key (h ! i)" using less.prems False by (simp add: heap_ok_def)
    finally show ?thesis .
  qed simp
qed

text \<open>The heap is in order except that position \<open>k\<close> may be ahead of its parent.\<close>

definition up_ok :: "'n list \<Rightarrow> nat \<Rightarrow> bool" where
  "up_ok h k \<longleftrightarrow> (\<forall>i < length h. 0 < i \<longrightarrow>
     (i \<noteq> k \<longrightarrow> key (h ! par i) \<le> key (h ! i)) \<and>
     (par i = k \<and> 0 < k \<longrightarrow> key (h ! par k) \<le> key (h ! i)))"

lemma up_ok_swap:
  assumes "up_ok h k" "k < length h" "0 < k" "key (h ! k) \<le> key (h ! par k)"
  shows "up_ok (swap h k (par k)) (par k)"
  unfolding up_ok_def
proof (intro allI impI conjI)
  fix i
  let ?p = "par k"
  assume i: "i < length (swap h k ?p)" "0 < i"
  have p: "?p < k" "?p < length h" using par_facts(1) [of k] assms by simp_all
  have lens: "i < length h" "par i < length h" "par i < i"
    using i par_facts(1) [of i] by simp_all
  have first: "j \<noteq> k \<Longrightarrow> j < length h \<Longrightarrow> 0 < j \<Longrightarrow> key (h ! par j) \<le> key (h ! j)" for j
    using assms(1) by (simp add: up_ok_def)
  have second: "par i = k \<Longrightarrow> key (h ! ?p) \<le> key (h ! i)"
    using assms(1,3) lens i by (simp add: up_ok_def)
  { assume "i \<noteq> ?p"
    then show "key (swap h k ?p ! par i) \<le> key (swap h k ?p ! i)"
      using assms p lens first [of i] second i
      by (auto simp: nth_swap dest: order_trans) }
  { assume c: "par i = ?p \<and> 0 < ?p"
    have pp: "par ?p < ?p" using par_facts(1) [of ?p] c by simp
    have up: "key (h ! par ?p) \<le> key (h ! ?p)" using first [of ?p] p c by simp
    have "i \<noteq> k \<Longrightarrow> key (h ! ?p) \<le> key (h ! i)" using first [of i] lens i c by simp
    then have "key (h ! par ?p) \<le> key (swap h k ?p ! i)"
      using up p lens assms(2) c by (cases "i = k") (auto simp: nth_swap dest: order_trans)
    then show "key (swap h k ?p ! par ?p) \<le> key (swap h k ?p ! i)"
      using pp p assms(2) by (simp add: nth_swap) }
qed

lemma bubble_up_ok:
  "k < length h \<Longrightarrow> up_ok h k \<Longrightarrow> heap_ok (bubble_up higher h k) \<and> mset (bubble_up higher h k) = mset h"
proof (induction k arbitrary: h rule: less_induct)
  case (less k)
  consider "k = 0" | "0 < k" "higher h (par k) k" | "0 < k" "\<not> higher h (par k) k" by blast
  then show ?case
  proof cases
    case 1
    with less.prems show ?thesis by (subst (1 2) bubble_up.simps) (simp add: heap_ok_def up_ok_def)
  next
    case 2
    with less.prems have "key (h ! par k) < key (h ! k)" by (simp add: higher_iff)
    with less.prems have "heap_ok h" by (auto simp: heap_ok_def up_ok_def)
    with 2 show ?thesis by (subst (1 2) bubble_up.simps) (simp add: Let_def)
  next
    case 3
    have p: "par k < k" using 3 by (simp add: par_facts(1))
    with 3 less.prems have "key (h ! k) \<le> key (h ! par k)" by (auto simp: higher_iff)
    then have "up_ok (swap h k (par k)) (par k)" by (intro up_ok_swap less.prems 3)
    with less.IH [OF p, of "swap h k (par k)"] less.prems p 3 show ?thesis
      by (subst (1 2) bubble_up.simps) (simp add: Let_def)
  qed
qed

text \<open>The heap is in order except that position \<open>k\<close> may be behind its children.\<close>

definition down_ok :: "'n list \<Rightarrow> nat \<Rightarrow> bool" where
  "down_ok h k \<longleftrightarrow> (\<forall>i < length h. 0 < i \<longrightarrow>
     (par i \<noteq> k \<longrightarrow> key (h ! par i) \<le> key (h ! i)) \<and>
     (par i = k \<and> 0 < k \<longrightarrow> key (h ! par k) \<le> key (h ! i)))"

lemma down_ok_swap:
  assumes "down_ok h k" "l < length h" "0 < l" "par l = k" "key (h ! l) < key (h ! k)"
    and least: "\<And>i. i < length h \<Longrightarrow> 0 < i \<Longrightarrow> par i = k \<Longrightarrow> key (h ! l) \<le> key (h ! i)"
  shows "down_ok (swap h k l) l"
  unfolding down_ok_def
proof (intro allI impI conjI)
  fix i
  assume i: "i < length (swap h k l)" "0 < i"
  have k: "k < l" "k < length h" using par_facts(1) [of l] assms by simp_all
  have lens: "i < length h" "par i < length h" "par i < i"
    using i par_facts(1) [of i] by simp_all
  have first: "par i \<noteq> k \<Longrightarrow> key (h ! par i) \<le> key (h ! i)"
    using assms(1) lens i by (simp add: down_ok_def)
  have second: "0 < k \<Longrightarrow> key (h ! par k) \<le> key (h ! l)"
    using assms(1-4) by (simp add: down_ok_def)
  { assume "par i \<noteq> l"
    then show "key (swap h k l ! par i) \<le> key (swap h k l ! i)"
      using k lens first second least [of i] assms i
      by (cases "par i = k"; cases "i = k"; cases "i = l") (auto simp: nth_swap) }
  { assume "par i = l \<and> 0 < l"
    then show "key (swap h k l ! par l) \<le> key (swap h k l ! i)"
      using k lens first assms i by (auto simp: nth_swap) }
qed

definition best_child :: "'n list \<Rightarrow> nat \<Rightarrow> nat" where
  "best_child h k =
     (let len = length h;
          left = k * 2 + 1;
          right = left + 1;
          largest = (if left < len \<and> higher h left k then left else k)
      in if right < len \<and> higher h right largest then right else largest)"

lemma bubble_down_best:
  "bubble_down higher h k =
     (if best_child h k = k then h else bubble_down higher (swap h k (best_child h k)) (best_child h k))"
  by (subst bubble_down.simps) (simp add: best_child_def Let_def)

lemma best_child_cases:
  assumes "k < length h"
  shows "if best_child h k = k then (\<forall>i < length h. 0 < i \<and> par i = k \<longrightarrow> key (h ! k) \<le> key (h ! i))
         else best_child h k < length h \<and> k < best_child h k \<and> par (best_child h k) = k \<and>
              key (h ! best_child h k) < key (h ! k) \<and>
              (\<forall>i < length h. 0 < i \<and> par i = k \<longrightarrow> key (h ! best_child h k) \<le> key (h ! i))"
proof -
  let ?l = "k * 2 + 1" and ?r = "k * 2 + 2"
  have kid: "0 < i \<and> par i = k \<longleftrightarrow> i = ?l \<or> i = ?r" for i
    by arith
  have kids: "(\<forall>i < length h. 0 < i \<and> par i = k \<longrightarrow> P i) \<longleftrightarrow>
      (?l < length h \<longrightarrow> P ?l) \<and> (?r < length h \<longrightarrow> P ?r)" for P
    unfolding kid by auto
  show ?thesis
    unfolding kids using assms
    by (auto simp: best_child_def Let_def higher_iff not_less)
qed

lemma bubble_down_ok:
  "k < length h \<Longrightarrow> down_ok h k \<Longrightarrow>
     heap_ok (bubble_down higher h k) \<and> mset (bubble_down higher h k) = mset h"
proof (induction "length h - k" arbitrary: h k rule: less_induct)
  case less
  note best = best_child_cases [OF less.prems(1)]
  show ?case
  proof (cases "best_child h k = k")
    case True
    with best less.prems have "heap_ok h" by (auto simp: heap_ok_def down_ok_def)
    with True show ?thesis by (subst (1 2) bubble_down_best) simp
  next
    case False
    let ?l = "best_child h k"
    from False best have l: "?l < length h" "k < ?l" "par ?l = k" "key (h ! ?l) < key (h ! k)"
      "\<And>i. i < length h \<Longrightarrow> 0 < i \<Longrightarrow> par i = k \<Longrightarrow> key (h ! ?l) \<le> key (h ! i)" by auto
    then have "down_ok (swap h k ?l) ?l" by (intro down_ok_swap less.prems) simp_all
    with less.hyps [of "swap h k ?l" ?l] l less.prems have
      "heap_ok (bubble_down higher (swap h k ?l) ?l) \<and>
       mset (bubble_down higher (swap h k ?l) ?l) = mset h" by simp
    with False show ?thesis by (subst (1 2) bubble_down_best) simp
  qed
qed

lemma heap_ok_snoc:
  assumes "heap_ok h"
  shows "up_ok (h @ [n]) (length h)"
  unfolding up_ok_def
proof (intro allI impI)
  fix i
  assume i: "i < length (h @ [n])" "0 < i"
  with par_facts(1) [of i] have "par i < length h" by simp
  with i assms show "(i \<noteq> length h \<longrightarrow> key ((h @ [n]) ! par i) \<le> key ((h @ [n]) ! i)) \<and>
      (par i = length h \<and> 0 < length h \<longrightarrow>
         key ((h @ [n]) ! par (length h)) \<le> key ((h @ [n]) ! i))"
    by (auto simp: heap_ok_def nth_append)
qed

lemma down_ok_root: "heap_ok h \<Longrightarrow> down_ok (h[0 := n]) 0"
  using par_facts(1) by (auto simp: heap_ok_def down_ok_def nth_list_update)

lemma heap_ok_butlast: "heap_ok h \<Longrightarrow> heap_ok (butlast h)"
  using par_facts(1) by (auto simp: heap_ok_def nth_butlast) 

end

end
