(* ===== verification/Priority_Queue_Props.thy ===== *)
theory Priority_Queue_Props
  imports Priority_Task_Queue
begin

text \<open>
  What the priority queue promises: without aging it serves the waiting tasks by priority and, among
  equals, in submission order; with aging no task is lost, but the heap is only reordered along the
  paths a call touches.
\<close>

section \<open>The heap under the comparison of the code\<close>

definition node_key :: "'a priority_queue \<Rightarrow> rat \<Rightarrow> 'a priority_node \<Rightarrow> rat \<times> nat" where
  "node_key q now n = (- priority_value q now (aging_base q) n, pn_order n)"

interpretation heap: binary_heap "node_key q now" "is_higher_priority q now (aging_base q)"
  for q :: "'a priority_queue" and now
  by unfold_locales (auto simp: is_higher_priority_def node_key_def Let_def)

text \<open>The nodes in the order of service.\<close>

definition task_priority :: "('a \<Rightarrow> rat option) \<Rightarrow> 'a \<Rightarrow> rat" where
  "task_priority prio x = (case prio x of None \<Rightarrow> 0 | Some p \<Rightarrow> p)"

definition plain_key :: "'a priority_node \<Rightarrow> rat \<times> nat" where
  "plain_key n = (- pn_priority n, pn_order n)"

definition waiting :: "'a priority_queue \<Rightarrow> 'a list" where
  "waiting q = map pn_task (sort_key plain_key (pq_heap q))"

definition pq_inv :: "('a \<Rightarrow> rat option) \<Rightarrow> 'a priority_queue \<Rightarrow> bool" where
  "pq_inv prio q \<longleftrightarrow> \<not> pq_aging_enabled q \<and> heap.heap_ok q 0 (pq_heap q) \<and>
     distinct (map pn_order (pq_heap q)) \<and>
     (\<forall>n \<in> set (pq_heap q). pn_order n < pq_counter q \<and> pn_priority n = task_priority prio (pn_task n))"

lemma plain_node_key: "\<not> pq_aging_enabled q \<Longrightarrow> node_key q now = plain_key"
  by (rule ext) (simp add: node_key_def priority_value_def plain_key_def)

lemma plain_heap_ok:
  "\<not> pq_aging_enabled q \<Longrightarrow> \<not> pq_aging_enabled q' \<Longrightarrow> heap.heap_ok q t = heap.heap_ok q' t'"
  by (rule ext) (simp add: heap.heap_ok_def plain_node_key)

lemma inj_plain_key: "distinct (map pn_order h) \<Longrightarrow> inj_on plain_key (set h)"
  by (auto simp: distinct_map plain_key_def inj_on_def)

text \<open>Where the promise puts a new task: behind every task of at least its priority.\<close>

definition place_task :: "('a \<Rightarrow> rat option) \<Rightarrow> 'a list \<Rightarrow> 'a \<Rightarrow> 'a list" where
  "place_task prio xs x =
     (let ahead = (\<lambda>y. task_priority prio x \<le> task_priority prio y)
      in takeWhile ahead xs @ x # dropWhile ahead xs)"

lemma mset_place_task: "mset (place_task prio xs x) = add_mset x (mset xs)"
  by (simp add: place_task_def Let_def) (metis mset_append takeWhile_dropWhile_id union_commute)

lemma insort_newest:
  assumes "\<And>m. m \<in> set ns \<Longrightarrow> pn_order m < pn_order n \<and> pn_priority m = task_priority prio (pn_task m)"
    "pn_priority n = task_priority prio (pn_task n)"
  shows "map pn_task (insort_key plain_key n ns) = place_task prio (map pn_task ns) (pn_task n)"
  using assms
proof (induction ns)
  case (Cons m ns)
  have "plain_key n \<le> plain_key m \<longleftrightarrow> task_priority prio (pn_task m) < task_priority prio (pn_task n)"
    using Cons.prems(1) [of m] Cons.prems(2)
    by (auto simp: plain_key_def)
  with Cons show ?case
    by (auto simp: place_task_def Let_def not_less)
qed (simp add: place_task_def)

lemma sort_key_plain:
  assumes "mset h = mset h'" "distinct (map pn_order h)"
  shows "sort_key plain_key h = sort_key plain_key h'"
  using assms by (intro sort_key_inj_key_eq inj_plain_key) simp_all

lemma mset_bubble_up_enqueue:
  "heap.heap_ok q now (pq_heap q) \<Longrightarrow>
     heap.heap_ok q now (bubble_up (is_higher_priority q now (aging_base q)) (pq_heap q @ [n]) (length (pq_heap q)))
     \<and> mset (bubble_up (is_higher_priority q now (aging_base q)) (pq_heap q @ [n]) (length (pq_heap q)))
       = add_mset n (mset (pq_heap q))"
  using heap.bubble_up_ok [OF _ heap.heap_ok_snoc, of "pq_heap q" n q now] by simp

lemma set_map_mset: "mset xs = mset ys \<Longrightarrow> set (map f xs) = set (map f ys)"
  by (metis set_map mset_eq_setD)

lemma pq_enqueue_waiting:
  assumes inv: "pq_inv prio q"
  shows "pq_inv prio (pq_enqueue prio t t' q x) \<and>
    waiting (pq_enqueue prio t t' q x) = place_task prio (waiting q) x"
proof -
  let ?n = "\<lparr>pn_task = x, pn_priority = task_priority prio x, pn_order = pq_counter q, pn_enqueued_at = None\<rparr>"
  let ?q = "pq_enqueue prio t t' q x"
  have off: "\<not> pq_aging_enabled q" using inv by (simp add: pq_inv_def)
  have h: "heap.heap_ok q 0 (pq_heap ?q)" "mset (pq_heap ?q) = add_mset ?n (mset (pq_heap q))"
    using mset_bubble_up_enqueue [of q 0 ?n] inv off
    by (simp_all add: pq_inv_def pq_enqueue_def Let_def aging_timestamp_def task_priority_def)
  have frame: "pq_counter ?q = pq_counter q + 1" "\<not> pq_aging_enabled ?q"
    using off by (simp_all add: pq_enqueue_def Let_def)
  have set: "set (pq_heap ?q) = insert ?n (set (pq_heap q))"
    using h(2) by (metis set_mset_add_mset_insert set_mset_mset)
  have "distinct (map pn_order (pq_heap ?q)) = distinct (pq_counter q # map pn_order (pq_heap q))"
    using h(2) by (intro mset_eq_imp_distinct_iff) simp
  then have dist: "distinct (map pn_order (pq_heap ?q))"
    using inv by (auto simp: pq_inv_def)
  have "sort_key plain_key (pq_heap ?q) = sort_key plain_key (?n # pq_heap q)"
    using h(2) dist by (intro sort_key_plain) simp_all
  then have "waiting ?q = map pn_task (insort_key plain_key ?n (sort_key plain_key (pq_heap q)))"
    by (simp add: waiting_def)
  also have "\<dots> = place_task prio (waiting q) x"
    using inv by (subst insort_newest [where prio = prio]) (auto simp: pq_inv_def waiting_def)
  finally show ?thesis
    using h(1) inv off frame set dist plain_heap_ok [OF off frame(2), of 0 0]
    by (auto simp: pq_inv_def)
qed

lemma mset_last_butlast: "xs \<noteq> [] \<Longrightarrow> add_mset (last xs) (mset (butlast xs)) = mset xs"
  by (cases xs rule: rev_cases) simp_all

lemma pq_dequeue_heap:
  assumes "pq_heap q \<noteq> []" "heap.heap_ok q (aging_timestamp q t) (pq_heap q)"
  shows "heap.heap_ok q (aging_timestamp q t) (pq_heap (snd (pq_dequeue t q))) \<and>
    mset (pq_heap q) = add_mset (hd (pq_heap q)) (mset (pq_heap (snd (pq_dequeue t q))))"
proof (cases "butlast (pq_heap q) = []")
  case True
  with assms(1) have "pq_heap q = [hd (pq_heap q)]" by (cases "pq_heap q") (auto split: if_splits)
  with True assms(1) show ?thesis
    by (simp add: pq_dequeue_def Let_def heap.heap_ok_Nil)
next
  case False
  let ?h = "(butlast (pq_heap q))[0 := last (pq_heap q)]"
  have down: "heap.down_ok q (aging_timestamp q t) ?h 0"
    by (intro heap.down_ok_root heap.heap_ok_butlast assms(2))
  have "0 < length ?h" by (metis False length_greater_0_conv length_list_update)
  from False heap.bubble_down_ok [OF this down]
  have "heap.heap_ok q (aging_timestamp q t) (pq_heap (snd (pq_dequeue t q))) \<and>
      mset (pq_heap (snd (pq_dequeue t q))) = mset ?h"
    using assms(1) by (simp add: pq_dequeue_def Let_def)
  moreover have "mset (pq_heap q) = add_mset (hd (pq_heap q)) (mset ?h)"
  proof -
    obtain x ys where q: "pq_heap q = x # ys" using assms(1) by (cases "pq_heap q") auto
    with False have ys: "ys \<noteq> []" by auto
    with q mset_last_butlast [of ys] show ?thesis by simp
  qed
  ultimately show ?thesis by simp
qed

lemma waiting_Nil_iff: "waiting q = [] \<longleftrightarrow> pq_heap q = []"
  by (simp add: waiting_def) (metis length_0_conv length_sort)

lemma length_waiting: "length (waiting q) = length (pq_heap q)"
  by (simp add: waiting_def)

lemma pq_dequeue_waiting:
  assumes inv: "pq_inv prio q" and ne: "pq_heap q \<noteq> []"
  shows "pq_inv prio (snd (pq_dequeue t q)) \<and>
    waiting q = pn_task (hd (pq_heap q)) # waiting (snd (pq_dequeue t q))"
proof -
  let ?q = "snd (pq_dequeue t q)" and ?top = "hd (pq_heap q)"
  have off: "\<not> pq_aging_enabled q" and ok: "heap.heap_ok q 0 (pq_heap q)"
    and dist: "distinct (map pn_order (pq_heap q))" using inv by (simp_all add: pq_inv_def)
  have ts: "aging_timestamp q t = 0" using off by (simp add: aging_timestamp_def)
  from pq_dequeue_heap [of q t] ne ok ts have
    h: "heap.heap_ok q 0 (pq_heap ?q)" "mset (pq_heap q) = add_mset ?top (mset (pq_heap ?q))" by simp_all
  have frame: "pq_counter ?q = pq_counter q" "pq_aging_enabled ?q = pq_aging_enabled q"
    by (simp_all add: pq_dequeue_def Let_def)
  have set: "set (pq_heap q) = insert ?top (set (pq_heap ?q))"
    using h(2) by (metis set_mset_add_mset_insert set_mset_mset)
  have "mset (map pn_order (pq_heap q)) = mset (pn_order ?top # map pn_order (pq_heap ?q))"
    using h(2) by simp
  then have dist': "distinct (pn_order ?top # map pn_order (pq_heap ?q))"
    using dist mset_eq_imp_distinct_iff by blast
  have top: "plain_key ?top \<le> plain_key n" if "n \<in> set (pq_heap q)" for n
  proof -
    from that obtain i where "i < length (pq_heap q)" "n = pq_heap q ! i" by (auto simp: in_set_conv_nth)
    with heap.root_first [OF ok this(1)] ne show ?thesis
      by (simp add: plain_node_key [OF off] hd_conv_nth)
  qed
  have "sort_key plain_key (pq_heap q) = ?top # sort_key plain_key (pq_heap ?q)"
  proof (rule sort_key_inj_key_eq)
    show "mset (pq_heap q) = mset (?top # sort_key plain_key (pq_heap ?q))" using h(2) by simp
    show "inj_on plain_key (set (pq_heap q))" by (rule inj_plain_key [OF dist])
    show "sorted (map plain_key (?top # sort_key plain_key (pq_heap ?q)))"
      using top set by simp
  qed
  with h(1) inv off frame set dist' plain_heap_ok [of q ?q 0 0] show ?thesis
    by (auto simp: pq_inv_def waiting_def)
qed

interpretation prio_queue:
  service_queue "pq_enqueue prio t t'" "pq_dequeue now" pq_length "pq_inv prio" waiting "place_task prio"
  for prio :: "'a \<Rightarrow> rat option" and t t' now
proof unfold_locales
  fix q :: "'a priority_queue"
  assume inv: "pq_inv prio q"
  show "pq_inv prio (snd (pq_dequeue now q))"
    using inv pq_dequeue_waiting [OF inv] by (cases "pq_heap q = []") (auto simp: pq_dequeue_def)
  { assume "waiting q = []"
    then show "pq_dequeue now q = (None, q)" by (simp add: waiting_Nil_iff pq_dequeue_def) }
  { fix x xs assume w: "waiting q = x # xs"
    then have "pq_heap q \<noteq> []" using waiting_Nil_iff [of q] by simp
    with pq_dequeue_waiting [OF inv this, of now] w
    show "fst (pq_dequeue now q) = Some x \<and> waiting (snd (pq_dequeue now q)) = xs"
      by (simp add: pq_dequeue_def Let_def) }
qed (simp_all add: pq_enqueue_waiting [THEN conjunct1] pq_enqueue_waiting [THEN conjunct2]
  mset_place_task pq_length_def length_waiting)

section \<open>Any comparison keeps the tasks\<close>

lemma mset_bubble_up: "k < length h \<Longrightarrow> mset (bubble_up higher h k) = mset h"
proof (induction k arbitrary: h rule: less_induct)
  case (less k)
  show ?case
  proof (cases "k = 0 \<or> higher h (par k) k")
    case True
    then show ?thesis by (subst bubble_up.simps) (auto simp: Let_def)
  next
    case False
    then have "par k < k" by arith
    with less.IH [OF this, of "swap h k (par k)"] less.prems False show ?thesis
      by (subst bubble_up.simps) (simp add: Let_def)
  qed
qed

lemma mset_bubble_down: "k < length h \<Longrightarrow> mset (bubble_down higher h k) = mset h"
proof (induction "length h - k" arbitrary: h k rule: less_induct)
  case less
  let ?l = "if k * 2 + 1 < length h \<and> higher h (k * 2 + 1) k then k * 2 + 1 else k"
  let ?m = "if k * 2 + 2 < length h \<and> higher h (k * 2 + 2) ?l then k * 2 + 2 else ?l"
  have step: "bubble_down higher h k = (if ?m = k then h else bubble_down higher (swap h k ?m) ?m)"
    by (subst bubble_down.simps) (simp add: Let_def)
  show ?case
  proof (cases "?m = k")
    case False
    then have m: "k < ?m" "?m < length h" by (auto split: if_splits)
    with less.hyps [of "swap h k ?m" ?m] less.prems have
      "mset (bubble_down higher (swap h k ?m) ?m) = mset h" by simp
    with False step show ?thesis by simp
  qed (use step in simp)
qed

definition tasks_of :: "'a priority_queue \<Rightarrow> 'a multiset" where
  "tasks_of q = image_mset pn_task (mset (pq_heap q))"

lemma tasks_enqueue: "tasks_of (pq_enqueue prio t t' q x) = add_mset x (tasks_of q)"
  by (simp add: tasks_of_def pq_enqueue_def Let_def mset_bubble_up)

lemma tasks_dequeue:
  "case pq_dequeue t q of
     (None, q') \<Rightarrow> q' = q \<and> tasks_of q = {#}
   | (Some x, q') \<Rightarrow> tasks_of q = add_mset x (tasks_of q')"
proof (cases "pq_heap q")
  case (Cons n ns)
  show ?thesis
  proof (cases "ns = []")
    case False
    let ?h = "(butlast (n # ns))[0 := last (n # ns)]"
    from False have h: "?h = last ns # butlast ns" by simp
    have "mset (bubble_down higher ?h 0) = mset ns" for higher
      using False mset_last_butlast [of ns] by (subst mset_bubble_down) (simp_all add: h)
    with Cons False show ?thesis by (simp add: pq_dequeue_def Let_def tasks_of_def)
  qed (use Cons in \<open>simp add: pq_dequeue_def Let_def tasks_of_def\<close>)
qed (simp add: pq_dequeue_def tasks_of_def)

interpretation aged_queue: task_queue "pq_enqueue prio t t'" "pq_dequeue now" pq_length "\<lambda>_. True" tasks_of
  for prio :: "'a \<Rightarrow> rat option" and t t' now
proof unfold_locales
  fix q :: "'a priority_queue"
  { assume "tasks_of q = {#}"
    then show "pq_dequeue now q = (None, q)" by (simp add: tasks_of_def pq_dequeue_def) }
  { assume "tasks_of q \<noteq> {#}"
    with tasks_dequeue [of q now] show "\<exists>x q'. pq_dequeue now q = (Some x, q') \<and> tasks_of q = add_mset x (tasks_of q')"
      by (auto split: prod.splits option.splits) }
qed (simp_all add: tasks_enqueue, simp add: pq_length_def tasks_of_def)

section \<open>Histories\<close>

datatype 'a request = Submit rat rat 'a | Take rat | Flush_All | Tune "rat option"

datatype 'a response = Accepted | Served "'a option" | Flushed_All "'a multiset"

fun pq_request :: "('a \<Rightarrow> rat option) \<Rightarrow> 'a priority_queue \<Rightarrow> 'a request \<Rightarrow> 'a response \<times> 'a priority_queue" where
  "pq_request prio q (Submit t t' x) = (Accepted, pq_enqueue prio t t' q x)"
| "pq_request prio q (Take t) = (case pq_dequeue t q of (v, q') \<Rightarrow> (Served v, q'))"
| "pq_request prio q Flush_All = (case pq_flush q of (xs, q') \<Rightarrow> (Flushed_All (mset xs), q'))"
| "pq_request prio q (Tune m) = (Accepted, pq_set_aging_multiplier m q)"

text \<open>The same requests on the list of waiting tasks in the order of service.\<close>

fun list_request :: "('a \<Rightarrow> rat option) \<Rightarrow> 'a list \<Rightarrow> 'a request \<Rightarrow> 'a response \<times> 'a list" where
  "list_request prio xs (Submit t t' x) = (Accepted, place_task prio xs x)"
| "list_request prio xs (Take t) =
     (case xs of [] \<Rightarrow> (Served None, []) | x # ys \<Rightarrow> (Served (Some x), ys))"
| "list_request prio xs Flush_All = (Flushed_All (mset xs), [])"
| "list_request prio xs (Tune m) = (Accepted, xs)"

fun response_tasks :: "'a response \<Rightarrow> 'a multiset" where
  "response_tasks Accepted = {#}"
| "response_tasks (Served v) = (case v of None \<Rightarrow> {#} | Some x \<Rightarrow> {#x#})"
| "response_tasks (Flushed_All xs) = xs"

fun submitted_tasks :: "'a request list \<Rightarrow> 'a multiset" where
  "submitted_tasks [] = {#}"
| "submitted_tasks (Submit t t' x # rs) = add_mset x (submitted_tasks rs)"
| "submitted_tasks (_ # rs) = submitted_tasks rs"

fun serve :: "('a \<Rightarrow> rat option) \<Rightarrow> 'a priority_queue \<Rightarrow> 'a request list \<Rightarrow> 'a multiset \<times> 'a priority_queue" where
  "serve prio q [] = ({#}, q)"
| "serve prio q (r # rs) =
     (case pq_request prio q r of
        (a, q') \<Rightarrow> (case serve prio q' rs of (served, q'') \<Rightarrow> (response_tasks a + served, q'')))"

lemma tune_inv: "pq_inv prio q \<Longrightarrow> pq_set_aging_multiplier m q = q"
  by (simp add: pq_inv_def pq_set_aging_multiplier_def)

lemma pq_request_refines:
  assumes inv: "pq_inv prio q"
  shows "fst (pq_request prio q r) = fst (list_request prio (waiting q) r) \<and>
    pq_inv prio (snd (pq_request prio q r)) \<and>
    waiting (snd (pq_request prio q r)) = snd (list_request prio (waiting q) r)"
proof (cases r)
  case (Submit t t' x)
  with pq_enqueue_waiting [OF inv] show ?thesis by simp
next
  case (Take t)
  with prio_queue.deq_Nil [OF inv, of t] prio_queue.deq_Cons [OF inv, of _ _ t]
    prio_queue.keeps_deq [OF inv, of t] inv
  show ?thesis by (cases "waiting q") (auto simp: prod_eq_iff split: prod.splits)
next
  case Flush_All
  with inv show ?thesis
    using mset_map [of pn_task "pq_heap q"]
    by (simp add: pq_flush_def pq_clear_def pq_inv_def waiting_def heap.heap_ok_Nil)
next
  case (Tune m)
  with inv show ?thesis by (simp add: tune_inv)
qed

lemma pq_request_tasks:
  "response_tasks (fst (pq_request prio q r)) + tasks_of (snd (pq_request prio q r)) =
     tasks_of q + submitted_tasks [r]"
proof (cases r)
  case (Take t)
  with tasks_dequeue [of q t] show ?thesis by (auto split: prod.splits option.splits)
next
  case (Submit t t' x)
  then show ?thesis by (simp add: tasks_enqueue)
qed (simp_all add: pq_flush_def pq_clear_def tasks_of_def pq_set_aging_multiplier_def split: option.splits)

lemma serve_tasks:
  "serve prio q rs = (served, q') \<Longrightarrow> served + tasks_of q' = tasks_of q + submitted_tasks rs"
proof (induction rs arbitrary: q served)
  case (Cons r rs)
  obtain a q1 where r: "pq_request prio q r = (a, q1)" by fastforce
  obtain more q2 where rs: "serve prio q1 rs = (more, q2)" by fastforce
  from Cons.prems r rs have s: "served = response_tasks a + more" "q' = q2" by simp_all
  have "submitted_tasks (r # rs) = submitted_tasks [r] + submitted_tasks rs" by (cases r) simp_all
  with pq_request_tasks [of prio q r] r Cons.IH [of q1 more] rs s show ?case
    by (simp add: ac_simps) (metis add.assoc add.commute)
qed simp

section \<open>Draining serves a stable sort\<close>

lemma sorted_place:
  "sorted (map (\<lambda>x. - task_priority prio x) xs) \<Longrightarrow>
     sorted (map (\<lambda>x. - task_priority prio x) (place_task prio xs x))"
  by (induction xs) (auto simp: place_task_def Let_def dest: set_takeWhileD set_dropWhileD)

lemma filter_place:
  "sorted (map (\<lambda>x. - task_priority prio x) xs) \<Longrightarrow>
     filter (\<lambda>y. task_priority prio y = p) (place_task prio xs x) =
     filter (\<lambda>y. task_priority prio y = p) xs @ (if task_priority prio x = p then [x] else [])"
proof (induction xs)
  case (Cons y ys)
  show ?case
  proof (cases "task_priority prio x \<le> task_priority prio y")
    case True
    with Cons show ?thesis by (simp add: place_task_def Let_def)
  next
    case False
    with Cons.prems have "\<forall>z \<in> set (y # ys). task_priority prio z < task_priority prio x" by auto
    then have "task_priority prio x = p \<Longrightarrow> filter (\<lambda>y. task_priority prio y = p) (y # ys) = []"
      by (intro filter_False) auto
    with False show ?thesis by (auto simp: place_task_def Let_def)
  qed
qed (simp add: place_task_def)

lemma foldl_place_sort:
  "foldl (place_task prio) [] xs = sort_key (\<lambda>x. - task_priority prio x) xs"
proof -
  let ?key = "\<lambda>x. - task_priority prio x" and ?ys = "foldl (place_task prio) []"
  have "mset (?ys xs) = mset xs \<and> sorted (map ?key (?ys xs)) \<and>
      (\<forall>p. filter (\<lambda>y. task_priority prio y = p) (?ys xs) = filter (\<lambda>y. task_priority prio y = p) xs)"
    by (induction xs rule: rev_induct) (simp_all add: mset_place_task sorted_place filter_place)
  then show ?thesis
    by (intro sym [OF properties_for_sort_key]) (auto simp: eq_commute)
qed

lemma priority_drain_sorted:
  "pq_inv prio q \<Longrightarrow> waiting q = [] \<Longrightarrow> length xs < n \<Longrightarrow>
     \<exists>r. drain (pq_dequeue now) n (foldl (pq_enqueue prio t t') q xs)
           = Some (sort_key (\<lambda>x. - task_priority prio x) xs, r) \<and> waiting r = []"
  using prio_queue.drain_foldl_enq [of prio q xs n now t t'] by (simp add: foldl_place_sort)

lemma pq_new_inv:
  fixes prio :: "'a \<Rightarrow> rat option"
  assumes "\<not> pq_aging_enabled (pq_new ms boost :: 'a priority_queue)"
  shows "pq_inv prio (pq_new ms boost) \<and> waiting (pq_new ms boost :: 'a priority_queue) = []"
  using assms
  by (simp add: pq_inv_def pq_new_def waiting_def Let_def heap.heap_ok_Nil)

section \<open>Properties\<close>

text \<open>
  C12: The heap is a stable priority queue. Without aging, for every history of submissions, takes,
  flushes and multiplier changes on a fresh queue, at any clock readings, the answers are those of the
  list of waiting tasks kept by priority and, among equal priorities, in submission order.
\<close>
theorem priority_history:
  fixes prio :: "'a \<Rightarrow> rat option"
  assumes "\<not> pq_aging_enabled (pq_new ms boost :: 'a priority_queue)"
  shows "answers (pq_request prio) (pq_new ms boost) rs = answers (list_request prio) [] rs"
proof -
  note new = pq_new_inv [OF assms, of prio]
  have "answers (pq_request prio) (pq_new ms boost) rs =
      answers (list_request prio) (waiting (pq_new ms boost)) rs"
    by (rule answers_simulation [where good = "pq_inv prio" and view = waiting])
      (use new pq_request_refines in \<open>blast+\<close>)
  with new show ?thesis by simp
qed

lemma priority_history_witness:
  "answers (pq_request (\<lambda>x. if x = (1::nat) then None else Some (of_nat (x div 10)))) (pq_new None (Some 3))
     [Submit 0 0 11, Submit 1 1 1, Submit 2 2 52, Submit 3 3 13, Take 9, Take 9, Take 9, Take 9, Take 9]
   = [Accepted, Accepted, Accepted, Accepted,
      Served (Some 52), Served (Some 11), Served (Some 13), Served (Some 1), Served None]"
  by (subst priority_history) (simp_all add: pq_new_def place_task_def task_priority_def)

text \<open>
  C13: A batch put into a fresh queue without aging and drained by the scheduler's loop comes out as
  the stable sort of the batch by descending priority, and the loop ends with the queue empty.
\<close>
theorem priority_drain_stable_sort:
  fixes prio :: "'a \<Rightarrow> rat option"
  assumes "length xs < n"
  shows "\<exists>r. drain (pq_dequeue now) n (foldl (pq_enqueue prio t t') (pq_new None None) xs)
           = Some (sort_key (\<lambda>x. - task_priority prio x) xs, r) \<and> pq_length r = 0"
proof -
  have "\<not> pq_aging_enabled (pq_new None None :: 'a priority_queue)" by (simp add: pq_new_def)
  note new = pq_new_inv [OF this, of prio]
  from priority_drain_sorted [OF new [THEN conjunct1] new [THEN conjunct2] assms]
  show ?thesis by (auto simp: pq_length_def waiting_Nil_iff)
qed

lemma priority_drain_stable_sort_witness:
  "\<exists>r. drain (pq_dequeue 7) 5 (foldl (pq_enqueue Some 0 0) (pq_new None None) [2, 5, 3, 5])
         = Some ([5, 5, 3, 2], r) \<and> pq_length r = 0"
  using priority_drain_stable_sort [of "[2, 5, 3, 5]" 5 7 Some 0 0] by (simp add: task_priority_def)

text \<open>
  No task is lost or served twice, whatever the aging settings, clock readings and multiplier
  changes: over any history, the tasks served or flushed and those still in the heap are exactly the
  tasks there were and the tasks submitted.
\<close>
theorem priority_conserves_tasks:
  "fst (serve prio q rs) + tasks_of (snd (serve prio q rs)) = tasks_of q + submitted_tasks rs"
  by (rule serve_tasks) simp

text \<open>
  With aging the queue does not always serve the task of the highest effective priority. The heap
  is ordered by the values at the time of each insertion; when one task reaches the cap of its bonus
  and another does not, the values change order but nothing moves, and \<open>dequeue\<close> takes the stale
  root.
\<close>
theorem aging_serves_stale_root:
  "let q = pq_enqueue Some 5 5 (pq_enqueue Some 0 0 (pq_new (Some 1) (Some 10)) 1) 5;
       value_at = (\<lambda>t n. priority_value q (aging_timestamp q t) (aging_base q) n)
   in map pn_task (pq_heap q) = [1, 5] \<and>
      map (value_at 20) (pq_heap q) = [11, 15] \<and>
      fst (pq_dequeue 20 q) = Some 1"
  by code_simp

end
