(* ===== verification/Plugin_Storage.thy ===== *)
theory Plugin_Storage
  imports Memory_Client Behaviors
begin

text \<open>
  \<open>core/src/plugins/concerns/plugin-storage.ts\<close>: the key-value store every plugin keeps its state in,
  on top of a storage client, here the memory client. Records are split over object metadata and a
  JSON body; expiry, versions (ETags), counters and sequences are built on that.

  The clock reading of a call is the argument \<open>now\<close>, in milliseconds. \<open>Number(text)\<close> and
  \<open>toISOString\<close> are parameters besides those of the client and of the behaviors. Operations of one
  storage run one after another here; interleavings of lock users are in \<open>Storage_Locks\<close>.
\<close>

section \<open>State and errors\<close>

record plugin =
  pl_client :: memory_client
  pl_platform :: platform
  pl_codec :: codec
  pl_json :: json
  pl_number :: "ustring \<Rightarrow> js_number"
  pl_iso :: "rat \<Rightarrow> ustring"
  pl_slug :: ustring

datatype plugin_error =
    PluginStorageError client_error
  | BodyParseError
  | PluginMetadataLimit int int
  | PluginBehaviorError ustring
  | PluginTypeError
  | PluginUriError
  | MissingSlug
  | SequenceLockError

definition new_plugin_storage :: "plugin \<Rightarrow> plugin_error + plugin" where
  "new_plugin_storage P = (if pl_slug P = [] then Inl MissingSlug else Inr P)"

type_synonym 'a outcome = "(plugin_error + 'a) \<times> memory_storage"

text \<open>The next statement of an asynchronous function, unless the last one threw.\<close>

definition and_then :: "'a outcome \<Rightarrow> ('a \<Rightarrow> memory_storage \<Rightarrow> 'b outcome) \<Rightarrow> 'b outcome" where
  "and_then r f = (case r of (Inl e, s) \<Rightarrow> (Inl e, s) | (Inr x, s) \<Rightarrow> f x s)"

definition wrap_error :: "(client_error + 'a) \<times> memory_storage \<Rightarrow> 'a outcome" where
  "wrap_error r = (case r of (Inl e, s) \<Rightarrow> (Inl (PluginStorageError e), s) | (Inr x, s) \<Rightarrow> (Inr x, s))"

definition is_precondition_failure :: "plugin_error \<Rightarrow> bool" where
  "is_precondition_failure e =
     (case e of PluginStorageError (StorageError (PreconditionFailed _)) \<Rightarrow> True | _ \<Rightarrow> False)"

definition is_missing_object_error :: "client_error \<Rightarrow> bool" where
  "is_missing_object_error e = (case e of StorageError (NoSuchKey _) \<Rightarrow> True | _ \<Rightarrow> False)"

text \<open>\<open>+\<close> of a value and a number.\<close>

fun num_plus :: "js_number \<Rightarrow> js_number \<Rightarrow> js_number" where
  "num_plus (Num a) (Num b) = Num (a + b)"
| "num_plus NaN _ = NaN"
| "num_plus _ NaN = NaN"
| "num_plus PosInf NegInf = NaN"
| "num_plus NegInf PosInf = NaN"
| "num_plus PosInf _ = PosInf"
| "num_plus _ PosInf = PosInf"
| "num_plus NegInf _ = NegInf"
| "num_plus _ NegInf = NegInf"

definition js_plus :: "(js_number \<Rightarrow> ustring) \<Rightarrow> js_value \<Rightarrow> js_number \<Rightarrow> js_value" where
  "js_plus show_num v n =
     (case v of
        JNumber m \<Rightarrow> JNumber (num_plus m n)
      | JUndefined \<Rightarrow> JNumber NaN
      | JNull \<Rightarrow> JNumber n
      | JBool b \<Rightarrow> JNumber (num_plus (Num (if b then 1 else 0)) n)
      | _ \<Rightarrow> JString (js_string show_num v @ show_num n))"

section \<open>Keys and versions\<close>

definition get_plugin_key :: "plugin \<Rightarrow> ustring option \<Rightarrow> ustring list \<Rightarrow> ustring" where
  "get_plugin_key P resourceName parts =
     (case truthy resourceName of
        Some r \<Rightarrow> lit ''resource='' @ r @ lit ''/plugin='' @ pl_slug P @ lit ''/'' @ join (lit ''/'') parts
      | None \<Rightarrow> lit ''plugin='' @ pl_slug P @ lit ''/'' @ join (lit ''/'') parts)"

definition get_sequence_key :: "plugin \<Rightarrow> ustring option \<Rightarrow> ustring \<Rightarrow> ustring \<Rightarrow> ustring" where
  "get_sequence_key P resourceName sequenceName suffix =
     (case truthy resourceName of
        Some r \<Rightarrow> lit ''resource='' @ r @ lit ''/plugin='' @ pl_slug P @ lit ''/sequence='' @ sequenceName
                    @ lit ''/'' @ suffix
      | None \<Rightarrow> lit ''plugin='' @ pl_slug P @ lit ''/sequence='' @ sequenceName @ lit ''/'' @ suffix)"

definition normalize_etag_token :: "ustring option \<Rightarrow> ustring option" where
  "normalize_etag_token v =
     (case v of
        None \<Rightarrow> None
      | Some t \<Rightarrow>
          let trimmed = trim t
          in if trimmed = [] then None
             else
               let weak = (if starts_with trimmed (lit ''W/'' @ [34]) then drop 2 trimmed else trimmed)
               in if length weak \<ge> 2 \<and> starts_with weak [34] \<and> ends_with weak [34]
                  then Some (butlast (tl weak)) else Some weak)"

section \<open>Splitting a record over metadata and body\<close>

datatype plugin_behavior = BodyOverflow | BodyOnly | EnforceLimits | OtherBehavior ustring

definition plugin_metadata_limit :: int where
  "plugin_metadata_limit = 2047"

definition plugin_effective_limit :: "plugin \<Rightarrow> int" where
  "plugin_effective_limit P =
     calculate_effective_limit (num_text (pl_json P)) (stringify (pl_json P))
       (Some plugin_metadata_limit) None default_system_config"

text \<open>\<open>typeof value === 'object' ? JSON.stringify(value) : value\<close>.\<close>

definition json_value :: "plugin \<Rightarrow> js_value \<Rightarrow> js_value" where
  "json_value P v =
     (case v of
        JNull \<Rightarrow> JString (stringify (pl_json P) v)
      | JArray _ \<Rightarrow> JString (stringify (pl_json P) v)
      | JObject _ \<Rightarrow> JString (stringify (pl_json P) v)
      | _ \<Rightarrow> v)"

text \<open>The bytes of an entry, \<open>None\<close> when the encoder throws.\<close>

definition entry_size :: "plugin \<Rightarrow> ustring \<times> js_value \<Rightarrow> int option" where
  "entry_size P e =
     map_option
       (\<lambda>r. count_utf8_bytes (fst e) + count_utf8_bytes (nullish (er_encoded r) (lit ''undefined'')))
       (metadata_encode (cd_num_text (pl_codec P)) (cd_native_text (pl_codec P)) (json_value P (snd e)))"

record split_state =
  sp_size :: int
  sp_metadata :: fields
  sp_body :: "fields option"

definition overflow_entry ::
    "plugin \<Rightarrow> split_state \<Rightarrow> int \<times> ustring \<times> js_value \<Rightarrow> split_state" where
  "overflow_entry P st item =
     (case item of (n, key, v) \<Rightarrow>
        if sp_size st + n \<le> plugin_effective_limit P then
          st\<lparr>sp_metadata := obj_set key (json_value P v) (sp_metadata st), sp_size := sp_size st + n\<rparr>
        else st\<lparr>sp_body := Some (obj_set key v (nullish (sp_body st) []))\<rparr>)"

text \<open>The loop of \<open>enforce-limits\<close>.\<close>

fun enforce_entries ::
    "plugin \<Rightarrow> int \<Rightarrow> fields \<Rightarrow> fields \<Rightarrow> plugin_error + fields" where
  "enforce_entries P currentSize metadata [] = Inr metadata"
| "enforce_entries P currentSize metadata (e # es) =
     (case entry_size P e of
        None \<Rightarrow> Inl PluginUriError
      | Some n \<Rightarrow>
          if currentSize + n > plugin_effective_limit P then
            Inl (PluginMetadataLimit (currentSize + n) (plugin_effective_limit P))
          else enforce_entries P (currentSize + n) (obj_set (fst e) (json_value P (snd e)) metadata) es)"

definition apply_behavior ::
    "plugin \<Rightarrow> fields \<Rightarrow> plugin_behavior \<Rightarrow> plugin_error + (fields \<times> fields option)" where
  "apply_behavior P data behavior =
     (case behavior of
        BodyOverflow \<Rightarrow>
          let sizes = map (entry_size P) data
          in if None \<in> set sizes then Inl PluginUriError
          else
            let sorted = sort_key fst (zip (map (\<lambda>n. nullish n 0) sizes) data);
                st = foldl (overflow_entry P) \<lparr>sp_size = 0, sp_metadata = [], sp_body = None\<rparr> sorted
            in Inr (sp_metadata st, sp_body st)
      | BodyOnly \<Rightarrow> Inr ([], Some data)
      | EnforceLimits \<Rightarrow>
          (case enforce_entries P 0 [] data of Inl e \<Rightarrow> Inl e | Inr md \<Rightarrow> Inr (md, None))
      | OtherBehavior b \<Rightarrow> Inl (PluginBehaviorError b))"

section \<open>Writing\<close>

record set_options =
  st_ttl :: "rat option"
  st_behavior :: plugin_behavior
  st_content_type :: ustring
  st_if_match :: "ustring option"
  st_if_none_match :: "ustring option"

definition default_options :: set_options where
  "default_options =
     \<lparr>st_ttl = None, st_behavior = BodyOverflow, st_content_type = lit ''application/json'',
      st_if_match = None, st_if_none_match = None\<rparr>"

definition with_expiry :: "rat \<Rightarrow> rat option \<Rightarrow> fields \<Rightarrow> fields" where
  "with_expiry now ttl data =
     (case ttl of
        Some t \<Rightarrow> if t > 0 then obj_set (lit ''_expiresAt'') (JNumber (Num (now + t * 1000))) data else data
      | None \<Rightarrow> data)"

definition plugin_set ::
    "plugin \<Rightarrow> rat \<Rightarrow> memory_storage \<Rightarrow> ustring \<Rightarrow> fields \<Rightarrow> set_options \<Rightarrow> put_response outcome" where
  "plugin_set P now s key data opts =
     (case apply_behavior P (with_expiry now (st_ttl opts) data) (st_behavior opts) of
        Inl e \<Rightarrow> (Inl e, s)
      | Inr (metadata, body) \<Rightarrow>
          wrap_error (client_put_object (pl_platform P) (pl_codec P) (pl_client P) s
            \<lparr>po_key = Some key, po_metadata = Some metadata,
             po_content_type = Some (st_content_type opts),
             po_body = (case body of
                          None \<Rightarrow> NoBody
                        | Some b \<Rightarrow> Text (stringify (pl_json P) (JObject b))),
             po_content_encoding = None, po_content_length = None,
             po_if_match = st_if_match opts, po_if_none_match = st_if_none_match opts\<rparr>))"

definition plugin_delete :: "plugin \<Rightarrow> memory_storage \<Rightarrow> ustring \<Rightarrow> unit outcome" where
  "plugin_delete P s key = wrap_error (client_delete_object (pl_platform P) (pl_client P) s (Some key))"

section \<open>Reading\<close>

text \<open>
  \<open>_parseMetadataValues\<close>: a value the client decoded to \<open>null\<close> or \<open>undefined\<close> has no \<open>startsWith\<close>,
  so the call throws (\<open>None\<close>).
\<close>

definition parse_metadata_value :: "plugin \<Rightarrow> js_value \<Rightarrow> js_value option" where
  "parse_metadata_value P v =
     (case v of
        JString t \<Rightarrow>
          let bracketed = starts_with t (lit ''{'') \<and> ends_with t (lit ''}'') \<or>
                starts_with t (lit ''['') \<and> ends_with t (lit '']'')
          in (case (if bracketed then parse (pl_json P) t else None) of
                Some x \<Rightarrow> Some x
              | None \<Rightarrow>
                  if pl_number P t \<noteq> NaN \<and> trim t \<noteq> [] then Some (JNumber (pl_number P t))
                  else if t = lit ''true'' then Some (JBool True)
                  else if t = lit ''false'' then Some (JBool False)
                  else Some (JString t))
      | _ \<Rightarrow> None)"

fun parse_metadata_values :: "plugin \<Rightarrow> fields \<Rightarrow> fields \<Rightarrow> fields option" where
  "parse_metadata_values P parsed [] = Some parsed"
| "parse_metadata_values P parsed ((k, v) # es) =
     (case parse_metadata_value P v of
        None \<Rightarrow> None
      | Some x \<Rightarrow> parse_metadata_values P (obj_set k x parsed) es)"

text \<open>\<open>_readStoredObjectData\<close>; with \<open>null_mode\<close> an unreadable body is no data instead of an error.\<close>

definition read_stored_object_data ::
    "plugin \<Rightarrow> client_object \<Rightarrow> bool \<Rightarrow> plugin_error + fields option" where
  "read_stored_object_data P response null_mode =
     (case parse_metadata_values P [] (co_metadata response) of
        None \<Rightarrow> Inl PluginTypeError
      | Some parsedMetadata \<Rightarrow>
          (case or_body (co_object response) of
             None \<Rightarrow> Inr (Some parsedMetadata)
           | Some b \<Rightarrow>
               let bodyContent = utf8_decode b
               in if trim bodyContent = [] then Inr (Some parsedMetadata)
                  else case parse (pl_json P) bodyContent of
                    None \<Rightarrow> if null_mode then Inr None else Inl BodyParseError
                  | Some body \<Rightarrow> Inr (Some (merge_fields parsedMetadata (spread_entries body)))))"

definition extract_expires_at :: "fields \<Rightarrow> rat option" where
  "extract_expires_at data =
     (let a = prop_of data (lit ''_expiresat'');
          candidate = (if a = JUndefined \<or> a = JNull then prop_of data (lit ''_expiresAt'') else a)
      in case candidate of JNumber (Num r) \<Rightarrow> Some r | _ \<Rightarrow> None)"

text \<open>The record without the expiry entries.\<close>

definition drop_expiry :: "fields \<Rightarrow> fields" where
  "drop_expiry data = AList.delete (lit ''_expiresAt'') (AList.delete (lit ''_expiresat'') data)"

definition plugin_get :: "plugin \<Rightarrow> rat \<Rightarrow> memory_storage \<Rightarrow> ustring \<Rightarrow> fields option outcome" where
  "plugin_get P now s key =
     (case client_get_object (pl_codec P) (pl_client P) s (Some key) of
        (Inl e, s1) \<Rightarrow> (if is_missing_object_error e then Inr None else Inl (PluginStorageError e), s1)
      | (Inr response, s1) \<Rightarrow>
          (case read_stored_object_data P response False of
             Inl e \<Rightarrow> (Inl e, s1)
           | Inr None \<Rightarrow> (Inr None, s1)
           | Inr (Some data) \<Rightarrow>
               (case extract_expires_at data of
                  None \<Rightarrow> (Inr (Some data), s1)
                | Some t \<Rightarrow>
                    if t = 0 then (Inr (Some data), s1)
                    else if now > t then
                      and_then (plugin_delete P s1 key) (\<lambda>_ s2. (Inr None, s2))
                    else (Inr (Some (drop_expiry data)), s1))))"

definition plugin_is_expired :: "plugin \<Rightarrow> rat \<Rightarrow> memory_storage \<Rightarrow> ustring \<Rightarrow> bool outcome" where
  "plugin_is_expired P now s key =
     (case client_get_object (pl_codec P) (pl_client P) s (Some key) of
        (Inl e, s1) \<Rightarrow> (Inr True, s1)
      | (Inr response, s1) \<Rightarrow>
          (case read_stored_object_data P response True of
             Inl e \<Rightarrow> (Inl e, s1)
           | Inr None \<Rightarrow> (Inr True, s1)
           | Inr (Some data) \<Rightarrow>
               (Inr (case extract_expires_at data of None \<Rightarrow> False | Some t \<Rightarrow> now > t), s1)))"

text \<open>The remaining whole seconds.\<close>

definition plugin_get_ttl :: "plugin \<Rightarrow> rat \<Rightarrow> memory_storage \<Rightarrow> ustring \<Rightarrow> int option outcome" where
  "plugin_get_ttl P now s key =
     (case client_get_object (pl_codec P) (pl_client P) s (Some key) of
        (Inl e, s1) \<Rightarrow> (Inr None, s1)
      | (Inr response, s1) \<Rightarrow>
          (case read_stored_object_data P response True of
             Inl e \<Rightarrow> (Inl e, s1)
           | Inr None \<Rightarrow> (Inr None, s1)
           | Inr (Some data) \<Rightarrow>
               (Inr (case extract_expires_at data of
                       None \<Rightarrow> None
                     | Some t \<Rightarrow> if t = 0 then None else Some \<lfloor>max 0 (t - now) / 1000\<rfloor>), s1)))"

section \<open>Rewriting the metadata in place\<close>

text \<open>
  The metadata \<open>touch\<close> and \<open>increment\<close> hand to \<open>copyObject\<close> is encoded here and again by the client;
  \<open>None\<close> when the encoder throws.
\<close>

fun encode_again :: "plugin \<Rightarrow> fields \<Rightarrow> fields option" where
  "encode_again P [] = Some []"
| "encode_again P ((k, v) # es) =
     (case metadata_encode (cd_num_text (pl_codec P)) (cd_native_text (pl_codec P)) v of
        None \<Rightarrow> None
      | Some r \<Rightarrow>
          map_option (\<lambda>rest. (k, case er_encoded r of Some t \<Rightarrow> JString t | None \<Rightarrow> JUndefined) # rest)
            (encode_again P es))"

definition rewrite_metadata ::
    "plugin \<Rightarrow> memory_storage \<Rightarrow> ustring \<Rightarrow> fields \<Rightarrow> ustring \<Rightarrow> bool outcome" where
  "rewrite_metadata P s key parsedMetadata contentType =
     (case encode_again P parsedMetadata of
        None \<Rightarrow> (Inl PluginUriError, s)
      | Some encodedMetadata \<Rightarrow>
          (case client_copy_object (pl_platform P) (pl_codec P) (pl_client P) s
              \<lparr>cq_from = key, cq_to = key, cq_metadata = Some encodedMetadata,
               cq_directive = Some Replace,
               cq_content_type = Some (nullish (truthy (Some contentType)) (lit ''application/json''))\<rparr> of
             (Inl e, s1) \<Rightarrow> (Inr False, s1)
           | (Inr _, s1) \<Rightarrow> (Inr True, s1)))"

definition plugin_touch :: "plugin \<Rightarrow> memory_storage \<Rightarrow> ustring \<Rightarrow> rat \<Rightarrow> bool outcome" where
  "plugin_touch P s key additionalSeconds =
     (case client_head_object (pl_codec P) (pl_client P) s (Some key) of
        (Inl e, s1) \<Rightarrow> (if is_missing_object_error e then Inr False else Inl (PluginStorageError e), s1)
      | (Inr response, s1) \<Rightarrow>
          (case parse_metadata_values P [] (co_metadata response) of
             None \<Rightarrow> (Inl PluginTypeError, s1)
           | Some parsed \<Rightarrow>
               (case extract_expires_at parsed of
                  None \<Rightarrow> (Inr False, s1)
                | Some t \<Rightarrow>
                    rewrite_metadata P s1 key
                      (AList.delete (lit ''_expiresat'')
                        (obj_set (lit ''_expiresAt'') (JNumber (Num (t + additionalSeconds * 1000))) parsed))
                      (or_content_type (co_object response)))))"

text \<open>\<open>(x as number) || 0\<close>.\<close>

definition or_zero :: "js_value \<Rightarrow> js_value" where
  "or_zero v = (if js_truthy v then v else JNumber (Num 0))"

definition plugin_plus :: "plugin \<Rightarrow> js_value \<Rightarrow> rat \<Rightarrow> js_value" where
  "plugin_plus P v n = js_plus (cd_num_text (pl_codec P)) v (Num n)"

definition plugin_increment ::
    "plugin \<Rightarrow> rat \<Rightarrow> memory_storage \<Rightarrow> ustring \<Rightarrow> rat \<Rightarrow> set_options \<Rightarrow> js_value outcome" where
  "plugin_increment P now s key amount opts =
     (let fallback = (\<lambda>s. and_then (plugin_get P now s key) (\<lambda>data s2.
            let v = plugin_plus P
                  (or_zero (case data of None \<Rightarrow> JUndefined | Some es \<Rightarrow> prop_of es (lit ''value''))) amount
            in and_then (plugin_set P now s2 key [(lit ''value'', v)] opts) (\<lambda>_ s3. (Inr v, s3))))
      in case client_head_object (pl_codec P) (pl_client P) s (Some key) of
           (Inl _, s1) \<Rightarrow> fallback s1
         | (Inr response, s1) \<Rightarrow>
             (case parse_metadata_values P [] (co_metadata response) of
                None \<Rightarrow> (Inl PluginTypeError, s1)
              | Some parsed \<Rightarrow>
                  let newValue = plugin_plus P (or_zero (prop_of parsed (lit ''value''))) amount;
                      parsed1 = obj_set (lit ''value'') newValue parsed;
                      parsed2 = (case st_ttl opts of
                                   Some t \<Rightarrow> if t \<noteq> 0 then
                                       obj_set (lit ''_expiresAt'') (JNumber (Num (now + t * 1000))) parsed1
                                     else parsed1
                                 | None \<Rightarrow> parsed1)
                  in and_then (rewrite_metadata P s1 key parsed2 (or_content_type (co_object response)))
                       (\<lambda>ok s2. if ok then (Inr newValue, s2) else fallback s2)))"

definition plugin_decrement ::
    "plugin \<Rightarrow> rat \<Rightarrow> memory_storage \<Rightarrow> ustring \<Rightarrow> rat \<Rightarrow> set_options \<Rightarrow> js_value outcome" where
  "plugin_decrement P now s key amount opts = plugin_increment P now s key (- amount) opts"

section \<open>Versions and conditional writes\<close>

definition set_if_not_exists ::
    "plugin \<Rightarrow> rat \<Rightarrow> memory_storage \<Rightarrow> ustring \<Rightarrow> fields \<Rightarrow> set_options \<Rightarrow> ustring option outcome" where
  "set_if_not_exists P now s key data opts =
     (case plugin_set P now s key data (opts\<lparr>st_if_none_match := Some (lit ''*'')\<rparr>) of
        (Inl e, s1) \<Rightarrow> (if is_precondition_failure e then Inr None else Inl e, s1)
      | (Inr r, s1) \<Rightarrow> (Inr (Some (pr_etag r)), s1))"

definition get_with_version ::
    "plugin \<Rightarrow> rat \<Rightarrow> memory_storage \<Rightarrow> ustring \<Rightarrow> (fields \<times> ustring) option outcome" where
  "get_with_version P now s key =
     (case client_get_object (pl_codec P) (pl_client P) s (Some key) of
        (Inl e, s1) \<Rightarrow> (if is_missing_object_error e then Inr None else Inl (PluginStorageError e), s1)
      | (Inr response, s1) \<Rightarrow>
          (case read_stored_object_data P response False of
             Inl e \<Rightarrow> (Inl e, s1)
           | Inr None \<Rightarrow> (Inr None, s1)
           | Inr (Some data) \<Rightarrow>
               (case extract_expires_at data of
                  Some t \<Rightarrow>
                    if t \<noteq> 0 \<and> now > t then
                      and_then (plugin_delete P s1 key) (\<lambda>_ s2. (Inr None, s2))
                    else (Inr (Some (drop_expiry data, or_etag (co_object response))), s1)
                | None \<Rightarrow> (Inr (Some (drop_expiry data, or_etag (co_object response))), s1))))"

definition set_if_version ::
    "plugin \<Rightarrow> rat \<Rightarrow> memory_storage \<Rightarrow> ustring \<Rightarrow> fields \<Rightarrow> ustring \<Rightarrow> set_options
       \<Rightarrow> ustring option outcome" where
  "set_if_version P now s key data version opts =
     (case plugin_set P now s key data (opts\<lparr>st_if_match := Some version\<rparr>) of
        (Inl e, s1) \<Rightarrow> (if is_precondition_failure e then Inr None else Inl e, s1)
      | (Inr r, s1) \<Rightarrow> (Inr (Some (pr_etag r)), s1))"

definition delete_if_version ::
    "plugin \<Rightarrow> memory_storage \<Rightarrow> ustring \<Rightarrow> ustring \<Rightarrow> bool outcome" where
  "delete_if_version P s key version =
     (case client_head_object (pl_codec P) (pl_client P) s (Some key) of
        (Inl e, s1) \<Rightarrow> (if is_missing_object_error e then Inr False else Inl (PluginStorageError e), s1)
      | (Inr response, s1) \<Rightarrow>
          let current = normalize_etag_token (Some (or_etag (co_object response)));
              expected = normalize_etag_token (Some version)
          in if truthy current = None \<or> truthy expected = None \<or> current \<noteq> expected then (Inr False, s1)
             else (case client_delete_object (pl_platform P) (pl_client P) s1 (Some key) of
                     (Inl _, s2) \<Rightarrow> (Inr False, s2)
                   | (Inr _, s2) \<Rightarrow> (Inr True, s2)))"

section \<open>Listings and bulk operations\<close>

text \<open>
  \<open>key.replace(keyPrefix, '')\<close> takes out the first occurrence, wherever it is; the client has already
  taken the prefix off.
\<close>

definition remove_key_prefix :: "plugin \<Rightarrow> ustring list \<Rightarrow> ustring list" where
  "remove_key_prefix P keys =
     (let keyPrefix = mc_key_prefix (pl_client P)
      in if keyPrefix = [] then keys
         else map (\<lambda>k. if starts_with k (lit ''/'') then replace_first k (lit ''/'') [] else k)
                (map (\<lambda>k. replace_first k keyPrefix []) keys))"

definition list_keys_of :: "plugin \<Rightarrow> memory_storage \<Rightarrow> ustring \<Rightarrow> int option \<Rightarrow> plugin_error + ustring list" where
  "list_keys_of P s fullPrefix limit =
     (case client_list_objects (pl_client P) s (plain_list fullPrefix (nullish limit 1000) None) of
        Inl e \<Rightarrow> Inl (PluginStorageError e)
      | Inr r \<Rightarrow> Inr (remove_key_prefix P (map oi_key (lr_contents r))))"

definition plugin_list :: "plugin \<Rightarrow> memory_storage \<Rightarrow> ustring \<Rightarrow> int option \<Rightarrow> plugin_error + ustring list" where
  "plugin_list P s prefix limit = list_keys_of P s (lit ''plugin='' @ pl_slug P @ lit ''/'' @ prefix) limit"

definition list_for_resource ::
    "plugin \<Rightarrow> memory_storage \<Rightarrow> ustring \<Rightarrow> ustring \<Rightarrow> int option \<Rightarrow> plugin_error + ustring list" where
  "list_for_resource P s resourceName subPrefix limit =
     list_keys_of P s
       (lit ''resource='' @ resourceName @ lit ''/plugin='' @ pl_slug P @ lit ''/'' @ subPrefix) limit"

fun batch_set ::
    "plugin \<Rightarrow> rat \<Rightarrow> memory_storage \<Rightarrow> (ustring \<times> fields \<times> set_options) list
       \<Rightarrow> (ustring \<times> plugin_error option) list \<times> memory_storage" where
  "batch_set P now s [] = ([], s)"
| "batch_set P now s ((key, data, opts) # items) =
     (case plugin_set P now s key data opts of
        (r, s1) \<Rightarrow>
          (case batch_set P now s1 items of
             (rs, s2) \<Rightarrow> ((key, case r of Inl e \<Rightarrow> Some e | Inr _ \<Rightarrow> None) # rs, s2)))"

fun batch_get ::
    "plugin \<Rightarrow> rat \<Rightarrow> memory_storage \<Rightarrow> ustring list
       \<Rightarrow> (ustring \<times> (plugin_error + fields option)) list \<times> memory_storage" where
  "batch_get P now s [] = ([], s)"
| "batch_get P now s (key # keys) =
     (case plugin_get P now s key of
        (r, s1) \<Rightarrow> (case batch_get P now s1 keys of (rs, s2) \<Rightarrow> ((key, r) # rs, s2)))"

definition list_with_prefix ::
    "plugin \<Rightarrow> rat \<Rightarrow> memory_storage \<Rightarrow> ustring \<Rightarrow> int option \<Rightarrow> fields list outcome" where
  "list_with_prefix P now s prefix limit =
     (case plugin_list P s prefix limit of
        Inl e \<Rightarrow> (Inl e, s)
      | Inr keys \<Rightarrow>
          (case batch_get P now s keys of
             (rs, s1) \<Rightarrow>
               (Inr (List.map_filter (\<lambda>(_, r). case r of Inr (Some d) \<Rightarrow> Some d | _ \<Rightarrow> None) rs), s1)))"

definition plugin_has :: "plugin \<Rightarrow> rat \<Rightarrow> memory_storage \<Rightarrow> ustring \<Rightarrow> bool outcome" where
  "plugin_has P now s key = and_then (plugin_get P now s key) (\<lambda>data s1. (Inr (data \<noteq> None), s1))"

fun delete_each :: "plugin \<Rightarrow> memory_storage \<Rightarrow> ustring list \<Rightarrow> nat \<Rightarrow> nat outcome" where
  "delete_each P s [] deleted = (Inr deleted, s)"
| "delete_each P s (key # keys) deleted =
     and_then (plugin_delete P s key) (\<lambda>_ s1. delete_each P s1 keys (deleted + 1))"

definition plugin_delete_all :: "plugin \<Rightarrow> memory_storage \<Rightarrow> ustring option \<Rightarrow> nat outcome" where
  "plugin_delete_all P s resourceName =
     (case truthy resourceName of
        Some r \<Rightarrow>
          (case list_for_resource P s r [] None of
             Inl e \<Rightarrow> (Inl e, s)
           | Inr keys \<Rightarrow> delete_each P s keys 0)
      | None \<Rightarrow>
          (case get_all_keys (pl_client P) s [] of
             Inl e \<Rightarrow> (Inl (PluginStorageError e), s)
           | Inr allKeys \<Rightarrow>
               delete_each P s
                 (filter (\<lambda>k. index_of k (lit ''plugin='' @ pl_slug P @ lit ''/'') \<noteq> None) allKeys) 0))"

end
