(* ===== verification/Plugin_Sequences.thy ===== *)
theory Plugin_Sequences
  imports Plugin_Storage
begin

text \<open>
  The sequences of \<open>core/src/plugins/concerns/plugin-storage.ts\<close> and the lock payload helpers of
  \<open>core/src/concerns/distributed-lock.ts\<close> they use.

  A call runs alone: the gate that queues the calls of one process is transparent, and time passes
  only in \<open>sleep\<close>. A lock left by somebody else is waited for, or removed once it has expired. \<open>token\<close> is the
  random identifier of the call and \<open>rnd\<close> gives the random numbers of its backoffs.
\<close>

section \<open>Lock payloads\<close>

definition finite_number :: "js_value \<Rightarrow> bool" where
  "finite_number v = (case v of JNumber (Num _) \<Rightarrow> True | _ \<Rightarrow> False)"

definition is_valid_lock_payload :: "fields \<Rightarrow> bool" where
  "is_valid_lock_payload l \<longleftrightarrow>
     (case prop_of l (lit ''token'') of JString _ \<Rightarrow> True | _ \<Rightarrow> False) \<and>
     finite_number (prop_of l (lit ''acquiredAt'')) \<and>
     (map_of l (lit ''_expiresAt'') = None \<or> finite_number (prop_of l (lit ''_expiresAt'')))"

definition is_expired_lock_payload :: "fields \<Rightarrow> rat \<Rightarrow> bool" where
  "is_expired_lock_payload l now =
     (case map_of l (lit ''_expiresAt'') of
        Some (JNumber (Num t)) \<Rightarrow> now > t
      | Some (JNumber NegInf) \<Rightarrow> True
      | _ \<Rightarrow> False)"

text \<open>\<open>rnd\<close> is the random number in \<open>[0, 1)\<close>.\<close>

definition compute_backoff :: "nat \<Rightarrow> rat \<Rightarrow> rat \<Rightarrow> rat \<Rightarrow> rat" where
  "compute_backoff attempt baseDelay maxDelay rnd =
     (let exponential = min (baseDelay * 2 ^ (attempt - 1)) maxDelay;
          jitter = of_int \<lfloor>rnd * max (baseDelay / 2) 1\<rfloor>
      in exponential + jitter)"

section \<open>The sequence lock\<close>

definition lock_payload :: "ustring \<Rightarrow> rat \<Rightarrow> rat \<Rightarrow> fields" where
  "lock_payload token now ttl =
     [(lit ''token'', JString token), (lit ''acquiredAt'', JNumber (Num now)),
      (lit ''_expiresAt'', JNumber (Num (now + ttl * 1000)))]"

definition body_only_options :: set_options where
  "body_only_options = default_options\<lparr>st_behavior := BodyOnly\<rparr>"

definition lock_options :: set_options where
  "lock_options = body_only_options\<lparr>st_if_none_match := Some (lit ''*'')\<rparr>"

text \<open>\<open>tryFn(() => this.delete(key))\<close>: an error is dropped.\<close>

definition try_delete :: "plugin \<Rightarrow> memory_storage \<Rightarrow> ustring \<Rightarrow> memory_storage" where
  "try_delete P s key = snd (plugin_delete P s key)"

text \<open>The \<open>finally\<close> block: the lock is removed when it still carries the token or cannot be read.\<close>

definition release_sequence_lock ::
    "plugin \<Rightarrow> rat \<Rightarrow> ustring \<Rightarrow> ustring \<Rightarrow> memory_storage \<Rightarrow> memory_storage" where
  "release_sequence_lock P now lockKey token s =
     (case plugin_get P now s lockKey of
        (Inl _, s1) \<Rightarrow> try_delete P s1 lockKey
      | (Inr None, s1) \<Rightarrow> s1
      | (Inr (Some current), s1) \<Rightarrow>
          if prop_of current (lit ''token'') = JString token then try_delete P s1 lockKey else s1)"

partial_function (option) sequence_lock_loop ::
    "plugin \<Rightarrow> (nat \<Rightarrow> rat) \<Rightarrow> ustring \<Rightarrow> ustring \<Rightarrow> rat \<Rightarrow> rat \<Rightarrow> rat
       \<Rightarrow> (rat \<Rightarrow> memory_storage \<Rightarrow> 'a outcome) \<Rightarrow> rat \<Rightarrow> nat \<Rightarrow> memory_storage
       \<Rightarrow> 'a option outcome option" where
  "sequence_lock_loop P rnd lockKey token ttl timeout startTime callback now attempt s =
     (case plugin_set P now s lockKey (lock_payload token now ttl) lock_options of
        (Inr _, s1) \<Rightarrow>
          (case callback now s1 of
             (r, s2) \<Rightarrow>
               Some (case r of Inl e \<Rightarrow> Inl e | Inr x \<Rightarrow> Inr (Some x),
                     release_sequence_lock P now lockKey token s2))
      | (Inl e, s1) \<Rightarrow>
          if \<not> is_precondition_failure e then Some (Inl e, s1)
          else if now - startTime \<ge> timeout then Some (Inr None, s1)
          else
            (case plugin_get P now s1 lockKey of
               (Inl _, s2) \<Rightarrow>
                 sequence_lock_loop P rnd lockKey token ttl timeout startTime callback now attempt
                   (try_delete P s2 lockKey)
             | (Inr None, s2) \<Rightarrow>
                 sequence_lock_loop P rnd lockKey token ttl timeout startTime callback now attempt s2
             | (Inr (Some current), s2) \<Rightarrow>
                 if \<not> is_valid_lock_payload current \<or> is_expired_lock_payload current now then
                   sequence_lock_loop P rnd lockKey token ttl timeout startTime callback now attempt
                     (try_delete P s2 lockKey)
                 else
                   sequence_lock_loop P rnd lockKey token ttl timeout startTime callback
                     (now + compute_backoff (attempt + 1) 100 1000 (rnd (attempt + 1))) (attempt + 1) s2))"

definition with_sequence_lock ::
    "plugin \<Rightarrow> (nat \<Rightarrow> rat) \<Rightarrow> ustring \<Rightarrow> ustring \<Rightarrow> rat \<Rightarrow> rat \<Rightarrow> rat
       \<Rightarrow> (rat \<Rightarrow> memory_storage \<Rightarrow> 'a outcome) \<Rightarrow> memory_storage \<Rightarrow> 'a option outcome option" where
  "with_sequence_lock P rnd lockKey token ttl timeout now callback s =
     sequence_lock_loop P rnd lockKey token ttl timeout now callback now 0 s"

section \<open>Sequences\<close>

record sequence_options =
  sq_resource_name :: "ustring option"
  sq_initial_value :: rat
  sq_increment :: rat
  sq_lock_timeout :: rat
  sq_lock_ttl :: rat

definition default_sequence :: sequence_options where
  "default_sequence =
     \<lparr>sq_resource_name = None, sq_initial_value = 1, sq_increment = 1, sq_lock_timeout = 5000,
      sq_lock_ttl = 10\<rparr>"

definition resource_value :: "ustring option \<Rightarrow> js_value" where
  "resource_value r = (case r of None \<Rightarrow> JNull | Some n \<Rightarrow> JString n)"

definition next_in_sequence ::
    "plugin \<Rightarrow> ustring \<Rightarrow> sequence_options \<Rightarrow> rat \<Rightarrow> memory_storage \<Rightarrow> js_value outcome" where
  "next_in_sequence P name opts now s =
     (let valueKey = get_sequence_key P (sq_resource_name opts) name (lit ''value'')
      in and_then (plugin_get P now s valueKey) (\<lambda>data s1.
           case data of
             None \<Rightarrow>
               and_then (plugin_set P now s1 valueKey
                   [(lit ''value'', JNumber (Num (sq_initial_value opts + sq_increment opts))),
                    (lit ''name'', JString name),
                    (lit ''resourceName'', resource_value (sq_resource_name opts)),
                    (lit ''createdAt'', JString (pl_iso P now))] body_only_options)
                 (\<lambda>_ s2. (Inr (JNumber (Num (sq_initial_value opts))), s2))
           | Some es \<Rightarrow>
               let currentValue = prop_of es (lit ''value'')
               in and_then (plugin_set P now s1 valueKey
                    (obj_set (lit ''updatedAt'') (JString (pl_iso P now))
                      (obj_set (lit ''value'') (plugin_plus P currentValue (sq_increment opts)) es))
                    body_only_options)
                  (\<lambda>_ s2. (Inr currentValue, s2))))"

text \<open>The result of a locked section: not getting the lock in time is an error.\<close>

definition require_lock :: "'a option outcome \<Rightarrow> 'a outcome" where
  "require_lock r =
     (case r of
        (Inl e, s) \<Rightarrow> (Inl e, s)
      | (Inr None, s) \<Rightarrow> (Inl SequenceLockError, s)
      | (Inr (Some x), s) \<Rightarrow> (Inr x, s))"

definition next_sequence ::
    "plugin \<Rightarrow> (nat \<Rightarrow> rat) \<Rightarrow> ustring \<Rightarrow> rat \<Rightarrow> memory_storage \<Rightarrow> ustring \<Rightarrow> sequence_options
       \<Rightarrow> js_value outcome option" where
  "next_sequence P rnd token now s name opts =
     map_option require_lock
       (with_sequence_lock P rnd (get_sequence_key P (sq_resource_name opts) name (lit ''lock'')) token
          (sq_lock_ttl opts) (sq_lock_timeout opts) now (next_in_sequence P name opts) s)"

definition get_sequence ::
    "plugin \<Rightarrow> rat \<Rightarrow> memory_storage \<Rightarrow> ustring \<Rightarrow> ustring option \<Rightarrow> js_value outcome" where
  "get_sequence P now s name resourceName =
     and_then (plugin_get P now s (get_sequence_key P resourceName name (lit ''value'')))
       (\<lambda>data s1.
         let v = (case data of None \<Rightarrow> JUndefined | Some es \<Rightarrow> prop_of es (lit ''value''))
         in (Inr (if v = JUndefined then JNull else v), s1))"

definition reset_in_sequence ::
    "plugin \<Rightarrow> ustring \<Rightarrow> js_value \<Rightarrow> sequence_options \<Rightarrow> rat \<Rightarrow> memory_storage \<Rightarrow> bool outcome" where
  "reset_in_sequence P name v opts now s =
     (let valueKey = get_sequence_key P (sq_resource_name opts) name (lit ''value'')
      in and_then (plugin_get P now s valueKey) (\<lambda>data s1.
           let created = (case data of None \<Rightarrow> JUndefined | Some es \<Rightarrow> prop_of es (lit ''createdAt''))
           in and_then (plugin_set P now s1 valueKey
                [(lit ''value'', v), (lit ''name'', JString name),
                 (lit ''resourceName'', resource_value (sq_resource_name opts)),
                 (lit ''createdAt'', if js_truthy created then created else JString (pl_iso P now)),
                 (lit ''updatedAt'', JString (pl_iso P now)),
                 (lit ''resetAt'', JString (pl_iso P now))] body_only_options)
              (\<lambda>_ s2. (Inr True, s2))))"

definition reset_sequence ::
    "plugin \<Rightarrow> (nat \<Rightarrow> rat) \<Rightarrow> ustring \<Rightarrow> rat \<Rightarrow> memory_storage \<Rightarrow> ustring \<Rightarrow> js_value \<Rightarrow> sequence_options
       \<Rightarrow> bool outcome option" where
  "reset_sequence P rnd token now s name v opts =
     map_option require_lock
       (with_sequence_lock P rnd (get_sequence_key P (sq_resource_name opts) name (lit ''lock'')) token
          (sq_lock_ttl opts) (sq_lock_timeout opts) now (reset_in_sequence P name v opts) s)"

definition delete_sequence ::
    "plugin \<Rightarrow> memory_storage \<Rightarrow> ustring \<Rightarrow> ustring option \<Rightarrow> unit outcome" where
  "delete_sequence P s name resourceName =
     and_then (plugin_delete P s (get_sequence_key P resourceName name (lit ''value'')))
       (\<lambda>_ s1. (Inr (), try_delete P s1 (get_sequence_key P resourceName name (lit ''lock''))))"

fun read_sequences :: "plugin \<Rightarrow> rat \<Rightarrow> memory_storage \<Rightarrow> ustring list \<Rightarrow> fields list outcome" where
  "read_sequences P now s [] = (Inr [], s)"
| "read_sequences P now s (key # keys) =
     and_then (plugin_get P now s key) (\<lambda>data s1.
       and_then (read_sequences P now s1 keys) (\<lambda>rest s2.
         (Inr (case data of None \<Rightarrow> rest | Some es \<Rightarrow> es # rest), s2)))"

definition list_sequences ::
    "plugin \<Rightarrow> rat \<Rightarrow> memory_storage \<Rightarrow> ustring option \<Rightarrow> fields list outcome" where
  "list_sequences P now s resourceName =
     (let prefix = (case truthy resourceName of
            Some r \<Rightarrow> lit ''resource='' @ r @ lit ''/plugin='' @ pl_slug P @ lit ''/sequence=''
          | None \<Rightarrow> lit ''plugin='' @ pl_slug P @ lit ''/sequence='')
      in case client_list_objects (pl_client P) s (plain_list prefix 1000 None) of
           Inl _ \<Rightarrow> (Inr [], s)
         | Inr r \<Rightarrow>
             read_sequences P now s
               (filter (\<lambda>k. ends_with k (lit ''/value'')) (map oi_key (lr_contents r))))"

end
