(* ===== verification/Plugin_Storage_Props.thy ===== *)
theory Plugin_Storage_Props
  imports Plugin_Sequences Memory_Storage_Props "HOL-Library.Code_Target_Nat"
begin

text \<open>
  The properties of the plugin store: reads after writes with expiry, the exactness of versioned
  writes, and where the code loses or changes data.
\<close>

section \<open>Reading a body back\<close>

text \<open>
  What JSON has to do for one record: its text is not blank, is well-formed UTF-16 and parses to the
  same entries, which are in enumeration order.
\<close>

definition reads_back :: "json \<Rightarrow> fields \<Rightarrow> bool" where
  "reads_back J es \<longleftrightarrow> trim (stringify J (JObject es)) \<noteq> [] \<and> well_formed (stringify J (JObject es)) \<and>
     parse J (stringify J (JObject es)) = Some (JObject es) \<and> obj_of es = es"

lemma plugin_set_client:
  "plugin_set P now s key data opts = (Inr r, s') \<Longrightarrow>
     \<exists>md body. apply_behavior P (with_expiry now (st_ttl opts) data) (st_behavior opts) = Inr (md, body) \<and>
       client_put_object (pl_platform P) (pl_codec P) (pl_client P) s
         \<lparr>po_key = Some key, po_metadata = Some md, po_content_type = Some (st_content_type opts),
          po_body = (case body of None \<Rightarrow> NoBody | Some b \<Rightarrow> Text (stringify (pl_json P) (JObject b))),
          po_content_encoding = None, po_content_length = None,
          po_if_match = st_if_match opts, po_if_none_match = st_if_none_match opts\<rparr> = (Inr r, s')"
  by (auto simp: plugin_set_def wrap_error_def split: sum.splits prod.splits)

text \<open>The parameters of the stored object a successful write ends in.\<close>

definition stored_params :: "plugin \<Rightarrow> set_options \<Rightarrow> metadata \<Rightarrow> fields option \<Rightarrow> put_params" where
  "stored_params P opts md body =
     \<lparr>pp_body = (case body of None \<Rightarrow> NoBody | Some b \<Rightarrow> Text (stringify (pl_json P) (JObject b))),
      pp_metadata = Some md, pp_content_type = Some (st_content_type opts), pp_content_encoding = None,
      pp_content_length = None, pp_if_match = st_if_match opts, pp_if_none_match = st_if_none_match opts\<rparr>"

lemma plugin_set_storage:
  assumes "plugin_set P now s key data opts = (Inr r, s')"
  shows "\<exists>fs body md. apply_behavior P (with_expiry now (st_ttl opts) data) (st_behavior opts) = Inr (fs, body) \<and>
    encode_entries (pl_codec P) fs [] = Inr md \<and>
    storage_put (pf_md5 (pl_platform P)) (pf_write_file (pl_platform P)) (pf_now (pl_platform P)) s
      (apply_key_prefix (pl_client P) (Some key)) (stored_params P opts md body) = (Inr r, s')"
proof -
  from plugin_set_client [OF assms] obtain fs body where ab:
    "apply_behavior P (with_expiry now (st_ttl opts) data) (st_behavior opts) = Inr (fs, body)"
    and put: "client_put_object (pl_platform P) (pl_codec P) (pl_client P) s
         \<lparr>po_key = Some key, po_metadata = Some fs, po_content_type = Some (st_content_type opts),
          po_body = (case body of None \<Rightarrow> NoBody | Some b \<Rightarrow> Text (stringify (pl_json P) (JObject b))),
          po_content_encoding = None, po_content_length = None,
          po_if_match = st_if_match opts, po_if_none_match = st_if_none_match opts\<rparr> = (Inr r, s')"
    by blast
  from put show ?thesis
    using ab
    by (auto simp: client_put_object_def encode_metadata_def lift_error_def nullish_def stored_params_def
        split: sum.splits prod.splits)
qed

lemma storage_get_client:
  "fst (storage_get s (apply_key_prefix c key)) = Inr r \<Longrightarrow>
     client_get_object C c s key =
       (Inr (decode_metadata_response C r), snd (storage_get s (apply_key_prefix c key)))"
  by (auto simp: client_get_object_def split: prod.splits)

lemma body_only_read:
  assumes "storage_inv (pf_md5 (pl_platform P)) s" "st_behavior opts = BodyOnly"
    "plugin_set P now s key data opts = (Inr r, s')"
    "reads_back (pl_json P) (with_expiry now (st_ttl opts) data)"
  shows "\<exists>ob. client_get_object (pl_codec P) (pl_client P) s' (Some key) =
      (Inr ob, snd (storage_get s' (apply_key_prefix (pl_client P) (Some key)))) \<and>
    or_etag (co_object ob) = pr_etag r \<and>
    read_stored_object_data P ob mode = Inr (Some (with_expiry now (st_ttl opts) data))"
proof -
  let ?d = "with_expiry now (st_ttl opts) data"
  have ab: "apply_behavior P ?d (st_behavior opts) = Inr ([], Some ?d)"
    using assms(2) by (simp add: apply_behavior_def)
  from plugin_set_storage [OF assms(3)] ab
  have put: "storage_put (pf_md5 (pl_platform P)) (pf_write_file (pl_platform P)) (pf_now (pl_platform P)) s
      (apply_key_prefix (pl_client P) (Some key)) (stored_params P opts [] (Some ?d)) = (Inr r, s')"
    by auto
  let ?r = "object_response_of True
    (new_object (pf_md5 (pl_platform P)) (pf_now (pl_platform P)) (stored_params P opts [] (Some ?d)))"
  let ?ob = "decode_metadata_response (pl_codec P) ?r"
  from put_get [OF assms(1) put] have get:
    "client_get_object (pl_codec P) (pl_client P) s' (Some key) =
       (Inr ?ob, snd (storage_get s' (apply_key_prefix (pl_client P) (Some key))))"
    "or_etag (co_object ?ob) = pr_etag r"
    by (simp_all add: storage_get_client decode_metadata_response_def)
  have "or_metadata ?r = []" "or_body ?r = Some (utf8_encode (stringify (pl_json P) (JObject ?d)))"
    by (simp_all add: object_response_of_def new_object_def stored_params_def nullish_def Let_def)
  then have "co_metadata ?ob = []"
    "or_body (co_object ?ob) = Some (utf8_encode (stringify (pl_json P) (JObject ?d)))"
    by (simp_all add: decode_metadata_response_def)
  then have "read_stored_object_data P ?ob mode = Inr (Some ?d)"
    using assms(4)
    by (simp add: read_stored_object_data_def reads_back_def utf8_roundtrip merge_fields_def Let_def)
  with get show ?thesis by blast
qed

text \<open>Writing the expiry into a record and taking it out again.\<close>

lemma expiry_keys:
  "index_key (lit ''_expiresAt'') = None" "lit ''_expiresat'' \<noteq> lit ''_expiresAt''"
  by (simp_all add: index_key_def is_digit_def)

definition no_expiry_keys :: "fields \<Rightarrow> bool" where
  "no_expiry_keys data \<longleftrightarrow> lit ''_expiresAt'' \<notin> fst ` set data \<and> lit ''_expiresat'' \<notin> fst ` set data"

lemma drop_expiry_none: "no_expiry_keys data \<Longrightarrow> drop_expiry data = data"
  by (simp add: no_expiry_keys_def drop_expiry_def delete_idem')

lemma with_expiry_cases:
  "no_expiry_keys data \<Longrightarrow>
     with_expiry now ttl data =
       (case ttl of
          Some t \<Rightarrow> if t > 0 then data @ [(lit ''_expiresAt'', JNumber (Num (now + t * 1000)))] else data
        | None \<Rightarrow> data)"
  by (simp add: with_expiry_def obj_set_def expiry_keys no_expiry_keys_def update_fresh
      split: option.split del: lit_Cons)

lemma extract_none: "no_expiry_keys data \<Longrightarrow> extract_expires_at data = None"
  by (simp add: no_expiry_keys_def extract_expires_at_def prop_of_def map_of_eq_None_iff' [THEN iffD2] Let_def
      del: lit_Cons)

lemma extract_with_expiry:
  assumes "no_expiry_keys data"
  shows "extract_expires_at (data @ [(lit ''_expiresAt'', JNumber (Num t))]) = Some t"
    "drop_expiry (data @ [(lit ''_expiresAt'', JNumber (Num t))]) = data"
proof -
  have "map_of data (lit ''_expiresAt'') = None" "map_of data (lit ''_expiresat'') = None"
    using assms by (simp_all add: no_expiry_keys_def map_of_eq_None_iff')
  then show "extract_expires_at (data @ [(lit ''_expiresAt'', JNumber (Num t))]) = Some t"
    using expiry_keys(2)
    by (simp add: extract_expires_at_def prop_of_def map_add_def Let_def del: lit_Cons)
  have "AList.delete k (data @ [(lit ''_expiresAt'', v)]) =
      (if k = lit ''_expiresAt'' then data else data @ [(lit ''_expiresAt'', v)])"
    if "k \<notin> fst ` set data" for k and v :: js_value
    using that by (induction data) (auto simp del: lit_Cons)
  with assms expiry_keys(2) show "drop_expiry (data @ [(lit ''_expiresAt'', JNumber (Num t))]) = data"
    by (simp add: drop_expiry_def no_expiry_keys_def del: lit_Cons)
qed

lemma plugin_get_eq:
  assumes "client_get_object (pl_codec P) (pl_client P) s (Some key) = (Inr ob, s1)"
    "read_stored_object_data P ob False = Inr (Some data)"
  shows "plugin_get P now s key =
    (case extract_expires_at data of
       None \<Rightarrow> (Inr (Some data), s1)
     | Some t \<Rightarrow>
         if t = 0 then (Inr (Some data), s1)
         else if now > t then and_then (plugin_delete P s1 key) (\<lambda>_ s2. (Inr None, s2))
         else (Inr (Some (drop_expiry data)), s1))"
  using assms by (simp add: plugin_get_def)

lemma and_then_None: "fst (and_then r (\<lambda>_ s. (Inr None, s))) \<noteq> Inr (Some d)"
  by (auto simp: and_then_def split: sum.splits prod.splits)

section \<open>Conditional writes\<close>

lemma storage_put_outcome:
  "case storage_put md5 write_file now s key p of
     (Inl e, s') \<Rightarrow>
       (case e of
          PreconditionFailed _ \<Rightarrow> s' = s \<and>
            (if_match_fails (stored s key) (pp_if_match p) \<or>
             if_none_match_fails (stored s key) (pp_if_none_match p))
        | _ \<Rightarrow> True)
   | (Inr r, s') \<Rightarrow>
       \<not> if_match_fails (stored s key) (pp_if_match p) \<and>
       \<not> if_none_match_fails (stored s key) (pp_if_none_match p) \<and>
       (distinct_keys (ms_objects s) \<longrightarrow>
          stored s' key = Some (new_object md5 now p) \<and>
          pr_etag r = format_etag (so_etag (new_object md5 now p)))"
proof (cases "put_checks s key p")
  case (Some e)
  then show ?thesis
    by (auto simp: storage_put_rejected put_checks_def validate_limits_def
        split: option.splits storage_error.splits if_splits)
next
  case None
  have ok: "\<not> if_match_fails (stored s key) (pp_if_match p)"
    "\<not> if_none_match_fails (stored s key) (pp_if_none_match p)"
    using None by (auto simp: put_checks_def split: option.splits if_splits)
  have "stored (put_after md5 now s key p) key = Some (new_object md5 now p)"
    if "distinct_keys (ms_objects s)"
    using put_after_state [OF that, of md5 now key p] by (auto simp: stored_put_state)
  moreover have "\<forall>k. fst (storage_put md5 write_file now s key p) \<noteq> Inl (PreconditionFailed k)"
    using None by (auto simp: storage_put_eq persisted_def save_to_disk_def split: option.splits sum.splits)
  ultimately show ?thesis
    using ok None storage_put_accepted [OF None, of md5 write_file now]
      storage_put_Inr [of md5 write_file now s key p]
    by (auto split: prod.splits sum.splits storage_error.splits)
qed

lemma enforce_no_precondition:
  "enforce_entries P n md es = Inl e \<Longrightarrow> \<not> is_precondition_failure e"
  by (induction P n md es rule: enforce_entries.induct)
    (auto simp: is_precondition_failure_def split: option.splits if_splits)

lemma encode_entries_error: "encode_entries C es md = Inl e \<Longrightarrow> e = UriError"
  by (induction C es md rule: encode_entries.induct) (auto split: option.splits)

lemma plugin_set_outcome:
  "(\<exists>e. plugin_set P now s key data opts = (Inl e, s) \<and> \<not> is_precondition_failure e) \<or>
   (\<exists>md body. plugin_set P now s key data opts =
      (case storage_put (pf_md5 (pl_platform P)) (pf_write_file (pl_platform P)) (pf_now (pl_platform P)) s
              (apply_key_prefix (pl_client P) (Some key)) (stored_params P opts md body) of
         (Inl e, s') \<Rightarrow> (Inl (PluginStorageError (StorageError e)), s')
       | (Inr r, s') \<Rightarrow> (Inr r, s')))"
proof (cases "apply_behavior P (with_expiry now (st_ttl opts) data) (st_behavior opts)")
  case (Inl e)
  then have "\<not> is_precondition_failure e"
    by (auto simp: apply_behavior_def is_precondition_failure_def Let_def
        split: plugin_behavior.splits if_splits sum.splits dest: enforce_no_precondition)
  with Inl show ?thesis by (simp add: plugin_set_def)
next
  case (Inr x)
  obtain fs body where x: "x = (fs, body)" by (cases x)
  show ?thesis
  proof (cases "encode_entries (pl_codec P) fs []")
    case (Inl e)
    then have "e = UriError" by (rule encode_entries_error)
    with Inl Inr x show ?thesis
      by (simp add: plugin_set_def client_put_object_def encode_metadata_def wrap_error_def
          is_precondition_failure_def)
  next
    case (Inr md)
    with \<open>apply_behavior P _ _ = Inr x\<close> x show ?thesis
      by (intro disjI2 exI [of _ md] exI [of _ body])
        (auto simp: plugin_set_def client_put_object_def encode_metadata_def wrap_error_def nullish_def
          lift_error_def stored_params_def split: prod.splits sum.splits)
  qed
qed

lemma plugin_set_inv:
  assumes "storage_inv (pf_md5 (pl_platform P)) s"
  shows "storage_inv (pf_md5 (pl_platform P)) (snd (plugin_set P now s key data opts))"
  using plugin_set_outcome [of P now s key data opts]
proof (elim disjE exE conjE)
  fix md body
  let ?put = "storage_put (pf_md5 (pl_platform P)) (pf_write_file (pl_platform P)) (pf_now (pl_platform P)) s
    (apply_key_prefix (pl_client P) (Some key)) (stored_params P opts md body)"
  assume "plugin_set P now s key data opts = (case ?put of
      (Inl e, s') \<Rightarrow> (Inl (PluginStorageError (StorageError e)), s') | (Inr r, s') \<Rightarrow> (Inr r, s'))"
  then have "snd (plugin_set P now s key data opts) = snd ?put"
    by (simp split: prod.splits sum.splits)
  with put_inv [OF assms] show ?thesis by simp
qed (use assms in simp)

lemma conditional_set_outcome:
  fixes key :: ustring and opts :: set_options
  assumes "storage_inv (pf_md5 (pl_platform P)) s"
  defines "k \<equiv> apply_key_prefix (pl_client P) (Some key)"
  shows "case plugin_set P now s key data opts of
     (Inl e, s') \<Rightarrow> is_precondition_failure e \<longrightarrow> s' = s \<and>
       (if_match_fails (stored s k) (st_if_match opts) \<or>
        if_none_match_fails (stored s k) (st_if_none_match opts))
   | (Inr r, s') \<Rightarrow>
       \<not> if_match_fails (stored s k) (st_if_match opts) \<and>
       \<not> if_none_match_fails (stored s k) (st_if_none_match opts) \<and>
       map_option (format_etag \<circ> so_etag) (stored s' k) = Some (pr_etag r)"
proof -
  from plugin_set_outcome [of P now s key data opts] show ?thesis
  proof (elim disjE exE conjE)
    fix e assume "plugin_set P now s key data opts = (Inl e, s)" "\<not> is_precondition_failure e"
    then show ?thesis by simp
  next
    fix md body
    let ?p = "stored_params P opts md body"
    let ?put = "storage_put (pf_md5 (pl_platform P)) (pf_write_file (pl_platform P))
        (pf_now (pl_platform P)) s k ?p"
    assume put: "plugin_set P now s key data opts =
      (case storage_put (pf_md5 (pl_platform P)) (pf_write_file (pl_platform P)) (pf_now (pl_platform P)) s
              (apply_key_prefix (pl_client P) (Some key)) ?p of
         (Inl e, s') \<Rightarrow> (Inl (PluginStorageError (StorageError e)), s')
       | (Inr r, s') \<Rightarrow> (Inr r, s'))"
    have params: "pp_if_match ?p = st_if_match opts" "pp_if_none_match ?p = st_if_none_match opts"
      by (simp_all add: stored_params_def)
    note out = storage_put_outcome [where ?md5.0 = "pf_md5 (pl_platform P)" and s = s and key = k and
        write_file = "pf_write_file (pl_platform P)" and now = "pf_now (pl_platform P)" and p = ?p,
        unfolded params]
    have dist: "distinct_keys (ms_objects s)" using assms(1) by (rule storage_inv_distinct)
    show ?thesis
    proof (cases "fst ?put")
      case (Inl e)
      with out put show ?thesis
        by (auto simp: k_def [symmetric] is_precondition_failure_def split: prod.splits storage_error.splits)
    next
      case (Inr r)
      with out put dist show ?thesis by (auto simp: k_def [symmetric] split: prod.splits)
    qed
  qed
qed

section \<open>A plugin to run\<close>

definition demo_number :: "js_number \<Rightarrow> ustring" where
  "demo_number n =
     nullish (map_of [(Num 1, lit ''1''), (Num 2, lit ''2''), (Num 3, lit ''3''), (Num 5, lit ''5'')] n)
       (lit ''NaN'')"

definition demo_read :: "ustring \<Rightarrow> js_number" where
  "demo_read t = (if t \<noteq> [] \<and> list_all is_digit t then Num (of_nat (digits_value t)) else NaN)"

definition demo_texts :: "(js_value \<times> ustring) list" where
  "demo_texts =
     [(JNull, lit ''null''),
      (JArray [JNumber (Num 1), JNumber (Num 2)], lit ''[1,2]''),
      (JObject [(lit ''value'', JNumber (Num 5))], lit ''{\"value\":5}''),
      (JObject [(lit ''v'', JString (lit ''x'')), (lit ''_expiresAt'', JNumber (Num 61000))],
       lit ''{\"v\":\"x\",\"_expiresAt\":61000}'')]"

definition demo_json :: json where
  "demo_json =
     \<lparr>num_text = demo_number,
      stringify = (\<lambda>v. nullish (map_of demo_texts v) (lit ''{}'')),
      parse = (\<lambda>t. map_of (map (\<lambda>(v, t). (t, v)) demo_texts) t)\<rparr>"

definition demo_md5 :: "bytes \<Rightarrow> ustring" where
  "demo_md5 b = replicate (Suc (length b)) 97"

definition demo_plugin :: "ustring \<Rightarrow> plugin" where
  "demo_plugin prefix =
     \<lparr>pl_client = \<lparr>mc_bucket = lit ''s3db'', mc_key_prefix = prefix, mc_concurrency = 5, mc_store = 0\<rparr>,
      pl_platform = \<lparr>pf_md5 = demo_md5, pf_write_file = no_write, pf_now = []\<rparr>,
      pl_codec = \<lparr>cd_num_text = demo_number, cd_native_text = (\<lambda>n. n), cd_inflate = (\<lambda>_. None)\<rparr>,
      pl_json = demo_json, pl_number = demo_read, pl_iso = (\<lambda>_. []), pl_slug = lit ''cache''\<rparr>"

definition demo_store :: memory_storage where
  "demo_store = new_storage
     \<lparr>sc_bucket = None, sc_enforce_limits = False, sc_metadata_limit = None, sc_max_object_size = None,
      sc_persist_path = None, sc_auto_persist = False, sc_max_memory_mb = None,
      sc_eviction_enabled = None\<rparr>"

definition demo_set :: "plugin \<Rightarrow> memory_storage \<Rightarrow> ustring \<Rightarrow> fields \<Rightarrow> memory_storage" where
  "demo_set P s k d = snd (plugin_set P 1000 s k d default_options)"

lemma demo_store_inv: "storage_inv demo_md5 demo_store"
  by (simp add: demo_store_def new_storage_def storage_inv_def Let_def)

section \<open>Properties\<close>

text \<open>
  C14: A body-only record is read back until it expires. After a successful write of a record (with or
  without a time to live, at a positive clock reading), a later get returns exactly the record, and
  once the time to live is over it never returns it.
\<close>
theorem plugin_record_roundtrip:
  assumes "storage_inv (pf_md5 (pl_platform P)) s" "st_behavior opts = BodyOnly" "no_expiry_keys data"
    "reads_back (pl_json P) (with_expiry now (st_ttl opts) data)" "0 < now"
    "plugin_set P now s key data opts = (Inr r, s')"
  shows "if \<exists>t. st_ttl opts = Some t \<and> t > 0 \<and> later > now + t * 1000
    then \<forall>d. fst (plugin_get P later s' key) \<noteq> Inr (Some d)
    else fst (plugin_get P later s' key) = Inr (Some data)"
proof -
  from body_only_read [OF assms(1,2,6,4)] obtain ob where
    "client_get_object (pl_codec P) (pl_client P) s' (Some key) =
       (Inr ob, snd (storage_get s' (apply_key_prefix (pl_client P) (Some key))))"
    "read_stored_object_data P ob False = Inr (Some (with_expiry now (st_ttl opts) data))" by blast
  note get = plugin_get_eq [OF this, of later]
  show ?thesis
  proof (cases "\<exists>t. st_ttl opts = Some t \<and> t > 0")
    case True
    then obtain t where t: "st_ttl opts = Some t" "t > 0" by blast
    with assms(5) have "now + t * 1000 > 0" by (simp add: add_pos_pos)
    with t assms(3) get show ?thesis
      by (simp add: with_expiry_cases extract_with_expiry and_then_None del: lit_Cons)
  next
    case False
    then have "with_expiry now (st_ttl opts) data = data"
      by (auto simp: with_expiry_def split: option.splits)
    with False assms(3) get show ?thesis by (auto simp: extract_none simp del: lit_Cons)
  qed
qed

lemma plugin_record_roundtrip_witness:
  "(let P = demo_plugin (lit ''app'');
        s' = snd (plugin_set P 1000 demo_store (lit ''k'') [(lit ''v'', JString (lit ''x''))]
               (body_only_options\<lparr>st_ttl := Some 60\<rparr>))
    in fst (plugin_get P 61000 s' (lit ''k'')) = Inr (Some [(lit ''v'', JString (lit ''x''))]) \<and>
       fst (plugin_get P 61001 s' (lit ''k'')) \<noteq> Inr (Some [(lit ''v'', JString (lit ''x''))]))"
proof -
  let ?P = "demo_plugin (lit ''app'')" and ?d = "[(lit ''v'', JString (lit ''x''))]"
  let ?o = "body_only_options\<lparr>st_ttl := Some 60\<rparr>"
  let ?put = "plugin_set ?P 1000 demo_store (lit ''k'') ?d ?o"
  have inv: "storage_inv (pf_md5 (pl_platform ?P)) demo_store"
    by (simp add: demo_plugin_def demo_store_inv)
  have opts: "st_behavior ?o = BodyOnly" "st_ttl ?o = Some 60"
    by (simp_all add: body_only_options_def)
  have keys: "no_expiry_keys ?d" by (simp add: no_expiry_keys_def)
  have json: "reads_back (pl_json ?P) (with_expiry 1000 (st_ttl ?o) ?d)"
    unfolding reads_back_def by (intro conjI; code_simp)
  have "case fst ?put of Inl _ \<Rightarrow> False | Inr _ \<Rightarrow> True" by code_simp
  then obtain r where "fst ?put = Inr r" by (cases "fst ?put") simp_all
  then have "?put = (Inr r, snd ?put)" by (metis prod.collapse)
  note round = plugin_record_roundtrip [OF inv opts(1) keys json _ this, unfolded opts]
  from round [of 61000] round [of 61001] show ?thesis by (simp add: Let_def)
qed



text \<open>
  Where plugin records are not kept. A null value is written and makes every later read throw; a
  string of digits is read back as a number and a key in capitals under its lower-case name; two
  conditional writes against one version both succeed when the records fit in the metadata, which
  the ETag does not cover; a key prefix that occurs in the keys is cut out of listings a second time;
  \<open>touch\<close> flattens an array to a string; and \<open>increment\<close> on a body-only counter reports a value that
  is not stored.
\<close>
theorem plugin_storage_defects:
  "(let P = demo_plugin []; k = lit ''k'';
        num = (\<lambda>i. JNumber (Num i))
    in fst (plugin_get P 1000 (demo_set P demo_store k [(lit ''a'', JNull)]) k) = Inl PluginTypeError \<and>
       fst (plugin_get P 1000 (demo_set P demo_store k
              [(lit ''zip'', JString (lit ''007'')), (lit ''userName'', JString (lit ''x''))]) k)
         = Inr (Some [(lit ''zip'', num 7), (lit ''username'', JString (lit ''x''))]) \<and>
       (let s1 = demo_set P demo_store k [(lit ''v'', num 1)];
            v = format_etag (demo_md5 []);
            r2 = set_if_version P 1000 s1 k [(lit ''v'', num 2)] v default_options;
            r3 = set_if_version P 1000 (snd r2) k [(lit ''v'', num 3)] v default_options
        in fst (get_with_version P 1000 s1 k) = Inr (Some ([(lit ''v'', num 1)], v)) \<and>
           fst r2 = Inr (Some v) \<and> fst r3 = Inr (Some v)) \<and>
       (let Q = demo_plugin (lit ''a'')
        in plugin_list Q (demo_set Q demo_store (lit ''plugin=cache/b'') [(lit ''v'', num 1)]) [] None
             = Inr [lit ''plugin=cche/b'']) \<and>
       (let s1 = demo_set P demo_store k
                   [(lit ''t'', JArray [num 1, num 2]), (lit ''_expiresAt'', num 5)]
        in fst (plugin_get P 1 s1 k) = Inr (Some [(lit ''t'', JArray [num 1, num 2])]) \<and>
           fst (plugin_get P 1 (snd (plugin_touch P s1 k 0)) k)
             = Inr (Some [(lit ''t'', JString (lit ''1,2''))])) \<and>
       (let s1 = snd (plugin_set P 1000 demo_store k [(lit ''value'', num 5)] body_only_options);
            r = plugin_increment P 1000 s1 k 1 default_options
        in fst r = Inr (num 1) \<and>
           fst (plugin_get P 1000 (snd r) k) = Inr (Some [(lit ''value'', num 5)])))"
  unfolding Let_def by (intro conjI; code_simp)

end
