(* ===== verification/Storage_Locks.thy ===== *)
theory Storage_Locks
  imports Prelude
begin

text \<open>
  The locks kept in the store, as protocols of processes that run interleaved: the lock of
  \<open>core/src/concerns/distributed-lock.ts\<close> over the plugin store, and the mutex of
  \<open>core/src/plugins/concerns/storage-mutex.class.ts\<close>. One lock key is followed. A step is what a
  process does between two awaits, with at most one access to the store; the clock moves between
  steps. Lock tokens are drawn fresh; times are in milliseconds.
\<close>

section \<open>Leases\<close>

text \<open>
  The contract of both: whoever believes to hold an unexpired lock finds its identifier in the cell,
  and identifiers are never shared. One holder at a time follows.
\<close>

locale lease =
  fixes reachable :: "'w \<Rightarrow> bool"
    and holds :: "'w \<Rightarrow> nat \<Rightarrow> 'i option"
    and cell_id :: "'w \<Rightarrow> 'i option"
  assumes holder_in_cell: "reachable w \<Longrightarrow> holds w p = Some i \<Longrightarrow> cell_id w = Some i"
    and holder_unique: "reachable w \<Longrightarrow> holds w p = Some i \<Longrightarrow> holds w q = Some i \<Longrightarrow> p = q"
begin

lemma mutual_exclusion:
  "reachable w \<Longrightarrow> holds w p \<noteq> None \<Longrightarrow> holds w q \<noteq> None \<Longrightarrow> p = q"
  using holder_in_cell holder_unique by (metis not_None_eq option.inject)

end

text \<open>Fresh identifiers: below the counter, and no two processes have the same.\<close>

definition ids_ok :: "(nat \<Rightarrow> nat option) \<Rightarrow> nat \<Rightarrow> bool" where
  "ids_ok own fresh \<longleftrightarrow> (\<forall>p i. own p = Some i \<longrightarrow> i < fresh) \<and>
     (\<forall>p q i. own p = Some i \<longrightarrow> own q = Some i \<longrightarrow> p = q)"

lemma ids_ok_less: "ids_ok own fresh \<Longrightarrow> own p = Some i \<Longrightarrow> i < fresh"
  by (simp add: ids_ok_def)

lemma ids_ok_inj: "ids_ok own fresh \<Longrightarrow> own p = Some i \<Longrightarrow> own q = Some i \<Longrightarrow> p = q"
  by (simp add: ids_ok_def)

text \<open>A process keeps its identifier, drops it, or draws the next one.\<close>

lemma ids_ok_update:
  assumes "ids_ok own fresh"
    and "new = own p \<and> fresh' = fresh \<or> new = None \<and> fresh' = fresh \<or> new = Some fresh \<and> fresh' = fresh + 1"
  shows "ids_ok (own(p := new)) fresh'"
  using assms(2)
proof (elim disjE conjE)
  assume "new = Some fresh" "fresh' = fresh + 1"
  with assms(1) show ?thesis unfolding ids_ok_def by (auto simp: less_Suc_eq)
qed (use assms(1) in \<open>auto simp: ids_ok_def\<close>)

section \<open>DistributedLock\<close>

record lock_cell =
  lc_token :: nat
  lc_expires :: rat

text \<open>
  Where a process is: not using the lock; with a payload to put; refused by a present object and about
  to read it; with an expired lock it has read and is about to delete (in \<open>acquire\<close> or in
  \<open>release\<close>); holding; about to read in \<open>release\<close>; about to delete the lock it has recognised as its
  own.
\<close>

datatype lock_pc =
    Idle
  | Putting nat rat
  | Refused nat
  | Evicting nat lock_cell
  | Holding nat rat
  | Releasing nat
  | Discarding lock_cell
  | Removing nat lock_cell

record lock_world =
  lw_cell :: "lock_cell option"
  lw_clock :: rat
  lw_fresh :: nat
  lw_pc :: "nat \<Rightarrow> lock_pc"

definition lock_start :: lock_world where
  "lock_start = \<lparr>lw_cell = None, lw_clock = 0, lw_fresh = 0, lw_pc = (\<lambda>_. Idle)\<rparr>"

datatype lock_action = Acquire | PutLock | GiveUp | ReadLock | DeleteLock | Release | ReadOwn
  | Inspect | Wait rat

text \<open>
  \<open>acquire\<close>: a payload with the expiry \<open>ttl\<close> ahead; the conditional put; when refused, giving up or
  reading. A missing lock and a live one (after a sleep) lead to the next put, an expired one is
  deleted first by the plugin store's \<open>get\<close>.
\<close>

definition acquire_step :: "rat \<Rightarrow> lock_world \<Rightarrow> nat \<Rightarrow> lock_action \<Rightarrow> lock_world option" where
  "acquire_step ttl w p a =
     (let payload = (\<lambda>t. Putting t (lw_clock w + ttl)) in
      case (lw_pc w p, a) of
        (Idle, Acquire) \<Rightarrow>
          Some (w\<lparr>lw_pc := (lw_pc w)(p := payload (lw_fresh w)), lw_fresh := lw_fresh w + 1\<rparr>)
      | (Putting t e, PutLock) \<Rightarrow>
          (case lw_cell w of
             None \<Rightarrow> Some (w\<lparr>lw_cell := Some \<lparr>lc_token = t, lc_expires = e\<rparr>,
                             lw_pc := (lw_pc w)(p := Holding t e)\<rparr>)
           | Some _ \<Rightarrow> Some (w\<lparr>lw_pc := (lw_pc w)(p := Refused t)\<rparr>))
      | (Refused t, GiveUp) \<Rightarrow> Some (w\<lparr>lw_pc := (lw_pc w)(p := Idle)\<rparr>)
      | (Refused t, ReadLock) \<Rightarrow>
          (case lw_cell w of
             None \<Rightarrow> Some (w\<lparr>lw_pc := (lw_pc w)(p := payload t)\<rparr>)
           | Some c \<Rightarrow>
               if lw_clock w > lc_expires c then Some (w\<lparr>lw_pc := (lw_pc w)(p := Evicting t c)\<rparr>)
               else Some (w\<lparr>lw_pc := (lw_pc w)(p := payload t)\<rparr>))
      | (Evicting t c, DeleteLock) \<Rightarrow>
          Some (w\<lparr>lw_cell := None, lw_pc := (lw_pc w)(p := payload t)\<rparr>)
      | _ \<Rightarrow> None)"

text \<open>\<open>release\<close>: read, and delete when the token is the own one.\<close>

definition release_step :: "lock_world \<Rightarrow> nat \<Rightarrow> lock_action \<Rightarrow> lock_world option" where
  "release_step w p a =
     (case (lw_pc w p, a) of
        (Holding t e, Release) \<Rightarrow> Some (w\<lparr>lw_pc := (lw_pc w)(p := Releasing t)\<rparr>)
      | (Releasing t, ReadOwn) \<Rightarrow>
          (case lw_cell w of
             None \<Rightarrow> Some (w\<lparr>lw_pc := (lw_pc w)(p := Idle)\<rparr>)
           | Some c \<Rightarrow>
               if lw_clock w > lc_expires c then Some (w\<lparr>lw_pc := (lw_pc w)(p := Discarding c)\<rparr>)
               else if lc_token c \<noteq> t then Some (w\<lparr>lw_pc := (lw_pc w)(p := Idle)\<rparr>)
               else Some (w\<lparr>lw_pc := (lw_pc w)(p := Removing t c)\<rparr>))
      | (Discarding c, DeleteLock) \<Rightarrow> Some (w\<lparr>lw_cell := None, lw_pc := (lw_pc w)(p := Idle)\<rparr>)
      | (Removing t c, DeleteLock) \<Rightarrow> Some (w\<lparr>lw_cell := None, lw_pc := (lw_pc w)(p := Idle)\<rparr>)
      | _ \<Rightarrow> None)"

text \<open>\<open>isLocked\<close> and \<open>getLockInfo\<close>: a read, which finds an expired lock or changes nothing.\<close>

definition inspect_step :: "lock_world \<Rightarrow> nat \<Rightarrow> lock_action \<Rightarrow> lock_world option" where
  "inspect_step w p a =
     (case (lw_pc w p, a, lw_cell w) of
        (Idle, Inspect, Some c) \<Rightarrow>
          if lw_clock w > lc_expires c then Some (w\<lparr>lw_pc := (lw_pc w)(p := Discarding c)\<rparr>) else Some w
      | (Idle, Inspect, None) \<Rightarrow> Some w
      | _ \<Rightarrow> None)"

definition lock_step :: "rat \<Rightarrow> lock_world \<Rightarrow> nat \<times> lock_action \<Rightarrow> lock_world option" where
  "lock_step ttl w pa =
     (case pa of
        (p, Wait d) \<Rightarrow> if d \<ge> 0 then Some (w\<lparr>lw_clock := lw_clock w + d\<rparr>) else None
      | (p, a) \<Rightarrow>
          (case acquire_step ttl w p a of
             Some w' \<Rightarrow> Some w'
           | None \<Rightarrow> (case release_step w p a of Some w' \<Rightarrow> Some w' | None \<Rightarrow> inspect_step w p a)))"

text \<open>
  A delete is prompt when the cell is still what the process read, or already empty. The store has
  no conditional delete, so nothing in the code ensures it.
\<close>

definition prompt :: "lock_world \<Rightarrow> nat \<times> lock_action \<Rightarrow> bool" where
  "prompt w pa \<longleftrightarrow>
     (snd pa = DeleteLock \<longrightarrow>
        (case lw_pc w (fst pa) of
           Evicting _ c \<Rightarrow> lw_cell w \<in> {None, Some c}
         | Discarding c \<Rightarrow> lw_cell w \<in> {None, Some c}
         | Removing _ c \<Rightarrow> lw_cell w \<in> {None, Some c}
         | _ \<Rightarrow> True))"

text \<open>The worlds the processes can reach; with \<open>careful\<close>, by prompt deletes only.\<close>

inductive lock_reaches :: "rat \<Rightarrow> bool \<Rightarrow> lock_world \<Rightarrow> bool" for ttl careful where
  lock_init: "lock_reaches ttl careful lock_start"
| lock_next: "lock_reaches ttl careful w \<Longrightarrow> careful \<longrightarrow> prompt w pa \<Longrightarrow> lock_step ttl w pa = Some w' \<Longrightarrow>
     lock_reaches ttl careful w'"

text \<open>A process holds the lock while it has it and its lease is not over.\<close>

definition lock_holds :: "lock_world \<Rightarrow> nat \<Rightarrow> nat option" where
  "lock_holds w p =
     (case lw_pc w p of Holding t e \<Rightarrow> if lw_clock w \<le> e then Some t else None | _ \<Rightarrow> None)"

section \<open>Its invariant\<close>

fun pc_token :: "lock_pc \<Rightarrow> nat option" where
  "pc_token Idle = None"
| "pc_token (Putting t e) = Some t"
| "pc_token (Refused t) = Some t"
| "pc_token (Evicting t c) = Some t"
| "pc_token (Holding t e) = Some t"
| "pc_token (Releasing t) = Some t"
| "pc_token (Discarding c) = None"
| "pc_token (Removing t c) = Some t"

fun pc_ok :: "rat \<Rightarrow> lock_cell option \<Rightarrow> lock_pc \<Rightarrow> bool" where
  "pc_ok clock cell (Holding t e) \<longleftrightarrow> clock \<le> e \<longrightarrow> cell = Some \<lparr>lc_token = t, lc_expires = e\<rparr>"
| "pc_ok clock cell (Evicting t c) \<longleftrightarrow> lc_expires c < clock"
| "pc_ok clock cell (Discarding c) \<longleftrightarrow> lc_expires c < clock"
| "pc_ok clock cell (Removing t c) \<longleftrightarrow> lc_token c = t"
| "pc_ok clock cell pc \<longleftrightarrow> True"

definition lock_inv :: "lock_world \<Rightarrow> bool" where
  "lock_inv w \<longleftrightarrow>
     (\<forall>p. pc_ok (lw_clock w) (lw_cell w) (lw_pc w p)) \<and>
     ids_ok (\<lambda>p. pc_token (lw_pc w p)) (lw_fresh w)"

lemma lock_start_inv: "lock_inv lock_start"
  by (simp add: lock_inv_def lock_start_def ids_ok_def)

lemma pc_ok_later: "pc_ok clock cell pc \<Longrightarrow> clock \<le> clock' \<Longrightarrow> pc_ok clock' cell pc"
  by (cases pc) auto

text \<open>A process moves on with its token, a fresh one or none; the others keep their places.\<close>

lemma lock_inv_move:
  assumes inv: "lock_inv w"
    and moved: "lw_pc w' = (lw_pc w)(p := pc)" "lw_clock w' = lw_clock w"
    and ids: "pc_token pc = pc_token (lw_pc w p) \<and> lw_fresh w' = lw_fresh w \<or>
      pc_token pc = None \<and> lw_fresh w' = lw_fresh w \<or>
      pc_token pc = Some (lw_fresh w) \<and> lw_fresh w' = lw_fresh w + 1"
    and ok: "pc_ok (lw_clock w) (lw_cell w') pc"
    and others: "\<And>q. q \<noteq> p \<Longrightarrow> pc_ok (lw_clock w) (lw_cell w) (lw_pc w q) \<Longrightarrow>
        pc_ok (lw_clock w) (lw_cell w') (lw_pc w q)"
  shows "lock_inv w'"
proof -
  have "pc_ok (lw_clock w') (lw_cell w') (lw_pc w' q)" for q
    using inv ok others [of q] moved by (cases "q = p") (auto simp: lock_inv_def)
  moreover have "(\<lambda>q. pc_token (lw_pc w' q)) = (\<lambda>q. pc_token (lw_pc w q))(p := pc_token pc)"
    using moved by auto
  moreover have "ids_ok ((\<lambda>q. pc_token (lw_pc w q))(p := pc_token pc)) (lw_fresh w')"
    using inv ids by (intro ids_ok_update [of _ "lw_fresh w"]) (auto simp: lock_inv_def)
  ultimately show ?thesis by (simp add: lock_inv_def)
qed

lemma acquire_step_inv:
  assumes inv: "lock_inv w" and prompt: "prompt w (p, a)" and step: "acquire_step ttl w p a = Some w'"
  shows "lock_inv w'"
proof -
  have ok: "pc_ok (lw_clock w) (lw_cell w) (lw_pc w q)" for q
    using inv by (simp add: lock_inv_def)
  show ?thesis
  proof (cases "lw_pc w p")
    case Idle
    with step show ?thesis
      by (intro lock_inv_move [where p = p and pc = "Putting (lw_fresh w) (lw_clock w + ttl)", OF inv])
        (auto simp: acquire_step_def split: lock_action.splits)
  next
    case (Putting t e)
    show ?thesis
    proof (cases "lw_cell w")
      case None
      have others: "pc_ok (lw_clock w) (Some \<lparr>lc_token = t, lc_expires = e\<rparr>) (lw_pc w q)" if "q \<noteq> p" for q
        using ok [of q] None by (cases "lw_pc w q") auto
      from None Putting step others show ?thesis
        by (intro lock_inv_move [where p = p and pc = "Holding t e", OF inv])
          (auto simp: acquire_step_def split: lock_action.splits)
    next
      case (Some c)
      with Putting step show ?thesis
        by (intro lock_inv_move [where p = p and pc = "Refused t", OF inv])
          (auto simp: acquire_step_def split: lock_action.splits)
    qed
  next
    case (Refused t)
    with step show ?thesis
      by (intro lock_inv_move [where p = p and pc = "lw_pc w' p", OF inv])
        (auto simp: acquire_step_def split: lock_action.splits option.splits if_splits)
  next
    case (Evicting t c)
    have "pc_ok (lw_clock w) None (lw_pc w q)" for q
      using ok [of q] ok [of p] prompt Evicting step
      by (cases "lw_pc w q") (auto simp: prompt_def acquire_step_def split: lock_action.splits)
    with Evicting step show ?thesis
      by (intro lock_inv_move [where p = p and pc = "Putting t (lw_clock w + ttl)", OF inv])
        (auto simp: acquire_step_def split: lock_action.splits)
  qed (use step in \<open>auto simp: acquire_step_def\<close>)
qed

lemma release_step_inv:
  assumes inv: "lock_inv w" and prompt: "prompt w (p, a)" and step: "release_step w p a = Some w'"
  shows "lock_inv w'"
proof -
  have ok: "pc_ok (lw_clock w) (lw_cell w) (lw_pc w q)" for q
    using inv by (simp add: lock_inv_def)
  have same: "q = p" if "pc_token (lw_pc w p) = Some t" "pc_token (lw_pc w q) = Some t" for q t
    using inv that ids_ok_inj [of "\<lambda>p. pc_token (lw_pc w p)"] unfolding lock_inv_def by blast
  show ?thesis
  proof (cases "lw_pc w p")
    case (Holding t e)
    with step show ?thesis
      by (intro lock_inv_move [where p = p and pc = "Releasing t", OF inv])
        (auto simp: release_step_def split: lock_action.splits)
  next
    case (Releasing t)
    with step show ?thesis
      by (intro lock_inv_move [where p = p and pc = "lw_pc w' p", OF inv])
        (auto simp: release_step_def split: lock_action.splits option.splits if_splits)
  next
    case (Discarding c)
    have "pc_ok (lw_clock w) None (lw_pc w q)" for q
      using ok [of q] ok [of p] prompt Discarding step
      by (cases "lw_pc w q") (auto simp: prompt_def release_step_def split: lock_action.splits)
    with Discarding step show ?thesis
      by (intro lock_inv_move [where p = p and pc = Idle, OF inv])
        (auto simp: release_step_def split: lock_action.splits)
  next
    case (Removing t c)
    have "pc_ok (lw_clock w) None (lw_pc w q)" if "q \<noteq> p" for q
      using ok [of q] ok [of p] prompt Removing step same [of t q] that
      by (cases "lw_pc w q") (auto simp: prompt_def release_step_def split: lock_action.splits)
    with Removing step show ?thesis
      by (intro lock_inv_move [where p = p and pc = Idle, OF inv])
        (auto simp: release_step_def split: lock_action.splits)
  qed (use step in \<open>auto simp: release_step_def\<close>)
qed

lemma inspect_step_inv:
  assumes inv: "lock_inv w" and step: "inspect_step w p a = Some w'"
  shows "lock_inv w'"
proof (cases "w' = w")
  case False
  with step obtain c where c: "lw_pc w p = Idle" "lc_expires c < lw_clock w"
    "w' = w\<lparr>lw_pc := (lw_pc w)(p := Discarding c)\<rparr>"
    by (auto simp: inspect_step_def split: lock_pc.splits lock_action.splits option.splits if_splits)
  then show ?thesis
    by (intro lock_inv_move [where p = p and pc = "Discarding c", OF inv]) simp_all
qed (use inv in simp)

lemma lock_step_inv:
  assumes "lock_inv w" "prompt w pa" "lock_step ttl w pa = Some w'"
  shows "lock_inv w'"
proof -
  obtain p a where pa: "pa = (p, a)" by (cases pa)
  show ?thesis
  proof (cases "\<exists>d. a = Wait d")
    case True
    then obtain d where "0 \<le> d" "w' = w\<lparr>lw_clock := lw_clock w + d\<rparr>"
      using assms(3) pa by (auto simp: lock_step_def split: if_splits)
    with assms(1) show ?thesis by (auto simp: lock_inv_def intro: pc_ok_later)
  next
    case False
    with assms(3) pa have "acquire_step ttl w p a = Some w' \<or> release_step w p a = Some w' \<or>
        inspect_step w p a = Some w'"
      by (auto simp: lock_step_def split: lock_action.splits option.splits)
    with assms(1,2) pa acquire_step_inv release_step_inv inspect_step_inv show ?thesis by blast
  qed
qed

lemma lock_reaches_inv: "lock_reaches ttl True w \<Longrightarrow> lock_inv w"
  by (induction rule: lock_reaches.induct) (auto simp: lock_start_inv intro: lock_step_inv)

lemma lock_holds_Some:
  "lock_holds w p = Some t \<longleftrightarrow> (\<exists>e. lw_pc w p = Holding t e \<and> lw_clock w \<le> e)"
  by (auto simp: lock_holds_def split: lock_pc.splits)

interpretation distributed_lock:
  lease "lock_reaches ttl True" lock_holds "\<lambda>w. map_option lc_token (lw_cell w)" for ttl
proof unfold_locales
  fix w p t assume "lock_reaches ttl True w" "lock_holds w p = Some t"
  then obtain e where "lw_pc w p = Holding t e" "lw_clock w \<le> e" "lock_inv w"
    by (auto simp: lock_holds_Some dest: lock_reaches_inv)
  then show "map_option lc_token (lw_cell w) = Some t"
    unfolding lock_inv_def by (metis lock_cell.select_convs(1) option.simps(9) pc_ok.simps(1))
next
  fix w p q t
  assume "lock_reaches ttl True w" "lock_holds w p = Some t" "lock_holds w q = Some t"
  then have "lock_inv w" "pc_token (lw_pc w p) = Some t" "pc_token (lw_pc w q) = Some t"
    by (auto simp: lock_holds_Some dest: lock_reaches_inv)
  then show "p = q"
    using ids_ok_inj [of "\<lambda>p. pc_token (lw_pc w p)"] unfolding lock_inv_def by blast
qed

end
