(* ===== verification/Storage_Mutex.thy ===== *)
theory Storage_Mutex
  imports Storage_Locks
begin

text \<open>
  \<open>core/src/plugins/concerns/storage-mutex.class.ts\<close>: a mutex on the conditional operations of the
  plugin store (\<open>setIfNotExists\<close>, \<open>getWithVersion\<close>, \<open>setIfVersion\<close>, \<open>deleteIfVersion\<close>). One mutex key
  is followed; a step does at most one access to the store. The version of an object is its
  content: the ETag is a hash of the body, and bodies of different locks differ in their lock id.
\<close>

section \<open>State\<close>

text \<open>
  The stored lock, with the expiry of the object itself (\<open>ttl\<close>, at least a minute after the lease),
  after which a read removes it.
\<close>

record mutex_cell =
  mx_lock_id :: nat
  mx_expires :: rat
  mx_ttl :: rat

definition lease_cell :: "nat \<Rightarrow> rat \<Rightarrow> rat \<Rightarrow> rat \<Rightarrow> mutex_cell" where
  "lease_cell i now ttlMs clock =
     \<lparr>mx_lock_id = i, mx_expires = now + ttlMs, mx_ttl = clock + (of_int \<lceil>ttlMs / 1000\<rceil> + 60) * 1000\<rparr>"

text \<open>
  The places of \<open>tryLock\<close>: about to put, about to read, about to remove an object past its ttl, about to
  take an expired lease over. Of \<open>unlock\<close>: about to read, to compare the version, to delete. Of
  \<open>extend\<close>: about to read and to write the longer lease.
\<close>

datatype mutex_pc =
    MIdle
  | MPutting nat rat rat
  | MReading nat rat rat
  | MTaking mutex_cell mutex_cell
  | MHolding nat rat
  | MUnlockReading nat
  | MUnlockChecking nat mutex_cell
  | MUnlockDeleting nat mutex_cell
  | MDiscarding mutex_cell mutex_pc
  | MExtendReading nat rat rat
  | MExtending nat rat mutex_cell mutex_cell

record mutex_world =
  mw_cell :: "mutex_cell option"
  mw_clock :: rat
  mw_fresh :: nat
  mw_pc :: "nat \<Rightarrow> mutex_pc"

definition mutex_start :: mutex_world where
  "mutex_start = \<lparr>mw_cell = None, mw_clock = 0, mw_fresh = 0, mw_pc = (\<lambda>_. MIdle)\<rparr>"

datatype mutex_action =
    TryLock rat | MPut | MRead | MTake | MDelete | Unlock | MCompare | Extend rat | MWrite | MInspect
  | MWait rat

abbreviation goto :: "mutex_world \<Rightarrow> nat \<Rightarrow> mutex_pc \<Rightarrow> mutex_world option" where
  "goto w p pc \<equiv> Some (w\<lparr>mw_pc := (mw_pc w)(p := pc)\<rparr>)"

section \<open>Operations\<close>

text \<open>
  \<open>getWithVersion\<close>: nothing, an object past its ttl (deleted in a step of its own, then nothing), or
  the object, with which \<open>found\<close> goes on.
\<close>

definition read_version ::
    "mutex_world \<Rightarrow> nat \<Rightarrow> mutex_pc \<Rightarrow> (mutex_cell \<Rightarrow> mutex_pc) \<Rightarrow> mutex_world option" where
  "read_version w p absent found =
     (case mw_cell w of
        None \<Rightarrow> goto w p absent
      | Some c \<Rightarrow>
          if mw_clock w > mx_ttl c then goto w p (MDiscarding c absent) else goto w p (found c))"

text \<open>
  \<open>tryLock\<close>: the lease is computed once at the start; the conditional put; when the object exists,
  its version is read and an expired lease is taken over against that version. Lease lengths are not
  negative.
\<close>

definition try_lock_step :: "mutex_world \<Rightarrow> nat \<Rightarrow> mutex_action \<Rightarrow> mutex_world option" where
  "try_lock_step w p a =
     (case (mw_pc w p, a) of
        (MIdle, TryLock ttlMs) \<Rightarrow>
          if ttlMs < 0 then None
          else Some (w\<lparr>mw_pc := (mw_pc w)(p := MPutting (mw_fresh w) (mw_clock w) ttlMs),
                       mw_fresh := mw_fresh w + 1\<rparr>)
      | (MPutting i now ttlMs, MPut) \<Rightarrow>
          (case mw_cell w of
             None \<Rightarrow> Some (w\<lparr>mw_cell := Some (lease_cell i now ttlMs now),
                             mw_pc := (mw_pc w)(p := MHolding i (now + ttlMs))\<rparr>)
           | Some _ \<Rightarrow> goto w p (MReading i now ttlMs))
      | (MReading i now ttlMs, MRead) \<Rightarrow>
          read_version w p MIdle
            (\<lambda>c. if mx_expires c \<le> now then MTaking (lease_cell i now ttlMs (mw_clock w)) c else MIdle)
      | (MTaking new c, MTake) \<Rightarrow>
          if mw_cell w = Some c then
            Some (w\<lparr>mw_cell := Some new,
                    mw_pc := (mw_pc w)(p := MHolding (mx_lock_id new) (mx_expires new))\<rparr>)
          else goto w p MIdle
      | _ \<Rightarrow> None)"

text \<open>
  \<open>unlock\<close>: read; with the own lock id, \<open>deleteIfVersion\<close>, which compares the version in one request
  and deletes in another.
\<close>

definition unlock_step :: "mutex_world \<Rightarrow> nat \<Rightarrow> mutex_action \<Rightarrow> mutex_world option" where
  "unlock_step w p a =
     (case (mw_pc w p, a) of
        (MHolding i e, Unlock) \<Rightarrow> goto w p (MUnlockReading i)
      | (MUnlockReading i, MRead) \<Rightarrow>
          read_version w p MIdle (\<lambda>c. if mx_lock_id c \<noteq> i then MIdle else MUnlockChecking i c)
      | (MUnlockChecking i c, MCompare) \<Rightarrow>
          if mw_cell w = Some c then goto w p (MUnlockDeleting i c) else goto w p MIdle
      | (MUnlockDeleting i c, MDelete) \<Rightarrow>
          Some (w\<lparr>mw_cell := None, mw_pc := (mw_pc w)(p := MIdle)\<rparr>)
      | (MDiscarding c pc, MDelete) \<Rightarrow>
          Some (w\<lparr>mw_cell := None, mw_pc := (mw_pc w)(p := pc)\<rparr>)
      | _ \<Rightarrow> None)"

text \<open>
  \<open>extend\<close>: read; with the own, unexpired lease, write a longer one against that version. A failed
  extension leaves the holder with the lease it had.
\<close>

definition extend_step :: "mutex_world \<Rightarrow> nat \<Rightarrow> mutex_action \<Rightarrow> mutex_world option" where
  "extend_step w p a =
     (case (mw_pc w p, a) of
        (MHolding i e, Extend ttlMs) \<Rightarrow>
          if ttlMs \<le> 0 then Some w else goto w p (MExtendReading i e ttlMs)
      | (MExtendReading i e ttlMs, MRead) \<Rightarrow>
          read_version w p (MHolding i e)
            (\<lambda>c. if mx_lock_id c \<noteq> i \<or> mx_expires c \<le> mw_clock w then MHolding i e
                 else MExtending i e (lease_cell i (mw_clock w) ttlMs (mw_clock w)) c)
      | (MExtending i e new c, MWrite) \<Rightarrow>
          if mw_cell w = Some c then
            Some (w\<lparr>mw_cell := Some new, mw_pc := (mw_pc w)(p := MHolding i (mx_expires new))\<rparr>)
          else goto w p (MHolding i e)
      | _ \<Rightarrow> None)"

text \<open>
  \<open>isLocked\<close> and \<open>getLockInfo\<close>: a read, which removes an object past its ttl and otherwise changes
  nothing. The call is made by a process of its own, also when a holder makes it.
\<close>

definition mutex_inspect_step :: "mutex_world \<Rightarrow> nat \<Rightarrow> mutex_action \<Rightarrow> mutex_world option" where
  "mutex_inspect_step w p a =
     (case (mw_pc w p, a) of
        (MIdle, MInspect) \<Rightarrow> read_version w p MIdle (\<lambda>c. MIdle)
      | _ \<Rightarrow> None)"

definition mutex_step :: "mutex_world \<Rightarrow> nat \<times> mutex_action \<Rightarrow> mutex_world option" where
  "mutex_step w pa =
     (case pa of
        (p, MWait d) \<Rightarrow> if d \<ge> 0 then Some (w\<lparr>mw_clock := mw_clock w + d\<rparr>) else None
      | (p, a) \<Rightarrow>
          (case try_lock_step w p a of
             Some w' \<Rightarrow> Some w'
           | None \<Rightarrow>
               (case unlock_step w p a of
                  Some w' \<Rightarrow> Some w'
                | None \<Rightarrow>
                    (case extend_step w p a of Some w' \<Rightarrow> Some w' | None \<Rightarrow> mutex_inspect_step w p a))))"

definition mutex_prompt :: "mutex_world \<Rightarrow> nat \<times> mutex_action \<Rightarrow> bool" where
  "mutex_prompt w pa \<longleftrightarrow>
     (snd pa = MDelete \<longrightarrow>
        (case mw_pc w (fst pa) of
           MUnlockDeleting _ c \<Rightarrow> mw_cell w \<in> {None, Some c}
         | MDiscarding c _ \<Rightarrow> mw_cell w \<in> {None, Some c}
         | _ \<Rightarrow> True))"

inductive mutex_reaches :: "bool \<Rightarrow> mutex_world \<Rightarrow> bool" for careful where
  mutex_init: "mutex_reaches careful mutex_start"
| mutex_next: "mutex_reaches careful w \<Longrightarrow> careful \<longrightarrow> mutex_prompt w pa \<Longrightarrow> mutex_step w pa = Some w' \<Longrightarrow>
     mutex_reaches careful w'"

text \<open>The lease a process relies on, also while it is extending it.\<close>

fun pc_lease :: "mutex_pc \<Rightarrow> (nat \<times> rat) option" where
  "pc_lease (MHolding i e) = Some (i, e)"
| "pc_lease (MExtendReading i e ttlMs) = Some (i, e)"
| "pc_lease (MExtending i e new c) = Some (i, e)"
| "pc_lease (MDiscarding c pc) = pc_lease pc"
| "pc_lease _ = None"

definition mutex_holds :: "mutex_world \<Rightarrow> nat \<Rightarrow> nat option" where
  "mutex_holds w p =
     (case pc_lease (mw_pc w p) of
        Some (i, e) \<Rightarrow> if mw_clock w < e then Some i else None
      | None \<Rightarrow> None)"

section \<open>The invariant\<close>

fun mpc_id :: "mutex_pc \<Rightarrow> nat option" where
  "mpc_id MIdle = None"
| "mpc_id (MPutting i now ttlMs) = Some i"
| "mpc_id (MReading i now ttlMs) = Some i"
| "mpc_id (MTaking new c) = Some (mx_lock_id new)"
| "mpc_id (MHolding i e) = Some i"
| "mpc_id (MUnlockReading i) = Some i"
| "mpc_id (MUnlockChecking i c) = Some i"
| "mpc_id (MUnlockDeleting i c) = Some i"
| "mpc_id (MDiscarding c pc) = mpc_id pc"
| "mpc_id (MExtendReading i e ttlMs) = Some i"
| "mpc_id (MExtending i e new c) = Some i"

definition outlives :: "mutex_cell \<Rightarrow> bool" where
  "outlives c \<longleftrightarrow> mx_expires c \<le> mx_ttl c"

fun mpc_ok :: "rat \<Rightarrow> mutex_pc \<Rightarrow> bool" where
  "mpc_ok clock (MPutting i now ttlMs) \<longleftrightarrow> now \<le> clock"
| "mpc_ok clock (MReading i now ttlMs) \<longleftrightarrow> now \<le> clock"
| "mpc_ok clock (MTaking new c) \<longleftrightarrow> mx_expires c \<le> clock \<and> outlives new"
| "mpc_ok clock (MUnlockChecking i c) \<longleftrightarrow> mx_lock_id c = i"
| "mpc_ok clock (MUnlockDeleting i c) \<longleftrightarrow> mx_lock_id c = i"
| "mpc_ok clock (MDiscarding c pc) \<longleftrightarrow> mx_expires c < clock \<and> (pc = MIdle \<or> (\<exists>i e. pc = MHolding i e))"
| "mpc_ok clock (MExtending i e new c) \<longleftrightarrow> mx_lock_id c = i \<and> mx_lock_id new = i \<and> outlives new"
| "mpc_ok clock pc \<longleftrightarrow> True"

definition lease_ok :: "rat \<Rightarrow> mutex_cell option \<Rightarrow> mutex_pc \<Rightarrow> bool" where
  "lease_ok clock cell pc \<longleftrightarrow>
     (\<forall>i e. pc_lease pc = Some (i, e) \<longrightarrow> clock < e \<longrightarrow>
        (\<exists>c. cell = Some c \<and> mx_lock_id c = i \<and> mx_expires c = e))"

definition mutex_inv :: "mutex_world \<Rightarrow> bool" where
  "mutex_inv w \<longleftrightarrow>
     (\<forall>p. mpc_ok (mw_clock w) (mw_pc w p) \<and> lease_ok (mw_clock w) (mw_cell w) (mw_pc w p)) \<and>
     (\<forall>c. mw_cell w = Some c \<longrightarrow> outlives c) \<and>
     ids_ok (\<lambda>p. mpc_id (mw_pc w p)) (mw_fresh w)"

lemma mutex_start_inv: "mutex_inv mutex_start"
  by (simp add: mutex_inv_def mutex_start_def ids_ok_def lease_ok_def)

lemma pc_lease_id: "pc_lease pc = Some (i, e) \<Longrightarrow> mpc_id pc = Some i"
  by (induction pc) auto

lemma lease_cell_simps [simp]:
  "mx_lock_id (lease_cell i now ttlMs clock) = i"
  "mx_expires (lease_cell i now ttlMs clock) = now + ttlMs"
  by (simp_all add: lease_cell_def)

lemma outlives_lease_cell: "now \<le> clock \<Longrightarrow> outlives (lease_cell i now ttlMs clock)"
proof -
  assume "now \<le> clock"
  moreover have "ttlMs / 1000 \<le> of_int \<lceil>ttlMs / 1000\<rceil>" by (rule le_of_int_ceiling)
  then have "ttlMs / 1000 * 1000 \<le> of_int \<lceil>ttlMs / 1000\<rceil> * 1000" by (rule mult_right_mono) simp
  then have "ttlMs \<le> of_int \<lceil>ttlMs / 1000\<rceil> * 1000" by simp
  then have "ttlMs \<le> (of_int \<lceil>ttlMs / 1000\<rceil> + 60) * 1000" by (simp add: distrib_right)
  ultimately show ?thesis by (simp add: outlives_def lease_cell_def add_mono)
qed

lemma mutex_inv_move:
  assumes inv: "mutex_inv w"
    and moved: "mw_pc w' = (mw_pc w)(p := pc)" "mw_clock w' = mw_clock w"
    and ids: "mpc_id pc = mpc_id (mw_pc w p) \<and> mw_fresh w' = mw_fresh w \<or>
      mpc_id pc = None \<and> mw_fresh w' = mw_fresh w \<or>
      mpc_id pc = Some (mw_fresh w) \<and> mw_fresh w' = mw_fresh w + 1"
    and ok: "mpc_ok (mw_clock w) pc" "lease_ok (mw_clock w) (mw_cell w') pc"
    and cell: "\<forall>c. mw_cell w' = Some c \<longrightarrow> outlives c"
    and others: "\<And>q i e. q \<noteq> p \<Longrightarrow> pc_lease (mw_pc w q) = Some (i, e) \<Longrightarrow> mw_clock w < e \<Longrightarrow>
        mw_cell w' = mw_cell w"
  shows "mutex_inv w'"
proof -
  have "mpc_ok (mw_clock w') (mw_pc w' q) \<and> lease_ok (mw_clock w') (mw_cell w') (mw_pc w' q)" for q
    using inv ok others [of q] moved
    by (cases "q = p") (auto simp: mutex_inv_def lease_ok_def)
  moreover have "(\<lambda>q. mpc_id (mw_pc w' q)) = (\<lambda>q. mpc_id (mw_pc w q))(p := mpc_id pc)"
    using moved by auto
  moreover have "ids_ok ((\<lambda>q. mpc_id (mw_pc w q))(p := mpc_id pc)) (mw_fresh w')"
    using inv ids by (intro ids_ok_update [of _ "mw_fresh w"]) (auto simp: mutex_inv_def)
  ultimately show ?thesis using cell by (simp add: mutex_inv_def)
qed

text \<open>An unexpired lease of another process is not in the cell that \<open>p\<close> owns or finds expired.\<close>

lemma other_lease:
  assumes "mutex_inv w" "q \<noteq> p" "pc_lease (mw_pc w q) = Some (i, e)" "mw_clock w < e"
    "mw_cell w \<in> {None, Some c}" "mx_expires c \<le> mw_clock w \<or> mpc_id (mw_pc w p) = Some (mx_lock_id c)"
  shows False
proof -
  from assms(1,3,4) obtain c' where c': "mw_cell w = Some c'" "mx_lock_id c' = i" "mx_expires c' = e"
    unfolding mutex_inv_def lease_ok_def by blast
  with assms(4,5,6) have "mpc_id (mw_pc w p) = Some i" by auto
  with assms(1,2) pc_lease_id [OF assms(3)] ids_ok_inj [of "\<lambda>p. mpc_id (mw_pc w p)" _ p i q]
  show False unfolding mutex_inv_def by blast
qed

lemma mutex_inv_ok: "mutex_inv w \<Longrightarrow> mpc_ok (mw_clock w) (mw_pc w p)"
  "mutex_inv w \<Longrightarrow> lease_ok (mw_clock w) (mw_cell w) (mw_pc w p)"
  "mutex_inv w \<Longrightarrow> mw_cell w = Some c \<Longrightarrow> outlives c"
  by (simp_all add: mutex_inv_def)

lemma try_lock_inv:
  assumes inv: "mutex_inv w" and step: "try_lock_step w p a = Some w'"
  shows "mutex_inv w'"
proof (cases "mw_pc w p")
  case MIdle
  with step inv show ?thesis
    by (intro mutex_inv_move [where p = p and pc = "mw_pc w' p", OF inv])
      (auto simp: try_lock_step_def lease_ok_def mutex_inv_ok split: mutex_action.splits if_splits)
next
  case (MPutting i now ttlMs)
  note ok = mutex_inv_ok(1) [OF inv, of p]
  show ?thesis
  proof (cases "mw_cell w")
    case None
    with MPutting step ok other_lease [OF inv, of _ p] show ?thesis
      by (intro mutex_inv_move [where p = p and pc = "MHolding i (now + ttlMs)", OF inv])
        (auto simp: try_lock_step_def lease_ok_def outlives_lease_cell split: mutex_action.splits
          dest!: mutex_inv_ok(2) [OF inv, of _, unfolded lease_ok_def, rule_format])
  next
    case (Some c)
    with MPutting step ok inv show ?thesis
      by (intro mutex_inv_move [where p = p and pc = "MReading i now ttlMs", OF inv])
        (auto simp: try_lock_step_def lease_ok_def mutex_inv_ok split: mutex_action.splits)
  qed
next
  case (MReading i now ttlMs)
  note ok = mutex_inv_ok(1) [OF inv, of p]
  have "mx_expires c < mw_clock w" if "mw_cell w = Some c" "mx_ttl c < mw_clock w" for c
    using mutex_inv_ok(3) [OF inv that(1)] that(2) by (simp add: outlives_def)
  with MReading step ok inv show ?thesis
    by (intro mutex_inv_move [where p = p and pc = "mw_pc w' p", OF inv])
      (auto simp: try_lock_step_def read_version_def lease_ok_def mutex_inv_ok outlives_lease_cell
        split: mutex_action.splits option.splits if_splits)
next
  case (MTaking new c)
  note ok = mutex_inv_ok(1) [OF inv, of p]
  show ?thesis
  proof (cases "mw_cell w = Some c")
    case True
    with MTaking step ok other_lease [OF inv, of _ p _ _ c] show ?thesis
      by (intro mutex_inv_move [where p = p and pc = "MHolding (mx_lock_id new) (mx_expires new)", OF inv])
        (auto simp: try_lock_step_def lease_ok_def split: mutex_action.splits)
  next
    case False
    with MTaking step inv show ?thesis
      by (intro mutex_inv_move [where p = p and pc = MIdle, OF inv])
        (auto simp: try_lock_step_def lease_ok_def mutex_inv_ok split: mutex_action.splits)
  qed
qed (use step in \<open>auto simp: try_lock_step_def\<close>)

lemma unlock_inv:
  assumes inv: "mutex_inv w" and prompt: "mutex_prompt w (p, a)" and step: "unlock_step w p a = Some w'"
  shows "mutex_inv w'"
proof (cases "mw_pc w p")
  case (MHolding i e)
  with step inv show ?thesis
    by (intro mutex_inv_move [where p = p and pc = "MUnlockReading i", OF inv])
      (auto simp: unlock_step_def lease_ok_def mutex_inv_ok split: mutex_action.splits)
next
  case (MUnlockReading i)
  have "mx_expires c < mw_clock w" if "mw_cell w = Some c" "mx_ttl c < mw_clock w" for c
    using mutex_inv_ok(3) [OF inv that(1)] that(2) by (simp add: outlives_def)
  with MUnlockReading step inv show ?thesis
    by (intro mutex_inv_move [where p = p and pc = "mw_pc w' p", OF inv])
      (auto simp: unlock_step_def read_version_def lease_ok_def mutex_inv_ok
        split: mutex_action.splits option.splits if_splits)
next
  case (MUnlockChecking i c)
  with step inv mutex_inv_ok(1) [OF inv, of p] show ?thesis
    by (intro mutex_inv_move [where p = p and pc = "mw_pc w' p", OF inv])
      (auto simp: unlock_step_def lease_ok_def mutex_inv_ok split: mutex_action.splits if_splits)
next
  case (MUnlockDeleting i c)
  with step prompt have "mw_cell w \<in> {None, Some c}" "a = MDelete"
    by (auto simp: unlock_step_def mutex_prompt_def split: mutex_action.splits)
  with MUnlockDeleting step mutex_inv_ok(1) [OF inv, of p] other_lease [OF inv, of _ p _ _ c] show ?thesis
    by (intro mutex_inv_move [where p = p and pc = MIdle, OF inv])
      (auto simp: unlock_step_def lease_ok_def)
next
  case (MDiscarding c pc)
  with step prompt have c: "mw_cell w \<in> {None, Some c}" "a = MDelete"
    by (auto simp: unlock_step_def mutex_prompt_def split: mutex_action.splits)
  have ok: "mx_expires c < mw_clock w" "pc = MIdle \<or> (\<exists>i e. pc = MHolding i e)"
    using mutex_inv_ok(1) [OF inv, of p] MDiscarding by simp_all
  have "lease_ok (mw_clock w) None pc"
    using mutex_inv_ok(2) [OF inv, of p] MDiscarding c(1) ok(1) by (auto simp: lease_ok_def)
  with MDiscarding step c ok other_lease [OF inv, of _ p _ _ c] show ?thesis
    by (intro mutex_inv_move [where p = p and pc = pc, OF inv]) (auto simp: unlock_step_def)
qed (use step in \<open>auto simp: unlock_step_def\<close>)

lemma extend_inv:
  assumes inv: "mutex_inv w" and step: "extend_step w p a = Some w'"
  shows "mutex_inv w'"
proof (cases "mw_pc w p")
  case (MHolding i e)
  show ?thesis
  proof (cases "w' = w")
    case False
    with MHolding step inv mutex_inv_ok(2) [OF inv, of p] show ?thesis
      by (intro mutex_inv_move [where p = p and pc = "mw_pc w' p", OF inv])
        (auto simp: extend_step_def lease_ok_def mutex_inv_ok split: mutex_action.splits if_splits)
  qed (use inv in simp)
next
  case (MExtendReading i e ttlMs)
  have "mx_expires c < mw_clock w" if "mw_cell w = Some c" "mx_ttl c < mw_clock w" for c
    using mutex_inv_ok(3) [OF inv that(1)] that(2) by (simp add: outlives_def)
  with MExtendReading step inv mutex_inv_ok(2) [OF inv, of p] show ?thesis
    by (intro mutex_inv_move [where p = p and pc = "mw_pc w' p", OF inv])
      (auto simp: extend_step_def read_version_def lease_ok_def mutex_inv_ok outlives_lease_cell
        split: mutex_action.splits option.splits if_splits)
next
  case (MExtending i e new c)
  note ok = mutex_inv_ok(1) [OF inv, of p]
  show ?thesis
  proof (cases "mw_cell w = Some c")
    case True
    with MExtending step ok other_lease [OF inv, of _ p _ _ c] show ?thesis
      by (intro mutex_inv_move [where p = p and pc = "MHolding i (mx_expires new)", OF inv])
        (auto simp: extend_step_def lease_ok_def split: mutex_action.splits)
  next
    case False
    with MExtending step inv mutex_inv_ok(2) [OF inv, of p] show ?thesis
      by (intro mutex_inv_move [where p = p and pc = "MHolding i e", OF inv])
        (auto simp: extend_step_def lease_ok_def mutex_inv_ok split: mutex_action.splits)
  qed
qed (use step in \<open>auto simp: extend_step_def\<close>)

lemma mutex_inspect_inv:
  assumes inv: "mutex_inv w" and step: "mutex_inspect_step w p a = Some w'"
  shows "mutex_inv w'"
proof -
  have "mx_expires c < mw_clock w" if "mw_cell w = Some c" "mx_ttl c < mw_clock w" for c
    using mutex_inv_ok(3) [OF inv that(1)] that(2) by (simp add: outlives_def)
  with step inv show ?thesis
    by (intro mutex_inv_move [where p = p and pc = "mw_pc w' p", OF inv])
      (auto simp: mutex_inspect_step_def read_version_def lease_ok_def mutex_inv_ok
        split: mutex_pc.splits mutex_action.splits option.splits if_splits)
qed

lemma mutex_step_inv:
  assumes "mutex_inv w" "mutex_prompt w pa" "mutex_step w pa = Some w'"
  shows "mutex_inv w'"
proof -
  obtain p a where pa: "pa = (p, a)" by (cases pa)
  show ?thesis
  proof (cases "\<exists>d. a = MWait d")
    case True
    then obtain d where d: "0 \<le> d" "w' = w\<lparr>mw_clock := mw_clock w + d\<rparr>"
      using assms(3) pa by (auto simp: mutex_step_def split: if_splits)
    have later: "mpc_ok (mw_clock w) pc \<Longrightarrow> mpc_ok (mw_clock w + d) pc" for pc
      using d(1) by (cases pc) auto
    have lease: "lease_ok (mw_clock w) cell pc \<Longrightarrow> lease_ok (mw_clock w + d) cell pc" for cell pc
      using d(1) unfolding lease_ok_def by (meson add_increasing2 le_less_trans order_refl)
    from assms(1) d(2) show ?thesis by (auto simp: mutex_inv_def later lease)
  next
    case False
    with assms(3) pa have "try_lock_step w p a = Some w' \<or> unlock_step w p a = Some w' \<or>
        extend_step w p a = Some w' \<or> mutex_inspect_step w p a = Some w'"
      by (auto simp: mutex_step_def split: mutex_action.splits option.splits)
    with assms(1,2) pa try_lock_inv unlock_inv extend_inv mutex_inspect_inv show ?thesis by blast
  qed
qed

lemma mutex_reaches_inv: "mutex_reaches True w \<Longrightarrow> mutex_inv w"
  by (induction rule: mutex_reaches.induct) (auto simp: mutex_start_inv intro: mutex_step_inv)

lemma mutex_holds_Some:
  "mutex_holds w p = Some i \<longleftrightarrow> (\<exists>e. pc_lease (mw_pc w p) = Some (i, e) \<and> mw_clock w < e)"
  by (auto simp: mutex_holds_def split: option.splits)

interpretation storage_mutex:
  lease "mutex_reaches True" mutex_holds "\<lambda>w. map_option mx_lock_id (mw_cell w)"
proof unfold_locales
  fix w p i assume "mutex_reaches True w" "mutex_holds w p = Some i"
  then obtain e where "pc_lease (mw_pc w p) = Some (i, e)" "mw_clock w < e" "mutex_inv w"
    by (auto simp: mutex_holds_Some dest: mutex_reaches_inv)
  then show "map_option mx_lock_id (mw_cell w) = Some i"
    using mutex_inv_ok(2) [of w p] by (auto simp: lease_ok_def)
next
  fix w p q i
  assume "mutex_reaches True w" "mutex_holds w p = Some i" "mutex_holds w q = Some i"
  then have "mutex_inv w" "mpc_id (mw_pc w p) = Some i" "mpc_id (mw_pc w q) = Some i"
    by (auto simp: mutex_holds_Some dest: mutex_reaches_inv pc_lease_id)
  then show "p = q"
    using ids_ok_inj [of "\<lambda>p. mpc_id (mw_pc w p)"] unfolding mutex_inv_def by blast
qed

section \<open>Runs\<close>

text \<open>A list of steps, each taken by the process it names.\<close>

fun run_steps :: "('w \<Rightarrow> 'a \<Rightarrow> 'w option) \<Rightarrow> 'w \<Rightarrow> 'a list \<Rightarrow> 'w option" where
  "run_steps step w [] = Some w"
| "run_steps step w (a # as) = (case step w a of None \<Rightarrow> None | Some w' \<Rightarrow> run_steps step w' as)"

lemma run_mutex_reaches:
  "run_steps mutex_step w as = Some w' \<Longrightarrow> mutex_reaches False w \<Longrightarrow> mutex_reaches False w'"
  by (induction as arbitrary: w) (auto split: option.splits intro: mutex_next)

lemma run_lock_reaches:
  "run_steps (lock_step ttl) w as = Some w' \<Longrightarrow> lock_reaches ttl False w \<Longrightarrow> lock_reaches ttl False w'"
  by (induction as arbitrary: w) (auto split: option.splits intro: lock_next)

text \<open>A run all of whose deletes are prompt.\<close>

definition guarded :: "('w \<Rightarrow> 'a \<Rightarrow> bool) \<Rightarrow> ('w \<Rightarrow> 'a \<Rightarrow> 'w option) \<Rightarrow> 'w \<Rightarrow> 'a \<Rightarrow> 'w option" where
  "guarded ok step w a = (if ok w a then step w a else None)"

lemma run_mutex_careful:
  "run_steps (guarded mutex_prompt mutex_step) w as = Some w' \<Longrightarrow> mutex_reaches True w \<Longrightarrow>
     mutex_reaches True w'"
  by (induction as arbitrary: w) (auto simp: guarded_def split: option.splits if_splits intro: mutex_next)

lemma run_lock_careful:
  "run_steps (guarded prompt (lock_step ttl)) w as = Some w' \<Longrightarrow> lock_reaches ttl True w \<Longrightarrow>
     lock_reaches ttl True w'"
  by (induction as arbitrary: w) (auto simp: guarded_def split: option.splits if_splits intro: lock_next)

section \<open>Properties\<close>



text \<open>
  C17: One holder at a time, for the mutex. In every world reached by any interleaving of tryLock, unlock
  and extend, with takeovers of expired leases and reads that discard expired objects, two
  processes that rely on an unexpired lease are the same, provided every delete finds the cell as
  its process last read it, or empty.
\<close>
theorem storage_mutex_exclusive:
  assumes "mutex_reaches True w" "mutex_holds w p \<noteq> None" "mutex_holds w q \<noteq> None"
  shows "p = q"
  using assms by (rule storage_mutex.mutual_exclusion)

lemma storage_mutex_exclusive_witness:
  "\<exists>w. mutex_reaches True w \<and> mutex_holds w 1 \<noteq> None \<and> (\<forall>q. mutex_holds w q \<noteq> None \<longrightarrow> q = 1)"
proof -
  let ?run = "run_steps (guarded mutex_prompt mutex_step) mutex_start
    [(0, TryLock 10), (0, MPut), (0, MWait 10), (1, TryLock 10), (1, MPut), (1, MRead), (1, MTake),
     (1, MWait 5), (1, Extend 10), (1, MRead), (1, MWrite)]"
  have "case ?run of None \<Rightarrow> False | Some w \<Rightarrow> mutex_holds w 1 \<noteq> None" by code_simp
  then obtain w where w: "?run = Some w" "mutex_holds w 1 \<noteq> None" by (auto split: option.splits)
  have "mutex_reaches True w" by (rule run_mutex_careful [OF w(1) mutex_init])
  with storage_mutex_exclusive [OF this _ w(2)] w(2) show ?thesis by blast
qed




end
