(* ===== verification/Number_Codecs.thy ===== *)
theory Number_Codecs
  imports Js_Value
begin

text \<open>
  \<open>core/src/concerns/base62.ts\<close>: numbers as base-62 strings (record values), as base-36 strings
  (metadata keys), as decimals with a base-62 integer part and as fixed-point numbers. Numbers are
  rationals, so the arithmetic is that of the code for integers below \<open>2 ^ 53\<close>.
\<close>

section \<open>Numerals in an alphabet\<close>

definition base62_alphabet :: ustring where
  "base62_alphabet = lit ''0123456789abcdefghijklmnopqrstuvwxyzABCDEFGHIJKLMNOPQRSTUVWXYZ''"

definition key_alphabet :: ustring where
  "key_alphabet = lit ''0123456789abcdefghijklmnopqrstuvwxyz''"

text \<open>The loop \<open>while (n) s = alphabet[n % base] + s\<close>; an alphabet has at least two letters.\<close>

function place_digits :: "ustring \<Rightarrow> nat \<Rightarrow> ustring" where
  "place_digits al n =
     (if n = 0 \<or> length al < 2 then []
      else place_digits al (n div length al) @ [al ! (n mod length al)])"
  by pat_completeness auto
termination
  by (relation "measure snd") auto

declare place_digits.simps [simp del]

text \<open>\<open>charToValue\<close>, and the decoding loop, which gives up on a foreign character.\<close>

fun position :: "ustring \<Rightarrow> nat \<Rightarrow> nat option" where
  "position [] u = None"
| "position (a # al) u = (if a = u then Some 0 else map_option Suc (position al u))"

fun decode_digits :: "ustring \<Rightarrow> nat \<Rightarrow> ustring \<Rightarrow> nat option" where
  "decode_digits al r [] = Some r"
| "decode_digits al r (u # s) =
     (case position al u of
        None \<Rightarrow> None
      | Some i \<Rightarrow> decode_digits al (r * length al + i) s)"

definition encode_with :: "ustring \<Rightarrow> js_number \<Rightarrow> ustring" where
  "encode_with al n =
     (case n of
        Num x \<Rightarrow>
          if x = 0 then [al ! 0]
          else if x < 0 then 45 # place_digits al (nat (- \<lfloor>x\<rfloor>))
          else place_digits al (nat \<lfloor>x\<rfloor>)
      | _ \<Rightarrow> lit ''undefined'')"

text \<open>A leading minus sign is cut off, also of a string with nothing behind it.\<close>

definition unsigned_part :: "ustring \<Rightarrow> bool \<times> ustring" where
  "unsigned_part s = (if s \<noteq> [] \<and> hd s = 45 then (True, tl s) else (False, s))"

definition decode_with :: "ustring \<Rightarrow> ustring \<Rightarrow> js_number" where
  "decode_with al s =
     (let (negative, str) = unsigned_part s in
      case decode_digits al 0 str of
        None \<Rightarrow> NaN
      | Some r \<Rightarrow> Num (if negative then - of_nat r else of_nat r))"

definition encode :: "js_number \<Rightarrow> ustring" where
  "encode = encode_with base62_alphabet"

definition decode :: "ustring \<Rightarrow> js_number" where
  "decode = decode_with base62_alphabet"

definition encode_key :: "js_number \<Rightarrow> ustring" where
  "encode_key = encode_with key_alphabet"

definition decode_key :: "ustring \<Rightarrow> js_number" where
  "decode_key = decode_with key_alphabet"

section \<open>Decimal texts of the language\<close>

text \<open>
  A finite number by the shortest decimal digits that denote it: sign, digits as a natural number
  without trailing zeros, and exponent of the last digit.
\<close>

record decimal =
  dec_neg :: bool
  dec_sig :: nat
  dec_exp :: int

definition is_decimal :: "decimal \<Rightarrow> bool" where
  "is_decimal d \<longleftrightarrow> (if dec_sig d = 0 then dec_exp d = 0 else \<not> 10 dvd dec_sig d)"

definition magnitude :: "decimal \<Rightarrow> rat" where
  "magnitude d = of_nat (dec_sig d) * 10 powi dec_exp d"

definition decimal_value :: "decimal \<Rightarrow> rat" where
  "decimal_value d = (if dec_neg d then - magnitude d else magnitude d)"

text \<open>\<open>Number.prototype.toString\<close> of the absolute value, as ECMAScript lays the digits out.\<close>

definition magnitude_text :: "decimal \<Rightarrow> ustring" where
  "magnitude_text d =
     (let s = show_nat (dec_sig d); k = int (length s); n = k + dec_exp d in
      if dec_sig d = 0 then s
      else if k \<le> n \<and> n \<le> 21 then s @ replicate (nat (n - k)) 48
      else if 0 < n \<and> n \<le> 21 then take (nat n) s @ [46] @ drop (nat n) s
      else if - 6 < n \<and> n \<le> 0 then [48, 46] @ replicate (nat (- n)) 48 @ s
      else
        let e = [101, if n - 1 < 0 then 45 else 43] @ show_nat (nat \<bar>n - 1\<bar>) in
        if k = 1 then s @ e else take 1 s @ [46] @ drop 1 s @ e)"

text \<open>The text of an integer: its digits, up to \<open>10 ^ 21\<close>.\<close>

function strip_zeros :: "nat \<Rightarrow> int \<Rightarrow> decimal" where
  "strip_zeros n e =
     (if n \<noteq> 0 \<and> 10 dvd n then strip_zeros (n div 10) (e + 1) else \<lparr>dec_neg = False, dec_sig = n, dec_exp = e\<rparr>)"
  by pat_completeness auto
termination
  by (relation "measure fst") auto

declare strip_zeros.simps [simp del]

definition nat_text :: "nat \<Rightarrow> ustring" where
  "nat_text n = (if n < 10 ^ 21 then show_nat n else magnitude_text (strip_zeros n 0))"

definition int_text :: "int \<Rightarrow> ustring" where
  "int_text i = (if i < 0 then 45 # nat_text (nat (- i)) else nat_text (nat i))"

text \<open>\<open>Number(text)\<close>: surrounding white space, hexadecimal, octal and binary literals, decimals.\<close>

definition read_exponent :: "ustring \<Rightarrow> int option" where
  "read_exponent s =
     (if s = [] then Some 0
      else if hd s \<noteq> 69 \<and> hd s \<noteq> 101 then None
      else
        let r = tl s; ds = (if r \<noteq> [] \<and> hd r \<in> {43, 45} then tl r else r) in
        if ds = [] \<or> \<not> list_all is_digit ds then None
        else Some (if r \<noteq> [] \<and> hd r = 45 then - int (digits_value ds) else int (digits_value ds)))"

definition read_unsigned :: "ustring \<Rightarrow> rat option" where
  "read_unsigned s =
     (let ip = takeWhile is_digit s; r = dropWhile is_digit s;
          fp = (if r \<noteq> [] \<and> hd r = 46 then takeWhile is_digit (tl r) else []);
          r' = (if r \<noteq> [] \<and> hd r = 46 then dropWhile is_digit (tl r) else r) in
      if ip = [] \<and> fp = [] then None
      else map_option (\<lambda>e. of_nat (digits_value (ip @ fp)) * 10 powi (e - int (length fp)))
             (read_exponent r'))"

definition hex_value :: "nat \<Rightarrow> nat option" where
  "hex_value u =
     (if 48 \<le> u \<and> u \<le> 57 then Some (u - 48)
      else if 97 \<le> u \<and> u \<le> 102 then Some (u - 87)
      else if 65 \<le> u \<and> u \<le> 70 then Some (u - 55) else None)"

fun read_radix :: "nat \<Rightarrow> nat \<Rightarrow> ustring \<Rightarrow> nat option" where
  "read_radix b a [] = Some a"
| "read_radix b a (u # s) =
     (case hex_value u of
        Some i \<Rightarrow> if i < b then read_radix b (a * b + i) s else None
      | None \<Rightarrow> None)"

definition radix_literal :: "ustring \<Rightarrow> nat option" where
  "radix_literal s =
     (if length s < 2 \<or> hd s \<noteq> 48 then None
      else if s ! 1 \<in> {120, 88} then Some 16
      else if s ! 1 \<in> {111, 79} then Some 8
      else if s ! 1 \<in> {98, 66} then Some 2 else None)"

definition number_of_text :: "ustring \<Rightarrow> js_number" where
  "number_of_text text =
     (let s = trim text in
      if s = [] then Num 0
      else case radix_literal s of
        Some b \<Rightarrow>
          (if length s = 2 then NaN
           else case read_radix b 0 (drop 2 s) of Some n \<Rightarrow> Num (of_nat n) | None \<Rightarrow> NaN)
      | None \<Rightarrow>
          let negative = (hd s = 45); u = (if hd s \<in> {43, 45} then tl s else s) in
          if u = lit ''Infinity'' then (if negative then NegInf else PosInf)
          else case read_unsigned u of
            Some x \<Rightarrow> Num (if negative then - x else x)
          | None \<Rightarrow> NaN)"

section \<open>Decimals with a base-62 integer part\<close>

text \<open>
  \<open>const [intPart, decPart] = text.split('.')\<close>: the part before the first point and the part between it
  and the next one.
\<close>

definition int_part :: "ustring \<Rightarrow> ustring" where
  "int_part s = hd (split_on 46 s)"

definition dec_part :: "ustring \<Rightarrow> ustring" where
  "dec_part s = (case split_on 46 s of p # q # _ \<Rightarrow> q | _ \<Rightarrow> [])"

definition encode_decimal_digits :: "decimal \<Rightarrow> ustring" where
  "encode_decimal_digits d =
     (let text = magnitude_text d; encodedInt = encode (number_of_text (int_part text));
          sign = (if decimal_value d < 0 then [45] else []) in
      if dec_part text \<noteq> [] then sign @ encodedInt @ [46] @ dec_part text else sign @ encodedInt)"

text \<open>The shortest digits of a number are the language's affair: an argument.\<close>

definition encode_decimal :: "(rat \<Rightarrow> decimal) \<Rightarrow> js_number \<Rightarrow> ustring" where
  "encode_decimal shortest n =
     (case n of Num x \<Rightarrow> encode_decimal_digits (shortest x) | _ \<Rightarrow> lit ''undefined'')"

definition decode_decimal :: "ustring \<Rightarrow> js_number" where
  "decode_decimal s =
     (let (negative, str) = unsigned_part s in
      case decode (int_part str) of
        Num i \<Rightarrow>
          let num = (if dec_part str \<noteq> [] then number_of_text (int_text \<lfloor>i\<rfloor> @ [46] @ dec_part str) else Num i)
          in (if negative then (case num of Num x \<Rightarrow> Num (- x) | PosInf \<Rightarrow> NegInf | NegInf \<Rightarrow> PosInf | NaN \<Rightarrow> NaN)
              else num)
      | _ \<Rightarrow> NaN)"

section \<open>Fixed-point numbers\<close>

text \<open>\<open>Math.round\<close>, and the digits behind the \<open>^\<close> sign.\<close>

definition js_round :: "rat \<Rightarrow> int" where
  "js_round x = \<lfloor>x + 1 / 2\<rfloor>"

definition fixed_digits :: "rat \<Rightarrow> nat \<Rightarrow> ustring" where
  "fixed_digits x precision =
     (let scaled = js_round (x * 10 ^ precision) in
      if scaled = 0 then [48]
      else (if scaled < 0 then [45] else []) @ place_digits base62_alphabet (nat \<bar>scaled\<bar>))"

definition fixed_value :: "ustring \<Rightarrow> nat \<Rightarrow> js_number" where
  "fixed_value s precision =
     (if s = [48] then Num 0
      else
        let (negative, str) = unsigned_part s in
        case decode_digits base62_alphabet 0 str of
          None \<Rightarrow> NaN
        | Some r \<Rightarrow> Num ((if negative then - of_nat r else of_nat r) / 10 ^ precision))"

definition encode_fixed_point :: "js_number \<Rightarrow> nat \<Rightarrow> ustring" where
  "encode_fixed_point n precision =
     (case n of Num x \<Rightarrow> 94 # fixed_digits x precision | _ \<Rightarrow> lit ''undefined'')"

definition decode_fixed_point :: "ustring \<Rightarrow> nat \<Rightarrow> js_number" where
  "decode_fixed_point s precision =
     (if starts_with s [94] then fixed_value (tl s) precision else NaN)"

definition encode_fixed_point_batch :: "js_number list \<Rightarrow> nat \<Rightarrow> ustring" where
  "encode_fixed_point_batch values precision =
     (if values = [] then lit ''^[]''
      else lit ''^['' @
        join [44] (map (\<lambda>n. case n of Num x \<Rightarrow> fixed_digits x precision | _ \<Rightarrow> []) values) @ lit '']'')"

definition decode_fixed_point_batch :: "ustring \<Rightarrow> nat \<Rightarrow> js_number list" where
  "decode_fixed_point_batch s precision =
     (if \<not> starts_with s (lit ''^['') then []
      else
        let inner = butlast (drop 2 s) in
        if inner = [] then []
        else map (\<lambda>part. if part = [] then NaN else fixed_value part precision) (split_on 44 inner))"

section \<open>Numerals denote numbers\<close>

locale positional =
  fixes al :: ustring
  assumes letters: "distinct al" "2 \<le> length al" "45 \<notin> set al"
begin

lemma position_nth [simp]: "i < length al \<Longrightarrow> position al (al ! i) = Some i"
proof -
  have "distinct xs \<Longrightarrow> i < length xs \<Longrightarrow> position xs (xs ! i) = Some i" for xs i
    by (induction xs arbitrary: i) (auto simp: nth_Cons split: nat.splits)
  with letters(1) show "i < length al \<Longrightarrow> position al (al ! i) = Some i" by blast
qed

lemma base_pos [simp]: "0 < length al" "length al \<noteq> 0" "al \<noteq> []" "Suc 0 < length al"
  using letters(2) by auto

lemma place_digits_0 [simp]: "place_digits al 0 = []"
  by (subst place_digits.simps) simp

lemma place_digits_step:
  "0 < n \<Longrightarrow> place_digits al n = place_digits al (n div length al) @ [al ! (n mod length al)]"
  using letters(2) by (subst place_digits.simps) simp

lemma place_digits_Nil_iff [simp]: "place_digits al n = [] \<longleftrightarrow> n = 0"
  by (cases "n = 0") (auto simp: place_digits_step)

lemma decode_digits_append:
  "decode_digits al r (s @ t) =
     (case decode_digits al r s of None \<Rightarrow> None | Some r' \<Rightarrow> decode_digits al r' t)"
  by (induction s arbitrary: r) (auto split: option.splits)

lemma decode_place_digits [simp]: "decode_digits al 0 (place_digits al n) = Some n"
proof (induction n rule: less_induct)
  case (less n)
  show ?case
  proof (cases "n = 0")
    case False
    with letters(2) have "n div length al < n" by simp
    from less [OF this] False show ?thesis
      by (simp add: place_digits_step decode_digits_append)
  qed simp
qed

lemma decode_leading_zeros [simp]:
  "decode_digits al 0 (replicate k (al ! 0) @ s) = decode_digits al 0 s"
  using position_nth [of 0] by (induction k) simp_all

lemma set_place_digits: "set (place_digits al n) \<subseteq> set al"
proof (induction n rule: less_induct)
  case (less n)
  show ?case
  proof (cases "n = 0")
    case False
    with letters(2) have "n div length al < n" by simp
    from less [OF this] False show ?thesis by (simp add: place_digits_step)
  qed simp
qed

lemma length_place_digits: "n < length al ^ k \<Longrightarrow> length (place_digits al n) \<le> k"
proof (induction k arbitrary: n)
  case (Suc k)
  show ?case
  proof (cases "n = 0")
    case False
    have "n div length al < length al ^ k"
      using Suc.prems by (simp add: less_mult_imp_div_less mult.commute)
    from Suc.IH [OF this] False show ?thesis by (simp add: place_digits_step)
  qed simp
qed simp

lemma no_sign [simp]: "unsigned_part (place_digits al n) = (False, place_digits al n)"
proof -
  have "hd (place_digits al n) \<noteq> 45" if "n \<noteq> 0"
    using that set_place_digits [of n] letters(3) by (metis hd_in_set place_digits_Nil_iff subsetD)
  then show ?thesis by (auto simp: unsigned_part_def)
qed

lemma zero_letter [simp]: "al ! 0 \<noteq> 45"
  using letters(3) base_pos(1) by (metis nth_mem)

theorem decode_encode: "decode_with al (encode_with al (Num x)) = Num (of_int \<lfloor>x\<rfloor>)"
proof -
  consider "x = 0" | "x < 0" | "0 < x" by linarith
  then show ?thesis
  proof cases
    case 1
    then show ?thesis using position_nth [of 0]
      by (simp add: encode_with_def decode_with_def unsigned_part_def)
  next
    case 2
    then have "\<lfloor>x\<rfloor> < 0" by simp
    with 2 show ?thesis by (simp add: encode_with_def decode_with_def unsigned_part_def)
  next
    case 3
    then have "0 \<le> \<lfloor>x\<rfloor>" by simp
    with 3 show ?thesis by (simp add: encode_with_def decode_with_def)
  qed
qed

end

lemma length_base62 [simp]: "length base62_alphabet = 62"
  by (simp add: base62_alphabet_def)

lemma length_key_alphabet [simp]: "length key_alphabet = 36"
  by (simp add: key_alphabet_def)

interpretation base62: positional base62_alphabet
  by unfold_locales (simp_all add: base62_alphabet_def)

interpretation base36: positional key_alphabet
  by unfold_locales (simp_all add: key_alphabet_def)

end
