(* ===== verification/Schema_Keys.thy ===== *)
theory Schema_Keys
  imports Number_Codecs
begin

text \<open>
  The metadata keys of a schema (\<open>core/src/schema.class.ts\<close>): every attribute is stored under a short
  key, the base-36 text of an index for the attributes of the user, a hash for those of plugins. The
  registries make the assignment permanent: they are persisted, indices and keys once used are
  never given to another attribute. Attribute names are those that may be assigned to an object
  (not \<open>__proto__\<close>), indices are integers.
\<close>

section \<open>State\<close>

type_synonym key_map = "(ustring \<times> ustring) list"

record 'k burned_entry =
  be_key :: 'k
  be_attribute :: ustring
  be_at :: ustring
  be_reason :: "ustring option"

record schema_registry =
  sr_next :: int
  sr_mapping :: "(ustring \<times> int) list"
  sr_burned :: "int burned_entry list"

record plugin_registry =
  pr_mapping :: key_map
  pr_burned :: "ustring burned_entry list"

definition empty_registry :: schema_registry where
  "empty_registry = \<lparr>sr_next = 0, sr_mapping = [], sr_burned = []\<rparr>"

section \<open>User attributes\<close>

text \<open>\<open>generateBase36Mapping\<close>: the key of an attribute is its position.\<close>

fun base36_from :: "nat \<Rightarrow> ustring list \<Rightarrow> key_map \<times> key_map \<Rightarrow> key_map \<times> key_map" where
  "base36_from i [] (m, r) = (m, r)"
| "base36_from i (key # keys) (m, r) =
     (let k = encode_key (Num (of_nat i)) in
      base36_from (Suc i) keys (obj_set key k m, obj_set k key r))"

definition generate_base36_mapping :: "ustring list \<Rightarrow> key_map \<times> key_map" where
  "generate_base36_mapping keys = base36_from 0 keys ([], [])"

text \<open>
  \<open>key in registry.mapping\<close> also finds the members every object inherits; they are not numbers, and
  \<open>encodeKey\<close> answers for them as for \<open>NaN\<close>.
\<close>

definition registered :: "(ustring \<times> int) list \<Rightarrow> ustring \<Rightarrow> js_number option" where
  "registered m key =
     (case map_of m key of
        Some i \<Rightarrow> Some (Num (of_int i))
      | None \<Rightarrow> if key \<in> set prototype_keys then Some NaN else None)"

text \<open>The first free index is behind all indices in use and all burned ones.\<close>

definition raise_next :: "schema_registry \<Rightarrow> schema_registry \<times> bool" where
  "raise_next r =
     (let m = Max (insert (- 1) (set (map snd (sr_mapping r)) \<union> set (map be_key (sr_burned r)))) in
      if sr_next r \<le> m then (r\<lparr>sr_next := m + 1\<rparr>, True) else (r, False))"

record assignment =
  as_map :: key_map
  as_reversed :: key_map
  as_registry :: schema_registry
  as_changed :: bool

definition assign_key :: "ustring \<Rightarrow> assignment \<Rightarrow> assignment" where
  "assign_key key a =
     (case registered (sr_mapping (as_registry a)) key of
        Some n \<Rightarrow>
          let k = encode_key n in
          a\<lparr>as_map := obj_set key k (as_map a), as_reversed := obj_set k key (as_reversed a)\<rparr>
      | None \<Rightarrow>
          let r = as_registry a; i = sr_next r; k = encode_key (Num (of_int i)) in
          a\<lparr>as_map := obj_set key k (as_map a), as_reversed := obj_set k key (as_reversed a),
            as_registry := r\<lparr>sr_next := i + 1, sr_mapping := obj_set key i (sr_mapping r)\<rparr>,
            as_changed := True\<rparr>)"

text \<open>The attributes that are gone: their indices are burned, unless they are already.\<close>

definition burn_entry :: "ustring list \<Rightarrow> ustring \<Rightarrow> ustring \<times> int \<Rightarrow> schema_registry \<times> bool \<Rightarrow> schema_registry \<times> bool" where
  "burn_entry keys now e s =
     (let (attr, i) = e; (r, changed) = s in
      if attr \<in> set keys then s
      else
        let burned = (i \<in> set (map be_key (sr_burned r)));
            r' = (if burned then r
                  else r\<lparr>sr_burned := sr_burned r @
                    [\<lparr>be_key = i, be_attribute = attr, be_at = now, be_reason = Some (lit ''removed'')\<rparr>]\<rparr>)
        in (r'\<lparr>sr_mapping := AList.delete attr (sr_mapping r')\<rparr>, changed \<or> \<not> burned))"

definition burn_removed :: "ustring list \<Rightarrow> ustring \<Rightarrow> schema_registry \<times> bool \<Rightarrow> schema_registry \<times> bool" where
  "burn_removed keys now s = fold (burn_entry keys now) (sr_mapping (fst s)) s"

text \<open>\<open>generateMappingFromRegistry\<close>.\<close>

definition mapping_from_registry :: "ustring \<Rightarrow> ustring list \<Rightarrow> schema_registry option \<Rightarrow> assignment" where
  "mapping_from_registry now keys existing =
     (let (r, changed) = raise_next (case existing of Some r \<Rightarrow> r | None \<Rightarrow> empty_registry);
          a = fold assign_key keys \<lparr>as_map = [], as_reversed = [], as_registry = r, as_changed = changed\<rparr>;
          (r', changed') = burn_removed keys now (as_registry a, as_changed a) in
      a\<lparr>as_registry := r', as_changed := changed'\<rparr>)"

section \<open>Persisted maps\<close>

datatype schema_error = Duplicate_Key ustring | Not_Base36 "(ustring \<times> ustring) list"
  | Non_String_Mapping ustring ustring | Invalid_Burned ustring

text \<open>\<open>_validateMapEncoding\<close>: base-36 keys (\<open>/^[0-9a-z]+$/\<close>), each once.\<close>

definition is_base36 :: "ustring \<Rightarrow> bool" where
  "is_base36 k \<longleftrightarrow> k \<noteq> [] \<and> list_all (\<lambda>u. u \<in> set key_alphabet) k"

fun check_map :: "key_map \<Rightarrow> ustring list \<Rightarrow> key_map \<Rightarrow> schema_error + unit" where
  "check_map invalid seen [] = (if invalid = [] then Inr () else Inl (Not_Base36 invalid))"
| "check_map invalid seen ((attr, k) # m) =
     (if \<not> is_base36 k then check_map (invalid @ [(attr, k)]) seen m
      else if k \<in> set seen then Inl (Duplicate_Key k)
      else check_map invalid (k # seen) m)"

definition validate_map_encoding :: "key_map \<Rightarrow> schema_error + unit" where
  "validate_map_encoding m = check_map [] [] m"

text \<open>The index behind a key; a validated key has one.\<close>

definition key_index :: "ustring \<Rightarrow> int option" where
  "key_index k = (case decode_key k of Num x \<Rightarrow> Some \<lfloor>x\<rfloor> | _ \<Rightarrow> None)"

text \<open>\<open>_buildRegistryFromMap\<close> and \<open>generateInitialRegistry\<close>, for maps whose keys have passed validation.\<close>

definition legacy_indices :: "key_map \<Rightarrow> (ustring \<times> int) list" where
  "legacy_indices m = map (\<lambda>(attr, k). (attr, case key_index k of Some i \<Rightarrow> i | None \<Rightarrow> 0)) m"

definition build_registry_from_map :: "key_map \<Rightarrow> schema_registry option \<Rightarrow> schema_registry" where
  "build_registry_from_map m existing =
     (let r = (case existing of Some r \<Rightarrow> r | None \<Rightarrow> empty_registry);
          mapping = fold (\<lambda>(attr, i) q. if registered q attr \<noteq> None then q else obj_set attr i q)
                      (legacy_indices m) (sr_mapping r);
          maxIndex = Max (insert (sr_next r - 1)
                       (set (map snd (legacy_indices m)) \<union> set (map be_key (sr_burned r)))) in
      r\<lparr>sr_mapping := mapping, sr_next := max (sr_next r) (maxIndex + 1)\<rparr>)"

definition initial_schema_registry :: "key_map \<Rightarrow> schema_registry" where
  "initial_schema_registry m =
     \<lparr>sr_next = Max (insert (- 1) (set (map snd (legacy_indices m)))) + 1,
      sr_mapping = obj_of (legacy_indices m), sr_burned = []\<rparr>"

definition initial_plugin_registries ::
    "(ustring \<times> ustring list) list \<Rightarrow> key_map \<Rightarrow> (ustring \<times> plugin_registry) list" where
  "initial_plugin_registries plugins pluginMap =
     obj_of (map (\<lambda>(p, attrs). (p, \<lparr>pr_mapping = obj_of (List.map_filter
        (\<lambda>a. case map_of pluginMap a of
           Some k \<Rightarrow> if k = [] then None else Some (a, k) | None \<Rightarrow> None) attrs), pr_burned = []\<rparr>)) plugins)"

text \<open>
  The choice the constructor makes among a persisted map, a persisted registry and neither; the
  result is the map, its inverse, the registry to persist and whether it changed.
\<close>

definition invert_map :: "key_map \<Rightarrow> key_map" where
  "invert_map m = obj_of (map (\<lambda>(a, k). (k, a)) m)"

definition add_missing :: "key_map \<Rightarrow> ustring \<Rightarrow> key_map \<times> key_map \<Rightarrow> key_map \<times> key_map" where
  "add_missing assigned key s =
     (let (m, r) = s in
      if key \<in> fst ` set m \<or> key \<in> set prototype_keys then s
      else case map_of assigned key of
        Some k \<Rightarrow> if k = [] then s else (obj_set key k m, obj_set k key r)
      | None \<Rightarrow> s)"

definition user_maps ::
    "ustring \<Rightarrow> ustring list \<Rightarrow> key_map \<Rightarrow> schema_registry option \<Rightarrow>
       schema_error + (key_map \<times> key_map \<times> schema_registry option \<times> bool)" where
  "user_maps now userKeys m registry =
     (if m \<noteq> [] then
        (case validate_map_encoding m of
           Inl e \<Rightarrow> Inl e
         | Inr _ \<Rightarrow>
             (case registry of
                None \<Rightarrow> Inr (m, invert_map m, None, False)
              | Some r \<Rightarrow>
                  let a = mapping_from_registry now userKeys (Some (build_registry_from_map m (Some r)));
                      (m', r') = fold (add_missing (as_map a)) userKeys (m, invert_map m) in
                  Inr (m', r', Some (as_registry a), as_changed a)))
      else
        (case registry of
           Some r \<Rightarrow>
             let a = mapping_from_registry now userKeys (Some r) in
             Inr (as_map a, as_reversed a, Some (as_registry a), as_changed a)
         | None \<Rightarrow>
             let (m', r') = generate_base36_mapping userKeys in Inr (m', r', None, False)))"

end
