(* ===== verification/Schema_Plugin_Keys.thy ===== *)
theory Schema_Plugin_Keys
  imports Schema_Keys
begin

text \<open>
  The keys of plugin attributes (\<open>core/src/schema.class.ts\<close>): a three-letter hash behind a \<open>p\<close>, with a
  counter when it is taken. The first four bytes of SHA-256, as a big-endian number, are the argument
  \<open>sha_word\<close>. Plugin attributes do not have the name of a member of \<open>Object.prototype\<close>.
\<close>

section \<open>Hashes\<close>

definition lower_unit :: "nat \<Rightarrow> nat" where
  "lower_unit u = (if 65 \<le> u \<and> u \<le> 90 then u + 32 else u)"

definition plugin_hash :: "(ustring \<Rightarrow> nat) \<Rightarrow> ustring \<Rightarrow> ustring \<Rightarrow> ustring" where
  "plugin_hash sha_word pluginName attributeName =
     (let num = sha_word (pluginName @ lit '':'' @ attributeName);
          padded = take 3 (pad_start 3 48 (encode (Num (of_nat num)))) in
      lit ''p'' @ map lower_unit padded)"

text \<open>The loop over the candidates \<open>hash\<close>, \<open>hash1\<close>, \<open>hash2\<close>, ... that ends at the first free one.\<close>

definition candidate :: "ustring \<Rightarrow> nat \<Rightarrow> ustring" where
  "candidate hash n = (if n = 0 then hash else hash @ show_nat n)"

lemma candidate_inj: "candidate hash m = candidate hash n \<longleftrightarrow> m = n"
  by (auto simp: candidate_def show_nat_inj)

function free_key :: "ustring list \<Rightarrow> ustring \<Rightarrow> nat \<Rightarrow> ustring" where
  "free_key used hash counter =
     (if candidate hash counter \<in> set used then free_key used hash (counter + 1)
      else candidate hash counter)"
  by pat_completeness auto
termination
proof (relation "measure (\<lambda>(used, hash, c). card {n. c \<le> n \<and> candidate hash n \<in> set used})")
  fix used hash c assume *: "candidate hash c \<in> set used"
  let ?S = "\<lambda>c. {n. c \<le> n \<and> candidate hash n \<in> set used}"
  have "inj (candidate hash)" by (rule injI) (simp add: candidate_inj)
  then have "finite (candidate hash -` set used)" by (intro finite_vimageI) auto
  then have "finite (?S c)" by (rule finite_subset [rotated]) auto
  moreover have "c \<in> ?S c - ?S (c + 1)" "?S (c + 1) \<subseteq> ?S c" using * by auto
  then have "?S (c + 1) \<subset> ?S c" by blast
  ultimately have "card (?S (c + 1)) < card (?S c)" by (auto intro: psubset_card_mono)
  then show "((used, hash, c + 1), used, hash, c) \<in>
      measure (\<lambda>(used, hash, c). card {n. c \<le> n \<and> candidate hash n \<in> set used})"
    by simp
qed auto

declare free_key.simps [simp del]

lemma free_key_fresh: "free_key used hash c \<notin> set used"
  by (induction used hash c rule: free_key.induct) (subst free_key.simps, simp)

section \<open>Without a registry\<close>

text \<open>\<open>generatePluginMapping\<close>, with the set of hashes in use.\<close>

type_synonym plugin_attribute = "ustring \<times> ustring"

definition hash_attribute ::
    "(ustring \<Rightarrow> nat) \<Rightarrow> plugin_attribute \<Rightarrow> key_map \<times> key_map \<times> ustring list \<Rightarrow> key_map \<times> key_map \<times> ustring list" where
  "hash_attribute sha_word e s =
     (let (key, pluginName) = e; (m, r, used) = s;
          k = free_key used (plugin_hash sha_word pluginName key) 0 in
      (obj_set key k m, obj_set k key r, k # used))"

definition generate_plugin_mapping :: "(ustring \<Rightarrow> nat) \<Rightarrow> plugin_attribute list \<Rightarrow> key_map \<times> key_map" where
  "generate_plugin_mapping sha_word attributes =
     (let (m, r, _) = fold (hash_attribute sha_word) attributes ([], [], []) in (m, r))"

section \<open>With the registries\<close>

text \<open>A persisted registry is read from JSON: its keys must be strings.\<close>

record raw_registry =
  rr_mapping :: "(ustring \<times> js_value) list"
  rr_burned :: "js_value burned_entry list"

fun string_of :: "js_value \<Rightarrow> ustring option" where
  "string_of (JString s) = Some s"
| "string_of _ = None"

definition read_plugin_registry :: "ustring \<Rightarrow> raw_registry \<Rightarrow> schema_error + plugin_registry" where
  "read_plugin_registry pluginName raw =
     (case find (\<lambda>(a, v). string_of v = None) (rr_mapping raw) of
        Some (a, v) \<Rightarrow> Inl (Non_String_Mapping pluginName a)
      | None \<Rightarrow>
          if \<exists>b \<in> set (rr_burned raw). string_of (be_key b) = None then Inl (Invalid_Burned pluginName)
          else Inr \<lparr>pr_mapping = map (\<lambda>(a, v). (a, the (string_of v))) (rr_mapping raw),
                    pr_burned = map (\<lambda>b. \<lparr>be_key = the (string_of (be_key b)), be_attribute = be_attribute b,
                      be_at = be_at b, be_reason = be_reason b\<rparr>) (rr_burned raw)\<rparr>)"

text \<open>The attributes of each plugin, in order of first appearance.\<close>

definition group_attribute :: "plugin_attribute \<Rightarrow> (ustring \<times> ustring list) list \<Rightarrow> (ustring \<times> ustring list) list" where
  "group_attribute e g =
     (let (key, pluginName) = e in
      AList.update pluginName ((case map_of g pluginName of Some ks \<Rightarrow> ks | None \<Rightarrow> []) @ [key]) g)"

definition by_plugin :: "plugin_attribute list \<Rightarrow> (ustring \<times> ustring list) list" where
  "by_plugin attributes = fold group_attribute attributes []"

record plugin_assignment =
  pa_map :: key_map
  pa_reversed :: key_map
  pa_used :: "ustring list"
  pa_registries :: "(ustring \<times> plugin_registry) list"
  pa_changed :: bool

text \<open>One attribute: its key from the registry, or a new one.\<close>

definition assign_plugin_key ::
    "(ustring \<Rightarrow> nat) \<Rightarrow> ustring \<Rightarrow> ustring \<Rightarrow> plugin_assignment \<times> plugin_registry \<Rightarrow>
       plugin_assignment \<times> plugin_registry" where
  "assign_plugin_key sha_word pluginName attrName s =
     (let (a, r) = s in
      case map_of (pr_mapping r) attrName of
        Some k \<Rightarrow>
          if k \<noteq> [] then
            (a\<lparr>pa_map := obj_set attrName k (pa_map a), pa_reversed := obj_set k attrName (pa_reversed a)\<rparr>, r)
          else
            let k' = free_key (pa_used a) (plugin_hash sha_word pluginName attrName) 0 in
            (a\<lparr>pa_map := obj_set attrName k' (pa_map a), pa_reversed := obj_set k' attrName (pa_reversed a),
               pa_used := k' # pa_used a, pa_changed := True\<rparr>,
             r\<lparr>pr_mapping := obj_set attrName k' (pr_mapping r)\<rparr>)
      | None \<Rightarrow>
          let k = free_key (pa_used a) (plugin_hash sha_word pluginName attrName) 0 in
          (a\<lparr>pa_map := obj_set attrName k (pa_map a), pa_reversed := obj_set k attrName (pa_reversed a),
             pa_used := k # pa_used a, pa_changed := True\<rparr>,
           r\<lparr>pr_mapping := obj_set attrName k (pr_mapping r)\<rparr>))"

definition burn_plugin_entry ::
    "ustring list \<Rightarrow> ustring \<Rightarrow> ustring \<times> ustring \<Rightarrow> plugin_registry \<times> bool \<Rightarrow> plugin_registry \<times> bool" where
  "burn_plugin_entry keys now e s =
     (let (attr, k) = e; (r, changed) = s in
      if attr \<in> set keys then s
      else
        let burned = (k \<in> set (map be_key (pr_burned r)));
            r' = (if burned then r
                  else r\<lparr>pr_burned := pr_burned r @
                    [\<lparr>be_key = k, be_attribute = attr, be_at = now, be_reason = Some (lit ''removed'')\<rparr>]\<rparr>)
        in (r'\<lparr>pr_mapping := AList.delete attr (pr_mapping r')\<rparr>, changed \<or> \<not> burned))"

text \<open>One plugin: its own registry marks keys as used, its attributes get keys, lost ones are burned.\<close>

definition assign_plugin ::
    "(ustring \<Rightarrow> nat) \<Rightarrow> ustring \<Rightarrow> (ustring \<times> raw_registry) list \<Rightarrow> ustring \<times> ustring list \<Rightarrow>
       plugin_assignment \<Rightarrow> schema_error + plugin_assignment" where
  "assign_plugin sha_word now existing e a =
     (let (pluginName, keys) = e in
      case (case map_of existing pluginName of
              Some raw \<Rightarrow> read_plugin_registry pluginName raw
            | None \<Rightarrow> Inr \<lparr>pr_mapping = [], pr_burned = []\<rparr>) of
        Inl err \<Rightarrow> Inl err
      | Inr r \<Rightarrow>
          let used = pa_used a @ map snd (pr_mapping r) @ map be_key (pr_burned r);
              (a', r') = fold (assign_plugin_key sha_word pluginName) keys (a\<lparr>pa_used := used\<rparr>, r);
              (r'', changed) = fold (burn_plugin_entry keys now) (pr_mapping r') (r', pa_changed a') in
          Inr (a'\<lparr>pa_registries := obj_set pluginName r'' (pa_registries a'), pa_changed := changed\<rparr>))"

fun assign_plugins ::
    "(ustring \<Rightarrow> nat) \<Rightarrow> ustring \<Rightarrow> (ustring \<times> raw_registry) list \<Rightarrow> (ustring \<times> ustring list) list \<Rightarrow>
       plugin_assignment \<Rightarrow> schema_error + plugin_assignment" where
  "assign_plugins sha_word now existing [] a = Inr a"
| "assign_plugins sha_word now existing (e # es) a =
     (case assign_plugin sha_word now existing e a of
        Inl err \<Rightarrow> Inl err
      | Inr a' \<Rightarrow> assign_plugins sha_word now existing es a')"

definition plugin_mapping_from_registry ::
    "(ustring \<Rightarrow> nat) \<Rightarrow> ustring \<Rightarrow> plugin_attribute list \<Rightarrow> (ustring \<times> raw_registry) list \<Rightarrow>
       schema_error + plugin_assignment" where
  "plugin_mapping_from_registry sha_word now attributes existing =
     assign_plugins sha_word now existing (by_plugin attributes)
       \<lparr>pa_map = [], pa_reversed = [], pa_used = [], pa_registries = [], pa_changed = False\<rparr>"

text \<open>\<open>_pluginAttributes\<close>, kept beside the maps (an object, so index-like names come first).\<close>

definition plugin_attribute_lists :: "plugin_attribute list \<Rightarrow> (ustring \<times> ustring list) list" where
  "plugin_attribute_lists attributes =
     fold (\<lambda>(key, pluginName) g.
        obj_set pluginName ((case map_of g pluginName of Some ks \<Rightarrow> ks | None \<Rightarrow> []) @ [key]) g) attributes []"

end
