(* ===== verification/Database_Metadata.thy ===== *)
theory Database_Metadata
  imports Schema_Plugin_Keys
begin

text \<open>
  \<open>core/src/database/database-metadata.class.ts\<close>: the metadata file \<open>s3db.json\<close>, which keeps for every
  resource its versions and the key registries of its schema, and the merge of the own state with
  what other processes have written. The hash of a definition (SHA-256 of its stable JSON text) and
  the definition itself are data of a resource.
\<close>

section \<open>Data\<close>

record 'd version_data =
  vd_hash :: ustring
  vd_definition :: 'd
  vd_created_at :: "ustring option"

record ('d, 'p) resource_metadata =
  rm_current_version :: ustring
  rm_partitions :: 'p
  rm_created_by :: ustring
  rm_versions :: "(ustring \<times> 'd version_data) list"
  rm_schema_registry :: "schema_registry option"
  rm_plugin_registries :: "(ustring \<times> plugin_registry) list option"

record ('d, 'p) saved_metadata =
  sm_version :: ustring
  sm_s3db_version :: ustring
  sm_last_updated :: ustring
  sm_resources :: "(ustring \<times> ('d, 'p) resource_metadata) list"

text \<open>A resource of the running database: what its export and its schema answer.\<close>

record ('d, 'p) live_resource =
  lr_hash :: ustring
  lr_definition :: 'd
  lr_partitions :: 'p
  lr_created_by :: "ustring option"
  lr_version :: ustring
  lr_schema_registry :: "schema_registry option"
  lr_plugin_registries :: "(ustring \<times> plugin_registry) list option"
  lr_map :: key_map
  lr_plugin_map :: key_map
  lr_plugin_attributes :: "(ustring \<times> ustring list) list"

record ('d, 'p) database_state =
  db_version :: ustring
  db_s3db_version :: ustring
  db_resources :: "(ustring \<times> ('d, 'p) live_resource) list"
  db_saved :: "('d, 'p) saved_metadata option"

section \<open>Versions\<close>

text \<open>\<open>parseInt(s)\<close>: white space, a sign, hexadecimal after \<open>0x\<close>, and the digits at the front.\<close>

fun hex_prefix :: "ustring \<Rightarrow> nat option \<Rightarrow> nat option" where
  "hex_prefix [] a = a"
| "hex_prefix (u # s) a =
     (case hex_value u of
        Some i \<Rightarrow> hex_prefix s (Some ((case a of Some n \<Rightarrow> n * 16 | None \<Rightarrow> 0) + i))
      | None \<Rightarrow> a)"

definition parse_int :: "ustring \<Rightarrow> int option" where
  "parse_int s =
     (let t = dropWhile is_space s; neg = (t \<noteq> [] \<and> hd t = 45);
          u = (if t \<noteq> [] \<and> hd t \<in> {43, 45} then tl t else t);
          n = (if radix_literal u = Some 16 then hex_prefix (drop 2 u) None
               else let ds = takeWhile is_digit u in if ds = [] then None else Some (digits_value ds)) in
      map_option (\<lambda>n. if neg then - int n else int n) n)"

definition get_next_version :: "(ustring \<times> 'v) list \<Rightarrow> ustring" where
  "get_next_version versions =
     (let ns = List.map_filter parse_int
                 (map tl (filter (\<lambda>v. starts_with v (lit ''v'')) (map fst versions)));
          m = (if ns = [] then 0 else Max (set ns)) in
      lit ''v'' @ int_text (m + 1))"

definition current_version :: "('d, 'p) resource_metadata option \<Rightarrow> ustring" where
  "current_version existing =
     (case existing of
        Some m \<Rightarrow> if rm_current_version m = [] then lit ''v1'' else rm_current_version m
      | None \<Rightarrow> lit ''v1'')"

definition versions_of :: "('d, 'p) resource_metadata option \<Rightarrow> (ustring \<times> 'd version_data) list" where
  "versions_of existing = (case existing of Some m \<Rightarrow> rm_versions m | None \<Rightarrow> [])"

text \<open>\<open>detectDefinitionChanges\<close>: against the saved metadata, new, changed and deleted resources.\<close>

datatype definition_change =
    New_Resource ustring ustring
  | Changed_Resource ustring ustring "ustring option" ustring ustring
  | Deleted_Resource ustring "ustring option" ustring

definition saved_hash :: "('d, 'p) resource_metadata \<Rightarrow> ustring option" where
  "saved_hash m = map_option vd_hash (map_of (rm_versions m) (current_version (Some m)))"

definition detect_definition_changes ::
    "(ustring \<times> ('d, 'p) live_resource) list \<Rightarrow> ('d, 'p) saved_metadata \<Rightarrow> definition_change list" where
  "detect_definition_changes resources saved =
     List.map_filter (\<lambda>(name, r).
        case map_of (sm_resources saved) name of
          None \<Rightarrow> Some (New_Resource name (lr_hash r))
        | Some m \<Rightarrow>
            if saved_hash m \<noteq> Some (lr_hash r) then
              Some (Changed_Resource name (lr_hash r)
                (case saved_hash m of Some h \<Rightarrow> if h = [] then None else Some h | None \<Rightarrow> None)
                (current_version (Some m)) (get_next_version (rm_versions m)))
            else None) resources @
     List.map_filter (\<lambda>(name, m).
        if name \<in> fst ` set resources then None
        else Some (Deleted_Resource name
          (case saved_hash m of Some h \<Rightarrow> if h = [] then None else Some h | None \<Rightarrow> None)
          (current_version (Some m)))) (sm_resources saved)"

section \<open>Merging registries\<close>

text \<open>
  \<open>_mergeSchemaRegistry\<close>. Attributes are not named after members of \<open>Object.prototype\<close> here. Of two
  different indices of an attribute the larger one stays; a burned entry of the other side with a
  known index is dropped.
\<close>

definition merge_index :: "ustring \<times> int \<Rightarrow> (ustring \<times> int) list \<Rightarrow> (ustring \<times> int) list" where
  "merge_index e m =
     (let (attr, i) = e in
      case map_of m attr of
        None \<Rightarrow> obj_set attr i m
      | Some j \<Rightarrow> if j \<noteq> i then obj_set attr (max j i) m else m)"

definition merge_burned :: "'k burned_entry list \<Rightarrow> 'k burned_entry list \<Rightarrow> 'k burned_entry list" where
  "merge_burned fresh local =
     (let byKey = fold (\<lambda>e m. AList.update (be_key e) e m) fresh [] in
      map snd (fold (\<lambda>e m. if be_key e \<in> fst ` set m then m else AList.update (be_key e) e m) local byKey))"

definition merge_schema_registry ::
    "schema_registry option \<Rightarrow> schema_registry option \<Rightarrow> schema_registry option" where
  "merge_schema_registry fresh local =
     (case (fresh, local) of
        (None, None) \<Rightarrow> None
      | (None, Some l) \<Rightarrow> Some l
      | (Some f, None) \<Rightarrow> Some f
      | (Some f, Some l) \<Rightarrow>
          Some \<lparr>sr_next = max (sr_next f) (sr_next l),
                sr_mapping = fold merge_index (sr_mapping l) (sr_mapping f),
                sr_burned = merge_burned (sr_burned f) (sr_burned l)\<rparr>)"

definition merge_single_plugin_registry :: "plugin_registry \<Rightarrow> plugin_registry \<Rightarrow> plugin_registry" where
  "merge_single_plugin_registry fresh local =
     \<lparr>pr_mapping = fold (\<lambda>(attr, k) m. if attr \<in> fst ` set m then m else obj_set attr k m)
        (pr_mapping local) (pr_mapping fresh),
      pr_burned = merge_burned (pr_burned fresh) (pr_burned local)\<rparr>"

definition merge_plugin_registries ::
    "(ustring \<times> plugin_registry) list option \<Rightarrow> (ustring \<times> plugin_registry) list option \<Rightarrow>
       (ustring \<times> plugin_registry) list option" where
  "merge_plugin_registries fresh local =
     (case (fresh, local) of
        (None, None) \<Rightarrow> None
      | (None, Some l) \<Rightarrow> Some l
      | (Some f, None) \<Rightarrow> Some f
      | (Some f, Some l) \<Rightarrow>
          Some (obj_of (List.map_filter (\<lambda>p.
            case (map_of f p, map_of l p) of
              (None, Some r) \<Rightarrow> Some (p, r)
            | (Some r, None) \<Rightarrow> Some (p, r)
            | (Some a, Some b) \<Rightarrow> Some (p, merge_single_plugin_registry a b)
            | (None, None) \<Rightarrow> None)
            (map fst f @ filter (\<lambda>p. p \<notin> fst ` set f) (map fst l)))))"

section \<open>The metadata file\<close>

text \<open>\<open>_mergeMetadata\<close>: of a resource both sides know, only the registries are merged.\<close>

definition merge_resource ::
    "ustring \<times> ('d, 'p) resource_metadata \<Rightarrow> (ustring \<times> ('d, 'p) resource_metadata) list \<Rightarrow>
       (ustring \<times> ('d, 'p) resource_metadata) list \<Rightarrow> (ustring \<times> ('d, 'p) resource_metadata) list" where
  "merge_resource e fresh merged =
     (let (name, local) = e in
      case map_of fresh name of
        None \<Rightarrow> obj_set name local merged
      | Some f \<Rightarrow>
          obj_set name (local\<lparr>
            rm_schema_registry := merge_schema_registry (rm_schema_registry f) (rm_schema_registry local),
            rm_plugin_registries := merge_plugin_registries (rm_plugin_registries f) (rm_plugin_registries local)\<rparr>)
            merged)"

definition merge_metadata :: "('d, 'p) saved_metadata \<Rightarrow> ('d, 'p) saved_metadata \<Rightarrow> ('d, 'p) saved_metadata" where
  "merge_metadata fresh local =
     local\<lparr>sm_resources :=
       fold (\<lambda>e m. merge_resource e (sm_resources fresh) m) (sm_resources local) (sm_resources fresh)\<rparr>"

text \<open>\<open>_buildLocalMetadata\<close>: the entry of one resource and the version it is at.\<close>

definition or_empty :: "ustring option \<Rightarrow> ustring \<Rightarrow> ustring" where
  "or_empty a b = (case a of Some s \<Rightarrow> if s = [] then b else s | None \<Rightarrow> b)"

definition build_resource ::
    "ustring \<Rightarrow> ('d, 'p) saved_metadata option \<Rightarrow> ustring \<Rightarrow> ('d, 'p) live_resource \<Rightarrow>
       ('d, 'p) resource_metadata" where
  "build_resource now saved name r =
     (let existing = (case saved of Some m \<Rightarrow> map_of (sm_resources m) name | None \<Rightarrow> None);
          current = current_version existing;
          existingVersion = map_of (versions_of existing) current;
          isNew = (case existingVersion of Some v \<Rightarrow> vd_hash v \<noteq> lr_hash r | None \<Rightarrow> True);
          version = (if isNew then get_next_version (versions_of existing) else current);
          data = \<lparr>vd_hash = lr_hash r, vd_definition = lr_definition r,
                  vd_created_at = (if isNew then Some now
                    else case existingVersion of Some v \<Rightarrow> vd_created_at v | None \<Rightarrow> None)\<rparr>;
          own = lr_schema_registry r;
          schema = (case own of Some q \<Rightarrow> Some q
                    | None \<Rightarrow> (case existing of Some m \<Rightarrow> rm_schema_registry m | None \<Rightarrow> None));
          plugins = (case lr_plugin_registries r of Some q \<Rightarrow> Some q
                     | None \<Rightarrow> (case existing of Some m \<Rightarrow> rm_plugin_registries m | None \<Rightarrow> None)) in
      \<lparr>rm_current_version = version, rm_partitions = lr_partitions r,
       rm_created_by = or_empty (map_option rm_created_by existing) (or_empty (lr_created_by r) (lit ''user'')),
       rm_versions = obj_set version data (versions_of existing),
       rm_schema_registry = (case schema of Some q \<Rightarrow> Some q
         | None \<Rightarrow> Some (initial_schema_registry (lr_map r))),
       rm_plugin_registries = (case schema of Some q \<Rightarrow> plugins
         | None \<Rightarrow> Some (initial_plugin_registries (lr_plugin_attributes r) (lr_plugin_map r)))\<rparr>)"

definition build_local_metadata :: "ustring \<Rightarrow> ('d, 'p) database_state \<Rightarrow> ('d, 'p) saved_metadata" where
  "build_local_metadata now db =
     \<lparr>sm_version = db_version db, sm_s3db_version = db_s3db_version db, sm_last_updated = now,
      sm_resources = obj_of (map (\<lambda>(name, r). (name, build_resource now (db_saved db) name r)) (db_resources db))\<rparr>"

text \<open>Building also moves the resources to the versions it has chosen.\<close>

definition update_versions :: "('d, 'p) saved_metadata \<Rightarrow> ('d, 'p) database_state \<Rightarrow> ('d, 'p) database_state" where
  "update_versions local db =
     db\<lparr>db_resources := map (\<lambda>(name, r).
        (name, case map_of (sm_resources local) name of
           Some m \<Rightarrow> r\<lparr>lr_version := rm_current_version m\<rparr> | None \<Rightarrow> r)) (db_resources db)\<rparr>"

text \<open>
  \<open>uploadMetadataFile\<close>. Without a mutex the file is overwritten. With one, \<open>tryLock\<close> is asked up to
  three times (its answers are an argument); under the lock the file is read, merged and written. A
  file that cannot be read, for whatever reason, counts as missing.
\<close>

definition write_metadata ::
    "('d, 'p) saved_metadata \<Rightarrow> ('d, 'p) database_state \<Rightarrow>
       ('d, 'p) database_state \<times> ('d, 'p) saved_metadata option" where
  "write_metadata m db = (db\<lparr>db_saved := Some m\<rparr>, Some m)"

definition upload_without_lock ::
    "ustring \<Rightarrow> ('d, 'p) database_state \<Rightarrow> ('d, 'p) database_state \<times> ('d, 'p) saved_metadata option" where
  "upload_without_lock now db =
     (let local = build_local_metadata now db in write_metadata local (update_versions local db))"

definition locked_upload ::
    "ustring \<Rightarrow> ('d, 'p) saved_metadata option \<Rightarrow> ('d, 'p) database_state \<Rightarrow>
       ('d, 'p) database_state \<times> ('d, 'p) saved_metadata option" where
  "locked_upload now fresh db =
     (let local = build_local_metadata now db;
          final = (case fresh of Some f \<Rightarrow> merge_metadata f local | None \<Rightarrow> local) in
      write_metadata final (update_versions local db))"

fun upload_with_lock ::
    "nat \<Rightarrow> bool list \<Rightarrow> ustring \<Rightarrow> ('d, 'p) saved_metadata option \<Rightarrow> ('d, 'p) database_state \<Rightarrow>
       (('d, 'p) database_state \<times> ('d, 'p) saved_metadata option) option" where
  "upload_with_lock attempt [] now fresh db = None"
| "upload_with_lock attempt (acquired # replies) now fresh db =
     (if acquired then Some (locked_upload now fresh db)
      else if attempt + 1 \<ge> 3 then None
      else upload_with_lock (attempt + 1) replies now fresh db)"

end
