(* ===== verification/Schema_Keys_Props.thy ===== *)
theory Schema_Keys_Props
  imports Schema_Plugin_Keys
begin

text \<open>
  What the key registries promise: well-formed registries after every history of schema versions,
  keys that never change hands, and the cases in which plugin keys and inherited names do collide.
\<close>

section \<open>Well-formed registries\<close>

abbreviation index_of_attr :: "schema_registry \<Rightarrow> ustring \<Rightarrow> int option" where
  "index_of_attr r \<equiv> map_of (sr_mapping r)"

definition burned_indices :: "schema_registry \<Rightarrow> int set" where
  "burned_indices r = set (map be_key (sr_burned r))"

definition registry_ok :: "schema_registry \<Rightarrow> bool" where
  "registry_ok r \<longleftrightarrow>
     distinct_keys (sr_mapping r) \<and> 0 \<le> sr_next r \<and>
     (\<forall>a b i. index_of_attr r a = Some i \<longrightarrow> index_of_attr r b = Some i \<longrightarrow> a = b) \<and>
     (\<forall>a i. index_of_attr r a = Some i \<longrightarrow> 0 \<le> i \<and> i < sr_next r \<and> i \<notin> burned_indices r) \<and>
     (\<forall>i \<in> burned_indices r. 0 \<le> i \<and> i < sr_next r)"

definition plain_names :: "ustring list \<Rightarrow> bool" where
  "plain_names keys \<longleftrightarrow> set keys \<inter> set prototype_keys = {}"

lemma empty_registry_ok [simp]: "registry_ok empty_registry"
  by (simp add: registry_ok_def empty_registry_def burned_indices_def)

lemma registry_okD:
  assumes "registry_ok r"
  shows "distinct_keys (sr_mapping r)" "0 \<le> sr_next r"
    "index_of_attr r a = Some i \<Longrightarrow> index_of_attr r b = Some i \<Longrightarrow> a = b"
    "index_of_attr r a = Some i \<Longrightarrow> 0 \<le> i \<and> i < sr_next r \<and> i \<notin> burned_indices r"
    "i \<in> burned_indices r \<Longrightarrow> 0 \<le> i \<and> i < sr_next r"
  using assms unfolding registry_ok_def by blast+

lemma raise_next_ok: "registry_ok r \<Longrightarrow> raise_next r = (r, False)"
proof -
  assume ok: "registry_ok r"
  let ?S = "insert (- 1) (set (map snd (sr_mapping r)) \<union> set (map be_key (sr_burned r)))"
  have "i < sr_next r" if "i \<in> ?S" for i
  proof -
    have "\<exists>a. index_of_attr r a = Some i" if "i \<in> set (map snd (sr_mapping r))"
      using that registry_okD(1) [OF ok] by (auto simp: distinct_keys_def)
    with \<open>i \<in> ?S\<close> show ?thesis
      using registry_okD(2,4,5) [OF ok] by (auto simp: burned_indices_def)
  qed
  then have "Max ?S < sr_next r" by (subst Max_less_iff) auto
  then have "\<not> sr_next r \<le> Max ?S" by linarith
  then show ?thesis unfolding raise_next_def Let_def by (simp only: if_False)
qed

text \<open>The key of an index determines it.\<close>

lemma encode_key_inj: "encode_key (Num (of_int i)) = encode_key (Num (of_int j)) \<longleftrightarrow> i = j"
proof
  assume "encode_key (Num (of_int i)) = encode_key (Num (of_int j))"
  then have "decode_key (encode_key (Num (of_int i))) = decode_key (encode_key (Num (of_int j)))" by simp
  then show "i = j" by (simp add: decode_key_def encode_key_def base36.decode_encode)
qed simp

section \<open>Assigning keys\<close>

text \<open>
  While keys are assigned: the maps hold the keys of the indices, and are inverse to each other.
\<close>

definition assignment_ok :: "assignment \<Rightarrow> bool" where
  "assignment_ok a \<longleftrightarrow>
     registry_ok (as_registry a) \<and>
     (\<forall>x k. map_of (as_map a) x = Some k \<longrightarrow>
        (\<exists>i. index_of_attr (as_registry a) x = Some i \<and> k = encode_key (Num (of_int i)))) \<and>
     (\<forall>x k. map_of (as_reversed a) k = Some x \<longleftrightarrow> map_of (as_map a) x = Some k)"

lemma assign_key_ok:
  assumes ok: "assignment_ok a" and plain: "key \<notin> set prototype_keys"
  defines "a' \<equiv> assign_key key a"
  shows "assignment_ok a'"
    "index_of_attr (as_registry a) x = Some i \<Longrightarrow> index_of_attr (as_registry a') x = Some i"
    "burned_indices (as_registry a') = burned_indices (as_registry a)"
    "dom (map_of (as_map a')) = insert key (dom (map_of (as_map a)))"
    "dom (index_of_attr (as_registry a')) = insert key (dom (index_of_attr (as_registry a)))"
proof -
  let ?r = "as_registry a"
  obtain i where i: "index_of_attr (as_registry a') key = Some i"
    and reg: "registry_ok (as_registry a')"
    and old: "\<And>x j. index_of_attr ?r x = Some j \<Longrightarrow> index_of_attr (as_registry a') x = Some j"
    and dom: "dom (index_of_attr (as_registry a')) = insert key (dom (index_of_attr ?r))"
    and burned: "burned_indices (as_registry a') = burned_indices ?r"
    and maps: "as_map a' = obj_set key (encode_key (Num (of_int i))) (as_map a)"
      "as_reversed a' = obj_set (encode_key (Num (of_int i))) key (as_reversed a)"
  proof (cases "index_of_attr ?r key")
    case (Some i)
    with ok show ?thesis
      by (intro that [of i]) (auto simp: a'_def assign_key_def registered_def Let_def assignment_ok_def)
  next
    case None
    let ?n = "sr_next ?r"
    have eq: "as_registry a' = ?r\<lparr>sr_next := ?n + 1, sr_mapping := obj_set key ?n (sr_mapping ?r)\<rparr>"
      "as_map a' = obj_set key (encode_key (Num (of_int ?n))) (as_map a)"
      "as_reversed a' = obj_set (encode_key (Num (of_int ?n))) key (as_reversed a)"
      using None plain by (simp_all add: a'_def assign_key_def registered_def Let_def)
    have r: "registry_ok ?r" using ok by (simp add: assignment_ok_def)
    have burned: "burned_indices (as_registry a') = burned_indices ?r" by (simp add: eq burned_indices_def)
    have f: "index_of_attr (as_registry a') = (index_of_attr ?r)(key \<mapsto> ?n)" "sr_next (as_registry a') = ?n + 1"
      by (simp_all add: eq store_simps)
    have d: "distinct_keys (sr_mapping (as_registry a'))" using registry_okD(1) [OF r] by (simp add: eq)
    have low: "0 \<le> i" "i < ?n" "i \<notin> burned_indices ?r" if "index_of_attr ?r x = Some i" for x i
      using registry_okD(4) [OF r that] by auto
    have "?n \<notin> burned_indices ?r" using registry_okD(5) [OF r, of ?n] by auto
    then have "registry_ok (as_registry a')"
      unfolding registry_ok_def burned f
      using d registry_okD(2,3,5) [OF r] low by (auto split: if_splits) (metis less_irrefl less_imp_le)+
    with None eq burned show ?thesis by (intro that [of ?n]) (auto simp: store_simps)
  qed
  have mono: "\<exists>j. index_of_attr (as_registry a') x = Some j \<and> k = encode_key (Num (of_int j))"
    if "map_of (as_map a') x = Some k" for x k
  proof (cases "x = key")
    case False
    with that maps have "map_of (as_map a) x = Some k" by (simp add: store_simps)
    with ok old show ?thesis unfolding assignment_ok_def by blast
  qed (use that i maps in \<open>simp add: store_simps\<close>)
  have "map_of (as_reversed a') k = Some x \<longleftrightarrow> map_of (as_map a') x = Some k" for x k
  proof (cases "k = encode_key (Num (of_int i))")
    case True
    have "x = key" if "map_of (as_map a') x = Some k"
    proof -
      from mono [OF that] obtain j where "index_of_attr (as_registry a') x = Some j"
        "k = encode_key (Num (of_int j))" by blast
      with True i registry_okD(3) [OF reg, of x j key] show "x = key" by (simp add: encode_key_inj)
    qed
    moreover have "map_of (as_reversed a') k = Some key" "map_of (as_map a') key = Some k"
      unfolding maps True by (simp_all add: store_simps)
    ultimately show ?thesis by auto
  next
    case False
    have "map_of (as_map a) key \<noteq> Some k"
    proof
      assume "map_of (as_map a) key = Some k"
      with ok obtain j where "index_of_attr ?r key = Some j" "k = encode_key (Num (of_int j))"
        unfolding assignment_ok_def by blast
      with old i False show False by simp
    qed
    with False ok maps show ?thesis by (auto simp: store_simps assignment_ok_def)
  qed
  with reg mono show "assignment_ok a'" unfolding assignment_ok_def by blast
  show "index_of_attr ?r x = Some i \<Longrightarrow> index_of_attr (as_registry a') x = Some i" for x i by (rule old)
  show "burned_indices (as_registry a') = burned_indices ?r" by (rule burned)
  show "dom (map_of (as_map a')) = insert key (dom (map_of (as_map a)))"
    by (simp add: maps store_simps)
  show "dom (index_of_attr (as_registry a')) = insert key (dom (index_of_attr ?r))" by (rule dom)
qed

lemma assign_keys_ok:
  assumes "assignment_ok a" "plain_names keys"
  defines "a' \<equiv> fold assign_key keys a"
  shows "assignment_ok a' \<and>
    (\<forall>x i. index_of_attr (as_registry a) x = Some i \<longrightarrow> index_of_attr (as_registry a') x = Some i) \<and>
    burned_indices (as_registry a') = burned_indices (as_registry a) \<and>
    dom (map_of (as_map a')) = set keys \<union> dom (map_of (as_map a)) \<and>
    dom (index_of_attr (as_registry a')) = set keys \<union> dom (index_of_attr (as_registry a))"
  using assms(1,2) unfolding a'_def
proof (induction keys arbitrary: a)
  case (Cons key keys)
  then have plain: "key \<notin> set prototype_keys" "plain_names keys" by (auto simp: plain_names_def)
  note step = assign_key_ok [OF Cons.prems(1) plain(1)]
  from Cons.IH [OF step(1) plain(2)] step(2-5) show ?case by auto
qed simp

section \<open>Burning keys\<close>

lemma burn_fold:
  defines "burn \<equiv> (\<lambda>keys now es s. fold (burn_entry keys now) es s)"
  shows "fst (burn keys now es (r, c)) = r' \<Longrightarrow>
    map_of (sr_mapping r') = map_of (sr_mapping r) |` (- (fst ` set es - set keys)) \<and>
    burned_indices r' = burned_indices r \<union> {i. \<exists>a. (a, i) \<in> set es \<and> a \<notin> set keys} \<and>
    sr_next r' = sr_next r \<and> (distinct_keys (sr_mapping r) \<longrightarrow> distinct_keys (sr_mapping r'))"
  unfolding burn_def
proof (induction es arbitrary: r c)
  case (Cons e es)
  obtain a i where e: "e = (a, i)" by (cases e)
  obtain r1 c1 where step: "burn_entry keys now e (r, c) = (r1, c1)" by (cases "burn_entry keys now e (r, c)")
  have "map_of (sr_mapping r1) = map_of (sr_mapping r) |` (- ({a} - set keys)) \<and>
    burned_indices r1 = burned_indices r \<union> (if a \<in> set keys then {} else {i}) \<and>
    sr_next r1 = sr_next r \<and> (distinct_keys (sr_mapping r) \<longrightarrow> distinct_keys (sr_mapping r1))"
    using step unfolding e
    by (auto simp: burn_entry_def Let_def burned_indices_def store_simps fun_eq_iff restrict_map_def
        split: if_splits)
  with Cons.IH [of r1 c1] Cons.prems step e show ?case
    by (auto simp: restrict_map_def fun_eq_iff)
qed auto

lemma burn_removed_ok:
  fixes keys now c
  assumes ok: "registry_ok r"
  defines "r' \<equiv> fst (burn_removed keys now (r, c))"
  shows "registry_ok r'" "index_of_attr r' = index_of_attr r |` set keys"
    "burned_indices r' = burned_indices r \<union> ran (index_of_attr r |` (- set keys))"
proof -
  have d: "distinct_keys (sr_mapping r)" using ok by (rule registry_okD)
  have ent: "(a, i) \<in> set (sr_mapping r) \<longleftrightarrow> index_of_attr r a = Some i" for a i
    using d by (simp add: distinct_keys_def)
  note f = burn_fold [of keys now "sr_mapping r" r c r']
  have f': "map_of (sr_mapping r') = map_of (sr_mapping r) |` (- (fst ` set (sr_mapping r) - set keys))"
    "burned_indices r' = burned_indices r \<union> {i. \<exists>a. (a, i) \<in> set (sr_mapping r) \<and> a \<notin> set keys}"
    "sr_next r' = sr_next r" "distinct_keys (sr_mapping r')"
    using f d by (simp_all add: r'_def burn_removed_def)
  have dom: "fst ` set (sr_mapping r) = dom (index_of_attr r)" by (simp add: dom_map_of_conv_image_fst)
  show m: "index_of_attr r' = index_of_attr r |` set keys"
    unfolding f'(1) dom by (auto simp: restrict_map_def fun_eq_iff)
  show b: "burned_indices r' = burned_indices r \<union> ran (index_of_attr r |` (- set keys))"
    unfolding f'(2) by (auto simp: ent ran_def restrict_map_def)
  show "registry_ok r'"
    unfolding registry_ok_def m b f'(3)
    using f'(4) registry_okD [OF ok]
    by (auto simp: restrict_map_def ran_def split: if_splits; metis)
qed

section \<open>Versions of a schema\<close>

text \<open>One version: the keys it assigns, and the registry it leaves behind.\<close>

lemma mapping_from_registry_ok:
  fixes now
  assumes ok: "registry_ok r" and plain: "plain_names keys"
  defines "a \<equiv> mapping_from_registry now keys (Some r)"
  shows "registry_ok (as_registry a)"
    "map_of (as_map a) = map_option (\<lambda>i. encode_key (Num (of_int i))) \<circ> index_of_attr (as_registry a)"
    "dom (index_of_attr (as_registry a)) = set keys"
    "x \<in> set keys \<Longrightarrow> index_of_attr r x = Some i \<Longrightarrow> index_of_attr (as_registry a) x = Some i"
    "x \<notin> set keys \<Longrightarrow> index_of_attr r x = Some i \<Longrightarrow> i \<in> burned_indices (as_registry a)"
    "burned_indices r \<subseteq> burned_indices (as_registry a)"
    "map_of (as_reversed a) k = Some x \<longleftrightarrow> map_of (as_map a) x = Some k"
proof -
  define b where "b = fold assign_key keys \<lparr>as_map = [], as_reversed = [], as_registry = r, as_changed = False\<rparr>"
  define q where "q = fst (burn_removed keys now (as_registry b, as_changed b))"
  have a: "as_map a = as_map b" "as_reversed a = as_reversed b" "as_registry a = q"
    by (simp_all add: a_def mapping_from_registry_def raise_next_ok [OF ok] b_def q_def Let_def split: prod.splits)
  have start: "assignment_ok \<lparr>as_map = [], as_reversed = [], as_registry = r, as_changed = False\<rparr>"
    using ok by (simp add: assignment_ok_def)
  note all = assign_keys_ok [OF start plain, folded b_def, simplified]
  have b: "assignment_ok b" "registry_ok (as_registry b)" using all by (simp_all add: assignment_ok_def)
  note burn = burn_removed_ok [OF b(2), of keys now "as_changed b", folded q_def]
  show "registry_ok (as_registry a)" using burn(1) a by simp
  show dom: "dom (index_of_attr (as_registry a)) = set keys" using burn(2) all a by auto
  show "map_of (as_map a) = map_option (\<lambda>i. encode_key (Num (of_int i))) \<circ> index_of_attr (as_registry a)"
  proof
    fix x
    show "map_of (as_map a) x = (map_option (\<lambda>i. encode_key (Num (of_int i))) \<circ> index_of_attr (as_registry a)) x"
    proof (cases "x \<in> set keys")
      case True
      with all obtain k where k: "map_of (as_map b) x = Some k" by blast
      with b(1) obtain i where "index_of_attr (as_registry b) x = Some i" "k = encode_key (Num (of_int i))"
        unfolding assignment_ok_def by blast
      with True k burn(2) a show ?thesis by simp
    next
      case False
      with all dom have "map_of (as_map b) x = None" "index_of_attr (as_registry a) x = None" by blast+
      with a show ?thesis by simp
    qed
  qed
  show "x \<in> set keys \<Longrightarrow> index_of_attr r x = Some i \<Longrightarrow> index_of_attr (as_registry a) x = Some i"
    using all burn(2) a by simp
  show "x \<notin> set keys \<Longrightarrow> index_of_attr r x = Some i \<Longrightarrow> i \<in> burned_indices (as_registry a)"
  proof -
    assume x: "x \<notin> set keys" "index_of_attr r x = Some i"
    with all have "index_of_attr (as_registry b) x = Some i" by blast
    with x(1) burn(3) a show "i \<in> burned_indices (as_registry a)"
      by (auto simp: ran_def restrict_map_def)
  qed
  show "burned_indices r \<subseteq> burned_indices (as_registry a)" using all burn(3) a by auto
  show "map_of (as_reversed a) k = Some x \<longleftrightarrow> map_of (as_map a) x = Some k"
    using b(1) a unfolding assignment_ok_def by simp
qed

text \<open>The registry after a history of versions, each with its time and its attributes.\<close>

definition registry_after :: "(ustring \<times> ustring list) list \<Rightarrow> schema_registry" where
  "registry_after versions =
     fold (\<lambda>(now, keys) r. as_registry (mapping_from_registry now keys (Some r))) versions empty_registry"

definition version_map :: "(ustring \<times> ustring list) list \<Rightarrow> ustring \<times> ustring list \<Rightarrow> key_map" where
  "version_map versions v = as_map (mapping_from_registry (fst v) (snd v) (Some (registry_after versions)))"

lemma registry_after_snoc:
  "registry_after (vs @ [v]) =
     as_registry (mapping_from_registry (fst v) (snd v) (Some (registry_after vs)))"
  by (simp add: registry_after_def case_prod_beta)

lemma registry_after_ok: "\<forall>v \<in> set vs. plain_names (snd v) \<Longrightarrow> registry_ok (registry_after vs)"
proof (induction vs rule: rev_induct)
  case (snoc v vs)
  then show ?case unfolding registry_after_snoc by (intro mapping_from_registry_ok(1)) simp_all
qed (simp add: registry_after_def)

text \<open>Once an attribute has an index, the index is either still its own or burned.\<close>

lemma index_fate:
  assumes "\<forall>v \<in> set (vs @ ws). plain_names (snd v)" "index_of_attr (registry_after vs) a = Some i"
  shows "if \<forall>w \<in> set ws. a \<in> set (snd w) then index_of_attr (registry_after (vs @ ws)) a = Some i
    else i \<in> burned_indices (registry_after (vs @ ws))"
  using assms
proof (induction ws rule: rev_induct)
  case (snoc w ws)
  let ?r = "registry_after (vs @ ws)"
  have ok: "registry_ok ?r" using snoc.prems(1) by (intro registry_after_ok) auto
  have plain: "plain_names (snd w)" using snoc.prems(1) by simp
  note step = mapping_from_registry_ok [OF ok plain, where now = "fst w"]
  have IH: "if \<forall>w \<in> set ws. a \<in> set (snd w) then index_of_attr ?r a = Some i else i \<in> burned_indices ?r"
    using snoc.prems by (intro snoc.IH) auto
  have "registry_after (vs @ ws @ [w]) =
      as_registry (mapping_from_registry (fst w) (snd w) (Some ?r))"
    using registry_after_snoc [of "vs @ ws" w] by simp
  with IH step(4) [of a i] step(5) [of a i] step(6) show ?case by (auto split: if_splits)
qed simp

section \<open>Migration of an unregistered schema\<close>

lemma keys_obj_set [simp]: "fst ` set (obj_set k v m) = insert k (fst ` set m)"
  unfolding dom_map_of_conv_image_fst [symmetric] by (simp add: map_of_obj_set)

lemma base36_from_map:
  "distinct keys \<Longrightarrow> set keys \<inter> fst ` set m = {} \<Longrightarrow>
     map_of (fst (base36_from i keys (m, r))) x =
       (if x \<in> set keys then Some (encode_key (Num (of_nat (i + length (takeWhile (\<lambda>y. y \<noteq> x) keys)))))
        else map_of m x)"
proof (induction keys arbitrary: i m r)
  case (Cons key keys)
  let ?k = "encode_key (Num (of_nat i))"
  have fresh: "set keys \<inter> fst ` set (obj_set key ?k m) = {}"
    using Cons.prems by auto
  have "distinct keys" using Cons.prems by simp
  from Cons.IH [OF this fresh] Cons.prems show ?case by (auto simp: Let_def store_simps add_ac)
qed simp

lemma base36_map_values:
  assumes "distinct keys"
  shows "map_of (fst (generate_base36_mapping keys)) x =
    (if x \<in> set keys then Some (encode_key (Num (of_nat (length (takeWhile (\<lambda>y. y \<noteq> x) keys))))) else None)"
  using base36_from_map [OF assms, of "[]" 0 "[]"] by (simp add: generate_base36_mapping_def)

lemma distinct_base36_from: "distinct_keys m \<Longrightarrow> distinct_keys (fst (base36_from i keys (m, r)))"
  by (induction keys arbitrary: i m r) (simp_all add: Let_def)

lemma key_index_encode: "key_index (encode_key (Num (of_nat n))) = Some (int n)"
  by (simp add: key_index_def decode_key_def encode_key_def base36.decode_encode)

text \<open>The registry that freezes the positions of the attributes.\<close>

lemma initial_registry_ok:
  assumes "distinct keys"
  defines "r \<equiv> initial_schema_registry (fst (generate_base36_mapping keys))"
  shows "registry_ok r"
    "x \<in> set keys \<Longrightarrow> index_of_attr r x = Some (int (length (takeWhile (\<lambda>y. y \<noteq> x) keys)))"
proof -
  let ?m = "fst (generate_base36_mapping keys)" and ?p = "\<lambda>x. length (takeWhile (\<lambda>y. y \<noteq> x) keys)"
  have d: "distinct_keys ?m" by (simp add: generate_base36_mapping_def distinct_base36_from)
  have fst_legacy: "map fst (legacy_indices m) = map fst m" for m
    by (induction m) (auto simp: legacy_indices_def)
  then have dl: "distinct_keys (legacy_indices ?m)" using d by (simp add: distinct_keys_def)
  have leg: "map_of (legacy_indices m) x = map_option (\<lambda>k. case key_index k of Some i \<Rightarrow> i | None \<Rightarrow> 0) (map_of m x)" for m x
    by (induction m) (auto simp: legacy_indices_def)
  have idx: "index_of_attr r x = (if x \<in> set keys then Some (int (?p x)) else None)" for x
    by (simp add: r_def initial_schema_registry_def map_of_obj_of [OF dl] leg
        base36_map_values [OF assms(1)] key_index_encode)
  then show "x \<in> set keys \<Longrightarrow> index_of_attr r x = Some (int (?p x))" by simp
  have pos: "keys ! ?p x = x" if "x \<in> set keys" for x
    using that by (induction keys) auto
  let ?S = "insert (- 1) (set (map snd (legacy_indices ?m)))"
  have fin: "finite ?S" by simp
  have next_r: "sr_next r = Max ?S + 1" "burned_indices r = {}"
    by (simp_all add: r_def initial_schema_registry_def burned_indices_def)
  have le: "i \<le> Max ?S" "0 \<le> i" if "index_of_attr r x = Some i" for x i
  proof -
    from that have "map_of (legacy_indices ?m) x = Some i"
      by (simp add: r_def initial_schema_registry_def map_of_obj_of [OF dl])
    then have "i \<in> ?S" by (auto dest: map_of_SomeD simp: rev_image_eqI)
    with fin show "i \<le> Max ?S" by (rule Max_ge)
    from that show "0 \<le> i" by (auto simp: idx split: if_splits)
  qed
  show "registry_ok r"
    unfolding registry_ok_def
  proof (intro conjI allI impI ballI)
    show "distinct_keys (sr_mapping r)" by (simp add: r_def initial_schema_registry_def)
    have "- 1 \<le> Max ?S" using fin by (intro Max_ge) auto
    then show "0 \<le> sr_next r" unfolding next_r(1) by linarith
    fix a b i assume a: "index_of_attr r a = Some i"
    then show "0 \<le> i" "i < sr_next r" "i \<notin> burned_indices r"
      using le [OF a] unfolding next_r by simp_all
    assume "index_of_attr r b = Some i"
    with a pos show "a = b" by (auto simp: idx split: if_splits) metis
  qed (simp_all add: next_r)
qed

section \<open>Plugin keys without a registry\<close>

lemma hash_attributes_ok:
  assumes "distinct (map fst attributes)" "fst ` set attributes \<inter> dom (map_of m) = {}"
    "\<forall>x k. map_of r k = Some x \<longleftrightarrow> map_of m x = Some k" "ran (map_of m) \<subseteq> set used"
    "fold (hash_attribute sha_word) attributes (m, r, used) = (m', r', used')"
  shows "dom (map_of m') = dom (map_of m) \<union> fst ` set attributes \<and>
    (\<forall>x k. map_of r' k = Some x \<longleftrightarrow> map_of m' x = Some k)"
  using assms
proof (induction attributes arbitrary: m r used)
  case (Cons e attributes)
  obtain key pluginName where e: "e = (key, pluginName)" by (cases e)
  define k where "k = free_key used (plugin_hash sha_word pluginName key) 0"
  have step: "hash_attribute sha_word e (m, r, used) = (obj_set key k m, obj_set k key r, k # used)"
    by (simp add: e hash_attribute_def k_def Let_def)
  have fresh: "k \<notin> set used" unfolding k_def by (rule free_key_fresh)
  then have new: "map_of m x \<noteq> Some k" for x using Cons.prems(4) by (auto simp: ran_def)
  have key: "map_of m key = None" using Cons.prems(2) e by (auto simp: domIff)
  have "dom (map_of m') = dom (map_of (obj_set key k m)) \<union> fst ` set attributes \<and>
    (\<forall>x k. map_of r' k = Some x \<longleftrightarrow> map_of m' x = Some k)"
  proof (rule Cons.IH)
    show "distinct (map fst attributes)" using Cons.prems(1) by simp
    show "fst ` set attributes \<inter> dom (map_of (obj_set key k m)) = {}"
      using Cons.prems(1,2) e by (auto simp: store_simps)
    show "\<forall>x k'. map_of (obj_set k key r) k' = Some x \<longleftrightarrow> map_of (obj_set key k m) x = Some k'"
      using Cons.prems(3) new key by (auto simp: store_simps)
    show "ran (map_of (obj_set key k m)) \<subseteq> set (k # used)"
      using Cons.prems(4) by (auto simp: store_simps ran_def split: if_splits)
    show "fold (hash_attribute sha_word) attributes (obj_set key k m, obj_set k key r, k # used) = (m', r', used')"
      using Cons.prems(5) step by simp
  qed
  with e show ?case by (auto simp: store_simps)
qed simp

section \<open>Properties\<close>

text \<open>
  C21: Well-formed key maps. After any history of schema versions, the next version leaves a registry in
  which every attribute of the version, and no other, has an index, no two have the same, none is
  burned and all are below the next index; the key map sends each attribute to the base-36 text of
  its index, and the reversed map is its inverse.
\<close>
theorem schema_registry_well_formed:
  assumes "\<forall>v \<in> set versions. plain_names (snd v)" "plain_names keys"
  shows "let a = mapping_from_registry now keys (Some (registry_after versions)) in
    registry_ok (as_registry a) \<and> dom (map_of (as_map a)) = set keys \<and>
    (\<forall>x k. map_of (as_map a) x = Some k \<longleftrightarrow>
       (\<exists>i. index_of_attr (as_registry a) x = Some i \<and> k = encode_key (Num (of_int i)))) \<and>
    (\<forall>x k. map_of (as_reversed a) k = Some x \<longleftrightarrow> map_of (as_map a) x = Some k)"
proof -
  define a where "a = mapping_from_registry now keys (Some (registry_after versions))"
  note a = mapping_from_registry_ok [OF registry_after_ok [OF assms(1)] assms(2), where now = now, folded a_def]
  have "dom (map_of (as_map a)) = set keys" using a(2,3) by (auto simp: dom_def)
  with a show ?thesis unfolding a_def [symmetric] Let_def by auto
qed

lemma schema_registry_well_formed_witness:
  "registry_ok (as_registry (mapping_from_registry (lit ''t'') [lit ''b'']
     (Some (registry_after [(lit ''s'', [lit ''a''])]))))"
  using schema_registry_well_formed [of "[(lit ''s'', [lit ''a''])]" "[lit ''b'']" "lit ''t''"]
  by (simp add: plain_names_def prototype_keys_def Let_def)

text \<open>
  C22: Keys never change hands. However a schema evolves, the key an attribute got in one version is, in
  any later version, the key of the same attribute if it has been in every version since, and of no
  attribute at all otherwise.
\<close>
theorem schema_key_permanent:
  assumes "\<forall>v \<in> set (vs @ [v1] @ ws @ [v2]). plain_names (snd v)" "a \<in> set (snd v1)"
  shows "map_of (version_map (vs @ [v1] @ ws) v2) b = map_of (version_map vs v1) a \<longleftrightarrow>
    b = a \<and> (\<forall>w \<in> set (ws @ [v2]). a \<in> set (snd w))"
proof -
  let ?us = "vs @ [v1]" and ?zs = "(vs @ [v1]) @ (ws @ [v2])"
  have r: "as_registry (mapping_from_registry (fst v1) (snd v1) (Some (registry_after vs))) = registry_after ?us"
    "as_registry (mapping_from_registry (fst v2) (snd v2) (Some (registry_after (vs @ [v1] @ ws)))) = registry_after ?zs"
    using registry_after_snoc [of vs v1] registry_after_snoc [of "vs @ [v1] @ ws" v2] by simp_all
  have ok: "registry_ok (registry_after vs)" "registry_ok (registry_after (vs @ [v1] @ ws))"
    "registry_ok (registry_after ?zs)"
    using assms(1) by (intro registry_after_ok; auto)+
  have plain: "plain_names (snd v1)" "plain_names (snd v2)" using assms(1) by auto
  note one = mapping_from_registry_ok [OF ok(1) plain(1), where now = "fst v1", unfolded r]
  note two = mapping_from_registry_ok [OF ok(2) plain(2), where now = "fst v2", unfolded r]
  obtain i where i: "index_of_attr (registry_after ?us) a = Some i" using one(3) assms(2) by blast
  have fate: "if \<forall>w \<in> set (ws @ [v2]). a \<in> set (snd w) then index_of_attr (registry_after ?zs) a = Some i
      else i \<in> burned_indices (registry_after ?zs)"
    using assms(1) by (intro index_fate [OF _ i]) auto
  have "map_of (version_map vs v1) a = Some (encode_key (Num (of_int i)))"
    using one(2) i by (simp add: version_map_def)
  moreover have "map_of (version_map (vs @ [v1] @ ws) v2) b = Some (encode_key (Num (of_int i))) \<longleftrightarrow>
      index_of_attr (registry_after ?zs) b = Some i"
    using two(2) by (auto simp: version_map_def encode_key_inj)
  moreover have "index_of_attr (registry_after ?zs) b = Some i \<longleftrightarrow>
      b = a \<and> (\<forall>w \<in> set (ws @ [v2]). a \<in> set (snd w))"
  proof (cases "\<forall>w \<in> set (ws @ [v2]). a \<in> set (snd w)")
    case True
    with fate have "index_of_attr (registry_after ?zs) a = Some i" by (simp only: if_True)
    with True registry_okD(3) [OF ok(3), of b i a] show ?thesis by blast
  next
    case False
    with fate have "i \<in> burned_indices (registry_after ?zs)" by (simp only: if_False)
    with False registry_okD(4) [OF ok(3), of b i] show ?thesis by blast
  qed
  ultimately show ?thesis by simp
qed

lemma schema_key_permanent_witness:
  "map_of (version_map [(lit ''s'', [lit ''x'']), (lit ''t'', [lit ''y''])] (lit ''u'', [lit ''x''])) (lit ''x'')
     \<noteq> map_of (version_map [] (lit ''s'', [lit ''x''])) (lit ''x'')"
  using schema_key_permanent [of "[]" "(lit ''s'', [lit ''x''])" "[(lit ''t'', [lit ''y''])]"
      "(lit ''u'', [lit ''x''])" "lit ''x''" "lit ''x''"]
  by (simp add: plain_names_def prototype_keys_def)

text \<open>
  Freezing an unregistered schema changes no key. The registry made from the positional key map of
  a schema assigns, to the same attributes, the same keys again.
\<close>
theorem initial_registry_keeps_keys:
  assumes "distinct keys" "plain_names keys"
  shows "map_of (as_map (mapping_from_registry now keys
       (Some (initial_schema_registry (fst (generate_base36_mapping keys)))))) =
     map_of (fst (generate_base36_mapping keys))"
proof
  fix x
  let ?r = "initial_schema_registry (fst (generate_base36_mapping keys))"
  note init = initial_registry_ok [OF assms(1)]
  note m = mapping_from_registry_ok [OF init(1) assms(2), where now = now]
  show "map_of (as_map (mapping_from_registry now keys (Some ?r))) x = map_of (fst (generate_base36_mapping keys)) x"
  proof (cases "x \<in> set keys")
    case True
    from m(2) m(4) [of x] init(2) [OF True] True show ?thesis
      by (simp add: base36_map_values [OF assms(1)])
  next
    case False
    with m(2,3) show ?thesis by (auto simp: base36_map_values [OF assms(1)] domIff)
  qed
qed

lemma initial_registry_keeps_keys_witness:
  "map_of (as_map (mapping_from_registry (lit ''t'') [lit ''a'', lit ''b'']
       (Some (initial_schema_registry (fst (generate_base36_mapping [lit ''a'', lit ''b''])))))) (lit ''b'') =
     map_of (fst (generate_base36_mapping [lit ''a'', lit ''b''])) (lit ''b'')"
  using initial_registry_keeps_keys [of "[lit ''a'', lit ''b'']" "lit ''t''"]
  by (simp add: plain_names_def prototype_keys_def)

text \<open>
  Plugin keys are distinct in a schema without plugin registries: every attribute has a key, the
  reversed map is the inverse, so no two attributes share one, whatever the hashes are.
\<close>
theorem plugin_keys_distinct:
  assumes "distinct (map fst attributes)" "generate_plugin_mapping sha_word attributes = (m, r)"
  shows "dom (map_of m) = fst ` set attributes \<and> (\<forall>x k. map_of r k = Some x \<longleftrightarrow> map_of m x = Some k)"
proof -
  obtain used where "fold (hash_attribute sha_word) attributes ([], [], []) = (m, r, used)"
    using assms(2) by (auto simp: generate_plugin_mapping_def split: prod.splits)
  from hash_attributes_ok [OF assms(1) _ _ _ this] show ?thesis by simp
qed

lemma plugin_keys_distinct_witness:
  "\<exists>m r. generate_plugin_mapping (\<lambda>_. 0) [(lit ''a'', lit ''p''), (lit ''b'', lit ''q'')] = (m, r) \<and>
     dom (map_of m) = {lit ''a'', lit ''b''}"
  using plugin_keys_distinct [of "[(lit ''a'', lit ''p''), (lit ''b'', lit ''q'')]" "\<lambda>_. 0"]
  by (cases "generate_plugin_mapping (\<lambda>_. 0) [(lit ''a'', lit ''p''), (lit ''b'', lit ''q'')]") auto

text \<open>
  Keys that do collide. Two attributes named after members every object has get the same key; an
  attribute of one plugin gets a key that the registry of a later plugin already uses for another;
  and the registry of a plugin without attributes is dropped, with all the keys it had burned.
\<close>
theorem key_collisions:
  "map_of (as_map (mapping_from_registry now [lit ''constructor'', lit ''valueOf''] (Some empty_registry)))
       (lit ''constructor'') = Some (lit ''undefined'') \<and>
   map_of (as_map (mapping_from_registry now [lit ''constructor'', lit ''valueOf''] (Some empty_registry)))
       (lit ''valueOf'') = Some (lit ''undefined'') \<and>
   (\<exists>a. plugin_mapping_from_registry sha_word now [(lit ''x'', lit ''p''), (lit ''y'', lit ''q'')]
        [(lit ''q'', \<lparr>rr_mapping = [(lit ''y'', JString (plugin_hash sha_word (lit ''p'') (lit ''x'')))],
                      rr_burned = []\<rparr>)] = Inr a \<and>
      map_of (pa_map a) (lit ''x'') = Some (plugin_hash sha_word (lit ''p'') (lit ''x'')) \<and>
      map_of (pa_map a) (lit ''y'') = Some (plugin_hash sha_word (lit ''p'') (lit ''x''))) \<and>
   (\<exists>a. plugin_mapping_from_registry sha_word now [] existing = Inr a \<and> pa_registries a = [])"
proof (intro conjI)
  have reg: "registered [] (lit ''constructor'') = Some NaN" "registered [] (lit ''valueOf'') = Some NaN"
    by (simp_all add: registered_def prototype_keys_def)
  have nan: "encode_key NaN = lit ''undefined''" by (simp add: encode_key_def encode_with_def)
  have sr_empty: "sr_mapping empty_registry = []" by (simp add: empty_registry_def)
  let ?a = "as_map (mapping_from_registry now [lit ''constructor'', lit ''valueOf''] (Some empty_registry))"
  have "?a = obj_set (lit ''valueOf'') (lit ''undefined'') (obj_set (lit ''constructor'') (lit ''undefined'') [])"
    using reg nan raise_next_ok [OF empty_registry_ok]
    by (simp add: mapping_from_registry_def assign_key_def Let_def sr_empty del: lit_Cons split: prod.splits)
  then show "map_of ?a (lit ''constructor'') = Some (lit ''undefined'')"
    "map_of ?a (lit ''valueOf'') = Some (lit ''undefined'')"
    by (simp_all add: store_simps)
next
  let ?k = "plugin_hash sha_word (lit ''p'') (lit ''x'')"
  have k: "?k \<noteq> []" by (simp add: plugin_hash_def Let_def)
  have ik: "index_key [112] = None" "index_key [113] = None" "index_key [120] = None" "index_key [121] = None"
    "index_key ?k = None"
    by (simp_all add: index_key_def is_digit_def plugin_hash_def Let_def)
  have free: "free_key [] ?k 0 = ?k" by (subst free_key.simps) (simp add: candidate_def)
  show "\<exists>a. plugin_mapping_from_registry sha_word now [(lit ''x'', lit ''p''), (lit ''y'', lit ''q'')]
        [(lit ''q'', \<lparr>rr_mapping = [(lit ''y'', JString ?k)], rr_burned = []\<rparr>)] = Inr a \<and>
      map_of (pa_map a) (lit ''x'') = Some ?k \<and> map_of (pa_map a) (lit ''y'') = Some ?k"
    using k free ik
    by (simp add: plugin_mapping_from_registry_def by_plugin_def group_attribute_def assign_plugin_def
        assign_plugin_key_def read_plugin_registry_def burn_plugin_entry_def Let_def obj_set_def)
qed (simp add: plugin_mapping_from_registry_def by_plugin_def)

end
