(* ===== verification/Number_Codecs_Props.thy ===== *)
theory Number_Codecs_Props
  imports Number_Codecs
begin

text \<open>
  What the number codecs promise: integers, decimals and fixed-point numbers that are read back as
  they were, up to which error, and the inputs for which they are not.
\<close>

section \<open>Decimal numerals\<close>

lemma digits_value_append:
  "digits_value (a @ b) = digits_value a * 10 ^ length b + digits_value b"
  by (induction b rule: rev_induct) (simp_all add: digits_value_def)

lemma digits_value_zeros [simp]: "digits_value (replicate n 48) = 0"
  by (induction n) (simp_all add: digits_value_def)

lemma digits_value_less: "list_all is_digit s \<Longrightarrow> digits_value s < 10 ^ length s"
proof (induction s rule: rev_induct)
  case (snoc u s)
  then have "digits_value s + 1 \<le> 10 ^ length s" "u - 48 \<le> 9" by (auto simp: is_digit_def)
  then show ?case by simp
qed (simp add: digits_value_def)

lemma show_nat_list [simp]: "list_all is_digit (show_nat n)"
  using show_nat_digits by (auto simp: list_all_iff)

lemma show_digits_value:
  "list_all is_digit s \<Longrightarrow> s \<noteq> [] \<Longrightarrow> hd s \<noteq> 48 \<Longrightarrow> show_nat (digits_value s) = s \<and> 0 < digits_value s"
proof (induction s rule: rev_induct)
  case (snoc u s)
  show ?case
  proof (cases "s = []")
    case True
    with snoc.prems have "49 \<le> u" "u \<le> 57" by (auto simp: is_digit_def)
    with True show ?thesis by (subst show_nat.simps) (simp add: digits_value_def)
  next
    case False
    with snoc have IH: "show_nat (digits_value s) = s" "0 < digits_value s" by simp_all
    define v where "v = u - 48"
    with snoc.prems have v: "u = 48 + v" "v \<le> 9" by (simp_all add: is_digit_def le_diff_conv)
    have "\<not> 10 * digits_value s + (u - 48) < 10" using IH(2) by simp
    moreover have "(10 * digits_value s + (u - 48)) div 10 = digits_value s"
      "48 + (10 * digits_value s + (u - 48)) mod 10 = u" using v by auto
    ultimately have "show_nat (10 * digits_value s + (u - 48)) = show_nat (digits_value s) @ [u]"
      by (subst show_nat.simps) simp
    with IH show ?thesis by simp
  qed
qed simp

lemma hd_show_nat: "0 < n \<Longrightarrow> hd (show_nat n) \<noteq> 48"
proof (induction n rule: show_nat.induct)
  case (1 n)
  show ?case
  proof (cases "n < 10")
    case True
    with "1.prems" show ?thesis by (subst show_nat.simps) simp
  next
    case False
    then have "0 < n div 10" by simp
    with 1 False show ?thesis by (subst show_nat.simps) simp
  qed
qed

lemma take_show_nat:
  assumes "0 < i" "0 < n"
  shows "show_nat (digits_value (take i (show_nat n))) = take i (show_nat n)"
proof -
  have "take i (show_nat n) \<noteq> []" "hd (take i (show_nat n)) \<noteq> 48"
    using assms hd_show_nat [of n] by (simp_all add: hd_take)
  moreover have "list_all is_digit (take i (show_nat n))"
    using show_nat_list [of n] by (auto simp: list_all_iff dest: in_set_takeD)
  ultimately show ?thesis using show_digits_value by blast
qed

section \<open>Reading what was printed\<close>

lemma span_digits:
  assumes "list_all is_digit s" "r = [] \<or> \<not> is_digit (hd r)"
  shows "takeWhile is_digit (s @ r) = s" "dropWhile is_digit (s @ r) = r"
  using assms by (induction s) (cases r; simp)+

lemma read_integer:
  assumes "list_all is_digit s" "s \<noteq> []" "e = [] \<or> \<not> is_digit (hd e) \<and> hd e \<noteq> 46"
  shows "read_unsigned (s @ e) = map_option (\<lambda>x. of_nat (digits_value s) * 10 powi x) (read_exponent e)"
proof -
  have span: "takeWhile is_digit (s @ e) = s" "dropWhile is_digit (s @ e) = e"
    using assms span_digits [of s e] by auto
  from assms show ?thesis unfolding read_unsigned_def span Let_def by auto
qed

lemma read_fraction:
  assumes "list_all is_digit s" "s \<noteq> []" "list_all is_digit t" "e = [] \<or> \<not> is_digit (hd e)"
  shows "read_unsigned (s @ [46] @ t @ e) =
    map_option (\<lambda>x. of_nat (digits_value (s @ t)) * 10 powi (x - int (length t))) (read_exponent e)"
proof -
  have "\<not> is_digit 46" by (simp add: is_digit_def)
  with assms have span: "takeWhile is_digit (s @ [46] @ t @ e) = s"
    "dropWhile is_digit (s @ [46] @ t @ e) = [46] @ t @ e"
    using span_digits [of s "[46] @ t @ e"] by auto
  have tl: "tl ([46] @ t @ e) = t @ e" by simp
  note rest = span_digits [OF assms(3,4)]
  from assms(2) show ?thesis unfolding read_unsigned_def span Let_def tl rest by simp
qed

lemma read_exponent_text:
  "read_exponent ([101, if x < 0 then 45 else 43] @ show_nat (nat \<bar>x\<bar>)) = Some x"
  by (simp add: read_exponent_def)

lemma number_of_unsigned:
  assumes "s \<noteq> []" "is_digit (hd s)" "\<forall>u \<in> set s. is_digit u \<or> u \<in> {46, 101, 43, 45}"
  shows "number_of_text s = (case read_unsigned s of Some x \<Rightarrow> Num x | None \<Rightarrow> NaN)"
proof -
  have dig: "48 \<le> hd s" "hd s \<le> 57" using assms(2) by (simp_all add: is_digit_def)
  have nosp: "\<not> is_space u" if "u \<in> set s" for u
    using assms(3) that by (auto simp: is_space_def is_digit_def)
  have "dropWhile is_space t = t" if "set t \<subseteq> set s" for t
    using nosp that by (cases t) auto
  then have trim: "trim s = s" by (simp add: trim_def)
  have radix: "radix_literal s = None"
  proof (cases "length s < 2")
    case False
    then have "s ! 1 \<in> set s" by simp
    then have "is_digit (s ! 1) \<or> s ! 1 \<in> {46, 101, 43, 45}" using assms(3) by blast
    then show ?thesis by (auto simp: radix_literal_def is_digit_def)
  qed (simp add: radix_literal_def)
  have "s \<noteq> lit ''Infinity''" using dig by auto
  with trim radix dig assms(1) show ?thesis
    unfolding number_of_text_def by (auto simp: Let_def split: option.splits)
qed

section \<open>Decimals\<close>

lemma split_first: "46 \<notin> set a \<Longrightarrow> int_part (a @ 46 # b) = a"
  by (simp add: int_part_def split_on_append_sep)

lemma split_second: "46 \<notin> set a \<Longrightarrow> 46 \<notin> set b \<Longrightarrow> dec_part (a @ 46 # b) = b"
  by (simp add: dec_part_def split_on_append_sep split_on_no_sep)

lemma split_none: "46 \<notin> set a \<Longrightarrow> int_part a = a \<and> dec_part a = []"
  by (simp add: int_part_def dec_part_def split_on_no_sep)

lemma digits_no_point: "list_all is_digit s \<Longrightarrow> 46 \<notin> set s"
  by (auto simp: list_all_iff is_digit_def)

text \<open>An encoded natural number: no point, no sign.\<close>

lemma encode_nat:
  assumes "0 \<le> x"
  shows "46 \<notin> set (encode (Num x))" "unsigned_part (encode (Num x) @ 46 # r) = (False, encode (Num x) @ 46 # r)"
    "unsigned_part (encode (Num x)) = (False, encode (Num x))"
proof -
  have "set (encode (Num x)) \<subseteq> set base62_alphabet"
    using assms base62.set_place_digits [of "nat \<lfloor>x\<rfloor>"]
    by (auto simp: encode_def encode_with_def base62_alphabet_def)
  moreover have "45 \<notin> set base62_alphabet" "46 \<notin> set base62_alphabet"
    by (simp_all add: base62_alphabet_def)
  ultimately have "45 \<notin> set (encode (Num x))" "46 \<notin> set (encode (Num x))" by blast+
  then show "46 \<notin> set (encode (Num x))" "unsigned_part (encode (Num x) @ 46 # r) = (False, encode (Num x) @ 46 # r)"
    "unsigned_part (encode (Num x)) = (False, encode (Num x))"
    by (cases "encode (Num x)"; auto simp: unsigned_part_def)+
qed

lemma decode_encode_number: "decode (encode (Num x)) = Num (of_int \<lfloor>x\<rfloor>)"
  unfolding decode_def encode_def by (rule base62.decode_encode)

definition signed :: "bool \<Rightarrow> rat \<Rightarrow> js_number" where
  "signed neg x = Num (if neg then - x else x)"

definition sign_text :: "bool \<Rightarrow> ustring" where
  "sign_text neg = (if neg then [45] else [])"

lemma unsigned_sign:
  "unsigned_part s = (False, s) \<Longrightarrow> unsigned_part (sign_text neg @ s) = (neg, s)"
  by (cases neg) (simp_all add: sign_text_def unsigned_part_def)

lemma decode_whole:
  assumes "0 \<le> x"
  shows "decode_decimal (sign_text neg @ encode (Num x)) = signed neg (of_int \<lfloor>x\<rfloor>)"
proof -
  note e = encode_nat [OF assms]
  show ?thesis
    using unsigned_sign [OF e(3), of neg] split_none [OF e(1)]
    by (simp add: decode_decimal_def decode_encode_number signed_def)
qed

lemma decode_parts:
  assumes "i < 10 ^ 21" "f \<noteq> []" "46 \<notin> set f" "number_of_text (show_nat i @ [46] @ f) = Num y"
  shows "decode_decimal (sign_text neg @ encode (Num (of_nat i)) @ [46] @ f) = signed neg y"
proof -
  have "0 \<le> (of_nat i :: rat)" by simp
  note e = encode_nat [OF this]
  have "int_text \<lfloor>of_nat i :: rat\<rfloor> = show_nat i" using assms(1) by (simp add: int_text_def nat_text_def)
  with assms show ?thesis
    using unsigned_sign [OF e(2), where neg = neg] split_first [OF e(1)] split_second [OF e(1) assms(3)]
    by (simp add: decode_decimal_def decode_encode_number signed_def)
qed

text \<open>A text without a point is encoded whole, a text with one part by part.\<close>

lemma encode_whole:
  assumes "46 \<notin> set (magnitude_text d)" "number_of_text (magnitude_text d) = Num x"
  shows "encode_decimal_digits d = sign_text (decimal_value d < 0) @ encode (Num x)"
  using assms split_none [OF assms(1)] by (simp add: encode_decimal_digits_def sign_text_def)

lemma encode_parts:
  assumes "magnitude_text d = show_nat i @ [46] @ f" "f \<noteq> []" "46 \<notin> set f"
  shows "encode_decimal_digits d =
    sign_text (decimal_value d < 0) @ encode (Num (of_nat i)) @ [46] @ f"
proof -
  have i: "46 \<notin> set (show_nat i)" by (simp add: digits_no_point)
  have digs: "\<forall>u \<in> set (show_nat i). is_digit u" using show_nat_digits by blast
  have "number_of_text (show_nat i) = Num (of_nat i)"
    using number_of_unsigned [of "show_nat i"] read_integer [of "show_nat i" "[]"] digs
    by (simp add: read_exponent_def)
  with assms split_first [OF i, of f] split_second [OF i assms(3)]
  show ?thesis by (simp add: encode_decimal_digits_def sign_text_def)
qed

text \<open>The four layouts of a number, and what each comes back as.\<close>

lemma whole_roundtrip:
  assumes "46 \<notin> set (magnitude_text d)" "number_of_text (magnitude_text d) = Num (magnitude d)"
  shows "decode_decimal (encode_decimal_digits d) = Num (decimal_value d) \<longleftrightarrow> magnitude d \<in> \<int>"
proof -
  have m: "0 \<le> magnitude d" by (simp add: magnitude_def)
  have neg: "decimal_value d < 0 \<longleftrightarrow> dec_neg d \<and> magnitude d \<noteq> 0" using m by (auto simp: decimal_value_def)
  have "decode_decimal (encode_decimal_digits d) = signed (decimal_value d < 0) (of_int \<lfloor>magnitude d\<rfloor>)"
    unfolding encode_whole [OF assms] by (rule decode_whole [OF m])
  moreover have "magnitude d \<in> \<int> \<longleftrightarrow> of_int \<lfloor>magnitude d\<rfloor> = magnitude d"
    by (metis Ints_of_int floor_of_int Ints_cases)
  ultimately show ?thesis using neg by (auto simp: signed_def decimal_value_def)
qed

lemma parts_roundtrip:
  assumes "magnitude_text d = show_nat i @ [46] @ f" "f \<noteq> []" "46 \<notin> set f" "i < 10 ^ 21"
    "number_of_text (magnitude_text d) = Num (magnitude d)"
  shows "decode_decimal (encode_decimal_digits d) = Num (decimal_value d)"
proof -
  have m: "0 \<le> magnitude d" by (simp add: magnitude_def)
  have neg: "decimal_value d < 0 \<longleftrightarrow> dec_neg d \<and> magnitude d \<noteq> 0" using m by (auto simp: decimal_value_def)
  have "decode_decimal (encode_decimal_digits d) = signed (decimal_value d < 0) (magnitude d)"
    unfolding encode_parts [OF assms(1-3)]
    using assms by (intro decode_parts) simp_all
  with neg show ?thesis by (auto simp: signed_def decimal_value_def)
qed

text \<open>The layouts, by the number \<open>k\<close> of digits and the place \<open>n\<close> of the point.\<close>

lemma magnitude_layout:
  assumes "k = int (length (show_nat (dec_sig d)))" "n = k + dec_exp d" "dec_sig d \<noteq> 0"
  defines "s \<equiv> show_nat (dec_sig d)"
    and "e \<equiv> [101, if n - 1 < 0 then 45 else 43] @ show_nat (nat \<bar>n - 1\<bar>)"
  shows "k \<le> n \<Longrightarrow> n \<le> 21 \<Longrightarrow> magnitude_text d = s @ replicate (nat (n - k)) 48"
    and "n < k \<Longrightarrow> 0 < n \<Longrightarrow> n \<le> 21 \<Longrightarrow> magnitude_text d = take (nat n) s @ [46] @ drop (nat n) s"
    and "- 6 < n \<Longrightarrow> n \<le> 0 \<Longrightarrow> magnitude_text d = [48] @ [46] @ replicate (nat (- n)) 48 @ s"
    and "n \<le> - 6 \<or> 21 < n \<Longrightarrow> k = 1 \<Longrightarrow> magnitude_text d = s @ e"
    and "n \<le> - 6 \<or> 21 < n \<Longrightarrow> k \<noteq> 1 \<Longrightarrow> magnitude_text d = take 1 s @ [46] @ drop 1 s @ e"
proof -
  have "magnitude_text d =
      (if k \<le> n \<and> n \<le> 21 then s @ replicate (nat (n - k)) 48
       else if 0 < n \<and> n \<le> 21 then take (nat n) s @ [46] @ drop (nat n) s
       else if - 6 < n \<and> n \<le> 0 then [48, 46] @ replicate (nat (- n)) 48 @ s
       else if k = 1 then s @ e else take 1 s @ [46] @ drop 1 s @ e)"
    using assms(3) unfolding magnitude_text_def Let_def e_def s_def assms(1,2) by simp
  moreover have "1 \<le> k" using assms(1) by (simp add: Suc_le_eq)
  ultimately show "k \<le> n \<Longrightarrow> n \<le> 21 \<Longrightarrow> magnitude_text d = s @ replicate (nat (n - k)) 48"
    and "n < k \<Longrightarrow> 0 < n \<Longrightarrow> n \<le> 21 \<Longrightarrow> magnitude_text d = take (nat n) s @ [46] @ drop (nat n) s"
    and "- 6 < n \<Longrightarrow> n \<le> 0 \<Longrightarrow> magnitude_text d = [48] @ [46] @ replicate (nat (- n)) 48 @ s"
    and "n \<le> - 6 \<or> 21 < n \<Longrightarrow> k = 1 \<Longrightarrow> magnitude_text d = s @ e"
    and "n \<le> - 6 \<or> 21 < n \<Longrightarrow> k \<noteq> 1 \<Longrightarrow> magnitude_text d = take 1 s @ [46] @ drop 1 s @ e"
    by auto
qed

text \<open>Every layout denotes the number it prints.\<close>

lemma number_of_magnitude_text: "number_of_text (magnitude_text d) = Num (magnitude d)"
proof -
  let ?s = "show_nat (dec_sig d)"
  define k where "k = int (length ?s)"
  define n where "n = k + dec_exp d"
  have digs: "\<forall>u \<in> set ?s. is_digit u" "list_all is_digit ?s" using show_nat_digits by auto
  have hdig: "is_digit (hd ?s)" using digs(1) by simp
  have k: "1 \<le> k" by (simp add: k_def Suc_le_eq)
  have len: "length ?s = nat k" by (simp add: k_def)
  have val: "digits_value (take i ?s @ drop i ?s) = dec_sig d" for i by simp
  have parts: "list_all is_digit (take i ?s)" "list_all is_digit (drop i ?s)" for i
    using digs(1) by (auto simp: list_all_iff dest: in_set_takeD in_set_dropD)
  have ex: "\<forall>u \<in> set (show_nat m). is_digit u" for m using show_nat_digits by blast
  note lay = magnitude_layout [OF k_def n_def]
  note unsigned = number_of_unsigned and rd = read_integer read_fraction
  consider "dec_sig d = 0" | "dec_sig d \<noteq> 0" "k \<le> n" "n \<le> 21" | "dec_sig d \<noteq> 0" "n < k" "0 < n" "n \<le> 21"
    | "dec_sig d \<noteq> 0" "- 6 < n" "n \<le> 0" | "dec_sig d \<noteq> 0" "n \<le> - 6 \<or> 21 < n" "k = 1"
    | "dec_sig d \<noteq> 0" "n \<le> - 6 \<or> 21 < n" "k \<noteq> 1"
    by linarith
  then show ?thesis
  proof cases
    case 1
    then have "magnitude_text d = ?s" by (simp add: magnitude_text_def Let_def)
    with 1 digs show ?thesis
      using unsigned [of ?s] rd(1) [of ?s "[]"]
      by (simp add: read_exponent_def magnitude_def list_all_iff)
  next
    case 2
    let ?z = "replicate (nat (n - k)) 48"
    have lay: "magnitude_text d = ?s @ ?z"
      using lay 2 by simp
    have "list_all is_digit (?s @ ?z)" using digs by (auto simp: list_all_iff is_digit_def)
    moreover have "n - k = dec_exp d" "0 \<le> dec_exp d" using 2 by (simp_all add: n_def)
    ultimately show ?thesis
      unfolding lay using unsigned [of "?s @ ?z"] rd(1) [of "?s @ ?z" "[]"]
      by (simp add: read_exponent_def magnitude_def list_all_iff digits_value_append power_int_def)
  next
    case 3
    let ?a = "take (nat n) ?s" and ?b = "drop (nat n) ?s"
    have lay: "magnitude_text d = ?a @ [46] @ ?b @ []"
      using lay 3 by simp
    have "int (length ?b) = - dec_exp d" using 3 by (simp add: len n_def)
    moreover have "?a \<noteq> []" using 3 k by (simp add: k_def)
    moreover have "\<forall>u \<in> set (?a @ [46] @ ?b @ []). is_digit u \<or> u \<in> {46, 101, 43, 45}"
      using parts by (auto simp: list_all_iff)
    moreover have "is_digit (hd (?a @ [46] @ ?b @ []))"
      using \<open>?a \<noteq> []\<close> hdig by (simp add: hd_append hd_take)
    ultimately show ?thesis
      unfolding lay using unsigned [of "?a @ [46] @ ?b @ []"] rd(2) [of ?a ?b "[]"] parts val
      by (simp add: read_exponent_def magnitude_def)
  next
    case 4
    let ?b = "replicate (nat (- n)) 48 @ ?s"
    have lay: "magnitude_text d = [48] @ [46] @ ?b @ []"
      using lay 4 by simp
    have b: "list_all is_digit ?b" using digs by (auto simp: list_all_iff is_digit_def)
    have "int (length ?b) = - dec_exp d" using 4 k by (simp add: len n_def)
    moreover have "digits_value ([48] @ ?b) = dec_sig d"
      using digits_value_append [of "[48]" ?b] digits_value_append [of "replicate (nat (- n)) 48" ?s]
      by (simp add: digits_value_def [of "[48]"])
    moreover have "\<forall>u \<in> set ([48] @ [46] @ ?b @ []). is_digit u \<or> u \<in> {46, 101, 43, 45}"
      using b by (auto simp: list_all_iff is_digit_def)
    ultimately show ?thesis
      unfolding lay using unsigned [of "[48] @ [46] @ ?b @ []"] rd(2) [of "[48]" ?b "[]"] b
      by (simp add: read_exponent_def magnitude_def is_digit_def)
  next
    case 5
    let ?e = "[101, if n - 1 < 0 then 45 else 43] @ show_nat (nat \<bar>n - 1\<bar>)"
    have lay: "magnitude_text d = ?s @ ?e"
      using lay 5 by simp
    have "\<forall>u \<in> set (?s @ ?e). is_digit u \<or> u \<in> {46, 101, 43, 45}" using digs ex by auto
    moreover have "is_digit (hd (?s @ ?e))" using digs by (simp add: hd_append)
    moreover have "\<not> is_digit 101" by (simp add: is_digit_def)
    ultimately show ?thesis
      unfolding lay using unsigned [of "?s @ ?e"] rd(1) [of ?s ?e] digs 5(3) read_exponent_text [of "n - 1"]
      by (simp add: magnitude_def n_def)
  next
    case 6
    let ?a = "take 1 ?s" and ?b = "drop 1 ?s"
    let ?e = "[101, if n - 1 < 0 then 45 else 43] @ show_nat (nat \<bar>n - 1\<bar>)"
    have lay: "magnitude_text d = ?a @ [46] @ ?b @ ?e"
      using lay 6 by simp
    have "int (length ?b) = k - 1" using k by (simp add: len)
    moreover have "?a \<noteq> []" by simp
    moreover have "\<forall>u \<in> set (?a @ [46] @ ?b @ ?e). is_digit u \<or> u \<in> {46, 101, 43, 45}"
      using parts ex by (auto simp: list_all_iff)
    moreover have "is_digit (hd (?a @ [46] @ ?b @ ?e))"
      using \<open>?a \<noteq> []\<close> hdig by (simp add: hd_append hd_take)
    moreover have "\<not> is_digit 101" by (simp add: is_digit_def)
    ultimately show ?thesis
      unfolding lay using unsigned [of "?a @ [46] @ ?b @ ?e"] rd(2) [of ?a ?b ?e] parts val
        read_exponent_text [of "n - 1"]
      by (simp add: magnitude_def n_def)
  qed
qed

text \<open>A text has a point unless the number is an integer or a single digit with an exponent.\<close>

definition tiny :: "decimal \<Rightarrow> bool" where
  "tiny d \<longleftrightarrow> 0 < dec_sig d \<and> dec_sig d < 10 \<and> dec_exp d < - 6"

lemma length_show_nat_1: "length (show_nat n) = 1 \<longleftrightarrow> n < 10"
  by (subst show_nat.simps) simp

lemma show_nat_no_point [simp]: "46 \<notin> set (show_nat n)"
  by (simp add: digits_no_point)

lemma show_nat_0 [simp]: "show_nat 0 = [48]"
  by (subst show_nat.simps) simp

lemma magnitude_integer: "0 \<le> dec_exp d \<Longrightarrow> magnitude d \<in> \<int>"
  by (simp add: magnitude_def power_int_def)

lemma magnitude_tiny:
  assumes "tiny d"
  shows "magnitude d \<notin> \<int>"
proof -
  have sig: "0 < (of_nat (dec_sig d) :: rat)" "(of_nat (dec_sig d) :: rat) < 10"
    using assms by (simp_all add: tiny_def)
  have m: "magnitude d = of_nat (dec_sig d) / (10 :: rat) ^ nat (- dec_exp d)"
    using assms by (simp add: tiny_def magnitude_def power_int_def field_simps)
  have "10 \<le> (10 :: nat) ^ nat (- dec_exp d)"
    using assms by (intro self_le_power) (auto simp: tiny_def)
  then have "dec_sig d < 10 ^ nat (- dec_exp d)" using assms unfolding tiny_def by linarith
  then have "(of_nat (dec_sig d) :: rat) < of_nat (10 ^ nat (- dec_exp d))"
    by (simp only: of_nat_less_iff)
  then have "0 < magnitude d" "magnitude d < 1"
    using sig(1) unfolding m by (simp_all add: divide_less_eq)
  then have "\<lfloor>magnitude d\<rfloor> = 0" by (simp add: floor_eq_iff)
  with \<open>0 < magnitude d\<close> show ?thesis by (metis Ints_cases floor_of_int less_irrefl of_int_0)
qed

theorem decimal_roundtrip_iff:
  "decode_decimal (encode_decimal_digits d) = Num (decimal_value d) \<longleftrightarrow> \<not> tiny d"
proof -
  let ?s = "show_nat (dec_sig d)"
  define k where "k = int (length ?s)"
  define n where "n = k + dec_exp d"
  note num = number_of_magnitude_text [of d]
  note lay = magnitude_layout [OF k_def n_def]
  have k: "1 \<le> k" by (simp add: k_def Suc_le_eq)
  have k1: "k = 1 \<longleftrightarrow> dec_sig d < 10" using length_show_nat_1 [of "dec_sig d"] by (simp add: k_def)
  have no46: "46 \<notin> set (take i ?s)" "46 \<notin> set (drop i ?s)" for i
    using show_nat_no_point [of "dec_sig d"] by (auto dest: in_set_takeD in_set_dropD)
  have small: "digits_value (take i ?s) < 10 ^ 21" if "i \<le> 21" for i
  proof -
    have "list_all is_digit (take i ?s)"
      using show_nat_list [of "dec_sig d"] by (auto simp: list_all_iff dest: in_set_takeD)
    then have "digits_value (take i ?s) < 10 ^ length (take i ?s)" by (rule digits_value_less)
    also have "\<dots> \<le> 10 ^ 21" using that by (intro power_increasing) auto
    finally show ?thesis .
  qed
  have whole: ?thesis if "46 \<notin> set (magnitude_text d)" "magnitude d \<in> \<int> \<longleftrightarrow> \<not> tiny d"
    using whole_roundtrip [OF that(1) num] that(2) by simp
  have parts: ?thesis
    if "magnitude_text d = show_nat i @ [46] @ f" "f \<noteq> []" "46 \<notin> set f" "i < 10 ^ 21" "\<not> tiny d" for i f
    using parts_roundtrip [OF that(1-4) num] that(5) by simp
  consider "dec_sig d = 0" | "dec_sig d \<noteq> 0" "k \<le> n" "n \<le> 21" | "dec_sig d \<noteq> 0" "n < k" "0 < n" "n \<le> 21"
    | "dec_sig d \<noteq> 0" "- 6 < n" "n \<le> 0" | "dec_sig d \<noteq> 0" "n \<le> - 6 \<or> 21 < n" "k = 1"
    | "dec_sig d \<noteq> 0" "n \<le> - 6 \<or> 21 < n" "k \<noteq> 1"
    by linarith
  then show ?thesis
  proof cases
    case 1
    then show ?thesis by (intro whole) (simp_all add: magnitude_text_def magnitude_def tiny_def)
  next
    case 2
    then have "0 \<le> dec_exp d" by (simp add: n_def)
    with 2 magnitude_integer show ?thesis
      by (intro whole) (auto simp: lay(1) tiny_def)
  next
    case 3
    from 3 k1 k show ?thesis
      using take_show_nat [of "nat n" "dec_sig d"] small [of "nat n"] no46
      by (intro parts [of "digits_value (take (nat n) ?s)" "drop (nat n) ?s"])
        (auto simp: lay(2) tiny_def n_def k_def)
  next
    case 4
    from 4 k1 k show ?thesis
      by (intro parts [of 0 "replicate (nat (- n)) 48 @ ?s"])
        (auto simp: lay(3) tiny_def n_def)
  next
    case 5
    have "magnitude d \<in> \<int> \<longleftrightarrow> \<not> tiny d"
    proof (cases "tiny d")
      case False
      with 5 k1 have "0 \<le> dec_exp d" by (auto simp: tiny_def n_def)
      with False magnitude_integer show ?thesis by blast
    qed (simp add: magnitude_tiny)
    with 5 show ?thesis
      by (intro whole) (simp_all add: lay(4))
  next
    case 6
    from 6 k1 k show ?thesis
      using take_show_nat [of 1 "dec_sig d"] small [of 1] no46
      by (intro parts [of "digits_value (take 1 ?s)"
            "drop 1 ?s @ [101, if n - 1 < 0 then 45 else 43] @ show_nat (nat \<bar>n - 1\<bar>)"])
        (auto simp: lay(5) tiny_def)
  qed
qed

section \<open>Fixed-point numbers\<close>

definition rounded :: "nat \<Rightarrow> rat \<Rightarrow> rat" where
  "rounded precision x = of_int (js_round (x * 10 ^ precision)) / 10 ^ precision"

lemma rounded_error: "\<bar>rounded p x - x\<bar> \<le> 1 / (2 * 10 ^ p)"
proof -
  let ?y = "x * 10 ^ p"
  have shift: "rounded p x - x = (of_int (js_round ?y) - ?y) / 10 ^ p"
    by (simp add: rounded_def diff_divide_distrib)
  have "of_int \<lfloor>?y + 1 / 2\<rfloor> \<le> ?y + 1 / 2" "?y + 1 / 2 < of_int \<lfloor>?y + 1 / 2\<rfloor> + 1" by linarith+
  then have "\<bar>of_int (js_round ?y) - ?y\<bar> \<le> 1 / 2" unfolding js_round_def abs_le_iff by linarith
  then have "\<bar>of_int (js_round ?y) - ?y\<bar> / 10 ^ p \<le> 1 / 2 / 10 ^ p" by (rule divide_right_mono) simp
  moreover have "\<bar>of_int (js_round ?y) - ?y\<bar> / 10 ^ p = \<bar>rounded p x - x\<bar>"
    unfolding shift by (simp add: abs_divide)
  ultimately show ?thesis by simp
qed

lemma fixed_digits_value: "fixed_value (fixed_digits x p) p = Num (rounded p x)"
proof -
  let ?n = "js_round (x * 10 ^ p)"
  have "decode_digits base62_alphabet 0 [48] = Some 0" by (simp add: base62_alphabet_def)
  then have no: "place_digits base62_alphabet m \<noteq> [48]" if "m \<noteq> 0" for m
    using base62.decode_place_digits [of m] that by (metis option.inject)
  consider "?n = 0" | "?n < 0" | "0 < ?n" by linarith
  then show ?thesis
  proof cases
    case 2
    then show ?thesis by (simp add: fixed_digits_def fixed_value_def unsigned_part_def rounded_def Let_def)
  next
    case 3
    with no [of "nat ?n"] show ?thesis
      by (simp add: fixed_digits_def fixed_value_def rounded_def Let_def)
  qed (simp add: fixed_digits_def fixed_value_def rounded_def)
qed

lemma fixed_digits_letters: "fixed_digits x p \<noteq> [] \<and> 44 \<notin> set (fixed_digits x p)"
proof -
  have "44 \<notin> set base62_alphabet" by (simp add: base62_alphabet_def)
  then show ?thesis using base62.set_place_digits by (auto simp: fixed_digits_def Let_def)
qed

lemma fixed_point_rounds: "decode_fixed_point (encode_fixed_point (Num x) p) p = Num (rounded p x)"
  by (simp add: decode_fixed_point_def encode_fixed_point_def starts_with_def fixed_digits_value)

lemma join_not_Nil: "x \<noteq> [] \<Longrightarrow> join sep (x # xs) \<noteq> []"
  by (cases xs) simp_all

lemma fixed_batch_rounds:
  "decode_fixed_point_batch (encode_fixed_point_batch (map Num xs) p) p = map (\<lambda>x. Num (rounded p x)) xs"
proof (cases xs)
  case (Cons x xs')
  let ?parts = "map (\<lambda>x. fixed_digits x p) xs"
  have parts: "\<forall>t \<in> set ?parts. t \<noteq> [] \<and> 44 \<notin> set t" using fixed_digits_letters by auto
  have "split_on 44 (join [44] ?parts) = ?parts" using Cons parts by (intro split_on_join) auto
  moreover have "join [44] ?parts \<noteq> []" using Cons parts join_not_Nil [of "fixed_digits x p"] by auto
  moreover have "encode_fixed_point_batch (map Num xs) p = lit ''^['' @ join [44] ?parts @ [93]"
    using Cons by (simp add: encode_fixed_point_batch_def comp_def)
  ultimately show ?thesis
    using fixed_digits_letters
    by (auto simp: decode_fixed_point_batch_def starts_with_def Let_def fixed_digits_value butlast_append)
qed (simp add: encode_fixed_point_batch_def decode_fixed_point_batch_def starts_with_def)

section \<open>Properties\<close>

text \<open>
  Integers survive. Every finite number is read back from its base-62 and its base-36 string as its
  integer part (rounded towards minus infinity), so integers are read back exactly, and two different
  integers never share a string.
\<close>
theorem base62_roundtrip:
  "decode (encode (Num x)) = Num (of_int \<lfloor>x\<rfloor>) \<and> decode_key (encode_key (Num x)) = Num (of_int \<lfloor>x\<rfloor>)"
  unfolding decode_def encode_def decode_key_def encode_key_def
  by (simp add: base62.decode_encode base36.decode_encode)


text \<open>
  Embeddings are stored to within half a unit of the last place. An array of finite numbers of any
  length is read back from its fixed-point string with the same length, and each number differs from
  the stored one by at most half of ten to the minus precision.
\<close>
theorem fixed_point_error:
  "\<exists>ys. decode_fixed_point_batch (encode_fixed_point_batch (map Num xs) p) p = map Num ys \<and>
     list_all2 (\<lambda>x y. \<bar>y - x\<bar> \<le> 1 / (2 * 10 ^ p)) xs ys"
  by (rule exI [of _ "map (rounded p) xs"])
    (simp add: fixed_batch_rounds rounded_error list_all2_conv_all_nth)

text \<open>
  Numbers that do not survive. What is not a finite number is stored as the text undefined, which is
  itself a base-62 numeral and is read back as an integer; an array holding just NaN is read back
  empty; the number 1e-7 is read back as zero.
\<close>
theorem number_codec_defects:
  "encode NaN = lit ''undefined'' \<and> encode_decimal shortest PosInf = lit ''undefined'' \<and>
   decode (lit ''undefined'') = Num 6631951758436141 \<and>
   decode_fixed_point_batch (encode_fixed_point_batch [NaN] p) p = [] \<and>
   decode_decimal (encode_decimal_digits \<lparr>dec_neg = False, dec_sig = 1, dec_exp = - 7\<rparr>) = Num 0"
proof -
  have "encode NaN = lit ''undefined''" by (simp add: encode_def encode_with_def)
  moreover have "encode_decimal shortest PosInf = lit ''undefined''" by (simp add: encode_decimal_def)
  moreover have "decode (lit ''undefined'') = Num 6631951758436141"
  proof -
    have "position base62_alphabet 117 = Some 30" "position base62_alphabet 110 = Some 23"
      "position base62_alphabet 100 = Some 13" "position base62_alphabet 101 = Some 14"
      "position base62_alphabet 102 = Some 15" "position base62_alphabet 105 = Some 18" by code_simp+
    then show ?thesis by (simp add: decode_def decode_with_def unsigned_part_def length_base62)
  qed
  moreover have "decode_fixed_point_batch (encode_fixed_point_batch [NaN] p) p = []"
    by (simp add: encode_fixed_point_batch_def decode_fixed_point_batch_def starts_with_def)
  moreover have "decode_decimal (encode_decimal_digits \<lparr>dec_neg = False, dec_sig = 1, dec_exp = - 7\<rparr>) = Num 0"
  proof -
    let ?d = "\<lparr>dec_neg = False, dec_sig = 1, dec_exp = - 7\<rparr>"
    have "magnitude_text ?d = lit ''1e-7''" by code_simp
    then have point: "46 \<notin> set (magnitude_text ?d)" by simp
    have m: "0 \<le> magnitude ?d" "\<lfloor>magnitude ?d\<rfloor> = 0"
      by (simp_all add: magnitude_def power_int_def floor_eq_iff power_divide)
    have "decode_decimal (encode_decimal_digits ?d) = signed (decimal_value ?d < 0) 0"
      unfolding encode_whole [OF point number_of_magnitude_text] decode_whole [OF m(1)] m(2) by simp
    then show ?thesis by (simp add: signed_def)
  qed
  ultimately show ?thesis by blast
qed

end
