(* ===== verification/Database_Metadata_Props.thy ===== *)
theory Database_Metadata_Props
  imports Database_Metadata Schema_Keys_Props Number_Codecs_Props
begin

text \<open>
  The metadata file: what merging two states of it keeps, when the merged registries are still
  well formed, that new versions get new names, and how keys are given out twice.
\<close>

section \<open>Merged registries\<close>

lemma merge_indices:
  assumes "distinct_keys lm"
  shows "map_of (fold merge_index lm fm) a =
    (case map_of lm a of
       None \<Rightarrow> map_of fm a
     | Some i \<Rightarrow> (case map_of fm a of None \<Rightarrow> Some i | Some j \<Rightarrow> Some (max j i)))"
  using assms
proof (induction lm arbitrary: fm)
  case (Cons e lm)
  obtain x i where e: "e = (x, i)" by (cases e)
  with Cons.prems have d: "distinct_keys lm" "map_of lm x = None"
    by (auto simp: distinct_keys_Cons_iff map_of_eq_None_iff)
  have "map_of (merge_index e fm) = (map_of fm)(x \<mapsto> (case map_of fm x of None \<Rightarrow> i | Some j \<Rightarrow> max j i))"
    by (auto simp: merge_index_def e store_simps fun_eq_iff split: option.splits)
  with Cons.IH [OF d(1), of "merge_index e fm"] d(2) e show ?case
    by (auto split: option.splits)
qed simp

lemma distinct_merge_index: "distinct_keys fm \<Longrightarrow> distinct_keys (fold merge_index lm fm)"
  by (induction lm arbitrary: fm) (auto simp: merge_index_def split: prod.splits option.splits)

text \<open>The burned entries of both sides, by key.\<close>

definition keyed :: "('k \<times> 'k burned_entry) list \<Rightarrow> bool" where
  "keyed m \<longleftrightarrow> (\<forall>(k, e) \<in> set m. be_key e = k)"

lemma keyed_update: "keyed m \<Longrightarrow> keyed (AList.update (be_key e) e m)"
  using set_update_subset [of "be_key e" e m] by (fastforce simp: keyed_def)

lemma keyed_fold:
  "keyed m \<Longrightarrow> keyed (fold (\<lambda>e m. AList.update (be_key e) e m) es m) \<and>
     fst ` set (fold (\<lambda>e m. AList.update (be_key e) e m) es m) = fst ` set m \<union> be_key ` set es"
  by (induction es arbitrary: m) (auto simp: keyed_update dom_update)

lemma keyed_fold_new:
  "keyed m \<Longrightarrow>
     keyed (fold (\<lambda>e m. if be_key e \<in> fst ` set m then m else AList.update (be_key e) e m) es m) \<and>
     fst ` set (fold (\<lambda>e m. if be_key e \<in> fst ` set m then m else AList.update (be_key e) e m) es m) =
       fst ` set m \<union> be_key ` set es"
proof (induction es arbitrary: m)
  case (Cons e es)
  let ?m = "if be_key e \<in> fst ` set m then m else AList.update (be_key e) e m"
  have "keyed ?m" using Cons.prems keyed_update [OF Cons.prems, of e] by simp
  from Cons.IH [OF this] show ?case by (auto simp: dom_update)
qed simp

lemma keyed_values: "keyed m \<Longrightarrow> be_key ` set (map snd m) = fst ` set m"
  by (induction m) (auto simp: keyed_def)

lemma merge_burned_keys: "be_key ` set (merge_burned fresh local) = be_key ` set fresh \<union> be_key ` set local"
proof -
  let ?m = "fold (\<lambda>e m. AList.update (be_key e) e m) fresh []"
  have "keyed []" by (simp add: keyed_def)
  then have m: "keyed ?m" "fst ` set ?m = be_key ` set fresh"
    using keyed_fold [of "[]" fresh] by auto
  from keyed_fold_new [OF m(1), of local] m(2) show ?thesis
    unfolding merge_burned_def Let_def by (simp add: keyed_values del: set_map)
qed

lemma merge_registry_view:
  assumes "registry_ok f" "registry_ok l"
    and agree: "\<And>a i j. index_of_attr f a = Some i \<Longrightarrow> index_of_attr l a = Some j \<Longrightarrow> i = j"
    and r: "merge_schema_registry (Some f) (Some l) = Some r"
  shows "distinct_keys (sr_mapping r)" "sr_next r = max (sr_next f) (sr_next l)"
    "burned_indices r = burned_indices f \<union> burned_indices l"
    "index_of_attr r a = Some i \<longleftrightarrow> index_of_attr f a = Some i \<or> index_of_attr l a = Some i"
proof -
  have eq: "sr_mapping r = fold merge_index (sr_mapping l) (sr_mapping f)"
    "sr_next r = max (sr_next f) (sr_next l)" "sr_burned r = merge_burned (sr_burned f) (sr_burned l)"
    using r by (auto simp: merge_schema_registry_def)
  show "distinct_keys (sr_mapping r)"
    unfolding eq using registry_okD(1) [OF assms(1)] by (rule distinct_merge_index)
  show "sr_next r = max (sr_next f) (sr_next l)" by (rule eq)
  show "burned_indices r = burned_indices f \<union> burned_indices l"
    by (simp add: burned_indices_def eq merge_burned_keys)
  show "index_of_attr r a = Some i \<longleftrightarrow> index_of_attr f a = Some i \<or> index_of_attr l a = Some i"
    unfolding eq merge_indices [OF registry_okD(1) [OF assms(2)]]
    by (auto split: option.splits dest: agree)
qed

section \<open>Properties\<close>

text \<open>
  C23: When merging is safe. Two well-formed registries that agree on the attributes they share are
  merged into a well-formed one exactly when no two of their attributes share an index and neither
  has burned an index the other still maps. Nothing in the code checks either condition.
\<close>
theorem merge_registry_ok_iff:
  assumes "registry_ok f" "registry_ok l"
    and "\<And>a i j. index_of_attr f a = Some i \<Longrightarrow> index_of_attr l a = Some j \<Longrightarrow> i = j"
    and "merge_schema_registry (Some f) (Some l) = Some r"
  shows "registry_ok r \<longleftrightarrow>
    (\<forall>a b i. index_of_attr f a = Some i \<longrightarrow> index_of_attr l b = Some i \<longrightarrow> a = b) \<and>
    (\<forall>a i. index_of_attr f a = Some i \<longrightarrow> i \<notin> burned_indices l) \<and>
    (\<forall>a i. index_of_attr l a = Some i \<longrightarrow> i \<notin> burned_indices f)" (is "_ \<longleftrightarrow> ?compatible")
proof
  note view = merge_registry_view [OF assms]
  assume ok: "registry_ok r"
  show ?compatible
  proof (intro conjI allI impI)
    fix a b i assume "index_of_attr f a = Some i" "index_of_attr l b = Some i"
    then have "index_of_attr r a = Some i" "index_of_attr r b = Some i" by (simp_all add: view(4))
    then show "a = b" by (rule registry_okD(3) [OF ok])
  next
    fix a i assume "index_of_attr f a = Some i"
    then show "i \<notin> burned_indices l" using registry_okD(4) [OF ok, of a i] view(3,4) by auto
  next
    fix a i assume "index_of_attr l a = Some i"
    then show "i \<notin> burned_indices f" using registry_okD(4) [OF ok, of a i] view(3,4) by auto
  qed
next
  note view = merge_registry_view [OF assms]
  note f = registry_okD [OF assms(1)] and l = registry_okD [OF assms(2)]
  assume c: ?compatible
  show "registry_ok r"
    unfolding registry_ok_def
  proof (intro conjI allI impI ballI)
    show "distinct_keys (sr_mapping r)" by (rule view)
    show "0 \<le> sr_next r" using f(2) by (simp add: view(2))
    fix a b i assume a: "index_of_attr r a = Some i"
    show "0 \<le> i" "i < sr_next r" "i \<notin> burned_indices r"
      using a c f(4) [of a i] l(4) [of a i] by (auto simp: view)
    assume b: "index_of_attr r b = Some i"
    from a b have "index_of_attr f a = Some i \<or> index_of_attr l a = Some i"
      "index_of_attr f b = Some i \<or> index_of_attr l b = Some i" by (simp_all add: view(4))
    with c f(3) l(3) show "a = b" by blast
  next
    fix i assume "i \<in> burned_indices r"
    then show "0 \<le> i" "i < sr_next r" using f(5) [of i] l(5) [of i] by (auto simp: view)
  qed
qed

lemma assign_known:
  "map_of (sr_mapping (as_registry a)) key = Some i \<Longrightarrow>
     assign_key key a = a\<lparr>as_map := obj_set key (encode_key (Num (of_int i))) (as_map a),
       as_reversed := obj_set (encode_key (Num (of_int i))) key (as_reversed a)\<rparr>"
  by (simp add: assign_key_def registered_def Let_def)

lemma assign_new:
  "map_of (sr_mapping (as_registry a)) key = None \<Longrightarrow> key \<notin> set prototype_keys \<Longrightarrow>
     assign_key key a =
       \<lparr>as_map = obj_set key (encode_key (Num (of_int (sr_next (as_registry a))))) (as_map a),
        as_reversed = obj_set (encode_key (Num (of_int (sr_next (as_registry a))))) key (as_reversed a),
        as_registry = \<lparr>sr_next = sr_next (as_registry a) + 1,
          sr_mapping = obj_set key (sr_next (as_registry a)) (sr_mapping (as_registry a)),
          sr_burned = sr_burned (as_registry a)\<rparr>,
        as_changed = True\<rparr>"
  by (cases a; cases "as_registry a") (simp add: assign_key_def registered_def Let_def)

lemma small_keys:
  "encode_key (Num 0) = [48]" "encode_key (Num 1) = [49]" "encode_key (Num 2) = [50]"
  by (simp_all add: encode_key_def encode_with_def place_digits.simps key_alphabet_def)

lemmas eval_registry = small_keys registry_after_def empty_registry_def mapping_from_registry_def raise_next_def
  assign_known assign_new prototype_keys_def obj_set_def index_key_def is_digit_def
  burn_removed_def burn_entry_def Let_def

text \<open>A well-formed registry and a version of it that another process has extended.\<close>

lemma merge_registry_ok_iff_witness:
  "\<exists>r. merge_schema_registry (Some (registry_after [(lit ''t'', [lit ''a''])]))
       (Some (registry_after [(lit ''t'', [lit ''a'']), (lit ''t'', [lit ''a'', lit ''b''])])) = Some r \<and> registry_ok r"
proof -
  let ?f = "registry_after [(lit ''t'', [lit ''a''])]"
  let ?l = "registry_after [(lit ''t'', [lit ''a'']), (lit ''t'', [lit ''a'', lit ''b''])]"
  have ok: "registry_ok ?f" "registry_ok ?l"
    by (intro registry_after_ok; simp add: plain_names_def prototype_keys_def)+
  have f: "?f = \<lparr>sr_next = 1, sr_mapping = [(lit ''a'', 0)], sr_burned = []\<rparr>"
    and l: "?l = \<lparr>sr_next = 2, sr_mapping = [(lit ''a'', 0), (lit ''b'', 1)], sr_burned = []\<rparr>"
    by (simp_all add: eval_registry)
  obtain r where r: "merge_schema_registry (Some ?f) (Some ?l) = Some r"
    by (auto simp: merge_schema_registry_def)
  have agree: "i = j" if "index_of_attr ?f a = Some i" "index_of_attr ?l a = Some j" for a i j
    using that unfolding f l by (auto split: if_splits)
  have "registry_ok r"
  proof (subst merge_registry_ok_iff [OF ok _ r])
    show "i = j" if "index_of_attr ?f a = Some i" "index_of_attr ?l a = Some j" for a i j
      using agree that .
  qed (unfold f l, auto simp: burned_indices_def split: if_splits)
  with r show ?thesis by blast
qed

text \<open>
  What merging does to the metadata file, resource by resource: those of one side are kept, and of a
  resource on both sides the entry of the own process is kept with the registries merged. Versions of
  the resource that another process has written meanwhile are therefore lost.
\<close>
theorem merge_metadata_resources:
  assumes "distinct_keys (sm_resources local)"
  shows "map_of (sm_resources (merge_metadata fresh local)) name =
    (case map_of (sm_resources local) name of
       None \<Rightarrow> map_of (sm_resources fresh) name
     | Some l \<Rightarrow> Some (case map_of (sm_resources fresh) name of
          None \<Rightarrow> l
        | Some f \<Rightarrow> l\<lparr>
            rm_schema_registry := merge_schema_registry (rm_schema_registry f) (rm_schema_registry l),
            rm_plugin_registries := merge_plugin_registries (rm_plugin_registries f) (rm_plugin_registries l)\<rparr>))"
proof -
  let ?step = "\<lambda>e m. merge_resource e (sm_resources fresh) m"
  have "map_of (fold ?step es m) name =
      (case map_of es name of
         None \<Rightarrow> map_of m name
       | Some l \<Rightarrow> Some (case map_of (sm_resources fresh) name of
          None \<Rightarrow> l
        | Some f \<Rightarrow> l\<lparr>
            rm_schema_registry := merge_schema_registry (rm_schema_registry f) (rm_schema_registry l),
            rm_plugin_registries := merge_plugin_registries (rm_plugin_registries f) (rm_plugin_registries l)\<rparr>))"
    if "distinct_keys es" for es m
    using that
  proof (induction es arbitrary: m)
    case (Cons e es)
    obtain x l where e: "e = (x, l)" by (cases e)
    with Cons.prems have d: "distinct_keys es" "map_of es x = None"
      by (auto simp: distinct_keys_Cons_iff map_of_eq_None_iff)
    from Cons.IH [OF d(1), of "?step e m"] d(2) e show ?case
      by (auto simp: merge_resource_def store_simps split: option.splits)
  qed simp
  from this [OF assms] show ?thesis by (simp add: merge_metadata_def)
qed

text \<open>A file whose version 1 of a resource another process has written, and one that writes version 2.\<close>

lemma merge_metadata_resources_witness:
  "let metadata = (\<lambda>versions. \<lparr>rm_current_version = lit ''v1'', rm_partitions = (), rm_created_by = lit ''user'',
         rm_versions = versions, rm_schema_registry = None, rm_plugin_registries = None\<rparr>);
       file = (\<lambda>m. \<lparr>sm_version = lit ''1'', sm_s3db_version = [], sm_last_updated = [],
         sm_resources = [(lit ''users'', m)]\<rparr>);
       version = (\<lambda>h. \<lparr>vd_hash = h, vd_definition = (), vd_created_at = None\<rparr>);
       fresh = file (metadata [(lit ''v1'', version (lit ''a''))]);
       local = file (metadata [(lit ''v2'', version (lit ''b''))]) in
   map_option rm_versions (map_of (sm_resources (merge_metadata fresh local)) (lit ''users'')) =
     Some [(lit ''v2'', version (lit ''b''))]"
  unfolding Let_def
  by (subst merge_metadata_resources) (simp_all add: distinct_keys_def)

section \<open>New versions\<close>

lemma parse_show_nat: "parse_int (show_nat n) = Some (int n)"
proof -
  have d: "is_digit (hd (show_nat n))" using show_nat_digits [of "hd (show_nat n)" n] by simp
  then have h: "48 \<le> hd (show_nat n)" "hd (show_nat n) \<le> 57" by (simp_all add: is_digit_def)
  have "\<not> is_space (hd (show_nat n))" using h by (auto simp: is_space_def)
  then have ws: "dropWhile is_space (show_nat n) = show_nat n" by (cases "show_nat n") auto
  have tw: "takeWhile is_digit (show_nat n) = show_nat n"
    using show_nat_digits by (auto intro: takeWhile_eq_all_conv [THEN iffD2])
  have rad: "radix_literal (show_nat n) \<noteq> Some 16"
  proof (cases "length (show_nat n) < 2")
    case False
    then have "is_digit (show_nat n ! 1)" using show_nat_digits [of "show_nat n ! 1" n] by simp
    then show ?thesis by (auto simp: radix_literal_def is_digit_def)
  qed (simp add: radix_literal_def)
  have u: "(if show_nat n \<noteq> [] \<and> hd (show_nat n) \<in> {43, 45} then tl (show_nat n) else show_nat n) = show_nat n"
    using h by auto
  show ?thesis unfolding parse_int_def Let_def ws u tw using rad h by simp
qed

lemma parse_negative: "0 < n \<Longrightarrow> parse_int (45 # show_nat n) = Some (- int n)"
proof -
  assume "0 < n"
  have d: "is_digit (hd (show_nat n))" using show_nat_digits [of "hd (show_nat n)" n] by simp
  have ws: "dropWhile is_space (45 # show_nat n) = 45 # show_nat n" by (simp add: is_space_def)
  have tw: "takeWhile is_digit (show_nat n) = show_nat n"
    using show_nat_digits by (auto intro: takeWhile_eq_all_conv [THEN iffD2])
  have rad: "radix_literal (show_nat n) \<noteq> Some 16"
    using hd_show_nat [OF \<open>0 < n\<close>] by (simp add: radix_literal_def)
  have u: "(if 45 # show_nat n \<noteq> [] \<and> hd (45 # show_nat n) \<in> {43, 45 :: nat} then tl (45 # show_nat n)
      else 45 # show_nat n) = show_nat n" by simp
  show ?thesis unfolding parse_int_def Let_def ws u tw using rad by simp
qed

lemma parse_int_text:
  assumes "\<bar>i\<bar> < 10 ^ 21"
  shows "parse_int (int_text i) = Some i"
proof (cases "i < 0")
  case True
  then have "nat (- i) < 10 ^ 21" "0 < nat (- i)" using assms by (simp_all add: nat_less_iff)
  with True show ?thesis by (simp add: int_text_def nat_text_def parse_negative)
next
  case False
  then have "nat i < 10 ^ 21" using assms by (simp add: nat_less_iff)
  with False show ?thesis by (simp add: int_text_def nat_text_def parse_show_nat)
qed

text \<open>The number behind the \<open>v\<close> of a version name.\<close>

definition version_number :: "ustring \<Rightarrow> int option" where
  "version_number v = (if starts_with v (lit ''v'') then parse_int (tl v) else None)"

text \<open>
  A new version is new. The version chosen next is not among the existing ones, and its number is
  larger than all of theirs, as long as their numbers have at most twenty digits.
\<close>
theorem next_version_is_new:
  assumes "\<And>v i. v \<in> fst ` set versions \<Longrightarrow> version_number v = Some i \<Longrightarrow> \<bar>i\<bar> < 10 ^ 20"
  shows "get_next_version versions \<notin> fst ` set versions \<and>
    (\<exists>n. version_number (get_next_version versions) = Some n \<and>
      (\<forall>v \<in> fst ` set versions. \<forall>i. version_number v = Some i \<longrightarrow> i < n))"
proof -
  define ns where "ns = List.map_filter parse_int
    (map tl (filter (\<lambda>v. starts_with v (lit ''v'')) (map fst versions)))"
  define m where "m = (if ns = [] then 0 else Max (set ns))"
  have ns: "i \<in> set ns \<longleftrightarrow> (\<exists>v \<in> fst ` set versions. version_number v = Some i)" for i
    by (force simp: ns_def map_filter_def version_number_def)
  have le: "i \<le> m" if "i \<in> set ns" for i using that by (auto simp: m_def)
  have "m = 0 \<or> m \<in> set ns" using Max_in [of "set ns"] by (auto simp: m_def)
  then have "\<bar>m\<bar> < 10 ^ 20" using assms ns by auto
  then have "\<bar>m + 1\<bar> < 10 ^ 21" by (simp add: abs_less_iff)
  moreover have "get_next_version versions = lit ''v'' @ int_text (m + 1)"
    by (simp only: get_next_version_def Let_def ns_def m_def)
  ultimately have num: "version_number (get_next_version versions) = Some (m + 1)"
    by (simp add: version_number_def starts_with_def parse_int_text)
  have less: "\<forall>v \<in> fst ` set versions. \<forall>i. version_number v = Some i \<longrightarrow> i < m + 1"
    using le ns by fastforce
  with num have "get_next_version versions \<notin> fst ` set versions" by fastforce
  with num less show ?thesis by blast
qed

lemma next_version_is_new_witness:
  "get_next_version [(lit ''v1'', ()), (lit ''v7'', ())] \<notin> {lit ''v1'', lit ''v7''}"
proof -
  have "version_number (lit ''v1'') = Some 1" "version_number (lit ''v7'') = Some 7"
    by (simp_all add: version_number_def starts_with_def parse_int_def radix_literal_def is_space_def
        is_digit_def digits_value_def)
  then have "\<bar>i\<bar> < 10 ^ 20" if "v \<in> fst ` set [(lit ''v1'', ()), (lit ''v7'', ())]" "version_number v = Some i" for v i
    using that by (auto simp del: lit_Cons)
  then have "get_next_version [(lit ''v1'', ()), (lit ''v7'', ())] \<notin> fst ` set [(lit ''v1'', ()), (lit ''v7'', ())]"
    using next_version_is_new by blast
  then show ?thesis by simp
qed

text \<open>The key of an attribute under a registry, and the registry after registering attributes.\<close>

definition key_in :: "schema_registry option \<Rightarrow> string list \<Rightarrow> string \<Rightarrow> ustring option" where
  "key_in r keys a = map_of (as_map (mapping_from_registry (lit ''t'') (map lit keys) r)) (lit a)"

definition registry_in :: "schema_registry option \<Rightarrow> string list \<Rightarrow> schema_registry" where
  "registry_in r keys = as_registry (mapping_from_registry (lit ''t'') (map lit keys) r)"

text \<open>
  Keys are given out twice. A single process that removes an attribute and later adds it back gets
  its burned key again, because merging with the file brings the burned index back; without the merge
  it gets a new one. And two processes that each add an attribute to the same state write a registry
  in which both have the same index, so that the next process stores both under one key.
\<close>
theorem merged_keys_given_twice:
  "(let r1 = registry_in None [''x'', ''y'']; r2 = registry_in (Some r1) [''x''];
       merged = merge_schema_registry (Some r1) (Some r2) in
   map be_key (sr_burned r2) = [1] \<and>
   key_in (Some r2) [''x'', ''y''] ''y'' = Some (lit ''2'') \<and>
   key_in merged [''x'', ''y''] ''y'' = Some (lit ''1'')) \<and>
  (let r0 = registry_in None [''x'']; rp = registry_in (Some r0) [''x'', ''p''];
       rq = registry_in (Some r0) [''x'', ''q''];
       merged = merge_schema_registry (Some rp) (Some rq) in
   key_in merged [''x'', ''p'', ''q''] ''p'' = Some (lit ''1'') \<and>
   key_in merged [''x'', ''p'', ''q''] ''q'' = Some (lit ''1''))"
proof (rule conjI)
  note ev = registry_in_def eval_registry
  let ?b = "\<lparr>be_key = 1, be_attribute = lit ''y'', be_at = lit ''t'', be_reason = Some (lit ''removed'')\<rparr>"
  have r1: "registry_in None [''x'', ''y''] = \<lparr>sr_next = 2, sr_mapping = [(lit ''x'', 0), (lit ''y'', 1)], sr_burned = []\<rparr>"
    by (simp add: ev)
  then have r2: "registry_in (Some (registry_in None [''x'', ''y''])) [''x''] =
      \<lparr>sr_next = 2, sr_mapping = [(lit ''x'', 0)], sr_burned = [?b]\<rparr>"
    by (simp add: ev)
  show "let r1 = registry_in None [''x'', ''y'']; r2 = registry_in (Some r1) [''x''];
       merged = merge_schema_registry (Some r1) (Some r2) in
   map be_key (sr_burned r2) = [1] \<and>
   key_in (Some r2) [''x'', ''y''] ''y'' = Some (lit ''2'') \<and>
   key_in merged [''x'', ''y''] ''y'' = Some (lit ''1'')"
    unfolding Let_def r2 unfolding r1
    by (simp add: key_in_def eval_registry merge_schema_registry_def merge_index_def merge_burned_def)
next
  note ev = registry_in_def eval_registry
  have r0: "registry_in None [''x''] = \<lparr>sr_next = 1, sr_mapping = [(lit ''x'', 0)], sr_burned = []\<rparr>"
    by (simp add: ev)
  then have rp: "registry_in (Some (registry_in None [''x''])) [''x'', ''p''] =
      \<lparr>sr_next = 2, sr_mapping = [(lit ''x'', 0), (lit ''p'', 1)], sr_burned = []\<rparr>"
    and rq: "registry_in (Some (registry_in None [''x''])) [''x'', ''q''] =
      \<lparr>sr_next = 2, sr_mapping = [(lit ''x'', 0), (lit ''q'', 1)], sr_burned = []\<rparr>"
    by (simp_all add: ev)
  show "let r0 = registry_in None [''x'']; rp = registry_in (Some r0) [''x'', ''p''];
       rq = registry_in (Some r0) [''x'', ''q''];
       merged = merge_schema_registry (Some rp) (Some rq) in
   key_in merged [''x'', ''p'', ''q''] ''p'' = Some (lit ''1'') \<and>
   key_in merged [''x'', ''p'', ''q''] ''q'' = Some (lit ''1'')"
    unfolding Let_def rp rq
    by (simp add: key_in_def merge_schema_registry_def merge_index_def merge_burned_def
        mapping_from_registry_def raise_next_def assign_known obj_set_def index_key_def is_digit_def
        burn_removed_def burn_entry_def small_keys)
qed

end
