(* ===== verification/Value_Texts.thy ===== *)
theory Value_Texts
  imports Number_Codecs
begin

text \<open>
  The texts of special values that the validator (\<open>core/src/validator.class.ts\<close>) accepts and the schema
  (\<open>core/src/schema.class.ts\<close>) stores compactly: the regular expressions both test, as functions from
  a text to the fields they capture, and the number readings of the language they use. Numbers are
  exact here; those of the code are doubles, which are exact up to \<open>2 ^ 53\<close>. \<open>toLowerCase\<close> is applied to
  the letters of ASCII only: no other letter has a lower case that the expressions would accept.
\<close>

section \<open>Strings\<close>

definition contains :: "ustring \<Rightarrow> ustring \<Rightarrow> bool" where
  "contains s p \<longleftrightarrow> index_of s p \<noteq> None"

definition lower :: "ustring \<Rightarrow> ustring" where
  "lower s = map (\<lambda>u. if 65 \<le> u \<and> u \<le> 90 then u + 32 else u) s"

definition upper :: "ustring \<Rightarrow> ustring" where
  "upper s = map (\<lambda>u. if 97 \<le> u \<and> u \<le> 122 then u - 32 else u) s"

definition is_letter :: "nat \<Rightarrow> bool" where
  "is_letter u \<longleftrightarrow> (65 \<le> u \<and> u \<le> 90) \<or> (97 \<le> u \<and> u \<le> 122)"

definition lower_hex :: "nat \<Rightarrow> bool" where
  "lower_hex u \<longleftrightarrow> is_digit u \<or> (97 \<le> u \<and> u \<le> 102)"

definition is_hex :: "nat \<Rightarrow> bool" where
  "is_hex u \<longleftrightarrow> hex_value u \<noteq> None"

definition all_digits :: "ustring \<Rightarrow> bool" where
  "all_digits s \<longleftrightarrow> s \<noteq> [] \<and> list_all is_digit s"

definition pad_end :: "nat \<Rightarrow> nat \<Rightarrow> ustring \<Rightarrow> ustring" where
  "pad_end n c s = s @ replicate (n - length s) c"

text \<open>\<open>s.match(/.{2}/g)\<close>.\<close>

fun pairs :: "ustring \<Rightarrow> ustring list" where
  "pairs (a # b # s) = [a, b] # pairs s"
| "pairs _ = []"

section \<open>Numbers\<close>

text \<open>\<open>parseInt(s, 16)\<close> and \<open>parseInt(s, 10)\<close>.\<close>

definition hex_number :: "ustring \<Rightarrow> nat" where
  "hex_number s = foldl (\<lambda>a u. 16 * a + (case hex_value u of Some i \<Rightarrow> i | None \<Rightarrow> 0)) 0 s"

definition parse_signed :: "(ustring \<Rightarrow> nat option) \<Rightarrow> ustring \<Rightarrow> js_number" where
  "parse_signed read s =
     (let t = dropWhile is_space s; neg = (t \<noteq> [] \<and> hd t = 45);
          u = (if t \<noteq> [] \<and> hd t \<in> {43, 45} then tl t else t) in
      case read u of
        None \<Rightarrow> NaN
      | Some n \<Rightarrow> Num (if neg then - of_nat n else of_nat n))"

definition read_hex :: "ustring \<Rightarrow> nat option" where
  "read_hex s =
     (let t = (if starts_with s (lit ''0x'') \<or> starts_with s (lit ''0X'') then drop 2 s else s);
          ds = takeWhile (\<lambda>u. hex_value u \<noteq> None) t in
      if ds = [] then None else Some (hex_number ds))"

definition read_decimal :: "ustring \<Rightarrow> nat option" where
  "read_decimal s = (let ds = takeWhile is_digit s in if ds = [] then None else Some (digits_value ds))"

definition parse_hex :: "ustring \<Rightarrow> js_number" where
  "parse_hex = parse_signed read_hex"

definition parse_decimal :: "ustring \<Rightarrow> js_number" where
  "parse_decimal = parse_signed read_decimal"

text \<open>\<open>n.toString()\<close> and \<open>n.toString(16)\<close> of an integer or \<open>NaN\<close>, the values \<open>decode\<close> has.\<close>

definition hex_alphabet :: ustring where
  "hex_alphabet = lit ''0123456789abcdef''"

definition number_text :: "js_number \<Rightarrow> ustring" where
  "number_text n =
     (case n of Num x \<Rightarrow> int_text \<lfloor>x\<rfloor> | PosInf \<Rightarrow> lit ''Infinity'' | NegInf \<Rightarrow> lit ''-Infinity''
      | NaN \<Rightarrow> lit ''NaN'')"

definition hex_text :: "js_number \<Rightarrow> ustring" where
  "hex_text n = (case n of Num x \<Rightarrow> encode_with hex_alphabet (Num x) | _ \<Rightarrow> number_text n)"

text \<open>Arithmetic on such values; \<open>NaN\<close> stays \<open>NaN\<close>. The remainder has the sign of the dividend.\<close>

definition on_int :: "(int \<Rightarrow> int) \<Rightarrow> js_number \<Rightarrow> js_number" where
  "on_int f n = (case n of Num x \<Rightarrow> Num (of_int (f \<lfloor>x\<rfloor>)) | _ \<Rightarrow> NaN)"

definition js_rem :: "int \<Rightarrow> int \<Rightarrow> int" where
  "js_rem a b = (if a < 0 then - (- a mod b) else a mod b)"

text \<open>The decimal \<open>/\<close>\<open>\d+(?:\.\d+)?\<close>\<open>/\<close> read by \<open>parseFloat\<close>, from its two runs of digits.\<close>

definition decimal_number :: "ustring \<Rightarrow> ustring \<Rightarrow> rat" where
  "decimal_number a b = of_nat (digits_value a) + of_nat (digits_value b) / 10 ^ length b"

section \<open>Times of day\<close>

text \<open>\<open>/^(\d{2}):(\d{2})(?::(\d{2})(?:\.(\d{1,3}))?)?$/\<close>.\<close>

definition match_fraction :: "ustring \<Rightarrow> nat option" where
  "match_fraction s =
     (if s = [] then Some 0
      else if hd s = 46 \<and> all_digits (tl s) \<and> length (tl s) \<le> 3 then Some (digits_value (pad_end 3 48 (tl s)))
      else None)"

definition match_seconds :: "ustring \<Rightarrow> (nat \<times> nat) option" where
  "match_seconds s =
     (if s = [] then Some (0, 0)
      else if hd s = 58 \<and> length s \<ge> 3 \<and> all_digits (take 2 (tl s)) then
        map_option (\<lambda>ms. (digits_value (take 2 (tl s)), ms)) (match_fraction (drop 3 s))
      else None)"

definition match_time :: "ustring \<Rightarrow> (nat \<times> nat \<times> nat \<times> nat) option" where
  "match_time s =
     (if length s \<ge> 5 \<and> all_digits (take 2 s) \<and> s ! 2 = 58 \<and> all_digits (take 2 (drop 3 s)) then
        map_option (\<lambda>(sc, ms). (digits_value (take 2 s), digits_value (take 2 (drop 3 s)), sc, ms))
          (match_seconds (drop 5 s))
      else None)"

definition time_text :: "ustring \<Rightarrow> ustring \<Rightarrow> ustring \<Rightarrow> ustring \<Rightarrow> ustring" where
  "time_text h m s ms =
     pad_start 2 48 h @ [58] @ pad_start 2 48 m @ [58] @ pad_start 2 48 s @ [46] @ pad_start 3 48 ms"

section \<open>Versions and networks\<close>

text \<open>\<open>/^(\d+)\.(\d+)\.(\d+)$/\<close>.\<close>

definition match_semver :: "ustring \<Rightarrow> (nat \<times> nat \<times> nat) option" where
  "match_semver s =
     (case split_on 46 s of
        [a, b, c] \<Rightarrow>
          if all_digits a \<and> all_digits b \<and> all_digits c then Some (digits_value a, digits_value b, digits_value c)
          else None
      | _ \<Rightarrow> None)"

text \<open>\<open>/^(\d{1,3})\.(\d{1,3})\.(\d{1,3})\.(\d{1,3})\/(\d{1,2})$/\<close>.\<close>

definition match_cidr :: "ustring \<Rightarrow> (nat list \<times> nat) option" where
  "match_cidr s =
     (case split_on 47 s of
        [ip, p] \<Rightarrow>
          if length (split_on 46 ip) = 4 \<and> list_all (\<lambda>x. all_digits x \<and> length x \<le> 3) (split_on 46 ip) \<and>
             all_digits p \<and> length p \<le> 2
          then Some (map digits_value (split_on 46 ip), digits_value p) else None
      | _ \<Rightarrow> None)"

section \<open>Durations\<close>

text \<open>
  \<open>/^P(?:(\d+)D)?(?:T(?:(\d+)H)?(?:(\d+)M)?(?:(\d+(?:\.\d+)?)S)?)?$/\<close>, apart from \<open>P\<close> and \<open>PT\<close>: an
  optional field is a run of digits followed by its letter.
\<close>

definition take_field :: "nat \<Rightarrow> ustring \<Rightarrow> nat \<times> ustring" where
  "take_field c s =
     (let ds = takeWhile is_digit s; r = dropWhile is_digit s in
      if ds \<noteq> [] \<and> r \<noteq> [] \<and> hd r = c then (digits_value ds, tl r) else (0, s))"

definition take_seconds :: "ustring \<Rightarrow> rat \<times> ustring" where
  "take_seconds s =
     (let ds = takeWhile is_digit s; r = dropWhile is_digit s;
          fs = (if r \<noteq> [] \<and> hd r = 46 then takeWhile is_digit (tl r) else []);
          r' = (if fs \<noteq> [] then dropWhile is_digit (tl r) else r) in
      if ds \<noteq> [] \<and> r' \<noteq> [] \<and> hd r' = 83 then (decimal_number ds fs, tl r') else (0, s))"

definition iso_duration :: "ustring \<Rightarrow> rat option" where
  "iso_duration s =
     (if \<not> starts_with s (lit ''P'') \<or> s = lit ''P'' \<or> s = lit ''PT'' then None
      else
        let (d, r) = take_field 68 (tl s) in
        if r = [] then Some (of_nat d * 86400)
        else if hd r \<noteq> 84 then None
        else
          let (h, r1) = take_field 72 (tl r); (m, r2) = take_field 77 r1; (sc, r3) = take_seconds r2 in
          if r3 = [] then Some (of_nat d * 86400 + of_nat h * 3600 + of_nat m * 60 + sc) else None)"

text \<open>
  The form \<open>1d 2h 3m 4s 5ms\<close>: the first run of digits (with a fraction, except for milliseconds)
  directly before each unit. Runs before \<open>ms\<close> are removed before the other units are looked for.
\<close>

definition amount_at :: "bool \<Rightarrow> ustring \<Rightarrow> ustring \<Rightarrow> (rat \<times> ustring) option" where
  "amount_at fraction u s =
     (let ds = takeWhile is_digit s; r = dropWhile is_digit s;
          fs = (if fraction \<and> r \<noteq> [] \<and> hd r = 46 then takeWhile is_digit (tl r) else []);
          r' = (if fs \<noteq> [] then dropWhile is_digit (tl r) else r) in
      if ds \<noteq> [] \<and> starts_with r' u then Some (decimal_number ds fs, drop (length u) r') else None)"

fun find_amount :: "bool \<Rightarrow> ustring \<Rightarrow> ustring \<Rightarrow> rat option" where
  "find_amount fraction u [] = None"
| "find_amount fraction u (c # s) =
     (case amount_at fraction u (c # s) of
        Some (x, _) \<Rightarrow> Some x
      | None \<Rightarrow> find_amount fraction u s)"

lemma amount_at_shorter:
  assumes "amount_at f u s = Some (x, r)"
  shows "length r < length s"
proof -
  let ?d = "dropWhile is_digit s"
  have ds: "takeWhile is_digit s \<noteq> []"
    using assms by (auto simp: amount_at_def Let_def split: if_splits)
  have "length (takeWhile is_digit s) + length ?d = length s"
    by (metis length_append takeWhile_dropWhile_id)
  with ds have d: "length ?d < length s" by (cases "takeWhile is_digit s") auto
  have "length (dropWhile is_digit (tl ?d)) \<le> length ?d"
    using length_dropWhile_le [of is_digit "tl ?d"] by simp
  with d assms show ?thesis by (auto simp: amount_at_def Let_def split: if_splits)
qed

function remove_millis :: "ustring \<Rightarrow> ustring" where
  "remove_millis [] = []"
| "remove_millis (c # s) =
     (case amount_at False (lit ''ms'') (c # s) of
        Some (_, r) \<Rightarrow> remove_millis r
      | None \<Rightarrow> c # remove_millis s)"
  by pat_completeness auto

termination
  by (relation "measure length") (auto dest: amount_at_shorter)

definition human_duration :: "ustring \<Rightarrow> rat option" where
  "human_duration value =
     (let s = lower value; clean = remove_millis s;
          ms = find_amount False (lit ''ms'') s; d = find_amount True (lit ''d'') clean;
          h = find_amount True (lit ''h'') clean; m = find_amount True (lit ''m'') clean;
          sc = find_amount True (lit ''s'') clean;
          times = (\<lambda>k x. case x of Some y \<Rightarrow> y * k | None \<Rightarrow> 0) in
      if list_all (\<lambda>x. x = None) [ms, d, h, m, sc] then None
      else Some (times 1 ms + times 86400000 d + times 3600000 h + times 60000 m + times 1000 sc))"

text \<open>The milliseconds of a duration text.\<close>

definition duration_millis :: "ustring \<Rightarrow> int option" where
  "duration_millis s =
     (case iso_duration s of
        Some x \<Rightarrow> Some (js_round (x * 1000))
      | None \<Rightarrow> map_option js_round (human_duration s))"

end
