(* ===== verification/Validator_Values.thy ===== *)
theory Validator_Values
  imports Value_Texts
begin

text \<open>
  The custom checks of \<open>core/src/validator.class.ts\<close>: each accepts a value, mostly in a normal form, or
  pushes an error of its type. Values are JSON values (no \<open>Date\<close> instances). \<open>new Date(text)\<close> and
  \<open>toISOString\<close>, for a time in milliseconds, are arguments.
\<close>

datatype validation = Valid js_value | Invalid ustring

record dates =
  date_of_text :: "ustring \<Rightarrow> rat option"
  date_of_number :: "js_number \<Rightarrow> rat option"
  iso_text :: "rat \<Rightarrow> ustring"

section \<open>Dates and times\<close>

definition validate_datetime :: "dates \<Rightarrow> js_value \<Rightarrow> validation" where
  "validate_datetime D v =
     (let date = (\<lambda>t. case t of Some x \<Rightarrow> Valid (JString (iso_text D x)) | None \<Rightarrow> Invalid (lit ''datetime'')) in
      case v of
        JNull \<Rightarrow> Valid v
      | JUndefined \<Rightarrow> Valid v
      | JNumber n \<Rightarrow> date (date_of_number D n)
      | JString s \<Rightarrow> date (date_of_text D s)
      | _ \<Rightarrow> Invalid (lit ''datetime''))"

definition midnight :: "ustring \<Rightarrow> ustring" where
  "midnight s = (if 84 \<in> set s then s else s @ lit ''T00:00:00.000Z'')"

definition validate_dateonly :: "dates \<Rightarrow> js_value \<Rightarrow> validation" where
  "validate_dateonly D v =
     (let date = (\<lambda>t. case t of Some x \<Rightarrow> Valid (JString (take 10 (iso_text D x))) | None \<Rightarrow> Invalid (lit ''date'')) in
      case v of
        JNull \<Rightarrow> Valid v
      | JUndefined \<Rightarrow> Valid v
      | JNumber n \<Rightarrow> date (date_of_number D n)
      | JString s \<Rightarrow> date (date_of_text D (midnight s))
      | _ \<Rightarrow> Invalid (lit ''date''))"

definition time_of :: "nat \<times> nat \<times> nat \<times> nat \<Rightarrow> ustring" where
  "time_of t = (let (h, m, sc, ms) = t in time_text (show_nat h) (show_nat m) (show_nat sc) (show_nat ms))"

definition time_in_day :: "nat \<times> nat \<times> nat \<times> nat \<Rightarrow> bool" where
  "time_in_day t = (let (h, m, sc, ms) = t in h \<le> 23 \<and> m \<le> 59 \<and> sc \<le> 59 \<and> ms \<le> 999)"

definition validate_timeonly :: "dates \<Rightarrow> js_value \<Rightarrow> validation" where
  "validate_timeonly D v =
     (let by_date = (\<lambda>s. if 84 \<in> set s then
            (case date_of_text D s of
               Some x \<Rightarrow> Valid (JString (take 12 (drop 11 (iso_text D x))))
             | None \<Rightarrow> Invalid (lit ''timeonly''))
          else Invalid (lit ''timeonly'')) in
      case v of
        JNull \<Rightarrow> Valid v
      | JUndefined \<Rightarrow> Valid v
      | JString s \<Rightarrow>
          (case match_time s of
             Some t \<Rightarrow> if time_in_day t then Valid (JString (time_of t)) else by_date s
           | None \<Rightarrow> by_date s)
      | _ \<Rightarrow> Invalid (lit ''timeonly''))"

section \<open>Addresses, versions, numbers of things\<close>

definition text_check :: "ustring \<Rightarrow> (ustring \<Rightarrow> ustring option) \<Rightarrow> js_value \<Rightarrow> validation" where
  "text_check type check v =
     (case v of
        JNull \<Rightarrow> Valid v
      | JUndefined \<Rightarrow> Valid v
      | JString s \<Rightarrow> (case check s of Some t \<Rightarrow> Valid (JString t) | None \<Rightarrow> Invalid type)
      | _ \<Rightarrow> Invalid type)"

definition check_mac :: "ustring \<Rightarrow> ustring option" where
  "check_mac s =
     (let cleaned = lower (filter (\<lambda>u. u \<notin> {58, 45, 46}) s) in
      if length cleaned = 12 \<and> list_all lower_hex cleaned then Some (join [58] (pairs cleaned)) else None)"

definition check_cidr :: "ustring \<Rightarrow> ustring option" where
  "check_cidr s =
     (case match_cidr s of
        Some (octets, prefix) \<Rightarrow>
          if list_all (\<lambda>o'. o' \<le> 255) octets \<and> prefix \<le> 32
          then Some (join [46] (map show_nat octets) @ [47] @ show_nat prefix) else None
      | None \<Rightarrow> None)"

definition semver_text :: "nat \<Rightarrow> nat \<Rightarrow> nat \<Rightarrow> ustring" where
  "semver_text a b c = nat_text a @ [46] @ nat_text b @ [46] @ nat_text c"

definition check_semver :: "ustring \<Rightarrow> ustring option" where
  "check_semver s =
     map_option (\<lambda>(a, b, c). semver_text a b c)
       (match_semver (if starts_with s (lit ''v'') then tl s else s))"

definition check_phone :: "ustring \<Rightarrow> ustring option" where
  "check_phone s =
     (let digits = filter (\<lambda>u. \<not> is_space u \<and> u \<notin> {45, 40, 41, 46}) s;
          withPlus = (if starts_with digits (lit ''+'') then digits else lit ''+'' @ digits) in
      if all_digits (tl withPlus) \<and> 7 \<le> length (tl withPlus) \<and> length (tl withPlus) \<le> 15
      then Some withPlus else None)"

definition check_color :: "ustring \<Rightarrow> ustring option" where
  "check_color s =
     (let hex = lower (if starts_with s (lit ''#'') then tl s else s);
          hex' = (if length hex = 3 \<and> list_all lower_hex hex
                  then [hex ! 0, hex ! 0, hex ! 1, hex ! 1, hex ! 2, hex ! 2] else hex) in
      if length hex' = 6 \<and> list_all lower_hex hex' then Some (lit ''#'' @ hex') else None)"

definition validate_mac :: "js_value \<Rightarrow> validation" where
  "validate_mac = text_check (lit ''mac'') check_mac"

definition validate_cidr :: "js_value \<Rightarrow> validation" where
  "validate_cidr = text_check (lit ''cidr'') check_cidr"

definition validate_semver :: "js_value \<Rightarrow> validation" where
  "validate_semver = text_check (lit ''semver'') check_semver"

definition validate_phone :: "js_value \<Rightarrow> validation" where
  "validate_phone = text_check (lit ''phone'') check_phone"

definition validate_color :: "js_value \<Rightarrow> validation" where
  "validate_color = text_check (lit ''color'') check_color"

text \<open>Durations become a number of milliseconds.\<close>

definition validate_duration :: "js_value \<Rightarrow> validation" where
  "validate_duration v =
     (case v of
        JNull \<Rightarrow> Valid v
      | JUndefined \<Rightarrow> Valid v
      | JNumber (Num x) \<Rightarrow> if 0 \<le> x then Valid v else Invalid (lit ''duration'')
      | JString s \<Rightarrow>
          (case duration_millis s of
             Some ms \<Rightarrow> Valid (JNumber (Num (of_int ms)))
           | None \<Rightarrow> Invalid (lit ''duration''))
      | _ \<Rightarrow> Invalid (lit ''duration''))"

section \<open>Codes\<close>

text \<open>
  Cron fields: \<open>*\<close>, \<open>*/n\<close>, or a list of \<open>a\<close>, \<open>a-b\<close> with an optional step. \<open>split(/\s+/)\<close> of a trimmed text
  gives its words, and one empty word for an empty text.
\<close>

function split_words :: "ustring \<Rightarrow> ustring list" where
  "split_words s =
     (let w = takeWhile (\<lambda>u. \<not> is_space u) s; r = dropWhile (\<lambda>u. \<not> is_space u) s in
      if r = [] then [w] else w # split_words (dropWhile is_space r))"
  by pat_completeness auto
termination
proof (relation "measure length")
  fix s :: ustring and w r
  assume r: "r = dropWhile (\<lambda>u. \<not> is_space u) s" "r \<noteq> []"
  then have "is_space (hd r)" using hd_dropWhile by blast
  with r(2) have "length (dropWhile is_space r) < length r"
    by (cases r) (auto simp: length_dropWhile_le le_imp_less_Suc)
  also have "length r \<le> length s" unfolding r(1) by (rule length_dropWhile_le)
  finally show "(dropWhile is_space r, s) \<in> measure length" by simp
qed auto

declare split_words.simps [simp del]

definition cron_item :: "ustring \<Rightarrow> bool" where
  "cron_item s =
     (case split_on 47 s of
        [r] \<Rightarrow> length (split_on 45 r) \<le> 2 \<and> list_all all_digits (split_on 45 r)
      | [r, step] \<Rightarrow> length (split_on 45 r) \<le> 2 \<and> list_all all_digits (split_on 45 r) \<and> all_digits step
      | _ \<Rightarrow> False)"

definition cron_field :: "ustring \<Rightarrow> bool" where
  "cron_field s =
     (s = lit ''*'' \<or> list_all cron_item (split_on 44 s) \<or>
      (starts_with s (lit ''*/'') \<and> all_digits (drop 2 s)))"

definition check_cron :: "ustring \<Rightarrow> ustring option" where
  "check_cron s =
     (let parts = split_words (trim s) in
      if length parts = 5 \<and> list_all cron_field parts then Some (join (lit '' '') parts) else None)"

definition check_locale :: "ustring \<Rightarrow> ustring option" where
  "check_locale s =
     (if length s = 5 \<and> list_all is_letter (take 2 s) \<and> s ! 2 \<in> {45, 95} \<and> list_all is_letter (drop 3 s)
      then Some (lower (take 2 s) @ [45] @ upper (drop 3 s))
      else if length s = 2 \<and> list_all is_letter s then Some (lower s) else None)"

definition check_code :: "nat \<Rightarrow> ustring \<Rightarrow> ustring option" where
  "check_code n s = (if length s = n \<and> list_all is_letter s then Some (upper s) else None)"

definition validate_cron :: "js_value \<Rightarrow> validation" where
  "validate_cron = text_check (lit ''cron'') check_cron"

definition validate_locale :: "js_value \<Rightarrow> validation" where
  "validate_locale = text_check (lit ''locale'') check_locale"

definition validate_currency :: "js_value \<Rightarrow> validation" where
  "validate_currency = text_check (lit ''currency'') (check_code 3)"

definition validate_country :: "js_value \<Rightarrow> validation" where
  "validate_country = text_check (lit ''country'') (check_code 2)"

definition validate_ean :: "js_value \<Rightarrow> validation" where
  "validate_ean v =
     (case v of
        JNull \<Rightarrow> Valid v
      | JUndefined \<Rightarrow> Valid v
      | JString s \<Rightarrow>
          if all_digits s \<and> length s \<in> {8, 12, 13, 14} then Valid v else Invalid (lit ''ean'')
      | JNumber (Num x) \<Rightarrow>
          if x = of_int \<lfloor>x\<rfloor> \<and> 0 \<le> x \<and> length (int_text \<lfloor>x\<rfloor>) \<le> 14
          then Valid (JString (pad_start 13 48 (int_text \<lfloor>x\<rfloor>))) else Invalid (lit ''ean'')
      | _ \<Rightarrow> Invalid (lit ''ean''))"

end
