(* ===== verification/Special_Values.thy ===== *)
theory Special_Values
  imports Validator_Values "HOL-Library.Word"
begin

text \<open>
  The compact forms of special values in \<open>mapper\<close> and \<open>unmapper\<close> of \<open>core/src/schema.class.ts\<close>, by the
  type of the attribute: what is stored for a value, and what is read back. Values are JSON values.
\<close>

section \<open>Identifiers and times\<close>

definition map_uuid :: "js_value \<Rightarrow> js_value" where
  "map_uuid v =
     (case v of
        JString s \<Rightarrow>
          let hex = filter (\<lambda>u. u \<noteq> 45) s in
          if length hex = 32
          then JString (concat (map (\<lambda>i. pad_start 6 48 (encode (parse_hex (take 8 (drop i hex))))) [0, 8, 16, 24]))
          else v
      | _ \<Rightarrow> v)"

definition unmap_uuid :: "js_value \<Rightarrow> js_value" where
  "unmap_uuid v =
     (case v of
        JString s \<Rightarrow>
          if length s = 24 \<and> 45 \<notin> set s then
            let hex = concat (map (\<lambda>i. pad_start 8 48 (hex_text (decode (take 6 (drop i s))))) [0, 6, 12, 18]) in
            JString (take 8 hex @ [45] @ take 4 (drop 8 hex) @ [45] @ take 4 (drop 12 hex) @ [45] @
              take 4 (drop 16 hex) @ [45] @ take 12 (drop 20 hex))
          else v
      | _ \<Rightarrow> v)"

definition map_datetime :: "dates \<Rightarrow> js_value \<Rightarrow> js_value" where
  "map_datetime D v =
     (case v of
        JString s \<Rightarrow>
          if s = [] then v
          else (case date_of_text D s of Some t \<Rightarrow> JString (encode (Num t)) | None \<Rightarrow> v)
      | _ \<Rightarrow> v)"

text \<open>\<open>toISOString\<close> throws on an invalid date: the result is \<open>None\<close>.\<close>

definition unmap_datetime :: "dates \<Rightarrow> js_value \<Rightarrow> js_value option" where
  "unmap_datetime D v =
     (case v of
        JString s \<Rightarrow>
          if s = [] then Some v
          else map_option (\<lambda>t. JString (iso_text D t)) (date_of_number D (decode s))
      | _ \<Rightarrow> Some v)"

definition day_millis :: rat where
  "day_millis = 86400000"

definition map_dateonly :: "dates \<Rightarrow> js_value \<Rightarrow> js_value" where
  "map_dateonly D v =
     (case v of
        JString s \<Rightarrow>
          if s = [] then v
          else (case date_of_text D (midnight s) of
                  Some t \<Rightarrow> JString (encode (Num (of_int \<lfloor>t / day_millis\<rfloor>))) | None \<Rightarrow> v)
      | _ \<Rightarrow> v)"

definition unmap_dateonly :: "dates \<Rightarrow> js_value \<Rightarrow> js_value option" where
  "unmap_dateonly D v =
     (case v of
        JString s \<Rightarrow>
          if s = [] then Some v
          else map_option (\<lambda>t. JString (take 10 (iso_text D t)))
                 (date_of_number D (case decode s of Num x \<Rightarrow> Num (x * day_millis) | n \<Rightarrow> n))
      | _ \<Rightarrow> Some v)"

definition time_millis :: "nat \<times> nat \<times> nat \<times> nat \<Rightarrow> nat" where
  "time_millis t = (let (h, m, sc, ms) = t in (h * 3600 + m * 60 + sc) * 1000 + ms)"

definition map_timeonly :: "js_value \<Rightarrow> js_value" where
  "map_timeonly v =
     (case v of
        JString s \<Rightarrow>
          (case match_time s of Some t \<Rightarrow> JString (encode (Num (of_nat (time_millis t)))) | None \<Rightarrow> v)
      | _ \<Rightarrow> v)"

definition unmap_timeonly :: "js_value \<Rightarrow> js_value" where
  "unmap_timeonly v =
     (case v of
        JString s \<Rightarrow>
          if s = [] then v
          else
            let total = decode s; secs = on_int (\<lambda>t. t div 1000) total; mins = on_int (\<lambda>t. t div 60) secs in
            JString (time_text (number_text (on_int (\<lambda>t. t div 60) mins))
              (number_text (on_int (\<lambda>t. js_rem t 60) mins)) (number_text (on_int (\<lambda>t. js_rem t 60) secs))
              (number_text (on_int (\<lambda>t. js_rem t 1000) total)))
      | _ \<Rightarrow> v)"

section \<open>Addresses\<close>

definition map_mac :: "js_value \<Rightarrow> js_value" where
  "map_mac v =
     (case v of
        JString s \<Rightarrow>
          let hex = filter (\<lambda>u. u \<noteq> 58) s in
          if length hex = 12 then JString (pad_start 9 48 (encode (parse_hex hex))) else v
      | _ \<Rightarrow> v)"

definition unmap_mac :: "js_value \<Rightarrow> js_value" where
  "unmap_mac v =
     (case v of
        JString s \<Rightarrow>
          if length s = 9 \<and> 58 \<notin> set s
          then JString (join [58] (pairs (pad_start 12 48 (hex_text (decode s))))) else v
      | _ \<Rightarrow> v)"

text \<open>\<open>ToInt32\<close> of a number; the bits of the address.\<close>

definition to_int32 :: "js_number \<Rightarrow> 32 word" where
  "to_int32 n = (case n of Num x \<Rightarrow> word_of_int (if x < 0 then - \<lfloor>- x\<rfloor> else \<lfloor>x\<rfloor>) | _ \<Rightarrow> 0)"

definition octet :: "ustring list \<Rightarrow> nat \<Rightarrow> 32 word" where
  "octet parts i = (if i < length parts then to_int32 (number_of_text (parts ! i)) else 0)"

definition pack_address :: "ustring list \<Rightarrow> 32 word" where
  "pack_address parts =
     or (or (or (push_bit 24 (octet parts 0)) (push_bit 16 (octet parts 1))) (push_bit 8 (octet parts 2))) (octet parts 3)"

definition map_cidr :: "js_value \<Rightarrow> js_value" where
  "map_cidr v =
     (case v of
        JString s \<Rightarrow>
          (case split_on 47 s of
             ipStr # prefixStr # _ \<Rightarrow>
               JString (pad_start 6 48 (encode (Num (of_nat (unat (pack_address (split_on 46 ipStr)))))) @
                 encode (parse_decimal prefixStr))
           | _ \<Rightarrow> v)
      | _ \<Rightarrow> v)"

definition address_byte :: "32 word \<Rightarrow> nat \<Rightarrow> ustring" where
  "address_byte ip k = show_nat (unat (and (drop_bit k ip) 255))"

definition unmap_cidr :: "js_value \<Rightarrow> js_value" where
  "unmap_cidr v =
     (case v of
        JString s \<Rightarrow>
          if length s = 7 \<and> 46 \<notin> set s then
            let ip = to_int32 (decode (take 6 s)) in
            JString (join [46] (map (address_byte ip) [24, 16, 8, 0]) @ [47] @ number_text (decode (drop 6 s)))
          else v
      | _ \<Rightarrow> v)"

section \<open>Versions, phone numbers, colours\<close>

definition map_semver :: "js_value \<Rightarrow> js_value" where
  "map_semver v =
     (case v of
        JString s \<Rightarrow>
          (case match_semver s of
             Some (a, b, c) \<Rightarrow> JString (encode (Num (of_nat (a * 1000000 + b * 1000 + c))))
           | None \<Rightarrow> v)
      | _ \<Rightarrow> v)"

definition unmap_semver :: "js_value \<Rightarrow> js_value" where
  "unmap_semver v =
     (case v of
        JString s \<Rightarrow>
          if s \<noteq> [] \<and> 46 \<notin> set s then
            let packed = decode s in
            JString (number_text (on_int (\<lambda>p. p div 1000000) packed) @ [46] @
              number_text (on_int (\<lambda>p. js_rem p 1000000 div 1000) packed) @ [46] @
              number_text (on_int (\<lambda>p. js_rem p 1000) packed))
          else v
      | _ \<Rightarrow> v)"

definition map_phone :: "js_value \<Rightarrow> js_value" where
  "map_phone v =
     (case v of
        JString s \<Rightarrow> if starts_with s (lit ''+'') then JString (encode (parse_decimal (tl s))) else v
      | _ \<Rightarrow> v)"

definition unmap_phone :: "js_value \<Rightarrow> js_value" where
  "unmap_phone v =
     (case v of
        JString s \<Rightarrow>
          if s \<noteq> [] \<and> \<not> starts_with s (lit ''+'') then JString (lit ''+'' @ number_text (decode s)) else v
      | _ \<Rightarrow> v)"

definition map_color :: "js_value \<Rightarrow> js_value" where
  "map_color v =
     (case v of
        JString s \<Rightarrow>
          if starts_with s (lit ''#'') \<and> length (tl s) = 6
          then JString (pad_start 5 48 (encode (parse_hex (tl s)))) else v
      | _ \<Rightarrow> v)"

definition unmap_color :: "js_value \<Rightarrow> js_value" where
  "unmap_color v =
     (case v of
        JString s \<Rightarrow>
          if length s = 5 \<and> \<not> starts_with s (lit ''#'')
          then JString (lit ''#'' @ pad_start 6 48 (hex_text (decode s))) else v
      | _ \<Rightarrow> v)"

section \<open>Durations and bar codes\<close>

definition map_duration :: "js_value \<Rightarrow> js_value" where
  "map_duration v =
     (case v of
        JNumber (Num x) \<Rightarrow> if 0 \<le> x then JString (encode (Num (of_int (js_round x)))) else v
      | JString s \<Rightarrow>
          if s = [] then v
          else (case duration_millis s of
                  Some ms \<Rightarrow> if 0 \<le> ms then JString (encode (Num (of_int ms))) else v
                | None \<Rightarrow> v)
      | _ \<Rightarrow> v)"

definition duration_text :: "int \<Rightarrow> ustring" where
  "duration_text ms =
     (let days = ms div 86400000; hours = js_rem ms 86400000 div 3600000; minutes = js_rem ms 3600000 div 60000;
          seconds = js_rem ms 60000 div 1000; millis = js_rem ms 1000;
          fraction = pad_start 3 48 (int_text millis);
          date = lit ''P'' @ (if days \<noteq> 0 then int_text days @ lit ''D'' else []);
          time = (if hours \<noteq> 0 \<or> minutes \<noteq> 0 \<or> seconds \<noteq> 0 \<or> millis \<noteq> 0 then
            lit ''T'' @ (if hours \<noteq> 0 then int_text hours @ lit ''H'' else []) @
            (if minutes \<noteq> 0 then int_text minutes @ lit ''M'' else []) @
            (if seconds \<noteq> 0 \<and> millis \<noteq> 0 then int_text seconds @ lit ''.'' @ fraction @ lit ''S''
             else if seconds \<noteq> 0 then int_text seconds @ lit ''S''
             else if millis \<noteq> 0 then lit ''0.'' @ fraction @ lit ''S'' else [])
            else []) in
      if date @ time = lit ''P'' then lit ''PT0S'' else date @ time)"

definition unmap_duration :: "js_value \<Rightarrow> js_value" where
  "unmap_duration v =
     (case v of
        JString s \<Rightarrow>
          if s \<noteq> [] \<and> \<not> starts_with s (lit ''P'') then
            JString (case decode s of Num x \<Rightarrow> duration_text \<lfloor>x\<rfloor> | _ \<Rightarrow> lit ''PT0S'')
          else v
      | _ \<Rightarrow> v)"

definition ean_prefix :: "nat \<Rightarrow> nat option" where
  "ean_prefix n = map_of [(8, 48), (12, 50), (13, 49), (14, 51)] n"

definition ean_length :: "nat \<Rightarrow> nat option" where
  "ean_length c = map_of [(48, 8), (49, 13), (50, 12), (51, 14)] c"

definition is_barcode :: "ustring \<Rightarrow> bool" where
  "is_barcode s \<longleftrightarrow> all_digits s \<and> 8 \<le> length s \<and> length s \<le> 14"

definition map_ean :: "js_value \<Rightarrow> js_value" where
  "map_ean v =
     (case v of
        JString s \<Rightarrow>
          if is_barcode s then
            (case ean_prefix (length s) of
               Some p \<Rightarrow> JString (p # encode (parse_decimal s))
             | None \<Rightarrow> v)
          else v
      | _ \<Rightarrow> v)"

definition unmap_ean :: "js_value \<Rightarrow> js_value" where
  "unmap_ean v =
     (case v of
        JString s \<Rightarrow>
          if s \<noteq> [] \<and> \<not> is_barcode s then
            (case ean_length (hd s) of
               Some n \<Rightarrow> JString (pad_start n 48 (number_text (decode (tl s))))
             | None \<Rightarrow> v)
          else v
      | _ \<Rightarrow> v)"

end
