(* ===== verification/Value_Numerals.thy ===== *)
theory Value_Numerals
  imports Value_Texts Number_Codecs_Props
begin

text \<open>
  Numerals in fixed width: padded base-62, hexadecimal and decimal numerals are read back as the text
  or the number they were made from.
\<close>

section \<open>Numerals of fixed width\<close>

context positional
begin

lemma position_Some: "u \<in> set al \<Longrightarrow> \<exists>i < length al. position al u = Some i \<and> al ! i = u"
  using position_nth by (metis in_set_conv_nth)

text \<open>A padded numeral of a value is the text the value was read from.\<close>

lemma padded_numeral:
  assumes "s \<noteq> []" "set s \<subseteq> set al" "decode_digits al 0 s = Some n"
  shows "pad_start (length s) (al ! 0) (if n = 0 then [al ! 0] else place_digits al n) = s"
  using assms
proof (induction s arbitrary: n rule: rev_induct)
  case (snoc u s)
  obtain i where i: "i < length al" "position al u = Some i" "al ! i = u"
    using position_Some [of u] snoc.prems(2) by auto
  from snoc.prems(3) i obtain m where m: "decode_digits al 0 s = Some m" "n = m * length al + i"
    by (auto simp: decode_digits_append split: option.splits)
  have step: "place_digits al n = place_digits al m @ [u]" if "0 < n"
    using that i m(2) by (simp add: place_digits_step)
  show ?case
  proof (cases "s = []")
    case True
    with m have "n = i" "m = 0" by simp_all
    with True i step show ?thesis by (auto simp: pad_start_def)
  next
    case nonempty: False
    have IH: "pad_start (length s) (al ! 0) (if m = 0 then [al ! 0] else place_digits al m) = s"
      using snoc.IH [OF nonempty] snoc.prems(2) m(1) by simp
    show ?thesis
    proof (cases "m = 0")
      case True
      have s: "replicate (length s - 1) (al ! 0) @ [al ! 0] = s" using IH True by (simp add: pad_start_def)
      then have "replicate (Suc (length s - 1)) (al ! 0) = s" by (simp add: replicate_append_same)
      with nonempty have "replicate (length s) (al ! 0) = s" by simp
      with True i m(2) step show ?thesis by (cases "i = 0") (auto simp: pad_start_def)
    next
      case False
      with IH step m(2) show ?thesis by (auto simp: pad_start_def)
    qed
  qed
qed simp

lemma decode_digits_bound:
  "decode_digits al 0 s = Some n \<Longrightarrow> n < length al ^ length s"
proof (induction s arbitrary: n rule: rev_induct)
  case (snoc u s)
  then obtain m i where m: "decode_digits al 0 s = Some m" "position al u = Some i" "n = m * length al + i"
    by (auto simp: decode_digits_append split: option.splits)
  have "i < length al"
    using m(2) position_nth
  proof -
    have "position xs u = Some i \<Longrightarrow> i < length xs" for xs
      by (induction xs arbitrary: i) (auto split: if_splits)
    with m(2) show ?thesis by blast
  qed
  moreover have "Suc m \<le> length al ^ length s" using snoc.IH [OF m(1)] by simp
  ultimately have "n < Suc m * length al" using m(3) by simp
  also have "\<dots> \<le> length al ^ length s * length al" by (rule mult_le_mono1) fact
  finally show ?case by (simp add: mult.commute)
qed simp

end

lemma length_hex_alphabet [simp]: "length hex_alphabet = 16"
  by (simp add: hex_alphabet_def)

interpretation hex: positional hex_alphabet
  by unfold_locales (simp_all add: hex_alphabet_def)

lemma base62_zero [simp]: "base62_alphabet ! 0 = 48" "hex_alphabet ! 0 = 48"
  by (simp_all add: base62_alphabet_def hex_alphabet_def)

text \<open>A number below \<open>62 ^ k\<close>, padded to \<open>k\<close> letters.\<close>

definition base62_padded :: "nat \<Rightarrow> nat \<Rightarrow> ustring" where
  "base62_padded k n = pad_start k 48 (encode (Num (of_nat n)))"

lemma encode_of_nat: "encode (Num (of_nat n)) = (if n = 0 then [48] else place_digits base62_alphabet n)"
  by (simp add: encode_def encode_with_def)

lemma base62_letters: "set (encode (Num (of_nat n))) \<subseteq> set base62_alphabet"
  using base62.set_place_digits [of n] by (auto simp: encode_of_nat base62_alphabet_def)

lemma padded_letters: "set (base62_padded k n) \<subseteq> set base62_alphabet"
  using base62_letters [of n] by (auto simp: base62_padded_def pad_start_def base62_alphabet_def)

lemma base62_no_sign [simp]:
  "45 \<notin> set base62_alphabet" "46 \<notin> set base62_alphabet" "47 \<notin> set base62_alphabet"
  "58 \<notin> set base62_alphabet" "35 \<notin> set base62_alphabet" "43 \<notin> set base62_alphabet"
  by (simp_all add: base62_alphabet_def)

lemma letters_unsigned: "set s \<subseteq> set base62_alphabet \<Longrightarrow> unsigned_part s = (False, s)"
  using base62_no_sign(1) by (cases s) (auto simp: unsigned_part_def)

lemma decode_padded: "decode (base62_padded k n) = Num (of_nat n)"
proof -
  have "decode_digits base62_alphabet 0 (base62_padded k n) = Some n"
    using base62.decode_leading_zeros [of "k - length (encode (Num (of_nat n)))" "encode (Num (of_nat n))"]
    by (simp add: base62_padded_def pad_start_def encode_of_nat split: if_splits)
      (simp add: base62_alphabet_def)
  then show ?thesis
    using letters_unsigned [OF padded_letters [of k n]] by (simp add: decode_def decode_with_def)
qed

lemma length_padded: "n < 62 ^ k \<Longrightarrow> 0 < k \<Longrightarrow> length (base62_padded k n) = k"
  using base62.length_place_digits [of n k] by (simp add: base62_padded_def encode_of_nat)

lemma decode_encode_nat: "decode (encode (Num (of_nat n))) = Num (of_nat n)"
  by (simp add: decode_encode_number)

section \<open>Readings of numerals\<close>

lemma lower_hexD:
  "lower_hex u \<Longrightarrow> u \<in> set hex_alphabet \<and> position hex_alphabet u = hex_value u \<and> hex_value u \<noteq> None \<and>
     u \<noteq> 43 \<and> u \<noteq> 45 \<and> u \<noteq> 58 \<and> u \<noteq> 120 \<and> u \<noteq> 88 \<and> \<not> is_space u"
proof -
  assume "lower_hex u"
  then have "u \<in> {48, 49, 50, 51, 52, 53, 54, 55, 56, 57, 97, 98, 99, 100, 101, 102}"
    by (simp add: lower_hex_def is_digit_def) presburger
  then show ?thesis
    by (elim insertE) (simp_all add: hex_alphabet_def hex_value_def is_space_def)
qed

lemma hex_digits: "list_all lower_hex s \<Longrightarrow> decode_digits hex_alphabet 0 s = Some (hex_number s)"
proof (induction s rule: rev_induct)
  case (snoc u s)
  then have "lower_hex u" by simp
  from lower_hexD [OF this] snoc show ?case
    by (auto simp: hex.decode_digits_append hex_number_def)
qed (simp add: hex_number_def)

lemma is_hexD:
  "is_hex u \<Longrightarrow> (\<exists>i < 16. hex_value u = Some i) \<and> u \<notin> {37, 43, 45, 46, 58, 88, 120} \<and> \<not> is_space u"
  by (auto simp: is_hex_def hex_value_def is_space_def split: if_splits)

lemma lower_is_hex: "lower_hex u \<Longrightarrow> is_hex u"
  using lower_hexD by (auto simp: is_hex_def)

lemma parse_hex_general:
  assumes "list_all is_hex s" "s \<noteq> []"
  shows "parse_hex s = Num (of_nat (hex_number s))"
proof -
  have u: "is_hex (hd s)" using assms by (cases s) auto
  have tw: "takeWhile (\<lambda>u. \<exists>i. hex_value u = Some i) s = s"
    using assms(1) is_hexD by (intro takeWhile_eq_all_conv [THEN iffD2]) (fastforce simp: list_all_iff)
  have nox: "\<not> starts_with s [48, 120]" "\<not> starts_with s [48, 88]"
    using assms(1) is_hexD [of 120] is_hexD [of 88] by (auto simp: starts_with_iff)
  have ws: "dropWhile is_space s = s" using is_hexD [OF u] assms(2) by (cases s) auto
  have "read_hex s = Some (hex_number s)"
    using assms(2) nox by (simp add: read_hex_def tw Let_def)
  then show ?thesis
    using is_hexD [OF u] assms(2) by (simp add: parse_hex_def parse_signed_def ws)
qed

lemma parse_hex_digits:
  "list_all lower_hex s \<Longrightarrow> s \<noteq> [] \<Longrightarrow> parse_hex s = Num (of_nat (hex_number s))"
  using lower_is_hex by (intro parse_hex_general) (auto simp: list_all_iff)

lemma hex_number_snoc: "hex_number (s @ [u]) = 16 * hex_number s + (case hex_value u of Some i \<Rightarrow> i | None \<Rightarrow> 0)"
  by (simp add: hex_number_def)

lemma hex_number_general: "list_all is_hex s \<Longrightarrow> hex_number s < 16 ^ length s"
proof (induction s rule: rev_induct)
  case (snoc u s)
  then obtain i where "i < 16" "hex_value u = Some i" using is_hexD [of u] by auto
  moreover from snoc have "Suc (hex_number s) \<le> 16 ^ length s" by simp
  ultimately show ?case by (simp add: hex_number_snoc)
qed (simp add: hex_number_def)

lemma hex_number_zeros: "hex_number (replicate k 48 @ s) = hex_number s"
  by (induction k) (simp_all add: hex_number_def hex_value_def)

text \<open>The numeral \<open>n.toString(16)\<close>.\<close>

lemma hex_letters: "u \<in> set hex_alphabet \<Longrightarrow> lower_hex u"
  by (auto simp: hex_alphabet_def lower_hex_def is_digit_def)

lemma hex_numeral:
  shows "list_all lower_hex (hex_text (Num (of_nat n)))" "hex_text (Num (of_nat n)) \<noteq> []"
    "hex_number (hex_text (Num (of_nat n))) = n" "n < 16 ^ k \<Longrightarrow> 0 < k \<Longrightarrow> length (hex_text (Num (of_nat n))) \<le> k"
proof -
  have t: "hex_text (Num (of_nat n)) = (if n = 0 then [48] else place_digits hex_alphabet n)"
    by (simp add: hex_text_def encode_with_def hex_alphabet_def)
  show l: "list_all lower_hex (hex_text (Num (of_nat n)))"
    using hex.set_place_digits [of n] hex_letters by (auto simp: t list_all_iff lower_hex_def is_digit_def)
  show "hex_text (Num (of_nat n)) \<noteq> []" by (simp add: t)
  have "decode_digits hex_alphabet 0 (hex_text (Num (of_nat n))) = Some n"
    unfolding t using hex.decode_place_digits [of n] by (auto simp: hex_alphabet_def)
  with hex_digits [OF l] show "hex_number (hex_text (Num (of_nat n))) = n" by simp
  show "n < 16 ^ k \<Longrightarrow> 0 < k \<Longrightarrow> length (hex_text (Num (of_nat n))) \<le> k"
    using hex.length_place_digits [of n k] by (simp add: t)
qed

lemma hex_text_padded:
  assumes "list_all lower_hex s" "s \<noteq> []" "length s = k"
  shows "pad_start k 48 (hex_text (Num (of_nat (hex_number s)))) = s"
proof -
  have "set s \<subseteq> set hex_alphabet" using assms(1) lower_hexD by (auto simp: list_all_iff)
  from hex.padded_numeral [OF assms(2) this hex_digits [OF assms(1)]] assms(3) show ?thesis
    by (simp add: hex_text_def encode_with_def split: if_splits)
qed

lemma hex_number_bound: "list_all lower_hex s \<Longrightarrow> hex_number s < 16 ^ length s"
  using hex.decode_digits_bound [OF hex_digits, of s] by simp

lemma parse_decimal_digits:
  assumes "all_digits s"
  shows "parse_decimal s = Num (of_nat (digits_value s))"
proof -
  have s: "s \<noteq> []" "list_all is_digit s" using assms by (auto simp: all_digits_def)
  then have u: "is_digit (hd s)" by (cases s) auto
  then have h: "48 \<le> hd s" "hd s \<le> 57" by (auto simp: is_digit_def)
  then have "\<not> is_space (hd s)" by (auto simp: is_space_def)
  with s have ws: "dropWhile is_space s = s" by (cases s) auto
  have tw: "takeWhile is_digit s = s"
    using s by (intro takeWhile_eq_all_conv [THEN iffD2]) (auto simp: list_all_iff)
  show ?thesis using h s(1) by (simp add: parse_decimal_def parse_signed_def ws read_decimal_def tw)
qed

lemma all_digits_show_nat [simp]: "all_digits (show_nat n)"
  by (simp add: all_digits_def)

lemma parse_decimal_show_nat: "parse_decimal (show_nat n) = Num (of_nat n)"
  by (simp add: parse_decimal_digits)

lemma number_text_of_nat: "n < 10 ^ 21 \<Longrightarrow> number_text (Num (of_nat n)) = show_nat n"
  by (simp add: number_text_def int_text_def nat_text_def)

lemma number_text_of_int: "0 \<le> i \<Longrightarrow> i < 10 ^ 21 \<Longrightarrow> number_text (Num (of_int i)) = show_nat (nat i)"
  by (simp add: number_text_def int_text_def nat_text_def nat_less_iff)

lemma on_int_of_nat: "on_int f (Num (of_nat n)) = Num (of_int (f (int n)))"
  by (simp add: on_int_def)


text \<open>Decimal numerals of fixed width.\<close>

lemma length_show_nat: "n < 10 ^ k \<Longrightarrow> 0 < k \<Longrightarrow> length (show_nat n) \<le> k"
proof (induction k arbitrary: n)
  case (Suc k)
  show ?case
  proof (cases "n < 10")
    case True
    then show ?thesis by (subst show_nat.simps) simp
  next
    case False
    with Suc.prems have "n div 10 < 10 ^ k" "0 < k" by (auto simp: less_mult_imp_div_less mult.commute intro: gr0I)
    from Suc.IH [OF this] False show ?thesis by (subst show_nat.simps) simp
  qed
qed simp

lemma padded_decimal:
  assumes "n < 10 ^ k" "0 < k"
  shows "length (pad_start k 48 (show_nat n)) = k" "all_digits (pad_start k 48 (show_nat n))"
    "digits_value (pad_start k 48 (show_nat n)) = n"
  using length_show_nat [OF assms] assms
  by (auto simp: pad_start_def all_digits_def digits_value_append is_digit_def list_all_iff dest: show_nat_digits)

lemma padded_digits: "all_digits s \<Longrightarrow> pad_start (length s) 48 (show_nat (digits_value s)) = s"
proof (induction s rule: rev_induct)
  case (snoc u s)
  then have u: "is_digit u" by (simp add: all_digits_def)
  then have d: "48 \<le> u" "u - 48 < 10" by (auto simp: is_digit_def)
  show ?case
  proof (cases "s = []")
    case True
    with d show ?thesis by (subst show_nat.simps) (simp add: digits_value_def pad_start_def)
  next
    case False
    with snoc have IH: "pad_start (length s) 48 (show_nat (digits_value s)) = s" by (simp add: all_digits_def)
    show ?thesis
    proof (cases "digits_value s = 0")
      case True
      then have "replicate (length s - 1) 48 @ [48] = s" using IH by (simp add: pad_start_def)
      then have "replicate (Suc (length s - 1)) 48 = s" by (simp add: replicate_append_same)
      with False have "replicate (length s) 48 = s" by simp
      with True d show ?thesis by (subst show_nat.simps) (simp add: pad_start_def)
    next
      case nonzero: False
      obtain e where e: "u = 48 + e" "e < 10" using d by (metis le_add_diff_inverse)
      with nonzero have "show_nat (10 * digits_value s + (u - 48)) = show_nat (digits_value s) @ [u]"
        by (subst show_nat.simps) simp
      with IH show ?thesis by (simp add: pad_start_def)
    qed
  qed
qed (simp add: all_digits_def)

text \<open>A text of digits is the numeral of its value unless it has a leading zero.\<close>

lemma canonical_digits:
  assumes "all_digits s"
  shows "show_nat (digits_value s) = s \<longleftrightarrow> (hd s = 48 \<longrightarrow> s = [48])"
proof (cases "hd s = 48")
  case False
  with assms show ?thesis by (simp add: all_digits_def show_digits_value)
next
  case True
  show ?thesis
  proof
    assume eq: "show_nat (digits_value s) = s"
    then have "digits_value s = 0" using True hd_show_nat [of "digits_value s"] by (cases "digits_value s = 0") auto
    with eq show "hd s = 48 \<longrightarrow> s = [48]" by simp
  next
    assume "hd s = 48 \<longrightarrow> s = [48]"
    with True have "s = [48]" by simp
    then show "show_nat (digits_value s) = s" by (simp add: digits_value_def)
  qed
qed

end
