(* ===== verification/Special_Values_Props.thy ===== *)
theory Special_Values_Props
  imports Special_Values Value_Numerals Text_Compression
begin

text \<open>
  What the validator accepts and what is read back of it: which kinds of values survive the compact
  form, and the exact exceptions of the others.
\<close>

section \<open>Addresses, colours and identifiers\<close>

lemma concat_pairs: "even (length c) \<Longrightarrow> concat (pairs c) = c"
  by (induction c rule: pairs.induct) auto

lemma set_pairs: "x \<in> set (pairs c) \<Longrightarrow> set x \<subseteq> set c"
  by (induction c rule: pairs.induct) auto

lemma filter_join:
  "\<forall>x \<in> set xs. c \<notin> set x \<Longrightarrow> filter (\<lambda>u. u \<noteq> c) (join [c] xs) = concat xs"
proof (induction "[c]" xs rule: join.induct)
  case (2 x)
  then show ?case by (auto simp: filter_id_conv)
next
  case (3 x y ys)
  then have "filter (\<lambda>u. u \<noteq> c) x = x" by (auto simp: filter_id_conv)
  with 3 show ?case by simp
qed simp

lemma mac_reads_back:
  assumes "check_mac s = Some t"
  shows "unmap_mac (map_mac (JString t)) = JString t"
proof -
  obtain c where c: "length c = 12" "list_all lower_hex c" "t = join [58] (pairs c)"
    using assms by (auto simp: check_mac_def Let_def split: if_splits)
  have "\<forall>x \<in> set (pairs c). 58 \<notin> set x"
    using c(2) lower_hexD set_pairs by (fastforce simp: list_all_iff)
  then have f: "filter (\<lambda>u. u \<noteq> 58) t = c" using c(1,3) by (simp add: filter_join concat_pairs)
  have bound: "hex_number c < 62 ^ 9" using hex_number_bound [OF c(2)] c(1) by simp
  have "map_mac (JString t) = JString (base62_padded 9 (hex_number c))"
    using c(1,2) parse_hex_digits [OF c(2)] by (simp add: map_mac_def f base62_padded_def) (metis list.size(3) zero_neq_numeral)
  moreover have "58 \<notin> set (base62_padded 9 (hex_number c))"
    using padded_letters [of 9 "hex_number c"] base62_no_sign by blast
  ultimately show ?thesis
    using hex_text_padded [OF c(2) _ c(1)] c(1,3) bound
    by (simp add: unmap_mac_def length_padded decode_padded) (metis list.size(3) zero_neq_numeral)
qed

lemma color_reads_back:
  assumes "check_color s = Some t"
  shows "unmap_color (map_color (JString t)) = JString t"
proof -
  obtain c where c: "length c = 6" "list_all lower_hex c" "t = 35 # c"
    using assms by (auto simp: check_color_def Let_def split: if_splits)
  then have ne: "c \<noteq> []" by auto
  have bound: "hex_number c < 62 ^ 5" using hex_number_bound [OF c(2)] c(1) by simp
  have "map_color (JString t) = JString (base62_padded 5 (hex_number c))"
    using c parse_hex_digits [OF c(2) ne] by (simp add: map_color_def starts_with_def base62_padded_def)
  moreover have "\<not> starts_with (base62_padded 5 (hex_number c)) [35]"
    using padded_letters [of 5 "hex_number c"] base62_no_sign by (auto simp: starts_with_iff)
  ultimately show ?thesis
    using hex_text_padded [OF c(2) ne c(1)] c(3) bound
    by (simp add: unmap_color_def length_padded decode_padded)
qed

text \<open>The canonical form of 32 hexadecimal digits.\<close>

definition uuid_text :: "ustring \<Rightarrow> ustring" where
  "uuid_text hex =
     take 8 hex @ [45] @ take 4 (drop 8 hex) @ [45] @ take 4 (drop 12 hex) @ [45] @
     take 4 (drop 16 hex) @ [45] @ take 12 (drop 20 hex)"

lemma uuid_reads_back:
  assumes "length hex = 32" "list_all lower_hex hex"
  shows "unmap_uuid (map_uuid (JString (uuid_text hex))) = JString (uuid_text hex)"
proof -
  let ?c = "\<lambda>i. take 8 (drop i hex)"
  have no: "45 \<notin> set hex" using assms(2) lower_hexD by (fastforce simp: list_all_iff)
  then have no': "45 \<notin> set (take i (drop j hex))" for i j by (meson in_set_dropD in_set_takeD)
  have parts: "hex = take 8 hex @ take 4 (drop 8 hex) @ take 4 (drop 12 hex) @ take 4 (drop 16 hex) @ take 12 (drop 20 hex)"
    using assms(1) take_add [of 8 4 hex] take_add [of 12 4 hex] take_add [of 16 4 hex] take_add [of 20 12 hex]
    by simp
  have id: "filter (\<lambda>u. u \<noteq> 45) (take i (drop j hex)) = take i (drop j hex)" for i j
    using no' [of i j] by (auto simp: filter_id_conv)
  have f: "filter (\<lambda>u. u \<noteq> 45) (uuid_text hex) = hex"
    unfolding uuid_text_def using id [of 8 0] by (simp only: filter_append id drop_0) (simp flip: parts)
  have c: "list_all lower_hex (?c i)" "length (?c i) = 8" "?c i \<noteq> []" if "i \<le> 24" for i
    using assms that by (auto simp: list_all_iff dest: in_set_takeD in_set_dropD)
  have bound: "hex_number (?c i) < 62 ^ 6" if "i \<le> 24" for i
    using hex_number_bound [OF c(1) [OF that]] c(2) [OF that] by simp
  define p where "p i = base62_padded 6 (hex_number (?c i))" for i
  have len: "length (p i) = 6" if "i \<le> 24" for i
    using bound [OF that] by (simp add: p_def length_padded)
  have ph: "pad_start 6 48 (encode (parse_hex (?c i))) = p i" if "i \<le> 24" for i
    using parse_hex_digits [OF c(1,3) [OF that]] by (simp add: p_def base62_padded_def)
  have m: "map_uuid (JString (uuid_text hex)) = JString (p 0 @ p 8 @ p 16 @ p 24)"
    using ph [of 0] ph [of 8] ph [of 16] ph [of 24] assms(1) by (simp add: map_uuid_def f)
  have sign: "45 \<notin> set (p i)" for i
    using padded_letters [of 6] base62_no_sign unfolding p_def by blast
  have reads: "pad_start 8 48 (hex_text (decode (p i))) = ?c i" if "i \<le> 24" for i
    using hex_text_padded [OF c(1,3,2)] that by (simp add: p_def decode_padded)
  have "concat (map (\<lambda>i. pad_start 8 48 (hex_text (decode (take 6 (drop i (p 0 @ p 8 @ p 16 @ p 24)))))) [0, 6, 12, 18])
      = ?c 0 @ ?c 8 @ ?c 16 @ ?c 24"
    using len [of 0] len [of 8] len [of 16] len [of 24] reads by simp
  also have "\<dots> = hex"
    using assms(1) take_add [of 8 8 hex] take_add [of 16 8 hex] take_add [of 24 8 hex] by simp
  finally show ?thesis
    unfolding m using sign len [of 0] len [of 8] len [of 16] len [of 24]
    by (simp add: unmap_uuid_def uuid_text_def Let_def)
qed


section \<open>Times of day\<close>

text \<open>Taking off the lowest place of a mixed-radix number.\<close>

lemma lowest_place:
  assumes "x = a * k + b" "0 \<le> b" "b < k" "0 \<le> a"
  shows "x div k = a" "js_rem x k = b"
proof -
  have "0 \<le> a * k" using assms by (simp add: mult_nonneg_nonneg)
  then have "0 \<le> x" using assms(1,2) by linarith
  moreover show "x div k = a" using assms by simp
  moreover have "x mod k = b" using assms by simp
  ultimately show "js_rem x k = b" by (simp add: js_rem_def)
qed

lemma time_reads_back:
  assumes "time_in_day t"
  shows "match_time (time_of t) = Some t \<and> unmap_timeonly (map_timeonly (JString (time_of t))) = JString (time_of t)"
proof -
  obtain h m sc ms where t: "t = (h, m, sc, ms)" by (cases t)
  with assms have b: "h \<le> 23" "m \<le> 59" "sc \<le> 59" "ms \<le> 999" by (auto simp: time_in_day_def)
  define a where "a n = pad_start 2 48 (show_nat n)" for n
  define d where "d = pad_start 3 48 (show_nat ms)"
  have a: "length (a n) = 2" "all_digits (a n)" "digits_value (a n) = n" if "n \<le> 59" for n
    using padded_decimal [of n 2] that by (simp_all add: a_def)
  have d: "length d = 3" "all_digits d" "digits_value d = ms"
    using padded_decimal [of ms 3] b(4) by (simp_all add: d_def)
  have b': "h \<le> 59" using b(1) by simp
  have shown: "time_of t = a h @ [58] @ a m @ [58] @ a sc @ [46] @ d"
    by (simp add: time_of_def time_text_def t a_def d_def)
  have "match_fraction (46 # d) = Some ms" using d by (simp add: match_fraction_def pad_end_def)
  then have "match_seconds (58 # a sc @ 46 # d) = Some (sc, ms)"
    using a [OF b(3)] by (simp add: match_seconds_def)
  then have match: "match_time (time_of t) = Some t"
    unfolding shown using a [OF b'] a [OF b(2)] by (simp add: match_time_def t nth_append)
  define T where "T = int (time_millis t)"
  have T: "T = ((int h * 60 + int m) * 60 + int sc) * 1000 + int ms"
    by (simp add: T_def time_millis_def t)
  have p1: "T div 1000 = (int h * 60 + int m) * 60 + int sc" "js_rem T 1000 = int ms"
    using b lowest_place [OF T] by simp_all
  have p2: "T div 1000 div 60 = int h * 60 + int m" "js_rem (T div 1000) 60 = int sc"
    using b lowest_place [OF p1(1)] by simp_all
  have p3: "T div 1000 div 60 div 60 = int h" "js_rem (T div 1000 div 60) 60 = int m"
    using b lowest_place [OF p2(1)] by simp_all
  have ne: "encode (Num (of_nat n)) \<noteq> []" for n by (simp add: encode_of_nat)
  have nt: "number_text (Num (of_int (int n))) = show_nat n" if "n \<le> 999" for n
    using number_text_of_nat [of n] that by simp
  have pieces: "on_int (\<lambda>t. t div 1000) (Num (of_nat (time_millis t))) = Num (of_int (T div 1000))"
    "on_int (\<lambda>t. js_rem t 1000) (Num (of_nat (time_millis t))) = Num (of_int (js_rem T 1000))"
    by (simp_all add: on_int_of_nat T_def)
  have oi: "on_int f (Num (of_int i)) = Num (of_int (f i))" for f i by (simp add: on_int_def)
  have m: "map_timeonly (JString (time_of t)) = JString (encode (Num (of_nat (time_millis t))))"
    by (simp add: map_timeonly_def match)
  have "time_of t = time_text (show_nat h) (show_nat m) (show_nat sc) (show_nat ms)"
    by (simp add: time_of_def t)
  then have "unmap_timeonly (map_timeonly (JString (time_of t))) = JString (time_of t)"
    unfolding m using b nt
    by (simp add: unmap_timeonly_def Let_def decode_encode_nat ne pieces oi p3 p2(2) p1(2)
      del: of_int_of_nat_eq)
  with match show ?thesis by blast
qed


section \<open>Networks\<close>

lemma number_of_show_nat: "number_of_text (show_nat n) = Num (of_nat n)"
proof -
  have "hd (show_nat n) \<in> set (show_nat n)" by simp
  then have "is_digit (hd (show_nat n))" by (rule show_nat_digits)
  moreover have "\<forall>u \<in> set (show_nat n). is_digit u \<or> u \<in> {46, 101, 43, 45}" using show_nat_digits by blast
  moreover have "read_unsigned (show_nat n) = Some (of_nat n)"
    using read_integer [of "show_nat n" "[]"] by (simp add: read_exponent_def)
  ultimately show ?thesis using number_of_unsigned [of "show_nat n"] by simp
qed

lemma pack_address_value:
  assumes "a < 256" "b < 256" "c < 256" "d < 256"
  shows "unat (pack_address (map show_nat [a, b, c, d])) = pack_word a b c d"
proof -
  have "octet (map show_nat xs) i = of_nat (xs ! i)" if "i < length xs" for i xs
    using that by (simp add: octet_def number_of_show_nat to_int32_def)
  note this [of _ "[a, b, c, d]"]
  from this [of 0] this [of 1] this [of 2] this [of 3] show ?thesis
    by (simp add: pack_address_def pack_word_def)
qed

lemma address_byte_value:
  "v < 2 ^ 32 \<Longrightarrow> address_byte (to_int32 (Num (of_nat v))) k = show_nat (v div 2 ^ k mod 256)"
  using unpack_byte_Some [of v k] by (simp add: address_byte_def to_int32_def unpack_byte_def to_uint32_def)

definition cidr_text :: "nat list \<Rightarrow> nat \<Rightarrow> ustring" where
  "cidr_text octets prefix = join [46] (map show_nat octets) @ [47] @ show_nat prefix"

lemma cidr_reads_back:
  assumes "a < 256" "b < 256" "c < 256" "d < 256" "p \<le> 32"
  shows "unmap_cidr (map_cidr (JString (cidr_text [a, b, c, d] p))) = JString (cidr_text [a, b, c, d] p)"
proof -
  let ?ip = "join [46] (map show_nat [a, b, c, d])"
  define v where "v = pack_word a b c d"
  note sp = split_256 [OF assms(1-4) pack_word_value [OF assms(1-4), folded v_def]]
  have digits: "47 \<notin> set (show_nat n)" "46 \<notin> set (show_nat n)" for n
    by (auto simp: is_digit_def dest: show_nat_digits)
  then have "47 \<notin> set ?ip" by simp
  then have split: "split_on 47 (cidr_text [a, b, c, d] p) = [?ip, show_nat p]"
    using split_on_append_sep [of 47 ?ip "show_nat p"] digits(1) [of p]
    by (simp add: cidr_text_def split_on_no_sep)
  have octets: "split_on 46 ?ip = map show_nat [a, b, c, d]"
    using digits(2) by (intro split_on_join) auto
  have p: "encode (Num (of_nat p)) = base62_padded 1 p" "length (base62_padded 1 p) = 1"
    using assms(5) length_padded [of p 1] by (auto simp: base62_padded_def pad_start_def encode_of_nat Suc_le_eq)
  have m: "map_cidr (JString (cidr_text [a, b, c, d] p)) = JString (base62_padded 6 v @ base62_padded 1 p)"
    unfolding map_cidr_def js_value.case split list.case octets pack_address_value [OF assms(1-4)]
      v_def [symmetric] parse_decimal_show_nat p(1)
    by (simp add: base62_padded_def)
  have l: "length (base62_padded 6 v) = 6" using sp(1) by (simp add: length_padded)
  have "46 \<notin> set (base62_padded 6 v @ base62_padded 1 p)"
    using padded_letters [of 6 v] padded_letters [of 1 p] base62_no_sign by auto
  moreover have "number_text (Num (of_nat p)) = show_nat p" using assms(5) by (simp add: number_text_of_nat)
  moreover note address_byte_value [OF sp(1)]
  ultimately show ?thesis
    unfolding m using l p(2) sp(2-)
    by (simp add: unmap_cidr_def decode_padded cidr_text_def Let_def)
qed

lemma check_cidr_text:
  assumes "check_cidr s = Some t"
  shows "\<exists>a b c d p. a < 256 \<and> b < 256 \<and> c < 256 \<and> d < 256 \<and> p \<le> 32 \<and> t = cidr_text [a, b, c, d] p"
proof -
  obtain octets p where m: "match_cidr s = Some (octets, p)" "list_all (\<lambda>o'. o' \<le> 255) octets" "p \<le> 32"
    "t = cidr_text octets p"
    using assms by (auto simp: check_cidr_def cidr_text_def split: option.splits if_splits)
  from m(1) have "length octets = 4"
    by (auto simp: match_cidr_def split: list.splits if_splits)
  then obtain a b c d where "octets = [a, b, c, d]" by (auto simp: length_Suc_conv eval_nat_numeral)
  with m show ?thesis by (intro exI [of _ a] exI [of _ b] exI [of _ c] exI [of _ d] exI [of _ p]) auto
qed


section \<open>Versions, phone numbers, bar codes\<close>

lemma semver_text_small:
  assumes "a < 10 ^ 21" "b < 10 ^ 21" "c < 10 ^ 21"
  shows "semver_text a b c = join [46] [show_nat a, show_nat b, show_nat c]"
    "match_semver (semver_text a b c) = Some (a, b, c)"
proof -
  show j: "semver_text a b c = join [46] [show_nat a, show_nat b, show_nat c]"
    using assms by (simp add: semver_text_def nat_text_def)
  have "split_on 46 (semver_text a b c) = [show_nat a, show_nat b, show_nat c]"
    unfolding j by (intro split_on_join) auto
  then show "match_semver (semver_text a b c) = Some (a, b, c)" by (simp add: match_semver_def)
qed

lemma semver_stored:
  assumes "a * 1000000 + b * 1000 + c < 10 ^ 21"
  shows "unmap_semver (map_semver (JString (semver_text a b c))) =
    JString (semver_text ((a * 1000000 + b * 1000 + c) div 1000000)
      ((a * 1000000 + b * 1000 + c) mod 1000000 div 1000) ((a * 1000000 + b * 1000 + c) mod 1000))"
proof -
  define n where "n = a * 1000000 + b * 1000 + c"
  have small: "a < 10 ^ 21" "b < 10 ^ 21" "c < 10 ^ 21" using assms by linarith+
  have m: "map_semver (JString (semver_text a b c)) = JString (encode (Num (of_nat n)))"
    using semver_text_small(2) [OF small] by (simp add: map_semver_def n_def)
  have "46 \<notin> set (encode (Num (of_nat n)))" "encode (Num (of_nat n)) \<noteq> []"
    using base62_letters [of n] base62_no_sign by (auto simp: encode_of_nat)
  moreover have "number_text (Num (of_int (int k))) = nat_text k" for k
    by (simp add: number_text_def int_text_def)
  moreover have "js_rem (int n) k = int n mod k" for k by (simp add: js_rem_def)
  moreover have "int n div 1000000 = int (n div 1000000)" "int n mod 1000 = int (n mod 1000)"
    "int n mod 1000000 div 1000 = int (n mod 1000000 div 1000)"
    by (simp_all add: zdiv_int zmod_int)
  ultimately show ?thesis
    unfolding m n_def [symmetric]
    by (simp add: unmap_semver_def Let_def decode_encode_nat on_int_of_nat semver_text_def del: of_int_of_nat_eq)
qed

lemma semver_text_inj:
  assumes "a < 10 ^ 21" "b < 10 ^ 21" "c < 10 ^ 21" "a' < 10 ^ 21" "b' < 10 ^ 21" "c' < 10 ^ 21"
  shows "semver_text a b c = semver_text a' b' c' \<longleftrightarrow> a = a' \<and> b = b' \<and> c = c'"
proof
  assume eq: "semver_text a b c = semver_text a' b' c'"
  have "Some (a, b, c) = Some (a', b', c')"
    using semver_text_small(2) [OF assms(1-3)] semver_text_small(2) [OF assms(4-6)] unfolding eq by (rule trans [OF sym])
  then show "a = a' \<and> b = b' \<and> c = c'" by simp
qed simp

lemma phone_digits:
  assumes "check_phone s = Some t"
  shows "\<exists>ds. t = 43 # ds \<and> all_digits ds \<and> 7 \<le> length ds \<and> length ds \<le> 15"
  using assms by (auto simp: check_phone_def Let_def starts_with_iff split: if_splits)

lemma phone_stored:
  assumes "all_digits ds" "length ds \<le> 15"
  shows "unmap_phone (map_phone (JString (43 # ds))) = JString (43 # show_nat (digits_value ds))"
proof -
  let ?n = "digits_value ds"
  have "?n < 10 ^ length ds" using assms(1) digits_value_less by (simp add: all_digits_def)
  also have "\<dots> \<le> 10 ^ 15" using assms(2) by (intro power_increasing) simp_all
  finally have n: "?n < 10 ^ 21" by simp
  have "\<not> starts_with (encode (Num (of_nat ?n))) [43]" "encode (Num (of_nat ?n)) \<noteq> []"
    using base62_letters [of ?n] base62_no_sign by (auto simp: encode_of_nat starts_with_iff)
  then show ?thesis
    using parse_decimal_digits [OF assms(1)] number_text_of_nat [OF n]
    by (simp add: map_phone_def unmap_phone_def starts_with_def decode_encode_nat)
qed

lemma ean_stored:
  assumes "all_digits s" "length s \<in> {8, 12, 13, 14}"
  shows "unmap_ean (map_ean (JString s)) = JString s \<longleftrightarrow>
    \<not> (all_digits (encode (parse_decimal s)) \<and> 7 \<le> length (encode (parse_decimal s)))"
proof -
  define n where "n = digits_value s"
  define e where "e = encode (Num (of_nat n))"
  have e: "encode (parse_decimal s) = e" using parse_decimal_digits [OF assms(1)] by (simp add: e_def n_def)
  obtain p where p: "ean_prefix (length s) = Some p" "ean_length p = Some (length s)" "is_digit p"
    using assms(2) by (auto simp: ean_prefix_def ean_length_def is_digit_def)
  have m: "map_ean (JString s) = JString (p # e)"
    using assms p(1) e by (auto simp: map_ean_def is_barcode_def)
  have n: "n < 10 ^ length s" using assms(1) digits_value_less by (simp add: n_def all_digits_def)
  have "n < 10 ^ 14" using n assms(2) power_increasing [of "length s" 14 "10 :: nat"] by force
  then have n21: "n < 10 ^ 21" and len: "length e \<le> 8"
    using base62.length_place_digits [of n 8] by (auto simp: e_def encode_of_nat)
  have len8: "length s = 8 \<Longrightarrow> length e \<le> 5"
    using n base62.length_place_digits [of n 5] by (auto simp: e_def encode_of_nat)
  have reads: "unmap_ean (JString (p # e)) = JString s" if "\<not> is_barcode (p # e)"
    using that p(2) decode_encode_nat [of n] number_text_of_nat [OF n21] padded_digits [OF assms(1)]
    by (simp add: unmap_ean_def e_def n_def)
  have stuck: "unmap_ean (JString (p # e)) = JString (p # e)" if "is_barcode (p # e)"
    using that by (simp add: unmap_ean_def)
  have ne: "e \<noteq> []" by (simp add: e_def encode_of_nat)
  have code: "is_barcode (p # e) \<longleftrightarrow> all_digits e \<and> 7 \<le> length e"
    using len p(3) ne by (auto simp: is_barcode_def all_digits_def)
  have "p # e \<noteq> s" if "is_barcode (p # e)"
  proof
    assume "p # e = s"
    then have "length s = Suc (length e)" by auto
    with code len len8 that assms(2) show False by auto
  qed
  with reads stuck code show ?thesis unfolding m e by (cases "is_barcode (p # e)") auto
qed


section \<open>Durations\<close>

lemma take_field_digits:
  assumes "all_digits ds" "r \<noteq> []" "\<not> is_digit (hd r)"
  shows "take_field c (ds @ r) = (if hd r = c then (digits_value ds, tl r) else (0, ds @ r))"
proof -
  have ds: "list_all is_digit ds" "ds \<noteq> []" using assms(1) by (auto simp: all_digits_def)
  have "takeWhile is_digit (ds @ r) = ds" "dropWhile is_digit (ds @ r) = r"
    using span_digits [OF ds(1)] assms(3) by auto
  with ds(2) assms(2) show ?thesis by (simp add: take_field_def)
qed

lemma take_field_other: "s = [] \<or> \<not> is_digit (hd s) \<Longrightarrow> take_field c s = (0, s)"
  by (cases s) (auto simp: take_field_def)

text \<open>The parts of a printed duration, as the parser meets them.\<close>

definition field_text :: "nat \<Rightarrow> nat \<Rightarrow> ustring" where
  "field_text c n = (if n \<noteq> 0 then show_nat n @ [c] else [])"

definition seconds_text :: "nat \<Rightarrow> nat \<Rightarrow> ustring" where
  "seconds_text sc ms =
     (if sc \<noteq> 0 \<or> ms \<noteq> 0
      then show_nat sc @ (if ms \<noteq> 0 then 46 # pad_start 3 48 (show_nat ms) else []) @ [83] else [])"

lemma take_seconds_text: "ms \<le> 999 \<Longrightarrow> take_seconds (seconds_text sc ms) = (of_nat sc + of_nat ms / 1000, [])"
proof (cases "sc = 0 \<and> ms = 0")
  case False
  assume "ms \<le> 999"
  note p = padded_decimal [of ms 3]
  have ds: "list_all is_digit (show_nat sc)" by simp
  have fs: "list_all is_digit (pad_start 3 48 (show_nat ms))" using p(2) \<open>ms \<le> 999\<close> by (simp add: all_digits_def)
  show ?thesis
  proof (cases "ms = 0")
    case True
    have "takeWhile is_digit (show_nat sc @ [83]) = show_nat sc" "dropWhile is_digit (show_nat sc @ [83]) = [83]"
      using span_digits [OF ds, of "[83]"] by (simp_all add: is_digit_def)
    moreover have "digits_value [] = 0" by (simp add: digits_value_def)
    ultimately show ?thesis using True False by (simp add: seconds_text_def take_seconds_def decimal_number_def)
  next
    case nz: False
    let ?f = "pad_start 3 48 (show_nat ms)"
    have "takeWhile is_digit (show_nat sc @ 46 # ?f @ [83]) = show_nat sc"
      "dropWhile is_digit (show_nat sc @ 46 # ?f @ [83]) = 46 # ?f @ [83]"
      using span_digits [OF ds, of "46 # ?f @ [83]"] by (simp_all add: is_digit_def)
    moreover have "takeWhile is_digit (?f @ [83]) = ?f" "dropWhile is_digit (?f @ [83]) = [83]"
      using span_digits [OF fs, of "[83]"] by (simp_all add: is_digit_def)
    moreover have "?f \<noteq> []" by (simp add: pad_start_def)
    ultimately show ?thesis using p \<open>ms \<le> 999\<close> nz
      by (simp add: seconds_text_def take_seconds_def decimal_number_def)
  qed
qed (simp add: seconds_text_def take_seconds_def)

lemma skip_seconds: "c \<noteq> 83 \<Longrightarrow> c \<noteq> 46 \<Longrightarrow> take_field c (seconds_text sc ms) = (0, seconds_text sc ms)"
  using take_field_digits [of "show_nat sc" "46 # pad_start 3 48 (show_nat ms) @ [83]" c]
    take_field_digits [of "show_nat sc" "[83]" c]
  by (auto simp: seconds_text_def take_field_other is_digit_def)

lemma take_field_text:
  assumes "\<not> is_digit c" "take_field c r = (0, r)"
  shows "take_field c (field_text c n @ r) = (n, r)"
  using take_field_digits [of "show_nat n" "c # r" c] assms by (simp add: field_text_def)

lemma skip_field_text:
  assumes "\<not> is_digit c" "c \<noteq> c'" "take_field c' r = (0, r)"
  shows "take_field c' (field_text c n @ r) = (0, field_text c n @ r)"
  using take_field_digits [of "show_nat n" "c # r" c'] assms by (simp add: field_text_def)

definition parts_text :: "nat \<Rightarrow> nat \<Rightarrow> nat \<Rightarrow> nat \<Rightarrow> nat \<Rightarrow> ustring" where
  "parts_text d h m sc ms =
     80 # field_text 68 d @
       (if h \<noteq> 0 \<or> m \<noteq> 0 \<or> sc \<noteq> 0 \<or> ms \<noteq> 0 then 84 # field_text 72 h @ field_text 77 m @ seconds_text sc ms else [])"

lemma iso_duration_parts:
  assumes "ms \<le> 999" "d \<noteq> 0 \<or> h \<noteq> 0 \<or> m \<noteq> 0 \<or> sc \<noteq> 0 \<or> ms \<noteq> 0"
  shows "iso_duration (parts_text d h m sc ms) =
    Some (of_nat d * 86400 + of_nat h * 3600 + of_nat m * 60 + (of_nat sc + of_nat ms / 1000))"
proof -
  let ?t = "if h \<noteq> 0 \<or> m \<noteq> 0 \<or> sc \<noteq> 0 \<or> ms \<noteq> 0 then 84 # field_text 72 h @ field_text 77 m @ seconds_text sc ms else []"
  have letters: "\<not> is_digit 68" "\<not> is_digit 72" "\<not> is_digit 77" "\<not> is_digit 84" by (simp_all add: is_digit_def)
  have 1: "take_field 68 (field_text 68 d @ ?t) = (d, ?t)"
    using letters by (intro take_field_text) (auto simp: take_field_other)
  have 2: "take_field 72 (field_text 72 h @ field_text 77 m @ seconds_text sc ms) = (h, field_text 77 m @ seconds_text sc ms)"
    using letters by (intro take_field_text skip_field_text skip_seconds) auto
  have 3: "take_field 77 (field_text 77 m @ seconds_text sc ms) = (m, seconds_text sc ms)"
    using letters by (intro take_field_text skip_seconds) auto
  have ne: "parts_text d h m sc ms \<noteq> [80]" "parts_text d h m sc ms \<noteq> [80, 84]"
    using assms(2) by (auto simp: parts_text_def field_text_def seconds_text_def)
  have tl: "tl (parts_text d h m sc ms) = field_text 68 d @ ?t" "starts_with (parts_text d h m sc ms) [80]"
    by (simp_all add: parts_text_def starts_with_def)
  show ?thesis
  proof (cases "h \<noteq> 0 \<or> m \<noteq> 0 \<or> sc \<noteq> 0 \<or> ms \<noteq> 0")
    case True
    then have t: "?t = 84 # field_text 72 h @ field_text 77 m @ seconds_text sc ms" by simp
    show ?thesis using ne tl 1 2 3 take_seconds_text [OF assms(1)] unfolding t by (simp add: iso_duration_def)
  next
    case False
    then have t: "?t = []" by simp
    show ?thesis using ne tl 1 False unfolding t by (simp add: iso_duration_def)
  qed
qed


lemma place_of: "0 < b \<Longrightarrow> n mod (b * c) div b = n div b mod (c :: nat)"
  by (simp add: mod_mult2_eq)

lemma duration_text_parts:
  assumes "0 < n" "n < 10 ^ 21"
  shows "\<exists>d h m sc ms. duration_text (int n) = parts_text d h m sc ms \<and> ms \<le> 999 \<and>
    (d \<noteq> 0 \<or> h \<noteq> 0 \<or> m \<noteq> 0 \<or> sc \<noteq> 0 \<or> ms \<noteq> 0) \<and> n = (((d * 24 + h) * 60 + m) * 60 + sc) * 1000 + ms"
proof -
  define d h m sc ms where "d = n div 86400000" and "h = n mod 86400000 div 3600000"
    and "m = n mod 3600000 div 60000" and "sc = n mod 60000 div 1000" and "ms = n mod 1000"
  have divs: "n div 60000 = n div 1000 div 60" "n div 3600000 = n div 1000 div 60 div 60"
    "n div 86400000 = n div 1000 div 60 div 60 div 24"
    by (simp_all flip: div_mult2_eq)
  have mods: "sc = n div 1000 mod 60" "m = n div 1000 div 60 mod 60" "h = n div 1000 div 60 div 60 mod 24"
    using place_of [of 1000 n 60] place_of [of 60000 n 60] place_of [of 3600000 n 24]
    by (simp_all add: sc_def m_def h_def divs)
  have total: "n = (((d * 24 + h) * 60 + m) * 60 + sc) * 1000 + ms"
    unfolding mods d_def divs ms_def by simp
  have b: "ms \<le> 999" "sc \<le> 59" "m \<le> 59" "h \<le> 23" "d < 10 ^ 21"
    using assms(2) by (simp_all add: mods ms_def d_def less_Suc_eq_le [symmetric])
  have rem: "js_rem (int n) k = int n mod k" for k by (simp add: js_rem_def)
  have ints: "int n div 86400000 = int d" "int n mod 86400000 div 3600000 = int h"
    "int n mod 3600000 div 60000 = int m" "int n mod 60000 div 1000 = int sc" "int n mod 1000 = int ms"
    by (simp_all add: d_def h_def m_def sc_def ms_def zdiv_int zmod_int)
  have it: "int_text (int k) = show_nat k" if "k < 10 ^ 21" for k
    using that by (simp add: int_text_def nat_text_def)
  have some: "d \<noteq> 0 \<or> h \<noteq> 0 \<or> m \<noteq> 0 \<or> sc \<noteq> 0 \<or> ms \<noteq> 0" using assms(1) total by auto
  have "duration_text (int n) = parts_text d h m sc ms"
    using b some
    by (auto simp: duration_text_def rem ints it parts_text_def field_text_def seconds_text_def Let_def)
  with total b(1) some show ?thesis by blast
qed

lemma iso_duration_text:
  assumes "n < 10 ^ 21"
  shows "iso_duration (duration_text (int n)) = Some (of_nat n / 1000)"
proof (cases "n = 0")
  case True
  have "duration_text 0 = [80, 84, 48, 83]" by (simp add: duration_text_def js_rem_def Let_def)
  moreover have "iso_duration [80, 84, 48, 83] = Some 0"
    by (simp add: iso_duration_def starts_with_def take_field_def take_seconds_def is_digit_def decimal_number_def
        digits_value_def)
  ultimately show ?thesis using True by simp
next
  case False
  then obtain d h m sc ms where p: "duration_text (int n) = parts_text d h m sc ms" "ms \<le> 999"
    "d \<noteq> 0 \<or> h \<noteq> 0 \<or> m \<noteq> 0 \<or> sc \<noteq> 0 \<or> ms \<noteq> 0" "n = (((d * 24 + h) * 60 + m) * 60 + sc) * 1000 + ms"
    using duration_text_parts [of n] assms by blast
  have "(of_nat n / 1000 :: rat) = of_nat d * 86400 + of_nat h * 3600 + of_nat m * 60 + (of_nat sc + of_nat ms / 1000)"
    unfolding p(4) by (simp add: field_simps)
  with iso_duration_parts [OF p(2,3)] p(1) show ?thesis by simp
qed

lemma duration_text_head: "starts_with (duration_text ms) [80]"
  by (simp add: duration_text_def Let_def starts_with_def)


section \<open>Properties\<close>

lemma js_round_int [simp]: "js_round (of_int i) = i" "js_round (numeral k) = numeral k" "js_round 0 = 0"
proof -
  show *: "js_round (of_int i) = i" for i unfolding js_round_def by (rule floor_unique) simp_all
  show "js_round (numeral k) = numeral k" "js_round 0 = 0" using * [of "numeral k"] * [of 0] by simp_all
qed

lemma text_check_Valid:
  assumes "text_check type check v = Valid w"
  shows "w = JNull \<or> w = JUndefined \<or> (\<exists>s t. v = JString s \<and> check s = Some t \<and> w = JString t)"
  using assms by (auto simp: text_check_def split: js_value.splits option.splits)

lemma absent_values:
  "w = JNull \<or> w = JUndefined \<Longrightarrow> unmap_mac (map_mac w) = w \<and> unmap_color (map_color w) = w \<and>
     unmap_cidr (map_cidr w) = w \<and> unmap_timeonly (map_timeonly w) = w"
  by (auto simp: map_mac_def unmap_mac_def map_color_def unmap_color_def map_cidr_def unmap_cidr_def
      map_timeonly_def unmap_timeonly_def)

lemma validate_timeonly_Valid:
  assumes "\<forall>s. v = JString s \<longrightarrow> 84 \<notin> set s" "validate_timeonly D v = Valid w"
  shows "w = JNull \<or> w = JUndefined \<or> (\<exists>t. time_in_day t \<and> w = JString (time_of t))"
  using assms by (auto simp: validate_timeonly_def Let_def split: js_value.splits option.splits if_splits)

text \<open>
  C24: Validated values are read back. Whatever value of a MAC address, colour, network or time of day
  the validator accepts (times that are given as a time), the schema reads back from its compact
  form as the validator has normalised it; and so is every UUID in lower case.
\<close>
theorem validated_values_read_back:
  assumes "length hex = 32" "list_all lower_hex hex"
  shows "(validate_mac v = Valid w \<longrightarrow> unmap_mac (map_mac w) = w) \<and>
    (validate_color v = Valid w \<longrightarrow> unmap_color (map_color w) = w) \<and>
    (validate_cidr v = Valid w \<longrightarrow> unmap_cidr (map_cidr w) = w) \<and>
    ((\<forall>s. v = JString s \<longrightarrow> 84 \<notin> set s) \<longrightarrow> validate_timeonly D v = Valid w \<longrightarrow>
       unmap_timeonly (map_timeonly w) = w) \<and>
    unmap_uuid (map_uuid (JString (uuid_text hex))) = JString (uuid_text hex)"
proof (intro conjI impI)
  show "unmap_uuid (map_uuid (JString (uuid_text hex))) = JString (uuid_text hex)"
    using assms by (rule uuid_reads_back)
  show "unmap_mac (map_mac w) = w" if "validate_mac v = Valid w"
    using text_check_Valid [OF that [unfolded validate_mac_def]] absent_values [of w] mac_reads_back by blast
  show "unmap_color (map_color w) = w" if "validate_color v = Valid w"
    using text_check_Valid [OF that [unfolded validate_color_def]] absent_values [of w] color_reads_back by blast
  show "unmap_cidr (map_cidr w) = w" if "validate_cidr v = Valid w"
    using text_check_Valid [OF that [unfolded validate_cidr_def]] absent_values [of w]
      check_cidr_text cidr_reads_back by metis
  show "unmap_timeonly (map_timeonly w) = w"
    if "\<forall>s. v = JString s \<longrightarrow> 84 \<notin> set s" "validate_timeonly D v = Valid w"
    using validate_timeonly_Valid [OF that] absent_values [of w] time_reads_back by blast
qed

lemma validated_values_read_back_witness:
  "validate_mac (JString (lit ''AA-bb-00-00-0F-ff'')) = Valid (JString (lit ''aa:bb:00:00:0f:ff'')) \<and>
   unmap_mac (map_mac (JString (lit ''aa:bb:00:00:0f:ff''))) = JString (lit ''aa:bb:00:00:0f:ff'')"
proof
  show v: "validate_mac (JString (lit ''AA-bb-00-00-0F-ff'')) = Valid (JString (lit ''aa:bb:00:00:0f:ff''))"
    by (simp add: validate_mac_def text_check_def check_mac_def lower_def lower_hex_def is_digit_def)
  show "unmap_mac (map_mac (JString (lit ''aa:bb:00:00:0f:ff''))) = JString (lit ''aa:bb:00:00:0f:ff'')"
    using validated_values_read_back [of "replicate 32 48"] v by (auto simp: list_all_iff lower_hex_def is_digit_def simp del: lit_Cons)
qed

text \<open>
  Which versions, phone numbers and bar codes are read back. A version exactly when minor and
  patch are below 1000; an accepted phone number exactly when it does not start with a zero; and a
  bar code unless its base-62 numeral looks like a bar code itself: at least seven letters, all digits.
\<close>
theorem codes_read_back_iff:
  assumes "a * 1000000 + b * 1000 + c < 10 ^ 21" "validate_phone v = Valid (JString t)"
    "all_digits s" "length s \<in> {8, 12, 13, 14}"
  shows "(unmap_semver (map_semver (JString (semver_text a b c))) = JString (semver_text a b c) \<longleftrightarrow>
      b < 1000 \<and> c < 1000) \<and>
    (unmap_phone (map_phone (JString t)) = JString t \<longleftrightarrow> hd (tl t) \<noteq> 48) \<and>
    (unmap_ean (map_ean (JString s)) = JString s \<longleftrightarrow>
      \<not> (all_digits (encode (parse_decimal s)) \<and> 7 \<le> length (encode (parse_decimal s))))"
proof (intro conjI)
  let ?n = "a * 1000000 + b * 1000 + c"
  have "semver_text (?n div 1000000) (?n mod 1000000 div 1000) (?n mod 1000) = semver_text a b c \<longleftrightarrow>
      ?n div 1000000 = a \<and> ?n mod 1000000 div 1000 = b \<and> ?n mod 1000 = c"
    using assms(1) by (intro semver_text_inj) simp_all
  also have "\<dots> \<longleftrightarrow> b < 1000 \<and> c < 1000"
  proof
    assume r: "?n div 1000000 = a \<and> ?n mod 1000000 div 1000 = b \<and> ?n mod 1000 = c"
    have "?n mod 1000000 div 1000 < 1000" "?n mod 1000 < 1000" by simp_all
    with r show "b < 1000 \<and> c < 1000" by simp
  next
    assume bc: "b < 1000 \<and> c < 1000"
    define q where "q = b * 1000 + c"
    have q: "q < 1000000" "q div 1000 = b" "q mod 1000 = c" using bc by (simp_all add: q_def)
    have n: "?n = q + a * 1000000" "?n = c + (a * 1000 + b) * 1000" by (simp_all add: q_def)
    have "?n div 1000000 = a" "?n mod 1000000 = q" unfolding n(1) using q(1) by simp_all
    moreover have "?n mod 1000 = c" unfolding n(2) using bc by (simp only: mod_mult_self1) simp
    ultimately show "?n div 1000000 = a \<and> ?n mod 1000000 div 1000 = b \<and> ?n mod 1000 = c" using q(2) by simp
  qed
  finally show "unmap_semver (map_semver (JString (semver_text a b c))) = JString (semver_text a b c) \<longleftrightarrow>
      b < 1000 \<and> c < 1000"
    by (simp add: semver_stored [OF assms(1)])
  obtain ds where "t = 43 # ds" "all_digits ds" "7 \<le> length ds" "length ds \<le> 15"
    using assms(2) phone_digits
    by (fastforce simp: validate_phone_def text_check_def split: js_value.splits option.splits)
  then show "unmap_phone (map_phone (JString t)) = JString t \<longleftrightarrow> hd (tl t) \<noteq> 48"
    using canonical_digits [of ds] by (auto simp: phone_stored)
  show "unmap_ean (map_ean (JString s)) = JString s \<longleftrightarrow>
      \<not> (all_digits (encode (parse_decimal s)) \<and> 7 \<le> length (encode (parse_decimal s)))"
    by (rule ean_stored [OF assms(3,4)])
qed

lemma codes_read_back_iff_witness:
  "unmap_phone (map_phone (JString (lit ''+5511987654321''))) = JString (lit ''+5511987654321'') \<and>
   unmap_semver (map_semver (JString (semver_text 1 1000 0))) \<noteq> JString (semver_text 1 1000 0)"
proof -
  have "validate_phone (JString (lit ''+55 11 98765-4321'')) = Valid (JString (lit ''+5511987654321''))"
    by (simp add: validate_phone_def text_check_def check_phone_def is_space_def starts_with_def all_digits_def is_digit_def)
  from codes_read_back_iff [OF _ this, of 1 1000 0 "lit ''00000017''"] show ?thesis
    by (simp add: all_digits_def is_digit_def)
qed

text \<open>
  Durations. A duration is read back as an ISO 8601 text of the rounded number of milliseconds,
  which the validator reads as that number again; unless the base-62 numeral of the number starts
  with the letter \<open>P\<close>: then the numeral itself is read back.
\<close>
theorem durations_read_back:
  assumes "0 \<le> x" "x < 10 ^ 20"
  shows "let ms = js_round x; stored = encode (Num (of_int ms)) in
    unmap_duration (map_duration (JNumber (Num x))) =
      JString (if starts_with stored (lit ''P'') then stored else duration_text ms) \<and>
    validate_duration (JString (duration_text ms)) = Valid (JNumber (Num (of_int ms)))"
proof -
  have r: "0 \<le> js_round x" using assms(1) by (simp add: js_round_def le_floor_iff)
  have "js_round x \<le> \<lceil>x + 1\<rceil>" unfolding js_round_def by linarith
  also have "\<dots> < 10 ^ 21" using assms(2) by (simp add: ceiling_less_iff)
  finally have b: "js_round x < 10 ^ 21" .
  obtain n where n: "js_round x = int n" using r by (metis nonneg_int_cases)
  have n21: "n < 10 ^ 21" using b n by (simp add: nat_less_iff flip: of_nat_less_iff)
  have ne: "encode (Num (of_nat n)) \<noteq> []" by (simp add: encode_of_nat)
  have "js_round (of_nat n / 1000 * 1000) = int n" using js_round_int(1) [of "int n"] by simp
  then have "duration_millis (duration_text (int n)) = Some (int n)"
    using iso_duration_text [OF n21] by (simp add: duration_millis_def)
  then show ?thesis
    using assms(1) n ne
    by (simp add: map_duration_def unmap_duration_def validate_duration_def decode_encode_nat Let_def)
qed

lemma durations_read_back_witness:
  "unmap_duration (map_duration (JNumber (Num 51))) = JString (lit ''P'')"
proof -
  have "encode (Num 51) = lit ''P''"
    by (simp add: encode_def encode_with_def place_digits.simps base62_alphabet_def)
  then show ?thesis
    using durations_read_back [of 51] by (simp add: Let_def starts_with_def)
qed

text \<open>
  Values that come back as others. The version 1.1000.0 as 2.0.0; a number with a leading zero
  without it; the accepted bar code 0057731386987 as the eight digits 11111111; and a duration of three
  hours and 25 minutes as its numeral \<open>PBN6\<close>.
\<close>
theorem compact_value_defects:
  "unmap_semver (map_semver (JString (lit ''1.1000.0''))) = JString (lit ''2.0.0'') \<and>
   unmap_phone (map_phone (JString (lit ''+0123456789''))) = JString (lit ''+123456789'') \<and>
   validate_ean (JString (lit ''0057731386987'')) = Valid (JString (lit ''0057731386987'')) \<and>
   unmap_ean (map_ean (JString (lit ''0057731386987''))) = JString (lit ''11111111'') \<and>
   validate_duration (JString (lit ''PT3H25M'')) = Valid (JNumber (Num 12300000)) \<and>
   unmap_duration (map_duration (JNumber (Num 12300000))) = JString (lit ''PBN6'')"
proof (intro conjI)
  have "lit ''1.1000.0'' = semver_text 1 1000 0" "lit ''2.0.0'' = semver_text 2 0 0"
    by (simp_all add: semver_text_def nat_text_def show_nat.simps)
  then show "unmap_semver (map_semver (JString (lit ''1.1000.0''))) = JString (lit ''2.0.0'')"
    using semver_stored [of 1 1000 0] by (simp del: lit_Cons)
  show "unmap_phone (map_phone (JString (lit ''+0123456789''))) = JString (lit ''+123456789'')"
    using phone_stored [of "lit ''0123456789''"]
    by (simp add: all_digits_def is_digit_def digits_value_def show_nat.simps)
  have e: "encode (parse_decimal (lit ''0057731386987'')) = lit ''1111111''"
  proof -
    have "all_digits (lit ''0057731386987'')" by (simp add: all_digits_def is_digit_def)
    moreover have "digits_value (lit ''0057731386987'') = 57731386987" by (simp add: digits_value_def)
    moreover have "encode_with base62_alphabet (Num 57731386987) = lit ''1111111''"
      by (simp add: encode_with_def place_digits.simps base62_alphabet_def)
    ultimately show ?thesis using parse_decimal_digits by (simp add: encode_def del: lit_Cons)
  qed
  show "validate_ean (JString (lit ''0057731386987'')) = Valid (JString (lit ''0057731386987''))"
    by (simp add: validate_ean_def all_digits_def is_digit_def)
  have "map_ean (JString (lit ''0057731386987'')) = JString (lit ''11111111'')"
    unfolding map_ean_def js_value.case e
    by (simp add: is_barcode_def all_digits_def is_digit_def ean_prefix_def)
  then show "unmap_ean (map_ean (JString (lit ''0057731386987''))) = JString (lit ''11111111'')"
    by (simp add: unmap_ean_def is_barcode_def all_digits_def is_digit_def)
  show "validate_duration (JString (lit ''PT3H25M'')) = Valid (JNumber (Num 12300000))"
    by (simp add: validate_duration_def duration_millis_def iso_duration_def starts_with_def take_field_def
        take_seconds_def is_digit_def digits_value_def)
  have "encode (Num 12300000) = lit ''PBN6''"
    by (simp add: encode_def encode_with_def place_digits.simps base62_alphabet_def)
  then show "unmap_duration (map_duration (JNumber (Num 12300000))) = JString (lit ''PBN6'')"
    by (simp add: map_duration_def unmap_duration_def starts_with_def)
qed

end
