(* ===== verification/Ip_Addresses.thy ===== *)
theory Ip_Addresses
  imports Value_Texts Text_Encoding
begin

text \<open>
  \<open>core/src/concerns/ip.ts\<close>: IPv4 and IPv6 addresses as Base64 of their bytes. The regular expressions
  are functions on the parts between the separators, since no group or octet contains one.
\<close>

section \<open>IPv4\<close>

text \<open>\<open>/^(\d{1,3})\.(\d{1,3})\.(\d{1,3})\.(\d{1,3})$/\<close> with each octet up to 255.\<close>

definition is_valid_ipv4 :: "ustring \<Rightarrow> bool" where
  "is_valid_ipv4 ip \<longleftrightarrow>
     length (split_on 46 ip) = 4 \<and>
     list_all (\<lambda>x. all_digits x \<and> length x \<le> 3 \<and> digits_value x \<le> 255) (split_on 46 ip)"

datatype ip_error = Invalid_IPv4 | Invalid_IPv6 | Invalid_Length

definition encode_ipv4 :: "ustring \<Rightarrow> ip_error + ustring" where
  "encode_ipv4 ip =
     (if is_valid_ipv4 ip then Inr (b64_encode (map digits_value (split_on 46 ip))) else Inl Invalid_IPv4)"

definition decode_ipv4 :: "ustring \<Rightarrow> ip_error + ustring" where
  "decode_ipv4 encoded =
     (let buffer = b64_decode encoded in
      if length buffer \<noteq> 4 then Inl Invalid_Length else Inr (join [46] (map show_nat buffer)))"

section \<open>IPv6\<close>

text \<open>A group \<open>[0-9a-fA-F]{1,4}\<close>, and the IPv4 address of the last two alternatives.\<close>

definition is_group :: "ustring \<Rightarrow> bool" where
  "is_group s \<longleftrightarrow> s \<noteq> [] \<and> length s \<le> 4 \<and> list_all is_hex s"

definition embedded_octet :: "ustring \<Rightarrow> bool" where
  "embedded_octet s \<longleftrightarrow> all_digits s \<and> length s \<le> 3 \<and> digits_value s \<le> 255 \<and> (length s = 3 \<longrightarrow> hd s \<noteq> 48)"

definition embedded_ipv4 :: "ustring \<Rightarrow> bool" where
  "embedded_ipv4 s \<longleftrightarrow> length (split_on 46 s) = 4 \<and> list_all embedded_octet (split_on 46 s)"

text \<open>
  The alternatives of the expression, by the parts between colons: eight groups; groups around one
  gap, which shows as an empty part (two at an end, three alone); a link-local address with a zone;
  an embedded IPv4 address behind \<open>::\<close>, \<open>::ffff:\<close>, \<open>::ffff:0:\<close> or up to four groups and a gap.
\<close>

definition groups_and_gap :: "ustring list \<Rightarrow> bool" where
  "groups_and_gap parts \<longleftrightarrow>
     (let l = takeWhile (\<lambda>p. p \<noteq> []) parts; r = dropWhile (\<lambda>p. p \<noteq> []) parts in
      if l = [] then
        (case r of
           _ # [] # r' \<Rightarrow> r' = [[]] \<or> (r' \<noteq> [] \<and> list_all is_group r' \<and> length r' \<le> 7)
         | _ \<Rightarrow> False)
      else
        list_all is_group l \<and>
        (case r of
           _ # r' \<Rightarrow>
             (r' = [[]] \<and> length l \<le> 7) \<or>
             (r' \<noteq> [] \<and> list_all is_group r' \<and> length l + length r' \<le> 7)
         | [] \<Rightarrow> False))"

definition link_local :: "ustring \<Rightarrow> bool" where
  "link_local s \<longleftrightarrow>
     (case split_on 37 s of
        [address, zone] \<Rightarrow>
          zone \<noteq> [] \<and> list_all (\<lambda>u. is_digit u \<or> is_letter u) zone \<and>
          (case split_on 58 address of
             prefix # [] # xs \<Rightarrow>
               prefix = lit ''fe80'' \<and> length xs \<le> 4 \<and> list_all (\<lambda>x. length x \<le> 4 \<and> list_all is_hex x) xs
           | _ \<Rightarrow> False)
      | _ \<Rightarrow> False)"

definition mapped_ipv4 :: "ustring list \<Rightarrow> bool" where
  "mapped_ipv4 parts \<longleftrightarrow>
     embedded_ipv4 (last parts) \<and>
     (let m = butlast parts in
      m = [[], []] \<or> m = [[], [], lit ''ffff''] \<or>
      (length m = 4 \<and> take 3 m = [[], [], lit ''ffff''] \<and> m ! 3 \<noteq> [] \<and> length (m ! 3) \<le> 4 \<and>
         list_all (\<lambda>u. u = 48) (m ! 3)) \<or>
      (2 \<le> length m \<and> length m \<le> 5 \<and> last m = [] \<and> list_all is_group (butlast m)))"

definition is_valid_ipv6 :: "ustring \<Rightarrow> bool" where
  "is_valid_ipv6 ip \<longleftrightarrow>
     (let parts = split_on 58 ip in
      (length parts = 8 \<and> list_all is_group parts) \<or> groups_and_gap parts \<or> link_local ip \<or> mapped_ipv4 parts)"

text \<open>\<open>expandIPv6\<close>; \<open>ip.split('::')\<close> is read up to its second element.\<close>

definition split_gap :: "ustring \<Rightarrow> (ustring \<times> ustring) option" where
  "split_gap s =
     map_option (\<lambda>i. (take i s, let r = drop (i + 2) s in
         case index_of r [58, 58] of Some j \<Rightarrow> take j r | None \<Rightarrow> r)) (index_of s [58, 58])"

definition colon_parts :: "ustring \<Rightarrow> ustring list" where
  "colon_parts s = (if s = [] then [] else split_on 58 s)"

definition fill_gap :: "ustring \<Rightarrow> ustring" where
  "fill_gap ip =
     (case split_gap ip of
        None \<Rightarrow> ip
      | Some (l, r) \<Rightarrow>
          let left = colon_parts l; right = colon_parts r in
          join [58] (left @ replicate (8 - length left - length right) [48] @ right))"

definition expand_ipv6 :: "ustring \<Rightarrow> ip_error + ustring" where
  "expand_ipv6 ip =
     (if \<not> is_valid_ipv6 ip then Inl Invalid_IPv6
      else if ip = lit ''::'' then Inr (lit ''0000:0000:0000:0000:0000:0000:0000:0000'')
      else Inr (join [58] (map (pad_start 4 48) (split_on 58 (fill_gap ip)))))"

text \<open>
  \<open>compressIPv6\<close>: runs of zero groups as start and length, and the first of the longest ones that have
  two groups or more.
\<close>

fun zero_runs :: "nat \<Rightarrow> (nat \<times> nat) option \<Rightarrow> ustring list \<Rightarrow> (nat \<times> nat) list" where
  "zero_runs i run [] = (case run of Some r \<Rightarrow> [r] | None \<Rightarrow> [])"
| "zero_runs i run (g # gs) =
     (if g = [48] then
        zero_runs (i + 1) (Some (case run of Some (s, n) \<Rightarrow> (s, n + 1) | None \<Rightarrow> (i, 1))) gs
      else (case run of Some r \<Rightarrow> [r] | None \<Rightarrow> []) @ zero_runs (i + 1) None gs)"

definition longest_run :: "(nat \<times> nat) list \<Rightarrow> (nat \<times> nat) option" where
  "longest_run runs =
     (case filter (\<lambda>(s, n). 2 \<le> n) runs of
        [] \<Rightarrow> None
      | r # rs \<Rightarrow> Some (foldl (\<lambda>a b. if snd a < snd b then b else a) r rs))"

definition compress_ipv6 :: "ustring \<Rightarrow> ustring" where
  "compress_ipv6 ip =
     (let parts = map (\<lambda>g. hex_text (parse_hex g)) (split_on 58 ip) in
      case longest_run (zero_runs 0 None parts) of
        None \<Rightarrow> join [58] parts
      | Some (s, n) \<Rightarrow> join [58] (take s parts) @ [58, 58] @ join [58] (drop (s + n) parts))"

definition group_bytes :: "ustring \<Rightarrow> bytes" where
  "group_bytes g =
     (let v = (case parse_hex g of Num x \<Rightarrow> nat \<lfloor>x\<rfloor> | _ \<Rightarrow> 0) in [v div 256 mod 256, v mod 256])"

definition encode_ipv6 :: "ustring \<Rightarrow> ip_error + ustring" where
  "encode_ipv6 ip =
     (case expand_ipv6 ip of
        Inl e \<Rightarrow> Inl e
      | Inr expanded \<Rightarrow> Inr (b64_encode (concat (map group_bytes (split_on 58 expanded)))))"

fun byte_groups :: "bytes \<Rightarrow> ustring list" where
  "byte_groups (a # b # bs) = pad_start 4 48 (hex_text (Num (of_nat (a * 256 + b)))) # byte_groups bs"
| "byte_groups _ = []"

definition decode_ipv6 :: "bool \<Rightarrow> ustring \<Rightarrow> ip_error + ustring" where
  "decode_ipv6 compress encoded =
     (if length encoded \<noteq> 24 \<and> is_valid_ipv6 encoded then (if compress then Inr encoded else expand_ipv6 encoded)
      else
        let buffer = b64_decode encoded in
        if length buffer \<noteq> 16 then Inl Invalid_Length
        else let full = join [58] (byte_groups buffer) in Inr (if compress then compress_ipv6 full else full))"

definition detect_ip_version :: "ustring \<Rightarrow> nat option" where
  "detect_ip_version ip = (if is_valid_ipv4 ip then Some 4 else if is_valid_ipv6 ip then Some 6 else None)"

end
