(* ===== verification/Ip_Props.thy ===== *)
theory Ip_Props
  imports Ip_Addresses Value_Numerals
begin

text \<open>
  Encoded IP addresses: IPv4 addresses are read back up to leading zeros, IPv6 addresses as the
  shortest text of the same address; addresses with an embedded IPv4 part or a zone are not.
\<close>

section \<open>Texts with one gap\<close>

lemma split_on_at: "split_on c (a @ c # s) = split_on c a @ split_on c s"
  by (induction a) (auto split: list.splits)

lemma no_double:
  assumes "[] \<notin> set (split_on c s)"
  shows "index_of s [c, c] = None"
proof (rule ccontr)
  assume "index_of s [c, c] \<noteq> None"
  then obtain i where "index_of s [c, c] = Some i" by auto
  from index_of_Some [OF this] obtain a r where "s = a @ c # c # r" by auto
  with assms show False by (simp add: split_on_at)
qed

lemma index_of_Cons:
  "index_of (x # s) [c, c] = (if starts_with (x # s) [c, c] then Some 0 else map_option Suc (index_of s [c, c]))"
  by (subst index_of.simps) simp

lemma first_double:
  assumes "[] \<notin> set (split_on c a)"
  shows "index_of (a @ c # c # t) [c, c] = Some (length a)"
  using assms
proof (induction "length a" arbitrary: a rule: less_induct)
  case less
  then obtain x a' where a: "a = x # a'" by (cases a) auto
  have x: "x \<noteq> c" using less.prems a by auto
  have nil: "index_of (c # c # t) [c, c] = Some 0" by (subst index_of.simps) (simp add: starts_with_def)
  show ?case
  proof (cases a')
    case Nil
    with x nil a show ?thesis by (simp add: index_of_Cons starts_with_def)
  next
    case (Cons y b)
    show ?thesis
    proof (cases "y = c")
      case True
      with less.prems a Cons x have b: "[] \<notin> set (split_on c b)" by simp
      then obtain z b' where z: "b = z # b'" "z \<noteq> c" by (cases b) (auto split: if_splits)
      from less.hyps [OF _ b] a Cons have "index_of (b @ c # c # t) [c, c] = Some (length b)" by simp
      with a Cons True x z show ?thesis by (simp add: index_of_Cons starts_with_def)
    next
      case False
      have "[] \<notin> set (split_on c a')"
        using less.prems a Cons False x by (auto split: list.splits if_splits)
      from less.hyps [OF _ this] a have "index_of (a' @ c # c # t) [c, c] = Some (length a')" by simp
      with a x show ?thesis by (simp add: index_of_Cons starts_with_def)
    qed
  qed
qed

definition plain_parts :: "ustring list \<Rightarrow> bool" where
  "plain_parts l \<longleftrightarrow> list_all is_group l"

lemma is_groupD: "is_group g \<Longrightarrow> g \<noteq> [] \<and> 58 \<notin> set g \<and> 46 \<notin> set g \<and> 37 \<notin> set g \<and> list_all is_hex g \<and> length g \<le> 4"
  using is_hexD by (fastforce simp: is_group_def list_all_iff)

lemma split_groups:
  assumes "list_all is_group l" "l \<noteq> []"
  shows "split_on 58 (join [58] l) = l" "[] \<notin> set (split_on 58 (join [58] l))" "join [58] l \<noteq> []"
proof -
  show s: "split_on 58 (join [58] l) = l"
    using assms is_groupD by (intro split_on_join) (auto simp: list_all_iff)
  show "[] \<notin> set (split_on 58 (join [58] l))"
    unfolding s using assms(1) is_groupD by (auto simp: list_all_iff)
  then show "join [58] l \<noteq> []" by auto
qed

lemma colon_parts_join: "list_all is_group l \<Longrightarrow> colon_parts (join [58] l) = l"
  using split_groups [of l] by (cases "l = []") (auto simp: colon_parts_def)

lemma index_of_Nil: "index_of [] [c, c] = None"
  by (subst index_of.simps) (simp add: starts_with_def)

lemma split_gap_groups:
  assumes "list_all is_group l" "list_all is_group r"
  shows "split_gap (join [58] l @ [58, 58] @ join [58] r) = Some (join [58] l, join [58] r)"
proof -
  have "index_of (join [58] l @ 58 # 58 # join [58] r) [58, 58] = Some (length (join [58] l))"
  proof (cases "l = []")
    case True
    then show ?thesis by (subst index_of.simps) (simp add: starts_with_def)
  next
    case False
    then show ?thesis using split_groups [OF assms(1)] by (intro first_double) auto
  qed
  moreover have "index_of (join [58] r) [58, 58] = None"
    using split_groups [OF assms(2)] no_double [of 58 "join [58] r"] by (cases "r = []") (auto simp: index_of_Nil)
  ultimately show ?thesis by (simp add: split_gap_def Let_def)
qed

lemma fill_gap_groups:
  assumes "list_all is_group l" "list_all is_group r" "length l + length r \<le> 7"
  shows "split_on 58 (fill_gap (join [58] l @ [58, 58] @ join [58] r)) =
    l @ replicate (8 - length l - length r) [48] @ r"
proof -
  let ?all = "l @ replicate (8 - length l - length r) [48] @ r"
  have "is_group [48]" by (simp add: is_group_def is_hex_def hex_value_def)
  then have "list_all is_group ?all" using assms(1,2) by (auto simp: list_all_iff)
  moreover have "?all \<noteq> []" using assms(3) by auto
  ultimately have "split_on 58 (join [58] ?all) = ?all" by (rule split_groups(1))
  then show ?thesis
    by (simp only: fill_gap_def split_gap_groups [OF assms(1,2)] option.case prod.case Let_def
        colon_parts_join [OF assms(1)] colon_parts_join [OF assms(2)])
qed

lemma split_with_gap:
  assumes "list_all is_group l" "list_all is_group r"
  shows "split_on 58 (join [58] l @ [58, 58] @ join [58] r) =
    (if l = [] then [[]] else l) @ [] # (if r = [] then [[]] else r)"
proof -
  have "split_on 58 (join [58] l @ 58 # 58 # join [58] r) = split_on 58 (join [58] l) @ split_on 58 (58 # join [58] r)"
    by (rule split_on_at)
  then show ?thesis
    using split_groups(1) [OF assms(1)] split_groups(1) [OF assms(2)] by (cases l; cases r) auto
qed

lemma gap_is_valid:
  assumes "list_all is_group l" "list_all is_group r" "length l + length r \<le> 7"
  shows "is_valid_ipv6 (join [58] l @ [58, 58] @ join [58] r)"
proof -
  have ne: "\<forall>p \<in> set l. p \<noteq> []" using assms(1) is_groupD by (auto simp: list_all_iff)
  then have "takeWhile (\<lambda>p. p \<noteq> []) (l @ [] # r') = l" "dropWhile (\<lambda>p. p \<noteq> []) (l @ [] # r') = [] # r'" for r'
    by (simp_all add: takeWhile_append dropWhile_append)
  then have "groups_and_gap (split_on 58 (join [58] l @ [58, 58] @ join [58] r))"
    using assms unfolding split_with_gap [OF assms(1,2)]
    by (cases l; cases r) (auto simp: groups_and_gap_def Let_def)
  then show ?thesis by (simp add: is_valid_ipv6_def Let_def)
qed

lemma split_parts_subset: "x \<in> set (split_on c s) \<Longrightarrow> set x \<subseteq> set s"
proof (induction s arbitrary: x)
  case (Cons u s)
  then show ?case by (cases "split_on c s") (fastforce split: if_splits)+
qed simp

text \<open>Addresses of groups only are eight groups, or groups around one gap.\<close>

lemma valid_plain:
  assumes "is_valid_ipv6 ip" "46 \<notin> set ip" "37 \<notin> set ip"
  shows "(\<exists>gs. length gs = 8 \<and> list_all is_group gs \<and> ip = join [58] gs) \<or>
    (\<exists>l r. list_all is_group l \<and> list_all is_group r \<and> length l + length r \<le> 7 \<and>
      ip = join [58] l @ [58, 58] @ join [58] r)"
proof -
  let ?ps = "split_on 58 ip"
  have ip: "ip = join [58] ?ps" by (simp add: join_split_on)
  have no: "\<not> link_local ip" using assms(3) by (simp add: link_local_def split_on_no_sep)
  have "46 \<notin> set (last ?ps)"
  proof
    assume "46 \<in> set (last ?ps)"
    moreover have "set x \<subseteq> set ip" if "x \<in> set ?ps" for x
      using that split_parts_subset by blast
    ultimately show False using assms(2) last_in_set [OF split_on_not_Nil, of 58 ip] by blast
  qed
  then have "\<not> mapped_ipv4 ?ps" by (simp add: mapped_ipv4_def embedded_ipv4_def split_on_no_sep)
  with no assms(1) consider "length ?ps = 8" "list_all is_group ?ps" | "groups_and_gap ?ps"
    by (auto simp: is_valid_ipv6_def Let_def)
  then show ?thesis
  proof cases
    case 1
    with ip show ?thesis by blast
  next
    case 2
    define l where "l = takeWhile (\<lambda>p. p \<noteq> []) ?ps"
    define r where "r = dropWhile (\<lambda>p. p \<noteq> []) ?ps"
    have ps: "?ps = l @ r" by (simp add: l_def r_def)
    have hd: "r = p # r' \<Longrightarrow> p = []" for p r' using hd_dropWhile [of "\<lambda>p. p \<noteq> []" ?ps] by (auto simp: r_def)
    have jl: "l \<noteq> [] \<Longrightarrow> join [58] (l @ [] # r') = join [58] l @ [58] @ join [58] ([] # r')" for r'
      by (induction l rule: induct_list012) auto
    show ?thesis
    proof (cases "l = []")
      case True
      with 2 obtain p r' where r': "r = p # [] # r'" "r' = [[]] \<or> r' \<noteq> [] \<and> list_all is_group r' \<and> length r' \<le> 7"
        unfolding groups_and_gap_def Let_def l_def [symmetric] r_def [symmetric]
        by (auto split: list.splits)
      have "ip = join [58] [] @ [58, 58] @ join [58] (if r' = [[]] then [] else r')"
        using ip r' hd [OF r'(1)] unfolding ps True by (cases r') auto
      then show ?thesis using r'(2)
        by (intro disjI2 exI [of _ "[]"] exI [of _ "if r' = [[]] then [] else r'"]) auto
    next
      case False
      with 2 obtain p r' where r': "r = p # r'" "list_all is_group l"
        "(r' = [[]] \<and> length l \<le> 7) \<or> (r' \<noteq> [] \<and> list_all is_group r' \<and> length l + length r' \<le> 7)"
        unfolding groups_and_gap_def Let_def l_def [symmetric] r_def [symmetric]
        by (auto split: list.splits)
      have "ip = join [58] l @ [58, 58] @ join [58] (if r' = [[]] then [] else r')"
        using ip r' jl [OF False, of r'] hd [OF r'(1)] unfolding ps by (cases r') auto
      then show ?thesis using r'
        by (intro disjI2 exI [of _ l] exI [of _ "if r' = [[]] then [] else r'"]) auto
    qed
  qed
qed


section \<open>Zero runs\<close>

lemma zero_runs_sound:
  assumes "(s, n) \<in> set (zero_runs i run gs)" "i + length gs = length parts" "drop i parts = gs"
    "\<And>a b. run = Some (a, b) \<Longrightarrow> a + b = i \<and> (\<forall>j. a \<le> j \<longrightarrow> j < i \<longrightarrow> parts ! j = [48])"
  shows "s + n \<le> length parts \<and> (\<forall>j. s \<le> j \<longrightarrow> j < s + n \<longrightarrow> parts ! j = [48])"
  using assms
proof (induction i run gs rule: zero_runs.induct)
  case (1 i run)
  then show ?case by (auto split: option.splits)
next
  case (2 i run g gs)
  from "2.prems"(2,3) have next_drop: "drop (i + 1) parts = gs" "i + 1 + length gs = length parts" "parts ! i = g"
    by (simp_all add: drop_Suc tl_drop flip: nth_via_drop) (metis drop_Suc tl_drop list.sel(3), metis nth_via_drop)
  show ?case
  proof (cases "g = [48]")
    case True
    show ?thesis
    proof (rule "2.IH"(1) [OF True _ next_drop(2,1)])
      show "(s, n) \<in> set (zero_runs (i + 1) (Some (case run of None \<Rightarrow> (i, 1) | Some (s, n) \<Rightarrow> (s, n + 1))) gs)"
        using "2.prems"(1) True by simp
      fix a b assume "Some (case run of None \<Rightarrow> (i, 1) | Some (s, n) \<Rightarrow> (s, n + 1)) = Some (a, b)"
      then show "a + b = i + 1 \<and> (\<forall>j. a \<le> j \<longrightarrow> j < i + 1 \<longrightarrow> parts ! j = [48])"
        using "2.prems"(4) True next_drop(3) by (auto split: option.splits simp: less_Suc_eq)
    qed
  next
    case False
    with "2.prems"(1) consider "run = Some (s, n)" | "(s, n) \<in> set (zero_runs (i + 1) None gs)"
      by (auto split: option.splits)
    then show ?thesis
    proof cases
      case 1
      with "2.prems"(2,4) show ?thesis by auto
    next
      case 2
      from "2.IH"(2) [OF False this next_drop(2,1)] show ?thesis by simp
    qed
  qed
qed

lemma longest_run_in: "longest_run runs = Some (s, n) \<Longrightarrow> (s, n) \<in> set runs \<and> 2 \<le> n"
proof -
  assume "longest_run runs = Some (s, n)"
  then obtain r rs where f: "filter (\<lambda>(s, n). 2 \<le> n) runs = r # rs"
    and sn: "foldl (\<lambda>a b. if snd a < snd b then b else a) r rs = (s, n)"
    by (auto simp: longest_run_def split: list.splits)
  have "foldl (\<lambda>a b. if snd a < snd b then b else a) r rs \<in> set (r # rs)" for r and rs :: "(nat \<times> nat) list"
    by (induction rs arbitrary: r) auto
  from this [of r rs] have "(s, n) \<in> set (filter (\<lambda>(s, n). 2 \<le> n) runs)" unfolding sn f .
  then show ?thesis by auto
qed

text \<open>Compressing eight numerals leaves an address that expands to them again.\<close>

lemma expand_plain:
  assumes "length gs = 8" "list_all is_group gs"
  shows "expand_ipv6 (join [58] gs) = Inr (join [58] (map (pad_start 4 48) gs))"
proof -
  have ne: "gs \<noteq> []" using assms(1) by auto
  note sp = split_groups [OF assms(2) ne]
  have "is_valid_ipv6 (join [58] gs)" unfolding is_valid_ipv6_def sp Let_def using assms by simp
  moreover have "join [58] gs \<noteq> [58, 58]"
    using sp(2) by auto
  moreover have "fill_gap (join [58] gs) = join [58] gs"
    using no_double [OF sp(2)] by (simp add: fill_gap_def split_gap_def)
  ultimately show ?thesis by (simp add: expand_ipv6_def sp(1))
qed

lemma expand_gap:
  assumes "list_all is_group l" "list_all is_group r" "length l + length r \<le> 7"
  shows "expand_ipv6 (join [58] l @ [58, 58] @ join [58] r) =
    Inr (join [58] (map (pad_start 4 48) (l @ replicate (8 - length l - length r) [48] @ r)))"
proof (cases "join [58] l @ [58, 58] @ join [58] r = [58, 58]")
  case True
  then have "join [58] l = []" "join [58] r = []" by (auto simp: append_eq_Cons_conv)
  then have "l = []" "r = []" using split_groups(3) assms(1,2) by blast+
  then show ?thesis using gap_is_valid [OF assms]
    by (simp add: expand_ipv6_def pad_start_def numeral_eq_Suc)
next
  case False
  then show ?thesis
    using gap_is_valid [OF assms] fill_gap_groups [OF assms] by (simp add: expand_ipv6_def)
qed


section \<open>Round trips\<close>

text \<open>The eight numbers an address denotes.\<close>

definition address_of :: "ustring \<Rightarrow> nat list option" where
  "address_of ip =
     (case expand_ipv6 ip of Inr full \<Rightarrow> Some (map hex_number (split_on 58 full)) | Inl _ \<Rightarrow> None)"

lemma padded_group:
  assumes "is_group g"
  shows "is_group (pad_start 4 48 g)" "length (pad_start 4 48 g) = 4" "hex_number (pad_start 4 48 g) = hex_number g"
    "parse_hex (pad_start 4 48 g) = Num (of_nat (hex_number g))" "hex_number g < 65536"
proof -
  note g = is_groupD [OF assms]
  have "is_hex 48" by (simp add: is_hex_def hex_value_def)
  with g show "is_group (pad_start 4 48 g)" by (auto simp: is_group_def pad_start_def list_all_iff)
  then have h: "list_all is_hex (pad_start 4 48 g)" "pad_start 4 48 g \<noteq> []" using is_groupD by blast+
  show "length (pad_start 4 48 g) = 4" using g by simp
  show n: "hex_number (pad_start 4 48 g) = hex_number g" by (simp add: pad_start_def hex_number_zeros)
  show "parse_hex (pad_start 4 48 g) = Num (of_nat (hex_number g))" using parse_hex_general [OF h] n by simp
  have "hex_number g < 16 ^ length g" using g by (intro hex_number_general) auto
  also have "\<dots> \<le> 16 ^ 4" using g by (intro power_increasing) auto
  finally show "hex_number g < 65536" by simp
qed

lemma group_bytes_padded:
  "is_group g \<Longrightarrow> group_bytes (pad_start 4 48 g) = [hex_number g div 256, hex_number g mod 256]"
  using padded_group(4,5) [of g] by (simp add: group_bytes_def Let_def)

definition numeral_of :: "nat \<Rightarrow> ustring" where
  "numeral_of v = hex_text (Num (of_nat v))"

lemma numeral_group: "v < 65536 \<Longrightarrow> is_group (numeral_of v) \<and> hex_number (numeral_of v) = v"
  using hex_numeral [of v] hex_numeral(4) [of v 4] lower_is_hex
  by (auto simp: numeral_of_def is_group_def list_all_iff)

lemma expanded_groups:
  assumes "is_valid_ipv6 ip" "46 \<notin> set ip" "37 \<notin> set ip"
  shows "\<exists>gs. length gs = 8 \<and> list_all is_group gs \<and> expand_ipv6 ip = Inr (join [58] (map (pad_start 4 48) gs))"
  using valid_plain [OF assms]
proof (elim disjE exE conjE)
  fix gs assume "length gs = 8" "list_all is_group gs" "ip = join [58] gs"
  then show ?thesis using expand_plain by blast
next
  fix l r assume *: "list_all is_group l" "list_all is_group r" "length l + length r \<le> 7"
    "ip = join [58] l @ [58, 58] @ join [58] r"
  let ?gs = "l @ replicate (8 - length l - length r) [48] @ r"
  have "is_group [48]" by (simp add: is_group_def is_hex_def hex_value_def)
  with * have "length ?gs = 8" "list_all is_group ?gs" by (auto simp: list_all_iff)
  with expand_gap [OF *(1-3)] *(4) show ?thesis by blast
qed

lemma address_of_expanded:
  assumes "length gs = 8" "list_all is_group gs" "expand_ipv6 ip = Inr (join [58] (map (pad_start 4 48) gs))"
  shows "address_of ip = Some (map hex_number gs)"
    "encode_ipv6 ip = Inr (b64_encode (concat (map (\<lambda>g. [hex_number g div 256, hex_number g mod 256]) gs)))"
proof -
  have pg: "list_all is_group (map (pad_start 4 48) gs)" "map (pad_start 4 48) gs \<noteq> []"
    using assms(1,2) padded_group(1) by (auto simp: list_all_iff)
  have n: "map hex_number (map (pad_start 4 48) gs) = map hex_number gs"
    using assms(2) padded_group(3) by (auto simp: list_all_iff)
  show "address_of ip = Some (map hex_number gs)"
    unfolding address_of_def assms(3) sum.case split_groups(1) [OF pg] n ..
  have "map group_bytes (map (pad_start 4 48) gs) = map (\<lambda>g. [hex_number g div 256, hex_number g mod 256]) gs"
    using assms(2) group_bytes_padded by (auto simp: list_all_iff)
  then show "encode_ipv6 ip = Inr (b64_encode (concat (map (\<lambda>g. [hex_number g div 256, hex_number g mod 256]) gs)))"
    by (simp only: encode_ipv6_def assms(3) sum.case split_groups(1) [OF pg])
qed

lemma byte_groups_values:
  "\<forall>v \<in> set vs. v < 65536 \<Longrightarrow>
     byte_groups (concat (map (\<lambda>v. [v div 256, v mod 256]) vs)) = map (\<lambda>v. pad_start 4 48 (numeral_of v)) vs"
  by (induction vs) (simp_all add: numeral_of_def)

lemma compress_values:
  assumes "length vs = 8" "\<forall>v \<in> set vs. v < 65536"
  shows "address_of (compress_ipv6 (join [58] (map (\<lambda>v. pad_start 4 48 (numeral_of v)) vs))) = Some vs"
proof -
  define ps where "ps = map numeral_of vs"
  have ps: "length ps = 8" "list_all is_group ps" "map hex_number ps = vs"
    using assms numeral_group by (auto simp: ps_def list_all_iff comp_def intro: map_idI)
  have pg: "list_all is_group (map (\<lambda>v. pad_start 4 48 (numeral_of v)) vs)" "map (\<lambda>v. pad_start 4 48 (numeral_of v)) vs \<noteq> []"
    using assms numeral_group padded_group(1) by (auto simp: list_all_iff)
  have "hex_text (parse_hex (pad_start 4 48 (numeral_of v))) = numeral_of v" if "v \<in> set vs" for v
    using numeral_group [of v] padded_group(4) [of "numeral_of v"] assms(2) that by (simp add: numeral_of_def)
  then have parts: "map (\<lambda>g. hex_text (parse_hex g)) (map (\<lambda>v. pad_start 4 48 (numeral_of v)) vs) = ps"
    by (simp add: ps_def)
  let ?c = "compress_ipv6 (join [58] (map (\<lambda>v. pad_start 4 48 (numeral_of v)) vs))"
  have c: "?c = (case longest_run (zero_runs 0 None ps) of
        None \<Rightarrow> join [58] ps
      | Some (s, n) \<Rightarrow> join [58] (take s ps) @ [58, 58] @ join [58] (drop (s + n) ps))"
    unfolding compress_ipv6_def Let_def split_groups(1) [OF pg] parts ..
  show ?thesis
  proof (cases "longest_run (zero_runs 0 None ps)")
    case None
    then show ?thesis
      using address_of_expanded(1) [OF ps(1,2) expand_plain [OF ps(1,2)]] ps(3) by (simp add: c)
  next
    case (Some sn)
    obtain s n where sn: "sn = (s, n)" by (cases sn)
    with longest_run_in Some have "(s, n) \<in> set (zero_runs 0 None ps)" "2 \<le> n" by auto
    then have z: "s + n \<le> length ps" "2 \<le> n" "\<forall>j. s \<le> j \<longrightarrow> j < s + n \<longrightarrow> ps ! j = [48]"
      using zero_runs_sound [of s n 0 None ps ps] by auto
    have mid: "take s ps @ replicate n [48] @ drop (s + n) ps = ps"
    proof (rule nth_equalityI)
      show "length (take s ps @ replicate n [48] @ drop (s + n) ps) = length ps" using z(1) by simp
      fix j assume "j < length (take s ps @ replicate n [48] @ drop (s + n) ps)"
      then show "(take s ps @ replicate n [48] @ drop (s + n) ps) ! j = ps ! j"
        using z(1,3) by (auto simp: nth_append)
    qed
    have lr: "list_all is_group (take s ps)" "list_all is_group (drop (s + n) ps)"
      "length (take s ps) + length (drop (s + n) ps) \<le> 7"
      "8 - length (take s ps) - length (drop (s + n) ps) = n"
      using ps(1,2) z(1,2) by (auto simp: list_all_iff dest: in_set_takeD in_set_dropD)
    have "expand_ipv6 ?c = Inr (join [58] (map (pad_start 4 48) ps))"
      using expand_gap [OF lr(1-3)] unfolding lr(4) mid c Some sn by simp
    from address_of_expanded(1) [OF ps(1,2) this] ps(3) show ?thesis by simp
  qed
qed

section \<open>Properties\<close>

text \<open>
  C25: IP addresses. A valid IPv4 address is read back exactly when no octet has a leading zero. An IPv6
  address of groups only is stored in 24 characters and read back as a text that denotes the same
  eight groups.
\<close>
theorem ip_addresses_read_back:
  assumes "is_valid_ipv4 ip4" "is_valid_ipv6 ip6" "46 \<notin> set ip6" "37 \<notin> set ip6"
  shows "(\<exists>t. encode_ipv4 ip4 = Inr t \<and>
      (decode_ipv4 t = Inr ip4 \<longleftrightarrow> (\<forall>x \<in> set (split_on 46 ip4). hd x = 48 \<longrightarrow> x = [48]))) \<and>
    (\<exists>t c. encode_ipv6 ip6 = Inr t \<and> length t = 24 \<and> decode_ipv6 True t = Inr c \<and> address_of c = address_of ip6)"
proof
  let ?xs = "split_on 46 ip4"
  have xs: "length ?xs = 4" "list_all (\<lambda>x. all_digits x \<and> length x \<le> 3 \<and> digits_value x \<le> 255) ?xs"
    using assms(1) by (simp_all add: is_valid_ipv4_def)
  have bytes: "is_byte_list (map digits_value ?xs)" using xs(2) by (auto simp: is_byte_list_def list_all_iff)
  have "join [46] (map show_nat (map digits_value ?xs)) = ip4 \<longleftrightarrow> map (\<lambda>x. show_nat (digits_value x)) ?xs = ?xs"
  proof
    assume "join [46] (map show_nat (map digits_value ?xs)) = ip4"
    then have "split_on 46 (join [46] (map show_nat (map digits_value ?xs))) = ?xs" by simp
    then show "map (\<lambda>x. show_nat (digits_value x)) ?xs = ?xs"
      by (subst (asm) split_on_join) (auto simp: comp_def)
  next
    assume "map (\<lambda>x. show_nat (digits_value x)) ?xs = ?xs"
    then have "join [46] (map (\<lambda>x. show_nat (digits_value x)) ?xs) = join [46] ?xs" by (rule arg_cong)
    then show "join [46] (map show_nat (map digits_value ?xs)) = ip4"
      by (simp add: comp_def join_split_on)
  qed
  also have "\<dots> \<longleftrightarrow> (\<forall>x \<in> set ?xs. hd x = 48 \<longrightarrow> x = [48])"
    using xs(2) canonical_digits by (auto simp: list_all_iff map_idI dest!: map_eq_conv [THEN iffD1, of _ _ "\<lambda>x. x", simplified])
  finally show "\<exists>t. encode_ipv4 ip4 = Inr t \<and>
      (decode_ipv4 t = Inr ip4 \<longleftrightarrow> (\<forall>x \<in> set ?xs. hd x = 48 \<longrightarrow> x = [48]))"
    using assms(1) xs(1) b64_roundtrip [OF bytes] by (simp add: encode_ipv4_def decode_ipv4_def Let_def)
next
  obtain gs where gs: "length gs = 8" "list_all is_group gs"
    "expand_ipv6 ip6 = Inr (join [58] (map (pad_start 4 48) gs))"
    using expanded_groups [OF assms(2-4)] by blast
  define vs where "vs = map hex_number gs"
  have vs: "length vs = 8" "\<forall>v \<in> set vs. v < 65536"
    using gs(1,2) padded_group(5) by (auto simp: vs_def list_all_iff)
  define bs where "bs = concat (map (\<lambda>v. [v div 256, v mod 256]) vs)"
  have bs: "is_byte_list bs" using vs(2) by (auto simp: bs_def is_byte_list_def)
  have len: "length bs = 16"
  proof -
    have "length (concat (map (\<lambda>v. [v div 256, v mod 256]) ws)) = 2 * length ws" for ws :: "nat list"
      by (induction ws) auto
    then show ?thesis using vs(1) by (simp add: bs_def)
  qed
  have e: "encode_ipv6 ip6 = Inr (b64_encode bs)" "address_of ip6 = Some vs"
    using address_of_expanded [OF gs] by (simp_all add: bs_def vs_def comp_def)
  have l: "length (b64_encode bs) = 24" using length_b64_encode [of bs] len by simp
  have d: "decode_ipv6 True (b64_encode bs) = Inr (compress_ipv6 (join [58] (byte_groups bs)))"
    using l len b64_roundtrip [OF bs] by (simp add: decode_ipv6_def Let_def)
  have "address_of (compress_ipv6 (join [58] (byte_groups bs))) = Some vs"
    unfolding bs_def byte_groups_values [OF vs(2)] by (rule compress_values [OF vs])
  with e l d show "\<exists>t c. encode_ipv6 ip6 = Inr t \<and> length t = 24 \<and> decode_ipv6 True t = Inr c \<and> address_of c = address_of ip6"
    by auto
qed

lemma ip_addresses_read_back_witness:
  "\<exists>t. encode_ipv4 (lit ''10.0.0.1'') = Inr t \<and> decode_ipv4 t = Inr (lit ''10.0.0.1'')"
proof -
  have "is_valid_ipv4 (lit ''10.0.0.1'')" by (simp add: is_valid_ipv4_def all_digits_def is_digit_def digits_value_def)
  moreover have "is_valid_ipv6 (lit ''2001:db8::1'')"
    by (simp add: is_valid_ipv6_def groups_and_gap_def is_group_def is_hex_def hex_value_def)
  ultimately obtain t where "encode_ipv4 (lit ''10.0.0.1'') = Inr t" "decode_ipv4 t = Inr (lit ''10.0.0.1'') \<longleftrightarrow>
      (\<forall>x \<in> set (split_on 46 (lit ''10.0.0.1'')). hd x = 48 \<longrightarrow> x = [48])"
    using ip_addresses_read_back [of "lit ''10.0.0.1''" "lit ''2001:db8::1''"] by auto
  then show ?thesis by auto
qed

text \<open>
  Addresses that come back as others. The IPv4 address embedded in an IPv6 address is read as one
  hexadecimal group, up to its first point; the zone of a link-local address is lost; and texts that
  are no addresses, which are stored as they are, are read as the Base64 of one.
\<close>
theorem ip_address_defects:
  "(\<exists>t. encode_ipv6 (lit ''::ffff:192.168.0.1'') = Inr t \<and> decode_ipv6 True t = Inr (lit ''::ffff:192'')) \<and>
   (\<exists>t. encode_ipv6 (lit ''fe80::1%eth0'') = Inr t \<and> decode_ipv6 True t = Inr (lit ''fe80::1'')) \<and>
   \<not> is_valid_ipv4 (lit ''foobar'') \<and> decode_ipv4 (lit ''foobar'') = Inr (lit ''126.138.27.106'')"
proof (intro conjI)
  have stored: "\<exists>t. encode_ipv6 ip = Inr t \<and> decode_ipv6 True t = Inr c"
    if "expand_ipv6 ip = Inr full" "concat (map group_bytes (split_on 58 full)) = bs" "is_byte_list bs"
      "length bs = 16" "compress_ipv6 (join [58] (byte_groups bs)) = c" for ip full bs c
    using that b64_roundtrip [OF that(3)] length_b64_encode [of bs]
    by (simp add: encode_ipv6_def decode_ipv6_def Let_def)
  have rep: "replicate 2 x = [x, x]" "replicate 3 x = [x, x, x]" "replicate 6 x = [x, x, x, x, x, x]" for x :: 'a
    by (simp_all add: numeral_eq_Suc)
  note ev = is_valid_ipv6_def groups_and_gap_def mapped_ipv4_def link_local_def embedded_ipv4_def embedded_octet_def
    all_digits_def is_digit_def is_letter_def digits_value_def is_group_def is_hex_def hex_value_def
  note ex = fill_gap_def split_gap_def colon_parts_def index_of.simps starts_with_def pad_start_def
  note gb = group_bytes_def parse_hex_def parse_signed_def read_hex_def hex_number_def hex_value_def is_space_def
    starts_with_def
  note co = compress_ipv6_def hex_text_def encode_with_def place_digits.simps hex_alphabet_def pad_start_def
    longest_run_def parse_hex_def parse_signed_def read_hex_def hex_number_def hex_value_def is_space_def
    starts_with_def
  show "\<exists>t. encode_ipv6 (lit ''::ffff:192.168.0.1'') = Inr t \<and> decode_ipv6 True t = Inr (lit ''::ffff:192'')"
  proof (rule stored [where bs = "[0, 0, 0, 0, 0, 0, 0, 0, 0, 0, 0, 0, 255, 255, 1, 146]"])
    have "is_valid_ipv6 (lit ''::ffff:192.168.0.1'')" by (simp add: ev)
    then show "expand_ipv6 (lit ''::ffff:192.168.0.1'') = Inr (lit ''0000:0000:0000:0000:0000:0000:ffff:192.168.0.1'')"
      by (simp add: expand_ipv6_def ex rep)
    show "concat (map group_bytes (split_on 58 (lit ''0000:0000:0000:0000:0000:0000:ffff:192.168.0.1''))) =
        [0, 0, 0, 0, 0, 0, 0, 0, 0, 0, 0, 0, 255, 255, 1, 146]"
      by (simp add: gb)
    show "compress_ipv6 (join [58] (byte_groups ([0, 0, 0, 0, 0, 0, 0, 0, 0, 0, 0, 0, 255, 255, 1, 146]))) = lit ''::ffff:192''"
      by (simp add: co rep)
  qed (simp_all add: is_byte_list_def)
  show "\<exists>t. encode_ipv6 (lit ''fe80::1%eth0'') = Inr t \<and> decode_ipv6 True t = Inr (lit ''fe80::1'')"
  proof (rule stored [where bs = "[254, 128, 0, 0, 0, 0, 0, 0, 0, 0, 0, 0, 0, 0, 0, 1]"])
    have "is_valid_ipv6 (lit ''fe80::1%eth0'')" by (simp add: ev)
    then show "expand_ipv6 (lit ''fe80::1%eth0'') = Inr (lit ''fe80:0000:0000:0000:0000:0000:0000:1%eth0'')"
      by (simp add: expand_ipv6_def ex rep)
    show "concat (map group_bytes (split_on 58 (lit ''fe80:0000:0000:0000:0000:0000:0000:1%eth0''))) =
        [254, 128, 0, 0, 0, 0, 0, 0, 0, 0, 0, 0, 0, 0, 0, 1]"
      by (simp add: gb)
    show "compress_ipv6 (join [58] (byte_groups ([254, 128, 0, 0, 0, 0, 0, 0, 0, 0, 0, 0, 0, 0, 0, 1]))) = lit ''fe80::1''"
      by (simp add: co rep)
  qed (simp_all add: is_byte_list_def)
  show "\<not> is_valid_ipv4 (lit ''foobar'')" by (simp add: is_valid_ipv4_def)
  show "decode_ipv4 (lit ''foobar'') = Inr (lit ''126.138.27.106'')"
    by (simp add: decode_ipv4_def b64_decode_def b64_value_def show_nat.simps)
qed

end
