(* ===== verification/Flatten.thy ===== *)
theory Flatten
  imports Js_Value
begin

text \<open>
  \<open>core/src/concerns/flatten.ts\<close>: nested objects as one level of entries with dotted keys, and back.
  Keys are not \<open>__proto__\<close> or other inherited names; an array keeps its items only (a property that
  is not an index is not part of its value).
\<close>

section \<open>Flattening\<close>

definition sub_path :: "ustring \<Rightarrow> ustring \<Rightarrow> ustring" where
  "sub_path path key = (if path = [] then key else path @ [46] @ key)"

text \<open>The assignments \<open>result[path] = value\<close> in their order.\<close>

fun flatten_value :: "bool \<Rightarrow> ustring \<Rightarrow> js_value \<Rightarrow> (ustring \<times> js_value) list"
and flatten_fields :: "bool \<Rightarrow> ustring \<Rightarrow> (ustring \<times> js_value) list \<Rightarrow> (ustring \<times> js_value) list"
and flatten_items :: "bool \<Rightarrow> ustring \<Rightarrow> nat \<Rightarrow> js_value list \<Rightarrow> (ustring \<times> js_value) list" where
  "flatten_value safe path (JObject []) = [(path, JObject [])]"
| "flatten_value safe path (JObject (e # es)) = flatten_fields safe path (e # es)"
| "flatten_value safe path (JArray vs) =
     (if safe \<or> vs = [] then [(path, JArray vs)] else flatten_items safe path 0 vs)"
| "flatten_value safe path JUndefined = [(path, JUndefined)]"
| "flatten_value safe path JNull = [(path, JNull)]"
| "flatten_value safe path (JBool b) = [(path, JBool b)]"
| "flatten_value safe path (JNumber n) = [(path, JNumber n)]"
| "flatten_value safe path (JString s) = [(path, JString s)]"
| "flatten_fields safe path [] = []"
| "flatten_fields safe path (e # es) = flatten_value safe (sub_path path (fst e)) (snd e) @ flatten_fields safe path es"
| "flatten_items safe path i [] = []"
| "flatten_items safe path i (v # vs) = flatten_value safe (sub_path path (show_nat i)) v @ flatten_items safe path (i + 1) vs"

definition flatten :: "bool \<Rightarrow> js_value \<Rightarrow> (ustring \<times> js_value) list" where
  "flatten safe v = obj_of (flatten_value safe [] v)"

section \<open>Unflattening\<close>

text \<open>\<open>current[part]\<close> and \<open>current[part] = value\<close>; assigning a property of a primitive value throws.\<close>

definition js_get :: "js_value \<Rightarrow> ustring \<Rightarrow> js_value" where
  "js_get v k =
     (case v of
        JObject es \<Rightarrow> prop_of es k
      | JArray vs \<Rightarrow> (case index_key k of Some i \<Rightarrow> if i < length vs then vs ! i else JUndefined | None \<Rightarrow> JUndefined)
      | JString s \<Rightarrow> (case index_key k of Some i \<Rightarrow> if i < length s then JString [s ! i] else JUndefined | None \<Rightarrow> JUndefined)
      | _ \<Rightarrow> JUndefined)"

definition set_item :: "nat \<Rightarrow> js_value \<Rightarrow> js_value list \<Rightarrow> js_value list" where
  "set_item i v vs = (vs @ replicate (Suc i - length vs) JUndefined)[i := v]"

definition js_set :: "js_value \<Rightarrow> ustring \<Rightarrow> js_value \<Rightarrow> js_value option" where
  "js_set c k v =
     (case c of
        JObject es \<Rightarrow> Some (JObject (obj_set k v es))
      | JArray vs \<Rightarrow> (case index_key k of Some i \<Rightarrow> Some (JArray (set_item i v vs)) | None \<Rightarrow> Some (JArray vs))
      | _ \<Rightarrow> None)"

definition is_numeric :: "ustring \<Rightarrow> bool" where
  "is_numeric s \<longleftrightarrow> s \<noteq> [] \<and> list_all is_digit s"

fun set_parts :: "js_value \<Rightarrow> ustring list \<Rightarrow> js_value \<Rightarrow> js_value option" where
  "set_parts c [] v = Some c"
| "set_parts c [p] v = js_set c p v"
| "set_parts c (p # q # ps) v =
     (let old = js_get c p;
          inner = (if js_truthy old then old else if is_numeric q then JArray [] else JObject []) in
      case set_parts inner (q # ps) v of
        None \<Rightarrow> None
      | Some new \<Rightarrow> js_set c p new)"

fun set_all :: "js_value \<Rightarrow> (ustring list \<times> js_value) list \<Rightarrow> js_value option" where
  "set_all c [] = Some c"
| "set_all c ((ps, v) # es) = (case set_parts c ps v of None \<Rightarrow> None | Some c' \<Rightarrow> set_all c' es)"

definition unflatten :: "(ustring \<times> js_value) list \<Rightarrow> js_value option" where
  "unflatten es = set_all (JObject []) (map (\<lambda>(k, v). (split_on 46 k, v)) es)"

section \<open>Objects that survive\<close>

text \<open>
  The keys at every level are nonempty, without a point, no number and occur once; where arrays are
  flattened too they hold fewer items than there are indices.
\<close>

fun plain_value :: "bool \<Rightarrow> js_value \<Rightarrow> bool"
and plain_fields :: "bool \<Rightarrow> (ustring \<times> js_value) list \<Rightarrow> bool"
and plain_items :: "bool \<Rightarrow> js_value list \<Rightarrow> bool" where
  "plain_value safe (JObject es) = plain_fields safe es"
| "plain_value safe (JArray vs) = (safe \<or> length vs < 2 ^ 32 \<and> plain_items safe vs)"
| "plain_value safe JUndefined = True"
| "plain_value safe JNull = True"
| "plain_value safe (JBool b) = True"
| "plain_value safe (JNumber n) = True"
| "plain_value safe (JString s) = True"
| "plain_fields safe [] = True"
| "plain_fields safe (e # es) =
     (fst e \<noteq> [] \<and> 46 \<notin> set (fst e) \<and> \<not> is_numeric (fst e) \<and> fst e \<notin> fst ` set es \<and>
      plain_value safe (snd e) \<and> plain_fields safe es)"
| "plain_items safe [] = True"
| "plain_items safe (v # vs) = (plain_value safe v \<and> plain_items safe vs)"

text \<open>The same assignments with the parts of the paths.\<close>

fun paths_value :: "bool \<Rightarrow> js_value \<Rightarrow> (ustring list \<times> js_value) list"
and paths_fields :: "bool \<Rightarrow> (ustring \<times> js_value) list \<Rightarrow> (ustring list \<times> js_value) list"
and paths_items :: "bool \<Rightarrow> nat \<Rightarrow> js_value list \<Rightarrow> (ustring list \<times> js_value) list" where
  "paths_value safe (JObject []) = [([], JObject [])]"
| "paths_value safe (JObject (e # es)) = paths_fields safe (e # es)"
| "paths_value safe (JArray vs) = (if safe \<or> vs = [] then [([], JArray vs)] else paths_items safe 0 vs)"
| "paths_value safe JUndefined = [([], JUndefined)]"
| "paths_value safe JNull = [([], JNull)]"
| "paths_value safe (JBool b) = [([], JBool b)]"
| "paths_value safe (JNumber n) = [([], JNumber n)]"
| "paths_value safe (JString s) = [([], JString s)]"
| "paths_fields safe [] = []"
| "paths_fields safe (e # es) = map (apfst (Cons (fst e))) (paths_value safe (snd e)) @ paths_fields safe es"
| "paths_items safe i [] = []"
| "paths_items safe i (v # vs) = map (apfst (Cons (show_nat i))) (paths_value safe v) @ paths_items safe (i + 1) vs"

end
