(* ===== verification/Flatten_Props.thy ===== *)
theory Flatten_Props
  imports Flatten
begin

text \<open>What flattening and unflattening guarantee about each other.\<close>

section \<open>The paths of a flat object\<close>

lemma is_numeric_show_nat [simp]: "is_numeric (show_nat i)"
  by (auto simp: is_numeric_def list_all_iff dest: show_nat_digits)

lemma index_key_show_nat: "i < 2 ^ 32 - 1 \<Longrightarrow> index_key (show_nat i) = Some i"
  by (auto simp: index_key_def list_all_iff dest: show_nat_digits)

lemma index_key_plain: "k \<noteq> [] \<Longrightarrow> \<not> is_numeric k \<Longrightarrow> index_key k = None"
  by (auto simp: index_key_def is_numeric_def)

lemma obj_set_plain:
  "k \<notin> fst ` set es \<Longrightarrow> k \<noteq> [] \<Longrightarrow> \<not> is_numeric k \<Longrightarrow> obj_set k v es = es @ [(k, v)]"
  by (simp add: obj_set_def index_key_plain)

definition key_parts :: "ustring list \<Rightarrow> ustring list \<Rightarrow> ustring" where
  "key_parts pre ps = join [46] (pre @ ps)"

lemma join_snoc: "pre \<noteq> [] \<Longrightarrow> join [c] (pre @ [k]) = join [c] pre @ c # k"
  by (induction "[c]" pre rule: join.induct) (auto simp: neq_Nil_conv)

lemma join_point_not_Nil: "pre \<noteq> [] \<Longrightarrow> [] \<notin> set pre \<Longrightarrow> join [c] pre \<noteq> []"
  by (induction "[c]" pre rule: join.induct) auto

lemma sub_path_join:
  assumes "[] \<notin> set pre"
  shows "sub_path (join [46] pre) k = join [46] (pre @ [k])"
  using assms join_point_not_Nil [of pre 46] by (cases "pre = []") (auto simp: sub_path_def join_snoc)

text \<open>The parts on the way to a value are names or indices.\<close>

definition good_part :: "ustring \<Rightarrow> bool" where
  "good_part p \<longleftrightarrow> p \<noteq> [] \<and> 46 \<notin> set p"

lemma good_part_show_nat [simp]: "good_part (show_nat i)"
  using show_nat_digits [of 46 i] by (auto simp: good_part_def is_digit_def)

lemma flatten_paths:
  "plain_value safe v \<Longrightarrow> list_all good_part pre \<Longrightarrow>
    flatten_value safe (join [46] pre) v = map (\<lambda>(ps, x). (join [46] (pre @ ps), x)) (paths_value safe v)"
  "plain_fields safe es \<Longrightarrow> list_all good_part pre \<Longrightarrow>
    flatten_fields safe (join [46] pre) es = map (\<lambda>(ps, x). (join [46] (pre @ ps), x)) (paths_fields safe es)"
  "plain_items safe vs \<Longrightarrow> list_all good_part pre \<Longrightarrow>
    flatten_items safe (join [46] pre) i vs = map (\<lambda>(ps, x). (join [46] (pre @ ps), x)) (paths_items safe i vs)"
proof (induction safe v and safe es and safe i vs arbitrary: pre and pre and pre
    rule: paths_value_paths_fields_paths_items.induct)
  case (10 safe e es)
  then have "good_part (fst e)" by (auto simp: good_part_def)
  moreover have "[] \<notin> set pre" using "10.prems" by (auto simp: list_all_iff good_part_def)
  ultimately show ?case
    using 10 "10.IH"(1) [of "pre @ [fst e]"] by (simp add: sub_path_join case_prod_beta)
next
  case (12 safe i v vs)
  moreover have "[] \<notin> set pre" using "12.prems" by (auto simp: list_all_iff good_part_def)
  ultimately show ?case
    using "12.IH"(1) [of "pre @ [show_nat i]"] by (simp add: sub_path_join case_prod_beta)
qed auto

lemma paths_fields_hd: "p \<in> fst ` set (paths_fields safe es) \<Longrightarrow> \<exists>k ps. p = k # ps \<and> k \<in> fst ` set es"
  by (induction es) auto

lemma paths_items_hd: "p \<in> fst ` set (paths_items safe i vs) \<Longrightarrow> \<exists>j ps. p = show_nat j # ps \<and> i \<le> j"
proof (induction vs arbitrary: i)
  case (Cons v vs)
  consider (here) "\<exists>ps. p = show_nat i # ps" | (later) "p \<in> fst ` set (paths_items safe (i + 1) vs)"
    using Cons.prems by auto
  then show ?case
  proof cases
    case later
    then show ?thesis using Cons.IH [of "i + 1"] by (auto dest: Suc_leD)
  qed auto
qed simp

lemma distinct_paths:
  "plain_value safe v \<Longrightarrow> distinct (map fst (paths_value safe v))"
  "plain_fields safe es \<Longrightarrow> distinct (map fst (paths_fields safe es))"
  "plain_items safe vs \<Longrightarrow> distinct (map fst (paths_items safe i vs))"
proof (induction safe v and safe es and safe i vs rule: paths_value_paths_fields_paths_items.induct)
  case (10 safe e es)
  then show ?case
    by (auto simp: o_def distinct_map inj_on_def dest!: paths_fields_hd)
next
  case (12 safe i v vs)
  then show ?case
    by (auto simp: o_def distinct_map inj_on_def show_nat_inj dest!: paths_items_hd)
qed auto

lemma good_paths:
  "plain_value safe v \<Longrightarrow> (ps, x) \<in> set (paths_value safe v) \<Longrightarrow> list_all good_part ps"
  "plain_fields safe es \<Longrightarrow> (ps, x) \<in> set (paths_fields safe es) \<Longrightarrow> list_all good_part ps"
  "plain_items safe vs \<Longrightarrow> (ps, x) \<in> set (paths_items safe i vs) \<Longrightarrow> list_all good_part ps"
proof (induction safe v and safe es and safe i vs arbitrary: ps and ps and ps
    rule: paths_value_paths_fields_paths_items.induct)
  case (10 safe e es)
  then show ?case by (auto simp: good_part_def)
qed (auto split: if_splits)

section \<open>Setting paths\<close>

lemma set_all_append: "set_all c (xs @ ys) = Option.bind (set_all c xs) (\<lambda>c. set_all c ys)"
  by (induction xs arbitrary: c) (auto split: option.splits)

text \<open>A container that takes the key \<open>k\<close> as the next one.\<close>

definition takes_key :: "js_value \<Rightarrow> ustring \<Rightarrow> (js_value \<Rightarrow> js_value) \<Rightarrow> bool" where
  "takes_key c k f \<longleftrightarrow>
     js_get c k = JUndefined \<and> (\<forall>v. js_set c k v = Some (f v)) \<and> (\<forall>v. js_get (f v) k = v) \<and>
     (\<forall>v w. js_set (f v) k w = Some (f w))"

lemma takes_key_object:
  assumes "k \<notin> fst ` set es" "k \<noteq> []" "\<not> is_numeric k"
  shows "takes_key (JObject es) k (\<lambda>v. JObject (es @ [(k, v)]))"
proof -
  have "map_of es k = None" using assms by (simp add: map_of_eq_None_iff)
  moreover have "AList.update k w (es @ [(k, v)]) = es @ [(k, w)]" for v w :: js_value
    using assms(1) by (induction es) auto
  ultimately show ?thesis
    using assms by (simp add: takes_key_def js_get_def js_set_def obj_set_plain prop_of_def map_add_def)
      (simp add: obj_set_def)
qed

lemma takes_key_array:
  assumes "length vs < 2 ^ 32 - 1"
  shows "takes_key (JArray vs) (show_nat (length vs)) (\<lambda>v. JArray (vs @ [v]))"
  using assms by (simp add: takes_key_def js_get_def js_set_def index_key_show_nat set_item_def nth_append)

definition container_for :: "ustring list \<Rightarrow> js_value" where
  "container_for ps = (if is_numeric (hd ps) then JArray [] else JObject [])"

lemma js_truthy_container [simp]: "js_truthy (container_for ps)"
  by (simp add: container_for_def)

definition is_container :: "js_value \<Rightarrow> bool" where
  "is_container v = (case v of JObject _ \<Rightarrow> True | JArray _ \<Rightarrow> True | _ \<Rightarrow> False)"

lemma set_parts_container: "is_container c \<Longrightarrow> set_parts c ps v = Some d \<Longrightarrow> is_container d"
  by (cases "(c, ps, v)" rule: set_parts.cases)
    (auto simp: is_container_def js_set_def Let_def split: js_value.splits option.splits if_splits)

lemma set_all_under_old:
  assumes "takes_key c k f" "is_container d" "\<And>ps x. (ps, x) \<in> set L \<Longrightarrow> ps \<noteq> []"
  shows "set_all (f d) (map (apfst (Cons k)) L) = map_option f (set_all d L)"
  using assms(2,3)
proof (induction L arbitrary: d)
  case (Cons e L)
  obtain ps x where e: "e = (ps, x)" by (cases e)
  have "ps \<noteq> []" using Cons.prems(2) [of ps x] e by simp
  then obtain q qs where ps: "ps = q # qs" by (cases ps) auto
  have "js_truthy d" using Cons.prems(1) by (auto simp: is_container_def split: js_value.splits)
  then have "set_parts (f d) (k # q # qs) x = map_option f (set_parts d (q # qs) x)"
    using assms(1) by (auto simp: takes_key_def Let_def split: option.splits)
  then show ?case
    using Cons e ps by (auto split: option.splits dest: set_parts_container)
qed simp

lemma set_all_under:
  assumes "takes_key c k f" "L \<noteq> []" "\<And>ps x. (ps, x) \<in> set L \<Longrightarrow> ps \<noteq> []"
  shows "set_all c (map (apfst (Cons k)) L) = map_option f (set_all (container_for (fst (hd L))) L)"
proof -
  obtain ps x L' where L: "L = (ps, x) # L'" using assms(2) by (cases L) auto
  then have "ps \<noteq> []" using assms(3) [of ps x] by simp
  then obtain q qs where ps: "ps = q # qs" by (cases ps) auto
  let ?d = "container_for ps"
  have c: "is_container ?d" by (simp add: is_container_def container_for_def)
  have "set_parts c (k # q # qs) x = map_option f (set_parts ?d (q # qs) x)"
    using assms(1) ps by (auto simp: takes_key_def Let_def container_for_def split: option.splits)
  then show ?thesis
    using set_all_under_old [OF assms(1), of _ L'] assms(3) c L ps
    by (auto split: option.splits dest: set_parts_container)
qed

text \<open>A value is one leaf or a container with at least one path below it.\<close>

lemma paths_not_Nil: "paths_value safe v \<noteq> []" "es \<noteq> [] \<Longrightarrow> paths_fields safe es \<noteq> []"
  "vs \<noteq> [] \<Longrightarrow> paths_items safe i vs \<noteq> []"
  by (induction safe v and safe es and safe i vs rule: paths_value_paths_fields_paths_items.induct) auto

lemma no_empty_path [simp]:
  "[] \<notin> fst ` set (paths_fields safe es)" "[] \<notin> fst ` set (paths_items safe i vs)"
  using paths_fields_hd [of "[]" safe es] paths_items_hd [of "[]" safe i vs] by auto

lemma paths_cases:
  obtains (leaf) "paths_value safe v = [([], v)]" | (node) "[] \<notin> fst ` set (paths_value safe v)"
proof (cases v)
  case (JObject es)
  then have "es = [] \<or> paths_value safe v = paths_fields safe es" by (cases es) auto
  then show ?thesis using JObject leaf node by (metis no_empty_path(1) paths_value.simps(1))
next
  case (JArray vs)
  then show ?thesis using leaf node by (cases "safe \<or> vs = []") auto
qed (use leaf in auto)

lemma plain_fields_keys: "plain_fields safe es \<Longrightarrow> k \<in> fst ` set es \<Longrightarrow> \<not> is_numeric k"
  by (induction es) auto

lemma container_for_fields:
  assumes "plain_fields safe es" "es \<noteq> []"
  shows "container_for (fst (hd (paths_fields safe es))) = JObject []"
proof -
  have "fst (hd (paths_fields safe es)) \<in> fst ` set (paths_fields safe es)"
    using assms(2) paths_not_Nil(2) by simp
  then obtain k ps where "fst (hd (paths_fields safe es)) = k # ps" "k \<in> fst ` set es"
    using paths_fields_hd by blast
  then show ?thesis using plain_fields_keys [OF assms(1)] by (simp add: container_for_def)
qed

lemma container_for_items:
  assumes "vs \<noteq> []"
  shows "container_for (fst (hd (paths_items safe i vs))) = JArray []"
proof -
  have "fst (hd (paths_items safe i vs)) \<in> fst ` set (paths_items safe i vs)"
    using assms paths_not_Nil(3) by simp
  then obtain j ps where "fst (hd (paths_items safe i vs)) = show_nat j # ps"
    using paths_items_hd by blast
  then show ?thesis by (simp add: container_for_def)
qed

lemma set_all_entry:
  assumes "takes_key c k f"
    and "[] \<notin> fst ` set (paths_value safe v) \<Longrightarrow>
      set_all (container_for (fst (hd (paths_value safe v)))) (paths_value safe v) = Some v"
  shows "set_all c (map (apfst (Cons k)) (paths_value safe v)) = Some (f v)"
proof (cases safe v rule: paths_cases)
  case leaf
  then show ?thesis using assms(1) by (simp add: takes_key_def)
next
  case node
  then show ?thesis using set_all_under [OF assms(1) paths_not_Nil(1)] assms(2) by force
qed

lemma set_all_paths:
  "plain_value safe v \<Longrightarrow> [] \<notin> fst ` set (paths_value safe v) \<Longrightarrow>
    set_all (container_for (fst (hd (paths_value safe v)))) (paths_value safe v) = Some v"
  "plain_fields safe es \<Longrightarrow> fst ` set acc \<inter> fst ` set es = {} \<Longrightarrow>
    set_all (JObject acc) (paths_fields safe es) = Some (JObject (acc @ es))"
  "plain_items safe vs \<Longrightarrow> length items + length vs < 2 ^ 32 \<Longrightarrow> i = length items \<Longrightarrow>
    set_all (JArray items) (paths_items safe i vs) = Some (JArray (items @ vs))"
proof (induction safe v and safe es and safe i vs arbitrary: and acc and items
    rule: paths_value_paths_fields_paths_items.induct)
  case (2 safe e es)
  then show ?case using "2.IH" [of "[]"] container_for_fields [of safe "e # es"] by simp
next
  case (3 safe vs)
  then show ?case using "3.IH" [of "[]"] container_for_items [of vs safe 0] by (auto split: if_splits)
next
  case (10 safe e es)
  have "takes_key (JObject acc) (fst e) (\<lambda>v. JObject (acc @ [(fst e, v)]))"
    using "10.prems" by (intro takes_key_object) auto
  then have "set_all (JObject acc) (map (apfst (Cons (fst e))) (paths_value safe (snd e))) =
      Some (JObject (acc @ [(fst e, snd e)]))"
    using 10 by (intro set_all_entry) auto
  moreover have "set_all (JObject (acc @ [e])) (paths_fields safe es) = Some (JObject (acc @ e # es))"
    using "10.IH"(2) [of "acc @ [e]"] "10.prems" by auto
  ultimately show ?case by (simp add: set_all_append)
next
  case (12 safe i v vs)
  have "takes_key (JArray items) (show_nat i) (\<lambda>v. JArray (items @ [v]))"
    using takes_key_array [of items] "12.prems" by simp
  then have "set_all (JArray items) (map (apfst (Cons (show_nat i))) (paths_value safe v)) =
      Some (JArray (items @ [v]))"
    using 12 by (intro set_all_entry) auto
  moreover have "set_all (JArray (items @ [v])) (paths_items safe (i + 1) vs) = Some (JArray (items @ v # vs))"
    using "12.IH"(2) [of "items @ [v]"] "12.prems" by auto
  ultimately show ?case by (simp add: set_all_append)
qed simp_all

section \<open>The flat object\<close>

lemma obj_of_plain:
  assumes "distinct (map fst es)" "\<forall>k \<in> fst ` set es. k \<noteq> [] \<and> \<not> is_numeric k"
  shows "obj_of es = es"
  using assms
proof (induction es rule: rev_induct)
  case (snoc e es)
  then show ?case by (cases e) (simp add: obj_of_snoc obj_set_plain image_iff)
qed simp

lemma split_on_good: "list_all good_part ps \<Longrightarrow> ps \<noteq> [] \<Longrightarrow> split_on 46 (join [46] ps) = ps"
  by (rule split_on_join) (auto simp: list_all_iff good_part_def)

lemma join_inj:
  assumes "list_all good_part ps" "list_all good_part qs" "ps \<noteq> []" "qs \<noteq> []" "join [46] ps = join [46] qs"
  shows "ps = qs"
  using assms by (metis split_on_good)

lemma numeric_join_hd: "list_all good_part (k # ps) \<Longrightarrow> is_numeric (join [46] (k # ps)) \<Longrightarrow> is_numeric k"
  by (cases ps) (simp_all add: is_numeric_def good_part_def)



text \<open>
  what is not read back. An object without entries comes back with the empty key; an object whose keys are
  numbers comes back as an array; a key with a point is split; and after a flat object in which a
  value and a path below it both occur there is no result: the assignment throws.
\<close>

theorem flatten_defects:
  "unflatten (flatten True (JObject [])) = Some (JObject [([], JObject [])]) \<and>
   unflatten (flatten True (JObject [(lit ''a'', JObject [(lit ''1'', JNull)])])) =
     Some (JObject [(lit ''a'', JArray [JUndefined, JNull])]) \<and>
   unflatten (flatten True (JObject [(lit ''a.b'', JNull)])) = Some (JObject [(lit ''a'', JObject [(lit ''b'', JNull)])]) \<and>
   unflatten (flatten True (JObject [(lit ''a'', JBool True), (lit ''a.b'', JNull)])) = None"
  by (simp add: flatten_def unflatten_def sub_path_def js_set_def js_get_def obj_of_def obj_set_def
      index_key_def prop_of_def set_item_def is_numeric_def is_digit_def digits_value_def show_nat.simps
      lit_def Let_def)

end
