(* ===== verification/Bitmaps.thy ===== *)
theory Bitmaps
  imports Text_Encoding "HOL-Library.Word"
begin

unbundle bit_operations_syntax

text \<open>
  \<open>core/src/concerns/binary.ts\<close>: buffers and bitmaps as Base64 texts, and the bits of a bitmap. A bitmap
  is a list of bytes; bit operators work on 32-bit integers, and storing in a byte keeps the low
  eight bits. Indices are integers. A read outside of a buffer gives \<open>undefined\<close>, which the operators
  take for 0; a write there has no effect.
\<close>

type_synonym bitmap = "8 word list"

datatype binary_error = Not_Positive | Bad_Size int int | Out_Of_Bounds int int | Invalid_Buffer_Size int

definition int32 :: "int \<Rightarrow> 32 word" where
  "int32 i = word_of_int i"

definition byte_at :: "bitmap \<Rightarrow> int \<Rightarrow> 32 word" where
  "byte_at bs i = (if 0 \<le> i \<and> i < int (length bs) then ucast (bs ! nat i) else 0)"

definition store_byte :: "bitmap \<Rightarrow> int \<Rightarrow> 32 word \<Rightarrow> bitmap" where
  "store_byte bs i w = (if 0 \<le> i \<and> i < int (length bs) then bs[nat i := ucast w] else bs)"

text \<open>\<open>1 << k\<close> shifts by the low five bits of \<open>k\<close>; \<open>%\<close> has the sign of the dividend.\<close>

definition shift_one :: "int \<Rightarrow> 32 word" where
  "shift_one k = push_bit (nat (k mod 32)) 1"

definition js_mod :: "int \<Rightarrow> int \<Rightarrow> int" where
  "js_mod a b = (if a < 0 then - (- a mod b) else a mod b)"

definition js_shr3 :: "int \<Rightarrow> int" where
  "js_shr3 i = sint (signed_drop_bit 3 (int32 i))"

section \<open>Texts\<close>

definition buffer_bytes :: "bitmap \<Rightarrow> bytes" where
  "buffer_bytes bs = map unat bs"

definition bytes_buffer :: "bytes \<Rightarrow> bitmap" where
  "bytes_buffer bs = map of_nat bs"

definition encode_buffer :: "bitmap \<Rightarrow> ustring" where
  "encode_buffer bs = b64_encode (buffer_bytes bs)"

definition decode_buffer :: "ustring \<Rightarrow> bitmap" where
  "decode_buffer s = bytes_buffer (b64_decode s)"

definition check_size :: "int option \<Rightarrow> bitmap \<Rightarrow> binary_error option" where
  "check_size expectedBits bs =
     (case expectedBits of
        None \<Rightarrow> None
      | Some n \<Rightarrow>
          let expectedBytes = js_shr3 (n + 7) in
          if int (length bs) \<noteq> expectedBytes then Some (Bad_Size expectedBytes (int (length bs))) else None)"

definition encode_bits :: "bitmap \<Rightarrow> int option \<Rightarrow> bool \<Rightarrow> binary_error + ustring" where
  "encode_bits bs expectedBits skipValidation =
     (if skipValidation then Inr (encode_buffer bs)
      else case check_size expectedBits bs of
        Some e \<Rightarrow> Inl e
      | None \<Rightarrow> Inr (encode_buffer bs))"

definition decode_bits :: "ustring \<Rightarrow> int option \<Rightarrow> bool \<Rightarrow> binary_error + bitmap" where
  "decode_bits s expectedBits skipValidation =
     (let bs = decode_buffer s in
      if skipValidation then Inr bs
      else case check_size expectedBits bs of
        Some e \<Rightarrow> Inl e
      | None \<Rightarrow> Inr bs)"

section \<open>Bits\<close>

definition alloc :: "int \<Rightarrow> binary_error + bitmap" where
  "alloc n = (if n < 0 then Inl (Invalid_Buffer_Size n) else Inr (replicate (nat n) 0))"

definition create_bitmap :: "int \<Rightarrow> bool \<Rightarrow> binary_error + bitmap" where
  "create_bitmap bits skipValidation =
     (if \<not> skipValidation \<and> bits \<le> 0 then Inl Not_Positive else alloc (js_shr3 (bits + 7)))"

definition in_bounds :: "bitmap \<Rightarrow> int \<Rightarrow> (int \<Rightarrow> int \<Rightarrow> 'a) \<Rightarrow> binary_error + 'a" where
  "in_bounds bs index k =
     (let byteIndex = index div 8 in
      if byteIndex \<ge> int (length bs) then Inl (Out_Of_Bounds index (int (length bs) * 8))
      else Inr (k byteIndex (js_mod index 8)))"

definition set_bit_at :: "bitmap \<Rightarrow> int \<Rightarrow> binary_error + bitmap" where
  "set_bit_at bs index = in_bounds bs index (\<lambda>i k. store_byte bs i (byte_at bs i OR shift_one k))"

definition clear_bit_at :: "bitmap \<Rightarrow> int \<Rightarrow> binary_error + bitmap" where
  "clear_bit_at bs index = in_bounds bs index (\<lambda>i k. store_byte bs i (byte_at bs i AND NOT (shift_one k)))"

definition get_bit_at :: "bitmap \<Rightarrow> int \<Rightarrow> binary_error + nat" where
  "get_bit_at bs index =
     in_bounds bs index (\<lambda>i k. unat (signed_drop_bit (nat (k mod 32)) (byte_at bs i) AND 1))"

definition toggle_bit_at :: "bitmap \<Rightarrow> int \<Rightarrow> binary_error + bitmap" where
  "toggle_bit_at bs index = in_bounds bs index (\<lambda>i k. store_byte bs i (byte_at bs i XOR shift_one k))"

text \<open>The loop \<open>while (byte) { count += byte & 1; byte >>= 1; }\<close>.\<close>

function count_loop :: "8 word \<Rightarrow> nat" where
  "count_loop byte = (if byte = 0 then 0 else unat (byte AND 1) + count_loop (drop_bit 1 byte))"
  by pat_completeness auto
termination
proof (relation "measure unat")
  fix byte :: "8 word"
  assume "byte \<noteq> 0"
  then have "0 < unat byte" by (simp add: unat_gt_0)
  then show "(drop_bit 1 byte, byte) \<in> measure unat"
    by (simp add: drop_bit_eq_div unat_div)
qed simp

declare count_loop.simps [simp del]

definition count_bits :: "bitmap \<Rightarrow> nat" where
  "count_bits bs = sum_list (map count_loop bs)"

section \<open>Fast variants\<close>

definition create_bitmap_fast :: "int \<Rightarrow> binary_error + bitmap" where
  "create_bitmap_fast bits = alloc (js_shr3 (bits + 7))"

definition low3 :: "int \<Rightarrow> int" where
  "low3 index = uint (int32 index AND 7)"

definition set_bit_fast :: "bitmap \<Rightarrow> int \<Rightarrow> bitmap" where
  "set_bit_fast bs index =
     store_byte bs (js_shr3 index) (byte_at bs (js_shr3 index) OR shift_one (low3 index))"

definition get_bit_fast :: "bitmap \<Rightarrow> int \<Rightarrow> nat" where
  "get_bit_fast bs index =
     unat (signed_drop_bit (nat (low3 index)) (byte_at bs (js_shr3 index)) AND 1)"

definition clear_bit_fast :: "bitmap \<Rightarrow> int \<Rightarrow> bitmap" where
  "clear_bit_fast bs index =
     store_byte bs (js_shr3 index) (byte_at bs (js_shr3 index) AND NOT (shift_one (low3 index)))"

definition toggle_bit_fast :: "bitmap \<Rightarrow> int \<Rightarrow> bitmap" where
  "toggle_bit_fast bs index =
     store_byte bs (js_shr3 index) (byte_at bs (js_shr3 index) XOR shift_one (low3 index))"

definition popcount_table :: "nat list" where
  "popcount_table = map (\<lambda>i. count_loop (of_nat i)) [0..<256]"

definition count_bits_fast :: "bitmap \<Rightarrow> nat" where
  "count_bits_fast bs = sum_list (map (\<lambda>byte. popcount_table ! unat byte) bs)"

definition encode_bits_fast :: "bitmap \<Rightarrow> ustring" where
  "encode_bits_fast bs = b64_encode (buffer_bytes bs)"

definition decode_bits_fast :: "ustring \<Rightarrow> bitmap" where
  "decode_bits_fast s = bytes_buffer (b64_decode s)"

section \<open>The bits of a bitmap\<close>

definition bit_of :: "bitmap \<Rightarrow> nat \<Rightarrow> bool" where
  "bit_of bs i \<longleftrightarrow> i div 8 < length bs \<and> bit (bs ! (i div 8)) (i mod 8)"

lemma shift_one_small: "0 \<le> k \<Longrightarrow> k < 8 \<Longrightarrow> shift_one k = push_bit (nat k) 1"
  by (simp add: shift_one_def)

lemma bit_shift_one: "0 \<le> k \<Longrightarrow> k < 8 \<Longrightarrow> bit (shift_one k) n \<longleftrightarrow> int n = k"
  by (auto simp: shift_one_small bit_simps)

lemma bit_byte_at: "i < length bs \<Longrightarrow> bit (byte_at bs (int i)) n \<longleftrightarrow> bit (bs ! i) n"
  by (auto simp: byte_at_def bit_simps dest: bit_imp_le_length)

lemma length_store_byte [simp]: "length (store_byte bs i w) = length bs"
  by (simp add: store_byte_def)

lemma bit_of_store_byte:
  assumes "i < length bs"
  shows "bit_of (store_byte bs (int i) w) j \<longleftrightarrow> (if j div 8 = i then bit w (j mod 8) else bit_of bs j)"
  using assms by (auto simp: bit_of_def store_byte_def bit_simps nth_list_update)

text \<open>How an index inside of the bitmap is split.\<close>

lemma split_index:
  assumes "0 \<le> index" "index < 8 * int (length bs)"
  obtains i k where "i < length bs" "k < 8" "index = 8 * int i + int k"
    "index div 8 = int i" "js_mod index 8 = int k"
proof
  let ?n = "nat index"
  show "?n div 8 < length bs" "?n mod 8 < 8" using assms by auto
  show "index = 8 * int (?n div 8) + int (?n mod 8)" using assms by (simp add: zdiv_int zmod_int)
  show "index div 8 = int (?n div 8)" "js_mod index 8 = int (?n mod 8)"
    using assms by (simp_all add: zdiv_int zmod_int js_mod_def)
qed

lemma in_bounds_iff:
  "in_bounds bs index f =
     (if index < 8 * int (length bs) then Inr (f (index div 8) (js_mod index 8))
      else Inl (Out_Of_Bounds index (int (length bs) * 8)))"
proof -
  have "index div 8 \<ge> int (length bs) \<longleftrightarrow> \<not> index < 8 * int (length bs)" by linarith
  then show ?thesis by (simp add: in_bounds_def Let_def)
qed

definition index_ok :: "bitmap \<Rightarrow> int \<Rightarrow> bool" where
  "index_ok bs index \<longleftrightarrow> 0 \<le> index \<and> index < 8 * int (length bs)"

lemma update_bits:
  assumes "index_ok bs index"
    and "\<And>n. n < 8 \<Longrightarrow> bit w n \<longleftrightarrow> f (bit (byte_at bs (index div 8)) n) (bit (shift_one (js_mod index 8)) n)"
  shows "bit_of (store_byte bs (index div 8) w) j \<longleftrightarrow>
    (if j div 8 = nat index div 8 then f (bit_of bs j) (j = nat index) else bit_of bs j)"
proof -
  obtain i k where ik: "i < length bs" "k < 8" "index = 8 * int i + int k"
      "index div 8 = int i" "js_mod index 8 = int k"
    using assms(1) by (auto simp: index_ok_def elim: split_index)
  have n: "nat index = 8 * i + k" using ik(3) by simp
  have "j = nat index \<longleftrightarrow> j div 8 = i \<and> j mod 8 = k" using ik(2) unfolding n by (metis Suc_times_mod_eq div_mult_self4 mult_div_mod_eq mod_less div_less add.commute add_cancel_right_left mod_mult_self2 zero_neq_numeral)
  moreover have "j div 8 = i \<Longrightarrow> bit_of bs j \<longleftrightarrow> bit (bs ! i) (j mod 8)" using ik(1) by (simp add: bit_of_def)
  moreover have "nat index div 8 = i" using ik(2) unfolding n by simp
  ultimately show ?thesis
    using ik assms(2) [of "j mod 8"]
    by (simp add: bit_of_store_byte bit_shift_one bit_byte_at del: One_nat_def)
qed

end
