(* ===== verification/Bitmaps_Props.thy ===== *)
theory Bitmaps_Props
  imports Bitmaps
begin

text \<open>What the operations on bitmaps guarantee.\<close>

section \<open>Reading and writing bits\<close>

lemma get_bit_byte:
  assumes "index_ok bs index"
  shows "unat (signed_drop_bit (nat (js_mod index 8 mod 32)) (byte_at bs (index div 8)) AND 1) =
    of_bool (bit_of bs (nat index))"
proof -
  obtain i k where ik: "i < length bs" "k < 8" "index = 8 * int i + int k"
      "index div 8 = int i" "js_mod index 8 = int k"
    using assms by (auto simp: index_ok_def elim: split_index)
  have "nat index = 8 * i + k" using ik(3) by simp
  then have n: "nat index div 8 = i" "nat index mod 8 = k" using ik(2) by simp_all
  have "signed_drop_bit k (byte_at bs (int i)) AND 1 = of_bool (bit (bs ! i) k)"
  proof -
    have "odd (signed_drop_bit k (byte_at bs (int i))) \<longleftrightarrow> bit (bs ! i) k"
      using ik(1,2) by (simp add: bit_0 [symmetric] bit_simps bit_byte_at)
    then show ?thesis by (cases "odd (signed_drop_bit k (byte_at bs (int i)))") (simp_all add: and_one_eq mod_2_eq_odd)
  qed
  then show ?thesis using ik n by (simp add: bit_of_def)
qed

lemmas bit_operations =
  set_bit_at_def clear_bit_at_def toggle_bit_at_def get_bit_at_def in_bounds_iff

lemma set_bits:
  assumes "index_ok bs index"
  shows "bit_of (store_byte bs (index div 8) (byte_at bs (index div 8) OR shift_one (js_mod index 8))) j \<longleftrightarrow>
      j = nat index \<or> bit_of bs j"
    and "bit_of (store_byte bs (index div 8) (byte_at bs (index div 8) AND NOT (shift_one (js_mod index 8)))) j \<longleftrightarrow>
      j \<noteq> nat index \<and> bit_of bs j"
    and "bit_of (store_byte bs (index div 8) (byte_at bs (index div 8) XOR shift_one (js_mod index 8))) j \<longleftrightarrow>
      (j = nat index) \<noteq> bit_of bs j"
  using update_bits [OF assms, of "byte_at bs (index div 8) OR shift_one (js_mod index 8)" "\<lambda>a b. a \<or> b" j]
    update_bits [OF assms, of "byte_at bs (index div 8) AND NOT (shift_one (js_mod index 8))" "\<lambda>a b. a \<and> \<not> b" j]
    update_bits [OF assms, of "byte_at bs (index div 8) XOR shift_one (js_mod index 8)" "\<lambda>a b. a \<noteq> b" j]
  by (auto simp: bit_simps)

section \<open>Counting bits\<close>

lemma card_bits_step:
  fixes w :: "8 word"
  shows "card {n. bit w n} = of_bool (odd w) + card {n. bit (drop_bit 1 w) n}"
proof -
  have "{n. bit w n} = (if odd w then {0} else {}) \<union> Suc ` {n. bit (drop_bit 1 w) n}"
  proof (rule set_eqI)
    fix n
    show "n \<in> {n. bit w n} \<longleftrightarrow> n \<in> (if odd w then {0} else {}) \<union> Suc ` {n. bit (drop_bit 1 w) n}"
      by (cases n) (auto simp: bit_drop_bit_eq bit_0)
  qed
  moreover have "finite {n. bit (drop_bit 1 w) n}"
    by (rule finite_subset [of _ "{..<8}"]) (auto dest: bit_imp_le_length)
  ultimately show ?thesis by (auto simp: card_insert_if card_image)
qed

lemma count_loop_card: "count_loop w = card {n. bit w n}"
proof (induction w rule: count_loop.induct)
  case (1 byte)
  show ?case
  proof (cases "byte = 0")
    case True
    then show ?thesis by (simp add: count_loop.simps)
  next
    case False
    have "byte AND 1 = of_bool (odd byte)" by (simp add: and_one_eq odd_iff_mod_2_eq_one)
    then have "unat (byte AND 1) = of_bool (odd byte)" by (cases "odd byte") simp_all
    with False 1 show ?thesis by (simp add: count_loop.simps [of byte] card_bits_step [of byte])
  qed
qed

lemma bit_of_Nil [simp]: "\<not> bit_of [] i"
  by (simp add: bit_of_def)

lemma bits_snoc:
  "{i. bit_of (bs @ [w]) i} = {i. bit_of bs i} \<union> (\<lambda>n. 8 * length bs + n) ` {n. bit w n}"
proof (rule set_eqI)
  fix i :: nat
  have "bit w n \<Longrightarrow> n < 8" for n by (auto dest: bit_imp_le_length)
  moreover have "i div 8 = length bs \<Longrightarrow> i = 8 * length bs + i mod 8" by (metis mult_div_mod_eq)
  ultimately show "i \<in> {i. bit_of (bs @ [w]) i} \<longleftrightarrow>
      i \<in> {i. bit_of bs i} \<union> (\<lambda>n. 8 * length bs + n) ` {n. bit w n}"
    by (auto simp: bit_of_def nth_append less_Suc_eq image_iff)
qed

lemma finite_bits [simp]: "finite {i. bit_of bs i}" "finite {n. bit (w :: 8 word) n}"
  by (rule finite_subset [of _ "{..<8 * length bs}"]; auto simp: bit_of_def)
    (rule finite_subset [of _ "{..<8}"]; auto dest: bit_imp_le_length)

lemma count_bits_card: "count_bits bs = card {i. bit_of bs i}"
proof (induction bs rule: rev_induct)
  case (snoc w bs)
  have "card {i. bit_of (bs @ [w]) i} =
      card {i. bit_of bs i} + card ((\<lambda>n. 8 * length bs + n) ` {n. bit w n})"
    unfolding bits_snoc by (rule card_Un_disjoint) (auto simp: bit_of_def)
  then show ?case using snoc by (simp add: count_bits_def count_loop_card card_image)
qed (simp add: count_bits_def)

lemma popcount_table_nth: "popcount_table ! unat (w :: 8 word) = count_loop w"
  using unsigned_less [of w, where ?'a = nat] by (simp add: popcount_table_def)

section \<open>Sizes\<close>

lemma js_shr3_small:
  assumes "0 \<le> i" "i < 2 ^ 31"
  shows "js_shr3 i = i div 8"
proof -
  have "sint (int32 i) = i" using assms by (simp add: int32_def signed_of_int signed_take_bit_int_eq_self)
  then show ?thesis by (simp add: js_shr3_def sint_signed_drop_bit_eq drop_bit_int_def)
qed

lemma low3_small:
  assumes "0 \<le> i"
  shows "low3 i = i mod 8"
proof -
  have "uint (int32 i AND 7) = i mod 2 ^ 32 mod 8"
    using take_bit_eq_mask [of 3 "i mod 2 ^ 32"]
    by (simp add: int32_def uint_and unsigned_of_int take_bit_eq_mod mask_eq_exp_minus_1)
  then show ?thesis by (simp add: low3_def mod_mod_cancel)
qed

text \<open>An index that the fast variants split like the others.\<close>

lemma fast_index:
  assumes "index_ok bs index" "index < 2 ^ 31"
  shows "js_shr3 index = index div 8" "low3 index = js_mod index 8" "nat (low3 index) = nat (js_mod index 8 mod 32)"
proof -
  show "js_shr3 index = index div 8" using assms by (simp add: index_ok_def js_shr3_small)
  show 1: "low3 index = js_mod index 8" using assms by (simp add: index_ok_def low3_small js_mod_def)
  show "nat (low3 index) = nat (js_mod index 8 mod 32)"
    using assms 1 by (simp add: index_ok_def js_mod_def)
qed

lemma buffer_bytes_ok: "is_byte_list (buffer_bytes bs)"
  using unsigned_less [where ?'a = nat and ?'b = 8] by (auto simp: buffer_bytes_def is_byte_list_def list_all_iff)

lemma decode_encode_buffer: "decode_buffer (encode_buffer bs) = bs"
  using buffer_bytes_ok [of bs]
  by (simp add: encode_buffer_def decode_buffer_def bytes_buffer_def b64_roundtrip)
    (simp add: buffer_bytes_def o_def)

section \<open>Properties\<close>

text \<open>
  C27: at an index of the bitmap, setting, clearing and toggling change exactly the addressed bit and keep the length,
  reading gives the bit, and the fast variants do the same as long as the index is a 32-bit one. Behind
  the last bit all four fail. Both counts are the number of set bits.
\<close>

theorem bitmap_operations:
  "(index_ok bs index \<longrightarrow>
    (\<exists>s c t. set_bit_at bs index = Inr s \<and> clear_bit_at bs index = Inr c \<and> toggle_bit_at bs index = Inr t \<and>
       (\<forall>x \<in> {s, c, t}. length x = length bs) \<and>
       (\<forall>j. (bit_of s j \<longleftrightarrow> j = nat index \<or> bit_of bs j) \<and>
            (bit_of c j \<longleftrightarrow> j \<noteq> nat index \<and> bit_of bs j) \<and>
            (bit_of t j \<longleftrightarrow> (j = nat index) \<noteq> bit_of bs j)) \<and>
       get_bit_at bs index = Inr (of_bool (bit_of bs (nat index))) \<and>
       (index < 2 ^ 31 \<longrightarrow>
          set_bit_fast bs index = s \<and> clear_bit_fast bs index = c \<and> toggle_bit_fast bs index = t \<and>
          get_bit_fast bs index = of_bool (bit_of bs (nat index))))) \<and>
   (8 * int (length bs) \<le> index \<longrightarrow>
      set_bit_at bs index = Inl (Out_Of_Bounds index (int (length bs) * 8)) \<and>
      clear_bit_at bs index = set_bit_at bs index \<and> toggle_bit_at bs index = set_bit_at bs index \<and>
      get_bit_at bs index = Inl (Out_Of_Bounds index (int (length bs) * 8))) \<and>
   count_bits bs = card {i. bit_of bs i} \<and> count_bits_fast bs = count_bits bs"
proof (intro conjI impI)
  assume ok: "index_ok bs index"
  then have "index < 8 * int (length bs)" by (simp add: index_ok_def)
  then show "\<exists>s c t. set_bit_at bs index = Inr s \<and> clear_bit_at bs index = Inr c \<and> toggle_bit_at bs index = Inr t \<and>
       (\<forall>x \<in> {s, c, t}. length x = length bs) \<and>
       (\<forall>j. (bit_of s j \<longleftrightarrow> j = nat index \<or> bit_of bs j) \<and>
            (bit_of c j \<longleftrightarrow> j \<noteq> nat index \<and> bit_of bs j) \<and>
            (bit_of t j \<longleftrightarrow> (j = nat index) \<noteq> bit_of bs j)) \<and>
       get_bit_at bs index = Inr (of_bool (bit_of bs (nat index))) \<and>
       (index < 2 ^ 31 \<longrightarrow>
          set_bit_fast bs index = s \<and> clear_bit_fast bs index = c \<and> toggle_bit_fast bs index = t \<and>
          get_bit_fast bs index = of_bool (bit_of bs (nat index)))"
    using fast_index [OF ok] get_bit_byte [OF ok]
    by (simp add: bit_operations set_bits [OF ok] set_bit_fast_def clear_bit_fast_def toggle_bit_fast_def
        get_bit_fast_def)
next
  show "count_bits bs = card {i. bit_of bs i}" by (rule count_bits_card)
  show "count_bits_fast bs = count_bits bs"
    by (simp add: count_bits_def count_bits_fast_def popcount_table_nth)
qed (simp_all add: bit_operations)

theorem bitmap_operations_witness:
  "toggle_bit_at [0, 0] 9 = Inr [0, 2] \<and> (\<exists>t. toggle_bit_at [0, 0] 9 = Inr t \<and> bit_of t 9)"
proof
  show "toggle_bit_at [0, 0] 9 = Inr [0, 2]"
    by (simp add: bit_operations store_byte_def byte_at_def shift_one_def js_mod_def)
  have "index_ok [0, 0] 9" by (simp add: index_ok_def)
  moreover have "\<not> bit_of [0, 0] 9" by (simp add: bit_of_def)
  ultimately show "\<exists>t. toggle_bit_at [0, 0] 9 = Inr t \<and> bit_of t 9"
    using bitmap_operations [of "[0, 0]" 9] by force
qed

lemma bitmap_texts:
  assumes "0 < n" "n < 2 ^ 31 - 7"
  shows "create_bitmap n skip = Inr (replicate (nat ((n + 7) div 8)) 0)"
    and "encode_bits bs (Some n) False = Inr t \<longleftrightarrow> int (length bs) = (n + 7) div 8 \<and> t = encode_buffer bs"
    and "int (length bs) = (n + 7) div 8 \<Longrightarrow> decode_bits (encode_buffer bs) (Some n) skip = Inr bs"
  using assms
  by (auto simp: create_bitmap_def alloc_def js_shr3_small encode_bits_def decode_bits_def check_size_def
      decode_encode_buffer Let_def split: if_splits)

text \<open>
  outside of the sizes that fit in 31 bits. A bitmap of \<open>2 ^ 31 - 7\<close> bits cannot be created and one of
  \<open>2 ^ 32\<close> bits is empty; a negative index passes the range check, so that the bit is neither set nor
  refused; and the fast variant sets bit 0 for the index \<open>2 ^ 32\<close>.
\<close>

theorem bitmap_defects:
  "create_bitmap (2 ^ 31 - 7) False = Inl (Invalid_Buffer_Size (- (2 ^ 28))) \<and>
   create_bitmap (2 ^ 32) False = Inr [] \<and>
   set_bit_at [0] (- 1) = Inr [0] \<and> get_bit_at [255] (- 1) = Inr 0 \<and>
   set_bit_fast [0] (2 ^ 32) = [1]"
proof -
  have "js_shr3 (2 ^ 31) = - (2 ^ 28)" "js_shr3 (2 ^ 32 + 7) = 0" "js_shr3 (2 ^ 32) = 0"
    by (simp_all add: js_shr3_def int32_def)
  then show ?thesis
    by (simp add: create_bitmap_def alloc_def set_bit_fast_def store_byte_def byte_at_def low3_def
        int32_def shift_one_def bit_operations js_mod_def)
qed

end
