(* ===== verification/Geo_Encoding.thy ===== *)
theory Geo_Encoding
  imports Number_Codecs
begin

text \<open>
  \<open>core/src/concerns/geo-encoding.ts\<close>: coordinates as base-62 numerals of fixed precision behind a
  tilde. Numbers are exact here; those of the code are doubles.
\<close>

datatype geo_error = Latitude_Range js_number | Longitude_Range js_number

definition encode_coordinate :: "rat \<Rightarrow> (js_number \<Rightarrow> geo_error) \<Rightarrow> nat \<Rightarrow> js_value \<Rightarrow> geo_error + js_value" where
  "encode_coordinate bound e precision v =
     (case v of
        JNumber (Num x) \<Rightarrow>
          if x < - bound \<or> bound < x then Inl (e (Num x))
          else Inr (JString (126 # encode (Num (of_int (js_round ((x + bound) * 10 ^ precision))))))
      | _ \<Rightarrow> Inr v)"

definition decode_coordinate :: "rat \<Rightarrow> nat \<Rightarrow> js_value \<Rightarrow> js_value" where
  "decode_coordinate bound precision v =
     (case v of
        JString s \<Rightarrow>
          if \<not> starts_with s [126] then v
          else (case decode (tl s) of Num r \<Rightarrow> JNumber (Num (r / 10 ^ precision - bound)) | _ \<Rightarrow> JNumber NaN)
      | _ \<Rightarrow> v)"

definition encode_geo_lat :: "nat \<Rightarrow> js_value \<Rightarrow> geo_error + js_value" where
  "encode_geo_lat = encode_coordinate 90 Latitude_Range"

definition decode_geo_lat :: "nat \<Rightarrow> js_value \<Rightarrow> js_value" where
  "decode_geo_lat = decode_coordinate 90"

definition encode_geo_lon :: "nat \<Rightarrow> js_value \<Rightarrow> geo_error + js_value" where
  "encode_geo_lon = encode_coordinate 180 Longitude_Range"

definition decode_geo_lon :: "nat \<Rightarrow> js_value \<Rightarrow> js_value" where
  "decode_geo_lon = decode_coordinate 180"

definition encode_geo_point ::
    "(js_number \<Rightarrow> ustring) \<Rightarrow> nat \<Rightarrow> js_value \<Rightarrow> js_value \<Rightarrow> geo_error + ustring" where
  "encode_geo_point num_text precision lat lon =
     (case encode_geo_lat precision lat of
        Inl e \<Rightarrow> Inl e
      | Inr a \<Rightarrow>
          (case encode_geo_lon precision lon of
             Inl e \<Rightarrow> Inl e
           | Inr b \<Rightarrow> Inr (js_string num_text a @ js_string num_text b)))"

definition geo_point :: "js_value \<Rightarrow> js_value \<Rightarrow> js_value" where
  "geo_point lat lon = JObject [(lit ''latitude'', lat), (lit ''longitude'', lon)]"

definition decode_geo_point :: "nat \<Rightarrow> ustring \<Rightarrow> js_value" where
  "decode_geo_point precision s =
     (case filter (\<lambda>p. p \<noteq> []) (split_on 126 s) of
        [p, q] \<Rightarrow>
          geo_point (decode_geo_lat precision (JString (126 # p))) (decode_geo_lon precision (JString (126 # q)))
      | _ \<Rightarrow> geo_point (JNumber NaN) (JNumber NaN))"

text \<open>\<open>isValidCoordinate\<close> and the tables of precisions.\<close>

definition is_valid_coordinate :: "js_value \<Rightarrow> js_value \<Rightarrow> bool" where
  "is_valid_coordinate lat lon \<longleftrightarrow>
     (case (lat, lon) of
        (JNumber (Num x), JNumber (Num y)) \<Rightarrow> - 90 \<le> x \<and> x \<le> 90 \<and> - 180 \<le> y \<and> y \<le> 180
      | _ \<Rightarrow> False)"

definition accuracy_table :: "(nat \<times> rat) list" where
  "accuracy_table =
     [(0, 111000), (1, 11000), (2, 1100), (3, 110), (4, 11), (5, 11 / 10), (6, 11 / 100), (7, 11 / 1000)]"

definition precision_for_accuracy :: "rat \<Rightarrow> nat" where
  "precision_for_accuracy meters =
     (if meters \<ge> 111000 then 0 else if meters \<ge> 11000 then 1 else if meters \<ge> 1100 then 2
      else if meters \<ge> 110 then 3 else if meters \<ge> 11 then 4 else if meters \<ge> 11 / 10 then 5
      else if meters \<ge> 11 / 100 then 6 else 7)"

definition accuracy_for_precision :: "nat \<Rightarrow> rat" where
  "accuracy_for_precision precision =
     (case map_of accuracy_table precision of Some a \<Rightarrow> a | None \<Rightarrow> 111000)"

end
