(* ===== verification/Schema_Actions.thy ===== *)
theory Schema_Actions
  imports Behaviors Flatten Ip_Addresses Bitmaps Geo_Encoding Text_Compression
begin

text \<open>
  \<open>SchemaActions\<close> of \<open>core/src/schema.class.ts\<close>: what the hooks of an attribute do to its value before it
  is mapped and after it is read. Arguments of the model are JSON (with the text of a number), the
  shortest digits of a number, encryption with the passphrase of the schema (\<open>None\<close> when it throws),
  deflation, and how a \<open>Buffer\<close> looks as a value. The separator of arrays is one punctuation
  character other than the backslash and the dollar sign, which the regular expression and its
  replacement read differently. \<open>hashPassword\<close> is not among the actions here.
\<close>

record action_world =
  aw_json :: json
  aw_shortest :: "rat \<Rightarrow> decimal"
  aw_has_passphrase :: bool
  aw_encrypt :: "ustring \<Rightarrow> ustring option"
  aw_decrypt :: "ustring \<Rightarrow> ustring option"
  aw_deflate :: "int option \<Rightarrow> bytes \<Rightarrow> bytes"
  aw_inflate :: "bytes \<Rightarrow> bytes option"
  aw_buffer :: "bitmap \<Rightarrow> js_value"
  aw_bytes :: "js_value \<Rightarrow> bitmap option"

definition js_text :: "action_world \<Rightarrow> js_value \<Rightarrow> ustring" where
  "js_text W = js_string (num_text (aw_json W))"

definition is_nullish :: "js_value \<Rightarrow> bool" where
  "is_nullish v \<longleftrightarrow> v = JNull \<or> v = JUndefined"

definition is_nan :: "js_number \<Rightarrow> bool" where
  "is_nan n \<longleftrightarrow> n = NaN"

text \<open>\<open>Number(v)\<close>.\<close>

definition to_js_number :: "action_world \<Rightarrow> js_value \<Rightarrow> js_number" where
  "to_js_number W v =
     (case v of
        JUndefined \<Rightarrow> NaN
      | JNull \<Rightarrow> Num 0
      | JBool b \<Rightarrow> Num (if b then 1 else 0)
      | JNumber n \<Rightarrow> n
      | JString s \<Rightarrow> number_of_text s
      | JArray vs \<Rightarrow> number_of_text (js_text W v)
      | JObject _ \<Rightarrow> NaN)"

section \<open>Texts and secrets\<close>

definition trim_action :: "action_world \<Rightarrow> js_value \<Rightarrow> js_value" where
  "trim_action W v = (if is_nullish v then v else JString (trim (js_text W v)))"

definition encrypt_action :: "action_world \<Rightarrow> js_value \<Rightarrow> js_value" where
  "encrypt_action W v =
     (if is_nullish v then v
      else
        let secretValue = js_text W v in
        if aw_has_passphrase W \<and> aw_decrypt W secretValue \<noteq> None then v
        else case aw_encrypt W secretValue of Some res \<Rightarrow> JString res | None \<Rightarrow> v)"

definition decrypt_action :: "action_world \<Rightarrow> js_value \<Rightarrow> js_value" where
  "decrypt_action W v =
     (case v of
        JString s \<Rightarrow>
          (case aw_decrypt W s of
             None \<Rightarrow> v
           | Some raw \<Rightarrow>
               if raw = lit ''null'' then JNull else if raw = lit ''undefined'' then JUndefined else JString raw)
      | _ \<Rightarrow> v)"

definition to_string_action :: "action_world \<Rightarrow> js_value \<Rightarrow> js_value" where
  "to_string_action W v = (if is_nullish v then v else JString (js_text W v))"

section \<open>Arrays\<close>

text \<open>
  Both replacements at once: a backslash and the separator each get a backslash in front. The separator is
  taken for a punctuation character other than the backslash, as its escape in a regular expression requires.
\<close>

definition escape_item :: "nat \<Rightarrow> ustring \<Rightarrow> ustring" where
  "escape_item sep s = concat (map (\<lambda>u. if u = 92 \<or> u = sep then [92, u] else [u]) s)"

definition from_array :: "action_world \<Rightarrow> nat \<Rightarrow> js_value \<Rightarrow> js_value" where
  "from_array W sep v =
     (case v of
        JArray vs \<Rightarrow>
          if vs = [] then JString []
          else JString (join [sep]
            (map (\<lambda>x. case x of JString s \<Rightarrow> escape_item sep s | _ \<Rightarrow> js_text W x) vs))
      | _ \<Rightarrow> v)"

text \<open>The loop over the characters, with the current item.\<close>

fun split_items :: "nat \<Rightarrow> ustring \<Rightarrow> ustring \<Rightarrow> ustring list" where
  "split_items sep current [] = [current]"
| "split_items sep current [u] = (if u = sep then [current, []] else [current @ [u]])"
| "split_items sep current (u # u' # s) =
     (if u = 92 then split_items sep (current @ [u']) s
      else if u = sep then current # split_items sep [] (u' # s)
      else split_items sep (current @ [u]) (u' # s))"

definition to_array :: "action_world \<Rightarrow> nat \<Rightarrow> js_value \<Rightarrow> js_value" where
  "to_array W sep v =
     (case v of
        JArray _ \<Rightarrow> v
      | _ \<Rightarrow>
          if is_nullish v then v
          else if v = JString [] then JArray []
          else JArray (map JString (split_items sep [] (js_text W v))))"

section \<open>JSON, numbers and booleans\<close>

definition to_json :: "action_world \<Rightarrow> js_value \<Rightarrow> js_value" where
  "to_json W v =
     (if is_nullish v then v
      else case v of JString _ \<Rightarrow> v | _ \<Rightarrow> JString (stringify (aw_json W) v))"

definition from_json :: "action_world \<Rightarrow> js_value \<Rightarrow> js_value" where
  "from_json W v =
     (case v of
        JString s \<Rightarrow> if s = [] then v else (case parse (aw_json W) s of Some p \<Rightarrow> p | None \<Rightarrow> v)
      | _ \<Rightarrow> v)"

definition is_true_value :: "js_value \<Rightarrow> bool" where
  "is_true_value v \<longleftrightarrow>
     v \<in> {JBool True, JNumber (Num 1), JString (lit ''true''), JString (lit ''1''), JString (lit ''yes''),
       JString (lit ''y'')}"

definition to_bool :: "js_value \<Rightarrow> js_value" where
  "to_bool v = JBool (is_true_value v)"

definition from_bool :: "js_value \<Rightarrow> js_value" where
  "from_bool v = JString (if is_true_value v then lit ''1'' else lit ''0'')"

text \<open>The shape of the base-62 actions, over the codec of a number.\<close>

definition decode_number :: "(ustring \<Rightarrow> js_number) \<Rightarrow> js_value \<Rightarrow> js_value" where
  "decode_number dec v =
     (if is_nullish v \<or> v = JString [] then v
      else case v of
        JNumber _ \<Rightarrow> v
      | JString s \<Rightarrow> (if is_nan (dec s) then JUndefined else JNumber (dec s))
      | _ \<Rightarrow> JUndefined)"

definition encode_number :: "(js_number \<Rightarrow> ustring) \<Rightarrow> js_value \<Rightarrow> js_value" where
  "encode_number enc v =
     (if is_nullish v \<or> v = JString [] then v
      else case v of
        JNumber n \<Rightarrow> JString (enc n)
      | JString s \<Rightarrow> (let n = number_of_text s in if is_nan n then v else JString (enc n))
      | _ \<Rightarrow> v)"

definition from_base62 :: "js_value \<Rightarrow> js_value" where
  "from_base62 = decode_number decode"

definition to_base62 :: "js_value \<Rightarrow> js_value" where
  "to_base62 = encode_number encode"

definition from_base62_decimal :: "js_value \<Rightarrow> js_value" where
  "from_base62_decimal = decode_number decode_decimal"

definition to_base62_decimal :: "action_world \<Rightarrow> js_value \<Rightarrow> js_value" where
  "to_base62_decimal W = encode_number (encode_decimal (aw_shortest W))"

section \<open>Arrays of numbers\<close>

definition from_number_array ::
    "action_world \<Rightarrow> nat \<Rightarrow> (js_number \<Rightarrow> ustring) \<Rightarrow> js_value \<Rightarrow> js_value" where
  "from_number_array W sep enc v =
     (case v of
        JArray vs \<Rightarrow>
          if vs = [] then JString []
          else JString (join [sep]
            (map (\<lambda>x. let n = to_js_number W x in if is_nan n then [] else enc n) vs))
      | _ \<Rightarrow> v)"

text \<open>The items of an array are decoded only when they are texts; those of a text are texts.\<close>

definition decode_item :: "(ustring \<Rightarrow> js_number) \<Rightarrow> ustring \<Rightarrow> js_value" where
  "decode_item dec s = JNumber (if s = [] then NaN else dec s)"

definition to_number_array :: "action_world \<Rightarrow> nat \<Rightarrow> (ustring \<Rightarrow> js_number) \<Rightarrow> js_value \<Rightarrow> js_value" where
  "to_number_array W sep dec v =
     (case v of
        JArray vs \<Rightarrow>
          JArray (map (\<lambda>x. case x of JNumber _ \<Rightarrow> x | JString s \<Rightarrow> JNumber (dec s) | _ \<Rightarrow> JNumber NaN) vs)
      | _ \<Rightarrow>
          if is_nullish v then v
          else if v = JString [] then JArray []
          else JArray (map (decode_item dec) (split_items sep [] (js_text W v))))"

definition from_array_of_numbers :: "action_world \<Rightarrow> nat \<Rightarrow> js_value \<Rightarrow> js_value" where
  "from_array_of_numbers W sep = from_number_array W sep encode"

definition to_array_of_numbers :: "action_world \<Rightarrow> nat \<Rightarrow> js_value \<Rightarrow> js_value" where
  "to_array_of_numbers W sep = to_number_array W sep decode"

definition from_array_of_decimals :: "action_world \<Rightarrow> nat \<Rightarrow> js_value \<Rightarrow> js_value" where
  "from_array_of_decimals W sep = from_number_array W sep (encode_decimal (aw_shortest W))"

definition to_array_of_decimals :: "action_world \<Rightarrow> nat \<Rightarrow> js_value \<Rightarrow> js_value" where
  "to_array_of_decimals W sep = to_number_array W sep decode_decimal"

definition from_array_of_embeddings :: "nat \<Rightarrow> js_value \<Rightarrow> js_value" where
  "from_array_of_embeddings precision v =
     (case v of
        JArray vs \<Rightarrow>
          JString (encode_fixed_point_batch (map (\<lambda>x. case x of JNumber n \<Rightarrow> n | _ \<Rightarrow> NaN) vs) precision)
      | _ \<Rightarrow> v)"

definition to_array_of_embeddings :: "action_world \<Rightarrow> nat \<Rightarrow> nat \<Rightarrow> js_value \<Rightarrow> js_value" where
  "to_array_of_embeddings W sep precision v =
     (case v of
        JArray _ \<Rightarrow> v
      | _ \<Rightarrow>
          if is_nullish v then v
          else if v = JString [] \<or> v = JString (lit ''^[]'') then JArray []
          else
            let str = js_text W v in
            if starts_with str (lit ''^['') then JArray (map JNumber (decode_fixed_point_batch str precision))
            else JArray (map (decode_item (\<lambda>s. decode_fixed_point s precision)) (split_items sep [] str)))"

section \<open>Numbers from texts\<close>

text \<open>\<open>parseFloat\<close> reads the longest prefix that is a decimal, \<open>parseInt\<close> an integer or a hexadecimal one.\<close>

definition read_float :: "ustring \<Rightarrow> rat option" where
  "read_float s =
     (case filter (\<lambda>n. read_unsigned (take n s) \<noteq> None) (rev [1..<Suc (length s)]) of
        [] \<Rightarrow> None
      | n # _ \<Rightarrow> read_unsigned (take n s))"

definition parse_float :: "ustring \<Rightarrow> js_number" where
  "parse_float s =
     (let t = dropWhile is_space s; neg = (t \<noteq> [] \<and> hd t = 45);
          u = (if t \<noteq> [] \<and> hd t \<in> {43, 45} then tl t else t) in
      if starts_with u (lit ''Infinity'') then (if neg then NegInf else PosInf)
      else case read_float u of None \<Rightarrow> NaN | Some x \<Rightarrow> Num (if neg then - x else x))"

definition parse_integer :: "ustring \<Rightarrow> js_number" where
  "parse_integer =
     parse_signed (\<lambda>s. if starts_with s (lit ''0x'') \<or> starts_with s (lit ''0X'') then read_hex s else read_decimal s)"

definition to_number :: "js_value \<Rightarrow> js_value" where
  "to_number v =
     (case v of
        JString s \<Rightarrow> JNumber (if contains s [46] then parse_float s else parse_integer s)
      | _ \<Rightarrow> v)"

section \<open>Addresses, buffers, scaled numbers, coordinates\<close>

text \<open>An encoder or decoder that fails leaves the value as it is.\<close>

definition or_value :: "js_value \<Rightarrow> ('e + js_value) \<Rightarrow> js_value" where
  "or_value v r = (case r of Inl _ \<Rightarrow> v | Inr w \<Rightarrow> w)"

definition on_text :: "(ustring \<Rightarrow> 'e + js_value) \<Rightarrow> js_value \<Rightarrow> js_value" where
  "on_text f v = (case v of JString s \<Rightarrow> or_value v (f s) | _ \<Rightarrow> v)"

definition encode_ipv4_action :: "js_value \<Rightarrow> js_value" where
  "encode_ipv4_action v =
     (case v of
        JString s \<Rightarrow> if \<not> is_valid_ipv4 s then v else on_text (\<lambda>s. map_sum id JString (encode_ipv4 s)) v
      | _ \<Rightarrow> v)"

definition decode_ipv4_action :: "js_value \<Rightarrow> js_value" where
  "decode_ipv4_action = on_text (\<lambda>s. map_sum id JString (decode_ipv4 s))"

definition encode_ipv6_action :: "js_value \<Rightarrow> js_value" where
  "encode_ipv6_action v =
     (case v of
        JString s \<Rightarrow> if \<not> is_valid_ipv6 s then v else on_text (\<lambda>s. map_sum id JString (encode_ipv6 s)) v
      | _ \<Rightarrow> v)"

definition decode_ipv6_action :: "js_value \<Rightarrow> js_value" where
  "decode_ipv6_action = on_text (\<lambda>s. map_sum id JString (decode_ipv6 True s))"

definition encode_buffer_action :: "action_world \<Rightarrow> js_value \<Rightarrow> js_value" where
  "encode_buffer_action W v = (case aw_bytes W v of Some bs \<Rightarrow> JString (encode_buffer bs) | None \<Rightarrow> v)"

definition decode_buffer_action :: "action_world \<Rightarrow> js_value \<Rightarrow> js_value" where
  "decode_buffer_action W v = (case v of JString s \<Rightarrow> aw_buffer W (decode_buffer s) | _ \<Rightarrow> v)"

definition encode_bits_action :: "action_world \<Rightarrow> int option \<Rightarrow> js_value \<Rightarrow> js_value" where
  "encode_bits_action W bitCount v =
     (case aw_bytes W v of
        Some bs \<Rightarrow> or_value v (map_sum id JString (encode_bits bs bitCount False))
      | None \<Rightarrow> v)"

definition decode_bits_action :: "action_world \<Rightarrow> int option \<Rightarrow> js_value \<Rightarrow> js_value" where
  "decode_bits_action W bitCount = on_text (\<lambda>s. map_sum id (aw_buffer W) (decode_bits s bitCount False))"

definition encode_money :: "nat \<Rightarrow> js_value \<Rightarrow> js_value" where
  "encode_money decimals v =
     (case v of
        JNumber n \<Rightarrow>
          JString (36 # encode (case n of Num x \<Rightarrow> Num (of_int (js_round (x * 10 ^ decimals))) | _ \<Rightarrow> n))
      | _ \<Rightarrow> v)"

definition decode_money :: "nat \<Rightarrow> js_value \<Rightarrow> js_value" where
  "decode_money decimals v =
     (case v of
        JString s \<Rightarrow>
          if \<not> starts_with s [36] then v
          else (case decode (tl s) of Num r \<Rightarrow> JNumber (Num (r / 10 ^ decimals)) | _ \<Rightarrow> v)
      | _ \<Rightarrow> v)"

definition encode_decimal_fixed :: "nat \<Rightarrow> js_value \<Rightarrow> js_value" where
  "encode_decimal_fixed precision v =
     (case v of JNumber n \<Rightarrow> JString (encode_fixed_point n precision) | _ \<Rightarrow> v)"

definition decode_decimal_fixed :: "nat \<Rightarrow> js_value \<Rightarrow> js_value" where
  "decode_decimal_fixed precision v =
     (case v of JString s \<Rightarrow> JNumber (decode_fixed_point s precision) | _ \<Rightarrow> v)"

definition on_number :: "(js_value \<Rightarrow> 'e + js_value) \<Rightarrow> js_value \<Rightarrow> js_value" where
  "on_number f v = (case v of JNumber _ \<Rightarrow> or_value v (f v) | _ \<Rightarrow> v)"

definition encode_latitude :: "nat \<Rightarrow> js_value \<Rightarrow> js_value" where
  "encode_latitude precision = on_number (encode_geo_lat precision)"

definition decode_latitude :: "nat \<Rightarrow> js_value \<Rightarrow> js_value" where
  "decode_latitude precision v = (case v of JString _ \<Rightarrow> decode_geo_lat precision v | _ \<Rightarrow> v)"

definition encode_longitude :: "nat \<Rightarrow> js_value \<Rightarrow> js_value" where
  "encode_longitude precision = on_number (encode_geo_lon precision)"

definition decode_longitude :: "nat \<Rightarrow> js_value \<Rightarrow> js_value" where
  "decode_longitude precision v = (case v of JString _ \<Rightarrow> decode_geo_lon precision v | _ \<Rightarrow> v)"

definition encode_point :: "action_world \<Rightarrow> nat \<Rightarrow> js_value \<Rightarrow> js_value" where
  "encode_point W precision v =
     (let enc = (\<lambda>lat lon. or_value v (map_sum id JString
            (encode_geo_point (num_text (aw_json W)) precision lat lon))) in
      case v of
        JArray [lat, lon] \<Rightarrow> enc lat lon
      | JObject es \<Rightarrow>
          if prop_of es (lit ''lat'') \<noteq> JUndefined \<and> prop_of es (lit ''lon'') \<noteq> JUndefined
          then enc (prop_of es (lit ''lat'')) (prop_of es (lit ''lon''))
          else if prop_of es (lit ''latitude'') \<noteq> JUndefined \<and> prop_of es (lit ''longitude'') \<noteq> JUndefined
          then enc (prop_of es (lit ''latitude'')) (prop_of es (lit ''longitude''))
          else v
      | _ \<Rightarrow> v)"

definition decode_point :: "nat \<Rightarrow> js_value \<Rightarrow> js_value" where
  "decode_point precision v = (case v of JString s \<Rightarrow> decode_geo_point precision s | _ \<Rightarrow> v)"

section \<open>Compression\<close>

record compress_params =
  cp_level :: "int option"
  cp_threshold :: "int option"
  cp_encoding :: "text_encoding option"

definition compress_action :: "action_world \<Rightarrow> compress_params \<Rightarrow> js_value \<Rightarrow> js_value" where
  "compress_action W p v =
     (if is_nullish v then v
      else JString (compress_text (aw_deflate W (cp_level p)) (js_text W v)
        \<lparr>co_threshold = cp_threshold p, co_encoding = Some (if cp_encoding p = Some Base85 then Base85 else Base64)\<rparr>))"

definition decompress_action :: "action_world \<Rightarrow> js_value \<Rightarrow> js_value" where
  "decompress_action W v =
     (case v of
        JString s \<Rightarrow> (case decompress_text (aw_inflate W) s of Some t \<Rightarrow> JString t | None \<Rightarrow> v)
      | _ \<Rightarrow> v)"

section \<open>The actions by name\<close>

text \<open>A hook with the parameters its action reads; any other name is ignored.\<close>

datatype action =
    Trim | Encrypt | Decrypt | To_String | From_Array | To_Array | To_JSON | From_JSON | To_Number
  | To_Bool | From_Bool | From_Base62 | To_Base62 | From_Base62_Decimal | To_Base62_Decimal
  | From_Array_Of_Numbers | To_Array_Of_Numbers | From_Array_Of_Decimals | To_Array_Of_Decimals
  | From_Array_Of_Embeddings | To_Array_Of_Embeddings
  | Encode_IPv4 | Decode_IPv4 | Encode_IPv6 | Decode_IPv6
  | Encode_Buffer | Decode_Buffer | Encode_Bits "int option" | Decode_Bits "int option"
  | Encode_Money nat | Decode_Money nat | Encode_Decimal_Fixed nat | Decode_Decimal_Fixed nat
  | Encode_Latitude nat | Decode_Latitude nat | Encode_Longitude nat | Decode_Longitude nat
  | Encode_Point nat | Decode_Point nat | Compress_Text compress_params | Decompress_Text
  | Unknown_Action ustring

fun run_action :: "action_world \<Rightarrow> nat \<Rightarrow> action \<Rightarrow> js_value \<Rightarrow> js_value" where
  "run_action W sep Trim = trim_action W"
| "run_action W sep Encrypt = encrypt_action W"
| "run_action W sep Decrypt = decrypt_action W"
| "run_action W sep To_String = to_string_action W"
| "run_action W sep From_Array = from_array W sep"
| "run_action W sep To_Array = to_array W sep"
| "run_action W sep To_JSON = to_json W"
| "run_action W sep From_JSON = from_json W"
| "run_action W sep To_Number = to_number"
| "run_action W sep To_Bool = to_bool"
| "run_action W sep From_Bool = from_bool"
| "run_action W sep From_Base62 = from_base62"
| "run_action W sep To_Base62 = to_base62"
| "run_action W sep From_Base62_Decimal = from_base62_decimal"
| "run_action W sep To_Base62_Decimal = to_base62_decimal W"
| "run_action W sep From_Array_Of_Numbers = from_array_of_numbers W sep"
| "run_action W sep To_Array_Of_Numbers = to_array_of_numbers W sep"
| "run_action W sep From_Array_Of_Decimals = from_array_of_decimals W sep"
| "run_action W sep To_Array_Of_Decimals = to_array_of_decimals W sep"
| "run_action W sep From_Array_Of_Embeddings = from_array_of_embeddings 6"
| "run_action W sep To_Array_Of_Embeddings = to_array_of_embeddings W sep 6"
| "run_action W sep Encode_IPv4 = encode_ipv4_action"
| "run_action W sep Decode_IPv4 = decode_ipv4_action"
| "run_action W sep Encode_IPv6 = encode_ipv6_action"
| "run_action W sep Decode_IPv6 = decode_ipv6_action"
| "run_action W sep Encode_Buffer = encode_buffer_action W"
| "run_action W sep Decode_Buffer = decode_buffer_action W"
| "run_action W sep (Encode_Bits n) = encode_bits_action W n"
| "run_action W sep (Decode_Bits n) = decode_bits_action W n"
| "run_action W sep (Encode_Money d) = encode_money d"
| "run_action W sep (Decode_Money d) = decode_money d"
| "run_action W sep (Encode_Decimal_Fixed p) = encode_decimal_fixed p"
| "run_action W sep (Decode_Decimal_Fixed p) = decode_decimal_fixed p"
| "run_action W sep (Encode_Latitude p) = encode_latitude p"
| "run_action W sep (Decode_Latitude p) = decode_latitude p"
| "run_action W sep (Encode_Longitude p) = encode_longitude p"
| "run_action W sep (Decode_Longitude p) = decode_longitude p"
| "run_action W sep (Encode_Point p) = encode_point W p"
| "run_action W sep (Decode_Point p) = decode_point p"
| "run_action W sep (Compress_Text c) = compress_action W c"
| "run_action W sep Decompress_Text = decompress_action W"
| "run_action W sep (Unknown_Action name) = id"

end
