(* ===== verification/Schema_Values.thy ===== *)
theory Schema_Values
  imports Schema_Actions Schema_Keys Special_Values
begin

text \<open>
  The values of a schema (\<open>core/src/schema.class.ts\<close>): which hooks a definition of an attribute gets
  (\<open>generateAutoHooks\<close>), how they are applied, and how a record is mapped to metadata fields and read
  back (\<open>mapper\<close>, \<open>unmapper\<close>). The functions \<open>get\<close>, \<open>set\<close> and \<open>invert\<close> of lodash are arguments.
  Attributes are not named after inherited members or after a path with \<open>__proto__\<close>.
\<close>

record lodash =
  ld_get :: "js_value \<Rightarrow> ustring \<Rightarrow> js_value"
  ld_set :: "js_value \<Rightarrow> ustring \<Rightarrow> js_value \<Rightarrow> js_value"
  ld_invert :: "key_map \<Rightarrow> key_map"

type_synonym hook_table = "(ustring \<times> action list) list"

record schema_hooks =
  hk_before_map :: hook_table
  hk_after_map :: hook_table
  hk_before_unmap :: hook_table
  hk_after_unmap :: hook_table

record schema =
  sc_version :: ustring
  sc_attributes :: fields
  sc_auto_encrypt :: bool
  sc_auto_decrypt :: bool
  sc_separator :: nat
  sc_compression :: compress_params
  sc_hooks :: schema_hooks
  sc_map :: key_map
  sc_reversed :: key_map
  sc_plugin_map :: key_map
  sc_plugin_reversed :: key_map

section \<open>Hook tables\<close>

text \<open>
  \<open>uniq\<close> compares entries by identity: two hooks with the same name are one, two with parameters are
  not.
\<close>

fun is_named :: "action \<Rightarrow> bool" where
  "is_named (Encode_Bits _) = False"
| "is_named (Decode_Bits _) = False"
| "is_named (Encode_Money _) = False"
| "is_named (Decode_Money _) = False"
| "is_named (Encode_Decimal_Fixed _) = False"
| "is_named (Decode_Decimal_Fixed _) = False"
| "is_named (Encode_Latitude _) = False"
| "is_named (Decode_Latitude _) = False"
| "is_named (Encode_Longitude _) = False"
| "is_named (Decode_Longitude _) = False"
| "is_named (Encode_Point _) = False"
| "is_named (Decode_Point _) = False"
| "is_named (Compress_Text c) = (cp_level c = None \<and> cp_threshold c = None \<and> cp_encoding c = None)"
| "is_named _ = True"

definition uniq_actions :: "action list \<Rightarrow> action list" where
  "uniq_actions as = foldl (\<lambda>acc a. if is_named a \<and> a \<in> set acc then acc else acc @ [a]) [] as"

definition add_hook :: "ustring \<Rightarrow> action \<Rightarrow> hook_table \<Rightarrow> hook_table" where
  "add_hook attribute a t =
     obj_set attribute
       (uniq_actions ((case map_of t attribute of Some as \<Rightarrow> as | None \<Rightarrow> []) @ [a])) t"

definition add_pair :: "ustring \<Rightarrow> action option \<times> action option \<Rightarrow> schema_hooks \<Rightarrow> schema_hooks" where
  "add_pair name p h =
     (let before = (case fst p of Some a \<Rightarrow> add_hook name a (hk_before_map h) | None \<Rightarrow> hk_before_map h);
          after = (case snd p of Some a \<Rightarrow> add_hook name a (hk_after_unmap h) | None \<Rightarrow> hk_after_unmap h) in
      h\<lparr>hk_before_map := before, hk_after_unmap := after\<rparr>)"

section \<open>Hooks from definitions\<close>

definition no_hooks :: "action option \<times> action option" where
  "no_hooks = (None, None)"

definition at_least_256 :: "js_value \<Rightarrow> bool" where
  "at_least_256 v = (case v of JNumber (Num x) \<Rightarrow> x \<ge> 256 | JNumber PosInf \<Rightarrow> True | _ \<Rightarrow> False)"

text \<open>The hooks of an array by the type of its items.\<close>

definition array_hooks :: "js_value \<Rightarrow> bool \<Rightarrow> bool \<Rightarrow> action option \<times> action option" where
  "array_hooks itemsType isIntegerArray long =
     (case itemsType of
        JString t \<Rightarrow>
          if contains t (lit ''string'') then (Some From_Array, Some To_Array)
          else if contains t (lit ''number'') then
            (if isIntegerArray then (Some From_Array_Of_Numbers, Some To_Array_Of_Numbers)
             else if long then (Some From_Array_Of_Embeddings, Some To_Array_Of_Embeddings)
             else (Some From_Array_Of_Decimals, Some To_Array_Of_Decimals))
          else no_hooks
      | _ \<Rightarrow> no_hooks)"

text \<open>\<open>_generateHooksFromOriginalAttributes\<close>: arrays in object notation, at every depth.\<close>

definition original_array_hooks :: "fields \<Rightarrow> action option \<times> action option" where
  "original_array_hooks es =
     (if prop_of es (lit ''type'') = JString (lit ''array'') \<and> js_truthy (prop_of es (lit ''items'')) then
        array_hooks (prop_of es (lit ''items''))
          (case prop_of es (lit ''items'') of JString t \<Rightarrow> contains t (lit ''integer'') | _ \<Rightarrow> False)
          (at_least_256 (prop_of es (lit ''length'')))
      else no_hooks)"

fun original_hooks :: "ustring \<Rightarrow> fields \<Rightarrow> schema_hooks \<Rightarrow> schema_hooks" where
  "original_hooks prefix [] h = h"
| "original_hooks prefix ((key, JObject es) # rest) h =
     original_hooks prefix rest
       (if starts_with key (lit ''$$'') then h
        else if js_truthy (prop_of es (lit ''type''))
        then add_pair (sub_path prefix key) (original_array_hooks es) h
        else original_hooks (sub_path prefix key) es h)"
| "original_hooks prefix ((key, v) # rest) h = original_hooks prefix rest h"

text \<open>
  The first match of a key followed by a run of characters of one class, as in \<open>/length:(\d+)/\<close>.
\<close>

fun find_after :: "(nat \<Rightarrow> bool) \<Rightarrow> ustring list \<Rightarrow> ustring \<Rightarrow> ustring option" where
  "find_after cls keys [] = None"
| "find_after cls keys (u # s) =
     (case find (\<lambda>k. starts_with (u # s) k \<and> takeWhile cls (drop (length k) (u # s)) \<noteq> []) keys of
        Some k \<Rightarrow> Some (takeWhile cls (drop (length k) (u # s)))
      | None \<Rightarrow> find_after cls keys s)"

definition number_after :: "ustring \<Rightarrow> ustring \<Rightarrow> nat option" where
  "number_after key s = map_option digits_value (find_after is_digit [key] s)"

definition is_word :: "nat \<Rightarrow> bool" where
  "is_word u \<longleftrightarrow> is_letter u \<or> is_digit u \<or> u = 95"

text \<open>\<open>/encoding:(base64|base85)/\<close>.\<close>

fun encoding_after :: "ustring \<Rightarrow> text_encoding option" where
  "encoding_after [] = None"
| "encoding_after (u # s) =
     (if starts_with (u # s) (lit ''encoding:base64'') then Some Base64
      else if starts_with (u # s) (lit ''encoding:base85'') then Some Base85
      else encoding_after s)"

text \<open>\<open>compress:\<close> switches compression off or gives a level.\<close>

definition compress_setting :: "ustring \<Rightarrow> bool \<times> int option" where
  "compress_setting s =
     (case find_after is_word [lit ''compress:''] s of
        None \<Rightarrow> (False, None)
      | Some val \<Rightarrow>
          if val = lit ''false'' \<or> val = lit ''0'' then (True, None)
          else if val = lit ''true'' then (False, None)
          else (case parse_decimal val of
                  Num x \<Rightarrow> if x = 0 then (True, None) else (False, Some \<lfloor>x\<rfloor>)
                | _ \<Rightarrow> (False, None)))"

definition text_hooks :: "schema \<Rightarrow> ustring \<Rightarrow> action option \<times> action option" where
  "text_hooks S d =
     (let (disabled, level) = compress_setting d; c = sc_compression S in
      if disabled then no_hooks
      else
        (Some (Compress_Text
           \<lparr>cp_level = (case level of Some l \<Rightarrow> Some l | None \<Rightarrow> cp_level c),
            cp_threshold = (case number_after (lit ''threshold:'') d of Some n \<Rightarrow> Some (int n) | None \<Rightarrow> cp_threshold c),
            cp_encoding = (case encoding_after d of Some e \<Rightarrow> Some e | None \<Rightarrow> cp_encoding c)\<rparr>),
         Some Decompress_Text))"

definition integer_definition :: "ustring \<Rightarrow> bool" where
  "integer_definition d \<longleftrightarrow>
     contains d (lit ''integer:true'') \<or> contains d (lit ''|integer:'') \<or> contains d (lit ''|integer'')"

definition default_or :: "nat \<Rightarrow> nat option \<Rightarrow> nat" where
  "default_or n o' = (case o' of Some m \<Rightarrow> m | None \<Rightarrow> n)"

text \<open>
  The tests of \<open>generateAutoHooks\<close> on one definition, in their order: \<open>d\<close> is the text of a definition (empty
  for others) and \<open>ty\<close> the \<open>type\<close> property of an object.
\<close>

definition array_definition_hooks :: "js_value \<Rightarrow> ustring \<Rightarrow> action option \<times> action option" where
  "array_definition_hooks definition d =
     (let items = (case definition of JObject es \<Rightarrow> prop_of es (lit ''items'') | _ \<Rightarrow> JUndefined);
          itemsType = (if js_truthy items then items
            else if contains d (lit ''items:string'') then JString (lit ''string'')
            else if contains d (lit ''items:number'') then JString (lit ''number'') else JNull);
          isInteger = (integer_definition d \<or>
            (case itemsType of JString t \<Rightarrow> contains t (lit ''integer'') | _ \<Rightarrow> False));
          long = (case definition of
              JObject es \<Rightarrow> at_least_256 (prop_of es (lit ''length''))
            | _ \<Rightarrow> (case number_after (lit ''length:'') d of Some n \<Rightarrow> n \<ge> 256 | None \<Rightarrow> False)) in
      array_hooks itemsType isInteger long)"

definition auto_hooks :: "schema \<Rightarrow> js_value \<Rightarrow> action option \<times> action option" where
  "auto_hooks S definition =
     (let d = (case definition of JString s \<Rightarrow> s | _ \<Rightarrow> []);
          ty = (case definition of JObject es \<Rightarrow> prop_of es (lit ''type'') | _ \<Rightarrow> JNull);
          has = (\<lambda>t. contains d t); is_type = (\<lambda>t. ty = JString t) in
      if has (lit ''embedding'') \<or> is_type (lit ''embedding'')
        then (Some From_Array_Of_Embeddings, Some To_Array_Of_Embeddings)
      else if has (lit ''array'') \<or> is_type (lit ''array'') then array_definition_hooks definition d
      else if has (lit ''secret'') \<or> is_type (lit ''secret'') then
        (if sc_auto_encrypt S then Some Encrypt else None, if sc_auto_decrypt S then Some Decrypt else None)
      else if has (lit ''password'') \<or> is_type (lit ''password'') \<or> is_type (lit ''password:bcrypt'') \<or>
        is_type (lit ''password:argon2id'') then no_hooks
      else if has (lit ''ip4'') \<or> is_type (lit ''ip4'') then (Some Encode_IPv4, Some Decode_IPv4)
      else if has (lit ''ip6'') \<or> is_type (lit ''ip6'') then (Some Encode_IPv6, Some Decode_IPv6)
      else if has (lit ''buffer'') \<or> is_type (lit ''buffer'') then (Some Encode_Buffer, Some Decode_Buffer)
      else if has (lit ''bits'') \<or> is_type (lit ''bits'') then
        (let n = map_option int (number_after (lit ''bits:'') d) in (Some (Encode_Bits n), Some (Decode_Bits n)))
      else if has (lit ''money'') \<or> is_type (lit ''money'') \<or> has (lit ''crypto'') \<or> is_type (lit ''crypto'') then
        (let n = default_or (if has (lit ''crypto'') \<or> is_type (lit ''crypto'') then 8 else 2)
               (map_option digits_value (find_after is_digit [lit ''money:'', lit ''crypto:''] (lower d)))
         in (Some (Encode_Money n), Some (Decode_Money n)))
      else if has (lit ''decimal'') \<or> is_type (lit ''decimal'') then
        (let n = default_or 2 (number_after (lit ''decimal:'') d)
         in (Some (Encode_Decimal_Fixed n), Some (Decode_Decimal_Fixed n)))
      else if d = lit ''text'' \<or> starts_with d (lit ''text|'') \<or> is_type (lit ''text'') then text_hooks S d
      else if has (lit ''geo:lat'') \<or> (is_type (lit ''geo'') \<and> has (lit ''lat'')) then
        (let n = default_or 6 (number_after (lit ''geo:lat:'') d)
         in (Some (Encode_Latitude n), Some (Decode_Latitude n)))
      else if has (lit ''geo:lon'') \<or> (is_type (lit ''geo'') \<and> has (lit ''lon'')) then
        (let n = default_or 6 (number_after (lit ''geo:lon:'') d)
         in (Some (Encode_Longitude n), Some (Decode_Longitude n)))
      else if has (lit ''geo:point'') \<or> is_type (lit ''geo:point'') then
        (let n = default_or 6 (number_after (lit ''geo:point:'') d)
         in (Some (Encode_Point n), Some (Decode_Point n)))
      else if has (lit ''number'') \<or> is_type (lit ''number'') then
        (if integer_definition d then (Some To_Base62, Some From_Base62)
         else (Some To_Base62_Decimal, Some From_Base62_Decimal))
      else if has (lit ''boolean'') \<or> has (lit ''bool'') \<or> is_type (lit ''boolean'') \<or> is_type (lit ''bool'')
        then (Some From_Bool, Some To_Bool)
      else if has (lit ''json'') \<or> is_type (lit ''json'') then (Some To_JSON, Some From_JSON)
      else if d = lit ''object'' \<or> has (lit ''object'') \<or> is_type (lit ''object'') then (Some To_JSON, Some From_JSON)
      else no_hooks)"

definition has_hooks :: "hook_table \<Rightarrow> ustring \<Rightarrow> bool" where
  "has_hooks t name \<longleftrightarrow> map_of t name \<noteq> None"

definition generate_auto_hooks :: "schema \<Rightarrow> schema_hooks" where
  "generate_auto_hooks S =
     fold (\<lambda>(name, definition) h.
         if contains name (lit ''$$'') \<or> has_hooks (hk_before_map h) name \<or> has_hooks (hk_after_unmap h) name
         then h else add_pair name (auto_hooks S definition) h)
       (flatten True (JObject (sc_attributes S)))
       (original_hooks [] (sc_attributes S) (sc_hooks S))"

section \<open>Applying hooks\<close>

fun is_action :: "action \<Rightarrow> bool" where
  "is_action (Unknown_Action _) = False"
| "is_action _ = True"

definition apply_hook :: "action_world \<Rightarrow> lodash \<Rightarrow> schema \<Rightarrow> ustring \<Rightarrow> action \<Rightarrow> js_value \<Rightarrow> js_value" where
  "apply_hook W L S attribute a item =
     (let v = ld_get L item attribute in
      if v \<noteq> JUndefined \<and> is_action a then ld_set L item attribute (run_action W (sc_separator S) a v)
      else item)"

definition apply_hooks_actions :: "action_world \<Rightarrow> lodash \<Rightarrow> schema \<Rightarrow> hook_table \<Rightarrow> js_value \<Rightarrow> js_value" where
  "apply_hooks_actions W L S t item =
     fold (\<lambda>(attribute, as). fold (apply_hook W L S attribute) as) t item"

section \<open>Definitions of attributes\<close>

definition attribute_definition :: "schema \<Rightarrow> ustring \<Rightarrow> js_value" where
  "attribute_definition S key =
     foldl (\<lambda>def part. if js_truthy def then js_get def part else JUndefined)
       (JObject (sc_attributes S)) (split_on 46 key)"

definition is_kind :: "js_value \<Rightarrow> string \<Rightarrow> bool" where
  "is_kind def kind \<longleftrightarrow>
     (case def of JString d \<Rightarrow> d = lit kind \<or> starts_with d (lit kind @ [124]) | _ \<Rightarrow> False)"

definition mentions :: "js_value \<Rightarrow> string \<Rightarrow> bool" where
  "mentions def kind \<longleftrightarrow> (case def of JString d \<Rightarrow> contains d (lit kind) | _ \<Rightarrow> False)"

section \<open>Mapping\<close>

definition map_value :: "action_world \<Rightarrow> dates \<Rightarrow> js_value \<Rightarrow> js_value \<Rightarrow> js_value" where
  "map_value W D def v =
     (if is_kind def ''uuid'' then map_uuid v
      else if mentions def ''datetime'' then map_datetime D v
      else if mentions def ''dateonly'' then map_dateonly D v
      else if is_kind def ''timeonly'' then map_timeonly v
      else if is_kind def ''mac'' then map_mac v
      else if is_kind def ''cidr'' then map_cidr v
      else if is_kind def ''semver'' then map_semver v
      else if is_kind def ''phone'' then map_phone v
      else if is_kind def ''color'' then map_color v
      else if is_kind def ''duration'' then map_duration v
      else if is_kind def ''ean'' then map_ean v
      else case v of
        JNumber n \<Rightarrow> if mentions def ''number'' then JString (encode n) else v
      | JString s \<Rightarrow> if s = lit ''[object Object]'' then JString (lit ''{}'') else v
      | JArray _ \<Rightarrow> JString (stringify (aw_json W) v)
      | JObject _ \<Rightarrow> JString (stringify (aw_json W) v)
      | _ \<Rightarrow> v)"

text \<open>The \<open>||\<close> of the two maps and the name itself: a missing or empty key falls through.\<close>

definition key_for :: "key_map \<Rightarrow> key_map \<Rightarrow> ustring \<Rightarrow> ustring" where
  "key_for pm m key =
     (case map_of pm key of
        Some k \<Rightarrow> if k \<noteq> [] then k else (case map_of m key of Some k \<Rightarrow> if k \<noteq> [] then k else key | None \<Rightarrow> key)
      | None \<Rightarrow> (case map_of m key of Some k \<Rightarrow> if k \<noteq> [] then k else key | None \<Rightarrow> key))"

definition mapper :: "action_world \<Rightarrow> lodash \<Rightarrow> dates \<Rightarrow> schema \<Rightarrow> fields \<Rightarrow> fields" where
  "mapper W L D S item =
     (let ob = apply_hooks_actions W L S (hk_before_map (sc_hooks S)) (JObject item) in
      foldl (\<lambda>rest (key, v).
          obj_set (key_for (sc_plugin_map S) (sc_map S) key) (map_value W D (attribute_definition S key) v) rest)
        [(lit ''_v'', JString (sc_version S))] (flatten True ob))"

section \<open>Reading back\<close>

definition parse_text :: "action_world \<Rightarrow> js_value \<Rightarrow> js_value" where
  "parse_text W v =
     (case v of
        JString s \<Rightarrow>
          if s = lit ''[object Object]'' then JObject []
          else if starts_with s [123] \<or> starts_with s [91]
          then (case parse (aw_json W) s of Some p \<Rightarrow> p | None \<Rightarrow> v)
          else v
      | _ \<Rightarrow> v)"

definition unmap_number :: "js_value \<Rightarrow> js_value" where
  "unmap_number v =
     (case v of
        JString s \<Rightarrow> if s \<noteq> [] then JNumber (decode s) else JUndefined
      | JNumber _ \<Rightarrow> v
      | _ \<Rightarrow> JUndefined)"

definition unmap_special :: "action_world \<Rightarrow> dates \<Rightarrow> js_value \<Rightarrow> js_value \<Rightarrow> js_value option" where
  "unmap_special W D def v =
     (if is_kind def ''uuid'' then Some (unmap_uuid v)
      else if mentions def ''datetime'' then unmap_datetime D v
      else if mentions def ''dateonly'' then unmap_dateonly D v
      else if is_kind def ''timeonly'' then Some (unmap_timeonly v)
      else if is_kind def ''mac'' then Some (unmap_mac v)
      else if is_kind def ''cidr'' then Some (unmap_cidr v)
      else if is_kind def ''semver'' then Some (unmap_semver v)
      else if is_kind def ''phone'' then Some (unmap_phone v)
      else if is_kind def ''color'' then Some (unmap_color v)
      else if is_kind def ''duration'' then Some (unmap_duration v)
      else if is_kind def ''ean'' then Some (unmap_ean v)
      else if mentions def ''number'' \<and> \<not> mentions def ''array'' \<and> \<not> mentions def ''decimal''
      then Some (unmap_number v)
      else Some (parse_text W v))"

definition unmap_array :: "action_world \<Rightarrow> nat \<Rightarrow> js_value \<Rightarrow> js_value" where
  "unmap_array W sep v =
     (case v of
        JArray _ \<Rightarrow> v
      | JString s \<Rightarrow>
          if starts_with (trim s) [91]
          then (case parse (aw_json W) s of Some (JArray a) \<Rightarrow> JArray a | _ \<Rightarrow> v)
          else to_array W sep v
      | _ \<Rightarrow> to_array W sep v)"

text \<open>The value of one field, given its definition and the hooks it has after reading.\<close>

definition unmap_value ::
    "action_world \<Rightarrow> dates \<Rightarrow> schema \<Rightarrow> js_value \<Rightarrow> action list option \<Rightarrow> js_value \<Rightarrow> js_value option" where
  "unmap_value W D S def hooks v =
     (case if hooks = None then unmap_special W D def v else Some (parse_text W v) of
        None \<Rightarrow> None
      | Some p \<Rightarrow>
          let arr = (if mentions def ''array'' \<and> hooks = None then unmap_array W (sc_separator S) p else p) in
          Some (fold (run_action W (sc_separator S)) (case hooks of Some as \<Rightarrow> as | None \<Rightarrow> []) arr))"

definition unmap_attribute :: "action_world \<Rightarrow> dates \<Rightarrow> schema \<Rightarrow> ustring \<Rightarrow> js_value \<Rightarrow> js_value option" where
  "unmap_attribute W D S name =
     unmap_value W D S (attribute_definition S name) (map_of (hk_after_unmap (sc_hooks S)) name)"

fun unmap_entries :: "action_world \<Rightarrow> dates \<Rightarrow> schema \<Rightarrow> key_map \<Rightarrow> key_map \<Rightarrow> fields \<Rightarrow> fields \<Rightarrow> fields option" where
  "unmap_entries W D S rpm rm [] rest = Some rest"
| "unmap_entries W D S rpm rm ((key, v) # es) rest =
     (let name = key_for rpm rm key in
      case unmap_attribute W D S name v of
        None \<Rightarrow> None
      | Some p \<Rightarrow> unmap_entries W D S rpm rm es (obj_set name p rest))"

text \<open>
  An override of a map is inverted. The reading of a date and the nesting of the fields may throw;
  fields whose key starts with a dollar sign are copied at the end.
\<close>

definition unmapper ::
    "action_world \<Rightarrow> lodash \<Rightarrow> dates \<Rightarrow> schema \<Rightarrow> key_map option \<Rightarrow> key_map option \<Rightarrow> fields \<Rightarrow> fields option" where
  "unmapper W L D S mapOverride pluginMapOverride item =
     (let ob = apply_hooks_actions W L S (hk_before_unmap (sc_hooks S)) (JObject (AList.delete (lit ''_v'') item));
          rm = (case mapOverride of Some m \<Rightarrow> ld_invert L m | None \<Rightarrow> sc_reversed S);
          rpm = (case pluginMapOverride of Some m \<Rightarrow> ld_invert L m | None \<Rightarrow> sc_plugin_reversed S) in
      case unmap_entries W D S rpm rm (spread_entries ob) [] of
        None \<Rightarrow> None
      | Some rest \<Rightarrow>
          (case unflatten rest of
             Some (JObject es) \<Rightarrow>
               Some (foldl (\<lambda>es (key, v). if starts_with key [36] then obj_set key v es else es) es item)
           | _ \<Rightarrow> None))"

end
