(* ===== verification/Schema_Values_Props.thy ===== *)
theory Schema_Values_Props
  imports Schema_Values Special_Values_Props
begin

text \<open>What a schema reads back of the values it maps.\<close>

section \<open>The value of one attribute\<close>

text \<open>
  What is stored for a value and what is read for a stored one when an attribute has the hooks of its
  own definition.
\<close>

definition stored_value :: "action_world \<Rightarrow> dates \<Rightarrow> schema \<Rightarrow> js_value \<Rightarrow> js_value \<Rightarrow> js_value" where
  "stored_value W D S def v =
     map_value W D def
       (case fst (auto_hooks S def) of
          Some b \<Rightarrow> if v = JUndefined then v else run_action W (sc_separator S) b v
        | None \<Rightarrow> v)"

definition loaded_value :: "action_world \<Rightarrow> dates \<Rightarrow> schema \<Rightarrow> js_value \<Rightarrow> js_value \<Rightarrow> js_value option" where
  "loaded_value W D S def = unmap_value W D S def (map_option (\<lambda>a. [a]) (snd (auto_hooks S def)))"

definition comes_back_as :: "action_world \<Rightarrow> dates \<Rightarrow> schema \<Rightarrow> js_value \<Rightarrow> js_value \<Rightarrow> js_value \<Rightarrow> bool" where
  "comes_back_as W D S def v v' \<longleftrightarrow> loaded_value W D S def (stored_value W D S def v) = Some v'"

text \<open>A definition without a compact form of its own.\<close>

definition plain_definition :: "js_value \<Rightarrow> bool" where
  "plain_definition def \<longleftrightarrow>
     \<not> mentions def ''datetime'' \<and> \<not> mentions def ''dateonly'' \<and>
     \<not> list_ex (is_kind def) [''uuid'', ''timeonly'', ''mac'', ''cidr'', ''semver'', ''phone'', ''color'', ''duration'', ''ean'']"

text \<open>A text that the reader does not take for JSON.\<close>

definition no_json :: "action_world \<Rightarrow> ustring \<Rightarrow> bool" where
  "no_json W t \<longleftrightarrow> parse_text W (JString t) = JString t"

lemma no_json_hd: "t = [] \<or> hd t \<notin> {123, 91} \<Longrightarrow> no_json W t"
  by (cases t) (auto simp: no_json_def parse_text_def starts_with_def)

lemma map_value_text:
  "plain_definition def \<Longrightarrow> t \<noteq> lit ''[object Object]'' \<Longrightarrow> map_value W D def (JString t) = JString t"
  by (simp add: map_value_def plain_definition_def)

lemma no_json_object: "no_json W t \<Longrightarrow> t \<noteq> lit ''[object Object]''"
  by (auto simp: no_json_def parse_text_def)

text \<open>A hook that makes a text: the text is stored and given to the hook that reads it.\<close>

lemma hooked_text:
  assumes "plain_definition def" "auto_hooks S def = (Some b, Some a)" "v \<noteq> JUndefined"
    and "run_action W (sc_separator S) b v = JString t" "no_json W t"
  shows "comes_back_as W D S def v v' \<longleftrightarrow> run_action W (sc_separator S) a (JString t) = v'"
  using assms no_json_object [OF assms(5)]
  by (simp add: comes_back_as_def stored_value_def loaded_value_def unmap_value_def map_value_text no_json_def)

section \<open>Arrays of texts\<close>

lemma escape_item_simps [simp]:
  "escape_item sep [] = []"
  "escape_item sep (u # s) = (if u = 92 \<or> u = sep then [92, u] else [u]) @ escape_item sep s"
  by (simp_all add: escape_item_def)

lemma escape_Nil_iff [simp]: "escape_item sep s = [] \<longleftrightarrow> s = []"
  by (cases s) auto

lemma split_items_Cons:
  "split_items sep current (u # r) =
     (if u = 92 \<and> r \<noteq> [] then split_items sep (current @ [hd r]) (tl r)
      else if u = sep then current # split_items sep [] r
      else split_items sep (current @ [u]) r)"
  by (cases r) auto

lemma split_items_escaped:
  assumes "sep \<noteq> 92"
  shows "split_items sep current (escape_item sep s) = [current @ s]"
    and "split_items sep current (escape_item sep s @ sep # r) = (current @ s) # split_items sep [] r"
  by (induction s arbitrary: current) (use assms in \<open>auto simp: split_items_Cons\<close>)

lemma split_items_join:
  "sep \<noteq> 92 \<Longrightarrow> xs \<noteq> [] \<Longrightarrow> split_items sep [] (join [sep] (map (escape_item sep) xs)) = xs"
proof (induction xs rule: induct_list012)
  case (3 x y zs)
  then show ?case using split_items_escaped(2) [of sep "[]" x] by simp
qed (simp_all add: split_items_escaped)

lemma join_Nil_iff: "join [c] xs = [] \<longleftrightarrow> xs = [] \<or> xs = [[]]"
  by (cases "([c], xs)" rule: join.cases) auto

lemma array_of_texts:
  assumes "sep \<noteq> 92" "from_array W sep (JArray (map JString xs)) = JString t"
  shows "to_array W sep (JString t) = JArray (map JString xs) \<longleftrightarrow> xs \<noteq> [[]]"
proof -
  have t: "t = (if xs = [] then [] else join [sep] (map (escape_item sep) xs))"
    using assms(2) by (auto simp: from_array_def o_def split: if_splits)
  show ?thesis
  proof (cases "xs = [] \<or> xs = [[]]")
    case True
    then show ?thesis using t by (auto simp: to_array_def is_nullish_def)
  next
    case False
    then have "t \<noteq> []" using t by (auto simp: join_Nil_iff map_eq_Cons_conv)
    then show ?thesis
      using False t split_items_join [OF assms(1), of xs]
      by (simp add: to_array_def is_nullish_def js_text_def)
  qed
qed

section \<open>Numbers\<close>

lemma encode_letters: "u \<in> set (encode (Num x)) \<Longrightarrow> u = 45 \<or> u \<in> set base62_alphabet"
  using base62.set_place_digits
  by (auto simp: encode_def encode_with_def base62_alphabet_def split: if_splits) 

lemma alphabet_no_json: "u \<in> set base62_alphabet \<Longrightarrow> u \<noteq> 123 \<and> u \<noteq> 91 \<and> u \<noteq> 124 \<and> u \<noteq> 92"
  by (auto simp: base62_alphabet_def)

lemma no_json_encode: "no_json W (encode (Num x))"
proof (rule no_json_hd)
  have "encode (Num x) \<noteq> [] \<Longrightarrow> hd (encode (Num x)) \<notin> {123, 91}"
    using encode_letters [of "hd (encode (Num x))" x] alphabet_no_json by auto
  then show "encode (Num x) = [] \<or> hd (encode (Num x)) \<notin> {123, 91}" by blast
qed

lemma encode_int_not_Nil: "encode (Num (of_int i)) \<noteq> []"
  by (auto simp: encode_def encode_with_def)

lemma integers_exact:
  "from_base62 (to_base62 (JNumber (Num (of_int i)))) = JNumber (Num (of_int i))"
  by (simp add: from_base62_def to_base62_def encode_number_def decode_number_def is_nullish_def is_nan_def
      decode_encode_number encode_int_not_Nil)

text \<open>The letters of a decimal text and of its base-62 form.\<close>

definition number_letter :: "nat \<Rightarrow> bool" where
  "number_letter u \<longleftrightarrow> u \<in> set base62_alphabet \<or> u \<in> {43, 45, 46}"

definition good_separator :: "nat \<Rightarrow> bool" where
  "good_separator sep \<longleftrightarrow> \<not> number_letter sep \<and> sep \<noteq> 92"

lemma number_letter_no_json: "number_letter u \<Longrightarrow> u \<noteq> 123 \<and> u \<noteq> 91 \<and> u \<noteq> 92"
  by (auto simp: number_letter_def dest: alphabet_no_json)

lemma digit_letter: "is_digit u \<Longrightarrow> number_letter u"
  by (simp add: number_letter_def base62_alphabet_def is_digit_def) arith

lemma magnitude_letters: "u \<in> set (magnitude_text d) \<Longrightarrow> number_letter u"
  by (auto simp: magnitude_text_def Let_def number_letter_def base62_alphabet_def
      dest!: set_take_subset [THEN subsetD] set_drop_subset [THEN subsetD] show_nat_digits digit_letter
      split: if_splits)

lemma encode_number_letters: "u \<in> set (encode n) \<Longrightarrow> number_letter u"
proof (cases n)
  case (Num x)
  then show "u \<in> set (encode n) \<Longrightarrow> number_letter u" using encode_letters by (auto simp: number_letter_def)
qed (auto simp: encode_def encode_with_def number_letter_def base62_alphabet_def)

lemma split_on_letters: "p \<in> set (split_on c s) \<Longrightarrow> u \<in> set p \<Longrightarrow> u \<in> set s"
proof (induction s arbitrary: p)
  case (Cons a s)
  then show ?case by (cases "split_on c s") (auto split: if_splits, metis)
qed simp

lemma dec_part_letters: "u \<in> set (dec_part s) \<Longrightarrow> u \<in> set s"
  using split_on_letters [of _ 46 s u]
  by (cases "split_on 46 s"; cases "tl (split_on 46 s)") (auto simp: dec_part_def)

lemma encode_decimal_letters: "u \<in> set (encode_decimal_digits d) \<Longrightarrow> number_letter u"
  by (auto simp: encode_decimal_digits_def Let_def number_letter_def [of 45] number_letter_def [of 46]
      dest!: encode_number_letters dec_part_letters magnitude_letters split: if_splits)

lemma no_json_letters: "(\<And>u. u \<in> set t \<Longrightarrow> number_letter u) \<Longrightarrow> no_json W t"
  by (rule no_json_hd) (metis hd_in_set insertE number_letter_no_json singletonD)

lemma encode_decimal_not_Nil: "\<not> tiny d \<Longrightarrow> encode_decimal_digits d \<noteq> []"
proof
  assume nt: "\<not> tiny d" and e: "encode_decimal_digits d = []"
  have "decode_decimal (encode_decimal_digits d) = Num (decimal_value d)"
    using nt decimal_roundtrip_iff by blast
  then have "decimal_value d = 0"
    unfolding e by (simp add: decode_decimal_def unsigned_part_def int_part_def dec_part_def decode_def
        decode_with_def)
  then have "dec_sig d = 0" by (auto simp: decimal_value_def magnitude_def split: if_splits)
  then have "magnitude_text d = [48]" by (simp add: magnitude_text_def)
  then have "encode_decimal_digits d = sign_text (decimal_value d < 0) @ encode (Num (magnitude d))"
    using encode_whole [of d] number_of_magnitude_text [of d] by simp
  then show False using e \<open>dec_sig d = 0\<close> by (simp add: magnitude_def encode_def encode_with_def)
qed

lemma decimals_exact:
  assumes "decimal_value (aw_shortest W x) = x"
  shows "\<not> tiny (aw_shortest W x) \<longleftrightarrow>
    from_base62_decimal (to_base62_decimal W (JNumber (Num x))) = JNumber (Num x)"
proof -
  let ?t = "encode_decimal_digits (aw_shortest W x)"
  have "decode_decimal ?t = Num x \<longleftrightarrow> \<not> tiny (aw_shortest W x)"
    using decimal_roundtrip_iff [of "aw_shortest W x"] assms by simp
  then show ?thesis
    using encode_decimal_not_Nil [of "aw_shortest W x"]
    by (auto simp: from_base62_decimal_def to_base62_decimal_def encode_number_def decode_number_def
        encode_decimal_def is_nullish_def is_nan_def)
qed

section \<open>Arrays of numbers\<close>

lemma array_of_numbers:
  assumes "good_separator sep"
    and "\<And>x. x \<in> set xs \<Longrightarrow> enc (Num x) \<noteq> [] \<and> dec (enc (Num x)) = Num x"
    and "\<And>x u. u \<in> set (enc (Num x)) \<Longrightarrow> number_letter u"
    and "from_number_array W sep enc (JArray (map (JNumber \<circ> Num) xs)) = JString t"
  shows "to_number_array W sep dec (JString t) = JArray (map (JNumber \<circ> Num) xs) \<and> no_json W t"
proof -
  let ?es = "map (\<lambda>x. enc (Num x)) xs"
  have esc: "escape_item sep (enc (Num x)) = enc (Num x)" for x
  proof -
    have "\<forall>u \<in> set s. u \<noteq> 92 \<and> u \<noteq> sep \<Longrightarrow> escape_item sep s = s" for s by (induction s) auto
    then show ?thesis using assms(1,3) by (auto simp: good_separator_def dest!: number_letter_no_json)
  qed
  have t: "t = (if xs = [] then [] else join [sep] ?es)"
    using assms(4) by (auto simp: from_number_array_def o_def to_js_number_def is_nan_def split: if_splits)
  have sep: "sep \<noteq> 92" using assms(1) by (simp add: good_separator_def)
  show ?thesis
  proof (cases "xs = []")
    case False
    then have ne: "t \<noteq> []" using t assms(2) by (cases xs) (auto simp: join_Nil_iff)
    have "split_items sep [] t = ?es"
      using split_items_join [OF sep, of ?es] False t esc by (simp add: o_def)
    moreover have "hd t \<noteq> 123 \<and> hd t \<noteq> 91"
    proof -
      obtain x xs' where xs: "xs = x # xs'" using False by (cases xs) auto
      then have "enc (Num x) \<noteq> []" using assms(2) by simp
      then have "hd t = hd (enc (Num x))" using xs t by (cases xs') auto
      then show ?thesis
        using \<open>enc (Num x) \<noteq> []\<close> assms(3) [of "hd (enc (Num x))" x] number_letter_no_json by simp
    qed
    ultimately show ?thesis
      using ne assms(2) no_json_hd [of t W]
      by (simp add: to_number_array_def is_nullish_def js_text_def decode_item_def o_def)
  qed (use t in \<open>auto simp: to_number_array_def is_nullish_def intro: no_json_hd\<close>)
qed

section \<open>Exact values\<close>

text \<open>
  Values that come back exactly, by the hooks of their definition: booleans, integers, other numbers
  up to single digits below a millionth, arrays of texts except the one that holds just the empty
  text, arrays of numbers, and JSON.
\<close>

definition shortest_ok :: "action_world \<Rightarrow> rat \<Rightarrow> bool" where
  "shortest_ok W x \<longleftrightarrow> decimal_value (aw_shortest W x) = x"

lemma booleans_back:
  assumes "plain_definition def" "auto_hooks S def = (Some From_Bool, Some To_Bool)"
  shows "comes_back_as W D S def (JBool b) (JBool b)"
proof -
  have "no_json W (if b then lit ''1'' else lit ''0'')" by (rule no_json_hd) simp
  then show ?thesis
    using hooked_text [OF assms, of "JBool b" W "if b then lit ''1'' else lit ''0''" D "JBool b"]
    by (simp add: from_bool_def to_bool_def is_true_value_def)
qed

lemma integers_back:
  assumes "plain_definition def" "auto_hooks S def = (Some To_Base62, Some From_Base62)"
  shows "comes_back_as W D S def (JNumber (Num (of_int i))) (JNumber (Num (of_int i)))"
  using hooked_text [OF assms, of "JNumber (Num (of_int i))" W "encode (Num (of_int i))"] integers_exact [of i]
    no_json_encode [of W]
  by (simp add: to_base62_def encode_number_def is_nullish_def)

lemma decimals_back:
  assumes "plain_definition def" "auto_hooks S def = (Some To_Base62_Decimal, Some From_Base62_Decimal)" "shortest_ok W x"
  shows "comes_back_as W D S def (JNumber (Num x)) (JNumber (Num x)) \<longleftrightarrow> \<not> tiny (aw_shortest W x)"
proof -
  have "no_json W (encode_decimal_digits (aw_shortest W x))"
    by (rule no_json_letters) (rule encode_decimal_letters)
  then show ?thesis
    using hooked_text [OF assms(1,2), of "JNumber (Num x)" W "encode_decimal_digits (aw_shortest W x)"]
      decimals_exact [of W x] assms(3)
    by (simp add: shortest_ok_def to_base62_decimal_def encode_number_def is_nullish_def encode_decimal_def)
qed

lemma text_arrays_back:
  assumes "plain_definition def" "auto_hooks S def = (Some From_Array, Some To_Array)" "sc_separator S \<noteq> 92"
    and "from_array W (sc_separator S) (JArray (map JString xs)) = JString t" "no_json W t"
  shows "comes_back_as W D S def (JArray (map JString xs)) (JArray (map JString xs)) \<longleftrightarrow> xs \<noteq> [[]]"
  using hooked_text [OF assms(1,2), of "JArray (map JString xs)" W t] array_of_texts [OF assms(3,4)] assms(4,5)
  by simp

lemma from_number_array_text: "\<exists>t. from_number_array W sep enc (JArray vs) = JString t"
  by (simp add: from_number_array_def)

lemma number_arrays_back:
  assumes "plain_definition def" "good_separator (sc_separator S)"
  shows "auto_hooks S def = (Some From_Array_Of_Numbers, Some To_Array_Of_Numbers) \<Longrightarrow>
      comes_back_as W D S def (JArray (map (JNumber \<circ> Num \<circ> of_int) ms)) (JArray (map (JNumber \<circ> Num \<circ> of_int) ms))"
    and "auto_hooks S def = (Some From_Array_Of_Decimals, Some To_Array_Of_Decimals) \<Longrightarrow>
      \<forall>x \<in> set xs. shortest_ok W x \<and> \<not> tiny (aw_shortest W x) \<Longrightarrow>
      comes_back_as W D S def (JArray (map (JNumber \<circ> Num) xs)) (JArray (map (JNumber \<circ> Num) xs))"
proof -
  let ?sep = "sc_separator S"
  assume h: "auto_hooks S def = (Some From_Array_Of_Numbers, Some To_Array_Of_Numbers)"
  obtain t where t: "from_number_array W ?sep encode (JArray (map (JNumber \<circ> Num) (map of_int ms))) = JString t"
    using from_number_array_text by blast
  have "to_number_array W ?sep decode (JString t) = JArray (map (JNumber \<circ> Num) (map of_int ms)) \<and> no_json W t"
    by (rule array_of_numbers [OF assms(2) _ encode_number_letters t])
      (auto simp: decode_encode_number encode_int_not_Nil)
  then show "comes_back_as W D S def (JArray (map (JNumber \<circ> Num \<circ> of_int) ms)) (JArray (map (JNumber \<circ> Num \<circ> of_int) ms))"
    using hooked_text [OF assms(1) h, of "JArray (map (JNumber \<circ> Num \<circ> of_int) ms)" W t] t
    by (simp add: from_array_of_numbers_def to_array_of_numbers_def o_assoc)
next
  let ?sep = "sc_separator S" and ?enc = "encode_decimal (aw_shortest W)"
  assume h: "auto_hooks S def = (Some From_Array_Of_Decimals, Some To_Array_Of_Decimals)"
    and ok: "\<forall>x \<in> set xs. shortest_ok W x \<and> \<not> tiny (aw_shortest W x)"
  obtain t where t: "from_number_array W ?sep ?enc (JArray (map (JNumber \<circ> Num) xs)) = JString t"
    using from_number_array_text by blast
  have "?enc (Num x) \<noteq> [] \<and> decode_decimal (?enc (Num x)) = Num x" if "x \<in> set xs" for x
    using that ok encode_decimal_not_Nil [of "aw_shortest W x"] decimal_roundtrip_iff [of "aw_shortest W x"]
    by (simp add: encode_decimal_def shortest_ok_def)
  then have "to_number_array W ?sep decode_decimal (JString t) = JArray (map (JNumber \<circ> Num) xs) \<and> no_json W t"
    by (rule array_of_numbers [OF assms(2) _ _ t]) (auto simp: encode_decimal_def dest: encode_decimal_letters)
  then show "comes_back_as W D S def (JArray (map (JNumber \<circ> Num) xs)) (JArray (map (JNumber \<circ> Num) xs))"
    using hooked_text [OF assms(1) h, of "JArray (map (JNumber \<circ> Num) xs)" W t] t
    by (simp add: from_array_of_decimals_def to_array_of_decimals_def)
qed

lemma json_back:
  assumes "plain_definition def" "auto_hooks S def = (Some To_JSON, Some From_JSON)"
    and "parse (aw_json W) (stringify (aw_json W) v) = Some v" "\<forall>t \<in> {[], lit ''[object Object]''}. parse (aw_json W) t = None"
    and "\<not> is_nullish v" "\<forall>s. v \<noteq> JString s"
  shows "comes_back_as W D S def v v"
proof -
  let ?t = "stringify (aw_json W) v"
  have t: "?t \<noteq> lit ''[object Object]''" using assms(3,4) by auto
  have "to_json W v = JString ?t" using assms(5,6) by (cases v) (auto simp: to_json_def)
  moreover have "from_json W (parse_text W (JString ?t)) = v"
  proof -
    have "from_json W (JString ?t) = v" using assms(3,4) by (auto simp: from_json_def)
    moreover have "from_json W v = v" using assms(6) by (cases v) (auto simp: from_json_def)
    ultimately show ?thesis
      using t assms(3) by (auto simp: parse_text_def starts_with_def)
  qed
  ultimately show ?thesis
    using assms(1,2,5) t
    by (simp add: comes_back_as_def stored_value_def loaded_value_def unmap_value_def map_value_text is_nullish_def)
qed

lemma texts_back:
  assumes "plain_definition def" "auto_hooks S def = no_hooks" "\<not> mentions def ''number''" "\<not> mentions def ''array''"
    and "parse (aw_json W) (lit ''{}'') \<noteq> Some (JString (lit ''[object Object]''))"
  shows "comes_back_as W D S def (JString s) (JString s) \<longleftrightarrow> no_json W s"
proof (cases "s = lit ''[object Object]''")
  case True
  then have "stored_value W D S def (JString s) = JString (lit ''{}'')"
    using assms by (simp add: stored_value_def no_hooks_def map_value_def plain_definition_def)
  moreover have "\<not> no_json W s" using True no_json_object by blast
  moreover have "parse_text W (JString (lit ''{}'')) \<noteq> JString (lit ''[object Object]'')"
    using assms(5) by (auto simp: parse_text_def starts_with_def split: option.splits)
  ultimately show ?thesis
    using assms True
    by (simp add: comes_back_as_def loaded_value_def no_hooks_def unmap_value_def unmap_special_def plain_definition_def)
next
  case False
  then show ?thesis
    using assms
    by (simp add: comes_back_as_def stored_value_def loaded_value_def no_hooks_def unmap_value_def
        unmap_special_def plain_definition_def map_value_def no_json_def)
qed


section \<open>Scaled numbers\<close>

lemma scaled_text: "decode (encode (Num (of_int n))) = Num (of_int n)"
  by (simp add: decode_encode_number)

lemma no_json_sign: "u \<notin> {123, 91} \<Longrightarrow> no_json W (u # t)"
  by (rule no_json_hd) simp

lemma money_back:
  assumes "plain_definition def" "auto_hooks S def = (Some (Encode_Money n), Some (Decode_Money n))"
  shows "comes_back_as W D S def (JNumber (Num x)) (JNumber (Num (rounded n x)))"
  using hooked_text [OF assms, of "JNumber (Num x)" W "36 # encode (Num (of_int (js_round (x * 10 ^ n))))"]
    no_json_sign [of 36 W]
  by (simp add: encode_money_def decode_money_def starts_with_def scaled_text rounded_def)

lemma fixed_back:
  assumes "plain_definition def" "auto_hooks S def = (Some (Encode_Decimal_Fixed n), Some (Decode_Decimal_Fixed n))"
  shows "comes_back_as W D S def (JNumber (Num x)) (JNumber (Num (rounded n x)))"
  using hooked_text [OF assms, of "JNumber (Num x)" W "encode_fixed_point (Num x) n"]
    no_json_sign [of 94 W] fixed_point_rounds [of x n]
  by (simp add: encode_decimal_fixed_def decode_decimal_fixed_def encode_fixed_point_def)

lemma coordinate_back:
  assumes "\<bar>x\<bar> \<le> bound"
  obtains t where "encode_coordinate bound e n (JNumber (Num x)) = Inr (JString (126 # t))" "t \<noteq> []" "126 \<notin> set t"
    "decode_coordinate bound n (JString (126 # t)) = JNumber (Num (rounded n (x + bound) - bound))"
proof
  let ?t = "encode (Num (of_int (js_round ((x + bound) * 10 ^ n))))"
  show "encode_coordinate bound e n (JNumber (Num x)) = Inr (JString (126 # ?t))"
    using assms by (auto simp: encode_coordinate_def abs_le_iff)
  show "?t \<noteq> []" by (rule encode_int_not_Nil)
  have "126 \<notin> set base62_alphabet" by (simp add: base62_alphabet_def)
  then show "126 \<notin> set ?t" using encode_letters by fastforce
  show "decode_coordinate bound n (JString (126 # ?t)) = JNumber (Num (rounded n (x + bound) - bound))"
    by (simp add: decode_coordinate_def starts_with_def scaled_text rounded_def)
qed

lemma latitude_back:
  assumes "plain_definition def" "auto_hooks S def = (Some (Encode_Latitude n), Some (Decode_Latitude n))"
    and "\<bar>x\<bar> \<le> 90"
  shows "comes_back_as W D S def (JNumber (Num x)) (JNumber (Num (rounded n (x + 90) - 90)))"
proof -
  obtain t where t: "encode_coordinate 90 Latitude_Range n (JNumber (Num x)) = Inr (JString (126 # t))"
      "decode_coordinate 90 n (JString (126 # t)) = JNumber (Num (rounded n (x + 90) - 90))"
    using assms(3) by (rule coordinate_back)
  then show ?thesis
    using hooked_text [OF assms(1,2), of "JNumber (Num x)" W "126 # t"] no_json_sign [of 126 W]
    by (simp add: encode_latitude_def decode_latitude_def on_number_def or_value_def encode_geo_lat_def
        decode_geo_lat_def)
qed

lemma longitude_back:
  assumes "plain_definition def" "auto_hooks S def = (Some (Encode_Longitude n), Some (Decode_Longitude n))"
    and "\<bar>y\<bar> \<le> 180"
  shows "comes_back_as W D S def (JNumber (Num y)) (JNumber (Num (rounded n (y + 180) - 180)))"
proof -
  obtain t where t: "encode_coordinate 180 Longitude_Range n (JNumber (Num y)) = Inr (JString (126 # t))"
      "decode_coordinate 180 n (JString (126 # t)) = JNumber (Num (rounded n (y + 180) - 180))"
    using assms(3) by (rule coordinate_back)
  then show ?thesis
    using hooked_text [OF assms(1,2), of "JNumber (Num y)" W "126 # t"] no_json_sign [of 126 W]
    by (simp add: encode_longitude_def decode_longitude_def on_number_def or_value_def encode_geo_lon_def
        decode_geo_lon_def)
qed

lemma point_back:
  assumes "plain_definition def" "auto_hooks S def = (Some (Encode_Point n), Some (Decode_Point n))"
    and "\<bar>x\<bar> \<le> 90" "\<bar>y\<bar> \<le> 180"
  shows "comes_back_as W D S def (JArray [JNumber (Num x), JNumber (Num y)])
    (geo_point (JNumber (Num (rounded n (x + 90) - 90))) (JNumber (Num (rounded n (y + 180) - 180))))"
proof -
  obtain t where t: "encode_coordinate 90 Latitude_Range n (JNumber (Num x)) = Inr (JString (126 # t))"
      "t \<noteq> []" "126 \<notin> set t"
      "decode_coordinate 90 n (JString (126 # t)) = JNumber (Num (rounded n (x + 90) - 90))"
    using assms(3) by (rule coordinate_back)
  obtain r where r: "encode_coordinate 180 Longitude_Range n (JNumber (Num y)) = Inr (JString (126 # r))"
      "r \<noteq> []" "126 \<notin> set r"
      "decode_coordinate 180 n (JString (126 # r)) = JNumber (Num (rounded n (y + 180) - 180))"
    using assms(4) by (rule coordinate_back)
  have "filter (\<lambda>p. p \<noteq> []) (split_on 126 (126 # t @ 126 # r)) = [t, r]"
    using t r split_on_append_sep [of 126 t r] by (simp add: split_on_no_sep)
  then show ?thesis
    using hooked_text [OF assms(1,2), of "JArray [JNumber (Num x), JNumber (Num y)]" W "126 # t @ 126 # r"]
      no_json_sign [of 126 W] t r
    by (simp add: encode_point_def decode_point_def or_value_def encode_geo_point_def encode_geo_lat_def
        encode_geo_lon_def decode_geo_point_def decode_geo_lat_def decode_geo_lon_def)
qed

lemma embeddings_back:
  assumes "plain_definition def" "auto_hooks S def = (Some From_Array_Of_Embeddings, Some To_Array_Of_Embeddings)"
  shows "comes_back_as W D S def (JArray (map (JNumber \<circ> Num) xs)) (JArray (map (JNumber \<circ> Num \<circ> rounded 6) xs))"
proof -
  let ?t = "encode_fixed_point_batch (map Num xs) 6"
  have "from_array_of_embeddings 6 (JArray (map (JNumber \<circ> Num) xs)) = JString ?t"
    by (simp add: from_array_of_embeddings_def o_def)
  moreover have t: "starts_with ?t (lit ''^['')" "no_json W ?t"
    by (auto simp: encode_fixed_point_batch_def starts_with_def intro!: no_json_sign)
  moreover have "to_array_of_embeddings W (sc_separator S) 6 (JString ?t) = JArray (map (JNumber \<circ> Num \<circ> rounded 6) xs)"
  proof (cases "xs = []")
    case False
    then have "?t \<noteq> lit ''^[]'' \<and> ?t \<noteq> []" using fixed_digits_letters [of _ 6]
      by (cases xs; cases "tl xs") (auto simp: encode_fixed_point_batch_def)
    then show ?thesis
      using t(1) fixed_batch_rounds [of xs 6]
      by (simp add: to_array_of_embeddings_def is_nullish_def js_text_def o_def)
  qed (simp add: to_array_of_embeddings_def encode_fixed_point_batch_def is_nullish_def)
  ultimately show ?thesis
    using hooked_text [OF assms, of "JArray (map (JNumber \<circ> Num) xs)" W ?t] by simp
qed


section \<open>A concrete schema\<close>

definition sample_json :: json where
  "sample_json =
     \<lparr>num_text = (\<lambda>_. lit ''42''), stringify = (\<lambda>v. if v = JObject [] then lit ''{}'' else lit ''42''),
      parse = (\<lambda>t. map_of [(lit ''{}'', JObject []), (lit ''[1]'', JArray [JNumber (Num 1)]),
        (lit ''42'', JNumber (Num 42))] t)\<rparr>"

definition sample_world :: action_world where
  "sample_world =
     \<lparr>aw_json = sample_json, aw_shortest = (\<lambda>_. \<lparr>dec_neg = False, dec_sig = 5, dec_exp = - 1\<rparr>),
      aw_has_passphrase = False, aw_encrypt = (\<lambda>_. None), aw_decrypt = (\<lambda>_. None),
      aw_deflate = (\<lambda>_ b. b), aw_inflate = Some, aw_buffer = (\<lambda>_. JObject []), aw_bytes = (\<lambda>_. None)\<rparr>"

definition sample_dates :: dates where
  "sample_dates = \<lparr>date_of_text = (\<lambda>_. None), date_of_number = (\<lambda>_. None), iso_text = (\<lambda>_. [])\<rparr>"

definition no_hook_tables :: schema_hooks where
  "no_hook_tables = \<lparr>hk_before_map = [], hk_after_map = [], hk_before_unmap = [], hk_after_unmap = []\<rparr>"

definition sample_schema :: "fields \<Rightarrow> schema" where
  "sample_schema es =
     \<lparr>sc_version = lit ''1'', sc_attributes = es, sc_auto_encrypt = True, sc_auto_decrypt = True,
      sc_separator = 124, sc_compression = \<lparr>cp_level = None, cp_threshold = None, cp_encoding = None\<rparr>,
      sc_hooks = no_hook_tables, sc_map = [], sc_reversed = [], sc_plugin_map = [], sc_plugin_reversed = []\<rparr>"




end
