(* ===== verification/Schema_Records.thy ===== *)
theory Schema_Records
  imports Schema_Values_Props Flatten_Props
begin

text \<open>
  Whole records through \<open>mapper\<close> and \<open>unmapper\<close>: every field comes back as its value does, for schemas
  without nested attributes.
\<close>

section \<open>Flat schemas\<close>

definition plain_name :: "ustring \<Rightarrow> bool" where
  "plain_name n \<longleftrightarrow> n \<noteq> [] \<and> 46 \<notin> set n \<and> 36 \<notin> set n \<and> \<not> is_numeric n"

text \<open>\<open>get\<close> and \<open>set\<close> on a property that is there and whose name is no path.\<close>

definition lodash_ok :: "lodash \<Rightarrow> bool" where
  "lodash_ok L \<longleftrightarrow>
     (\<forall>es n v. plain_name n \<longrightarrow> ld_get L (JObject es) n = prop_of es n \<and>
        (n \<in> fst ` set es \<longrightarrow> ld_set L (JObject es) n v = JObject (obj_set n v es)))"

definition is_text :: "js_value \<Rightarrow> bool" where
  "is_text d \<longleftrightarrow> (case d of JString _ \<Rightarrow> True | _ \<Rightarrow> False)"

lemma is_text_iff: "is_text d \<longleftrightarrow> (\<exists>s. d = JString s)"
  by (cases d) (simp_all add: is_text_def)

definition flat_schema :: "schema \<Rightarrow> bool" where
  "flat_schema S \<longleftrightarrow>
     sc_attributes S \<noteq> [] \<and> distinct (map fst (sc_attributes S)) \<and>
     (\<forall>(n, d) \<in> set (sc_attributes S). plain_name n \<and> is_text d) \<and>
     (\<forall>n \<in> fst ` set (sc_attributes S). case map_of (sc_map S) n of None \<Rightarrow> False | Some k \<Rightarrow>
        k \<noteq> [] \<and> k \<noteq> lit ''_v'' \<and> hd k \<noteq> 36 \<and> map_of (sc_reversed S) k = Some n) \<and>
     sc_plugin_map S = [] \<and> sc_plugin_reversed S = [] \<and>
     sc_hooks S = generate_auto_hooks (S\<lparr>sc_hooks := no_hook_tables\<rparr>)"

definition key_of :: "schema \<Rightarrow> ustring \<Rightarrow> ustring" where
  "key_of S n = the (map_of (sc_map S) n)"

definition def_of :: "schema \<Rightarrow> ustring \<Rightarrow> js_value" where
  "def_of S n = the (map_of (sc_attributes S) n)"

lemma plain_name_index: "plain_name n \<Longrightarrow> index_key n = None"
  by (simp add: plain_name_def index_key_plain)

lemma obj_set_new: "plain_name n \<Longrightarrow> n \<notin> fst ` set es \<Longrightarrow> obj_set n v es = es @ [(n, v)]"
  by (simp add: obj_set_def plain_name_index)

lemma flat_schema_key:
  assumes "flat_schema S" "n \<in> fst ` set (sc_attributes S)"
  shows "map_of (sc_map S) n = Some (key_of S n)" "key_of S n \<noteq> []" "key_of S n \<noteq> lit ''_v''"
    "hd (key_of S n) \<noteq> 36" "map_of (sc_reversed S) (key_of S n) = Some n" "plain_name n"
  using assms by (auto simp: flat_schema_def key_of_def split: prod.splits option.splits)

lemma key_for_flat:
  assumes "flat_schema S" "n \<in> fst ` set (sc_attributes S)"
  shows "key_for (sc_plugin_map S) (sc_map S) n = key_of S n"
    "key_for (sc_plugin_reversed S) (sc_reversed S) (key_of S n) = n"
  using assms flat_schema_key [OF assms]
  by (auto simp: flat_schema_def key_for_def plain_name_def)

lemma attribute_definition_flat:
  assumes "flat_schema S" "n \<in> fst ` set (sc_attributes S)"
  shows "attribute_definition S n = def_of S n"
proof -
  have "split_on 46 n = [n]" using flat_schema_key(6) [OF assms] by (simp add: plain_name_def split_on_no_sep)
  moreover have "map_of (sc_attributes S) n \<noteq> None" using assms(2) by (simp add: map_of_eq_None_iff)
  ultimately show ?thesis
    by (auto simp: attribute_definition_def def_of_def js_get_def prop_of_def)
qed

section \<open>The generated hooks\<close>

lemma auto_hooks_tables [simp]: "auto_hooks (S\<lparr>sc_hooks := h\<rparr>) = auto_hooks S"
  by (intro ext) (simp add: auto_hooks_def text_hooks_def cong: if_cong)

definition single_hooks :: "(js_value \<Rightarrow> action option) \<Rightarrow> fields \<Rightarrow> hook_table" where
  "single_hooks f es = List.map_filter (\<lambda>(n, d). map_option (\<lambda>a. (n, [a])) (f d)) es"

lemma single_hooks_simps [simp]:
  "single_hooks f [] = []"
  "single_hooks f ((n, d) # es) = (case f d of Some a \<Rightarrow> (n, [a]) # single_hooks f es | None \<Rightarrow> single_hooks f es)"
  by (simp_all add: single_hooks_def map_filter_simps split: option.splits)

lemma single_hooks_names: "fst ` set (single_hooks f es) \<subseteq> fst ` set es"
proof (induction es)
  case (Cons e es)
  then show ?case by (cases e; cases "f (snd e)") auto
qed simp

lemma map_of_single_hooks:
  "distinct (map fst es) \<Longrightarrow> map_of (single_hooks f es) n = (case map_of es n of Some d \<Rightarrow> map_option (\<lambda>a. [a]) (f d) | None \<Rightarrow> None)"
proof (induction es)
  case (Cons e es)
  obtain m d where e: "e = (m, d)" by (cases e)
  have "m \<notin> fst ` set (single_hooks f es)" using Cons.prems e single_hooks_names [of f es] by auto
  then have "map_of (single_hooks f es) m = None" by (simp add: map_of_eq_None_iff)
  then show ?case using Cons e by (auto split: option.splits)
qed simp

lemma add_hook_new: "plain_name n \<Longrightarrow> n \<notin> fst ` set t \<Longrightarrow> add_hook n a t = t @ [(n, [a])]"
proof -
  assume "plain_name n" "n \<notin> fst ` set t"
  moreover have "map_of t n = None" using \<open>n \<notin> fst ` set t\<close> by (simp add: map_of_eq_None_iff)
  ultimately show ?thesis by (simp add: add_hook_def obj_set_new uniq_actions_def)
qed

lemma generate_fold:
  assumes "distinct (map fst es)" "\<forall>(n, d) \<in> set es. plain_name n"
    and "fst ` set es \<inter> fst ` set (hk_before_map h) = {}" "fst ` set es \<inter> fst ` set (hk_after_unmap h) = {}"
  shows "fold (\<lambda>(name, definition) h.
         if contains name (lit ''$$'') \<or> has_hooks (hk_before_map h) name \<or> has_hooks (hk_after_unmap h) name
         then h else add_pair name (auto_hooks S definition) h) es h =
    h\<lparr>hk_before_map := hk_before_map h @ single_hooks (fst \<circ> auto_hooks S) es,
      hk_after_unmap := hk_after_unmap h @ single_hooks (snd \<circ> auto_hooks S) es\<rparr>"
  using assms
proof (induction es arbitrary: h)
  case (Cons e es)
  obtain n d where e: "e = (n, d)" by (cases e)
  obtain b a where ba: "auto_hooks S d = (b, a)" by (cases "auto_hooks S d")
  have n: "plain_name n" "n \<notin> fst ` set (hk_before_map h)" "n \<notin> fst ` set (hk_after_unmap h)"
    "n \<notin> fst ` set es" using Cons.prems e by auto
  have "\<not> contains n (lit ''$$'')"
  proof -
    have "index_of n [36, 36] = None" if "36 \<notin> set n" using that
      by (induction n) (subst index_of.simps, simp add: starts_with_def)+
    then show ?thesis using n(1) by (simp add: contains_def plain_name_def)
  qed
  moreover have "\<not> has_hooks (hk_before_map h) n" "\<not> has_hooks (hk_after_unmap h) n"
    using n(2,3) by (simp_all add: has_hooks_def map_of_eq_None_iff)
  ultimately have step: "(\<lambda>(name, definition) h.
         if contains name (lit ''$$'') \<or> has_hooks (hk_before_map h) name \<or> has_hooks (hk_after_unmap h) name
         then h else add_pair name (auto_hooks S definition) h) e h = add_pair n (auto_hooks S d) h"
    by (simp add: e)
  let ?h = "add_pair n (auto_hooks S d) h"
  have h: "?h = h\<lparr>hk_before_map := hk_before_map h @ single_hooks (fst \<circ> auto_hooks S) [e],
      hk_after_unmap := hk_after_unmap h @ single_hooks (snd \<circ> auto_hooks S) [e]\<rparr>"
    using add_hook_new [OF n(1,2)] add_hook_new [OF n(1,3)] ba
    by (simp add: add_pair_def e split: option.splits)
  have "fst ` set (hk_before_map ?h) \<subseteq> insert n (fst ` set (hk_before_map h))"
    "fst ` set (hk_after_unmap ?h) \<subseteq> insert n (fst ` set (hk_after_unmap h))"
    unfolding h by (auto simp: e split: option.splits)
  then show ?case
    using Cons.IH [of ?h] Cons.prems n(4) step
    by (auto simp: e h split: option.splits)
qed simp

lemma flat_hooks:
  assumes "flat_schema S"
  shows "sc_hooks S = \<lparr>hk_before_map = single_hooks (fst \<circ> auto_hooks S) (sc_attributes S), hk_after_map = [],
    hk_before_unmap = [], hk_after_unmap = single_hooks (snd \<circ> auto_hooks S) (sc_attributes S)\<rparr>"
proof -
  let ?es = "sc_attributes S"
  have d: "distinct (map fst ?es)" "\<forall>(n, d) \<in> set ?es. plain_name n" "?es \<noteq> []"
    and t: "\<forall>(n, d) \<in> set ?es. \<exists>s. d = JString s"
    using assms by (auto simp: flat_schema_def is_text_iff)
  have "original_hooks [] es h = h" if "\<forall>(n, d) \<in> set es. \<exists>s. d = JString s" for es h
    using that by (induction es) auto
  moreover have "flatten_fields True [] es = es" if "\<forall>(n, d) \<in> set es. \<exists>s. d = JString s" for es
    using that by (induction es) (auto simp: sub_path_def)
  moreover have "flatten_value True [] (JObject ?es) = flatten_fields True [] ?es"
    using d(3) by (cases ?es) auto
  moreover have "obj_of ?es = ?es"
    using d by (intro obj_of_plain) (auto simp: plain_name_def)
  ultimately have "flatten True (JObject ?es) = ?es" "original_hooks [] ?es no_hook_tables = no_hook_tables"
    using t by (simp_all add: flatten_def)
  then show ?thesis
    using assms generate_fold [OF d(1,2), of no_hook_tables]
    by (simp add: flat_schema_def generate_auto_hooks_def no_hook_tables_def)
qed

section \<open>Applying the hooks\<close>

text \<open>The hooks of a table on the fields of a record.\<close>

definition hook_value :: "action_world \<Rightarrow> schema \<Rightarrow> action option \<Rightarrow> js_value \<Rightarrow> js_value" where
  "hook_value W S b v =
     (case b of Some b \<Rightarrow> if v = JUndefined then v else run_action W (sc_separator S) b v | None \<Rightarrow> v)"

definition hook_fields :: "action_world \<Rightarrow> schema \<Rightarrow> (ustring \<Rightarrow> action option) \<Rightarrow> fields \<Rightarrow> fields" where
  "hook_fields W S f es = map (\<lambda>(n, v). (n, hook_value W S (f n) v)) es"

lemma update_map:
  "distinct (map fst es) \<Longrightarrow> n \<in> fst ` set es \<Longrightarrow>
    AList.update n w es = map (\<lambda>(m, v). (m, if m = n then w else v)) es"
proof (induction es)
  case (Cons e es)
  have "map (\<lambda>(m, v). (m, if m = n then w else v)) es = es" if "n = fst e"
  proof -
    have "n \<notin> fst ` set es" using Cons.prems(1) that by simp
    then have "\<forall>x \<in> set es. fst x \<noteq> n" by auto
    then show ?thesis by (intro map_idI) (auto simp: case_prod_beta)
  qed
  then show ?case using Cons by (cases e) auto
qed simp

lemma apply_hook_fields:
  assumes "lodash_ok L" "plain_name n" "distinct (map fst es)" "is_action a"
  shows "apply_hook W L S n a (JObject es) = JObject (hook_fields W S (\<lambda>m. if m = n then Some a else None) es)"
proof (cases "n \<in> fst ` set es")
  case True
  then obtain v where v: "(n, v) \<in> set es" by auto
  then have m: "map_of es n = Some v" using assms(3) by simp
  have vs: "m = n \<Longrightarrow> (m, v') \<in> set es \<Longrightarrow> v' = v" for m v' using m assms(3) by (metis map_of_is_SomeI option.inject)
  have "hook_fields W S (\<lambda>m. if m = n then Some a else None) es =
      (if v = JUndefined then es else map (\<lambda>(m, v'). (m, if m = n then run_action W (sc_separator S) a v else v')) es)"
    using vs by (auto simp: hook_fields_def hook_value_def intro!: map_idI)
  then show ?thesis
    using assms True m update_map [OF assms(3) True]
    by (auto simp: apply_hook_def lodash_ok_def prop_of_def obj_set_def)
next
  case False
  then have "map_of es n = None" by (simp add: map_of_eq_None_iff)
  then have "prop_of es n = JUndefined" by (simp add: prop_of_def)
  moreover have "hook_fields W S (\<lambda>m. if m = n then Some a else None) es = es"
  proof -
    have "\<forall>x \<in> set es. fst x \<noteq> n" using False by auto
    then show ?thesis by (auto simp: hook_fields_def hook_value_def case_prod_beta intro!: map_idI)
  qed
  ultimately show ?thesis using assms by (simp add: apply_hook_def lodash_ok_def)
qed

lemma hook_fields_fst [simp]: "map fst (hook_fields W S f es) = map fst es" "fst ` set (hook_fields W S f es) = fst ` set es"
  by (simp_all add: hook_fields_def case_prod_beta o_def image_image)

lemma hook_fields_twice:
  assumes "\<And>n. f n = None \<or> g n = None"
  shows "hook_fields W S g (hook_fields W S f es) = hook_fields W S (\<lambda>n. case f n of None \<Rightarrow> g n | Some a \<Rightarrow> Some a) es"
proof -
  have "hook_value W S (g n) (hook_value W S (f n) v) =
      hook_value W S (case f n of None \<Rightarrow> g n | Some a \<Rightarrow> Some a) v" for n v
    using assms [of n] by (cases "f n"; cases "g n") (auto simp: hook_value_def)
  then show ?thesis by (simp add: hook_fields_def case_prod_beta o_def)
qed

lemma apply_table:
  assumes "lodash_ok L" "distinct (map fst es)" "distinct (map fst ds)"
    and "\<forall>(n, d) \<in> set ds. plain_name n \<and> (\<forall>a. f d = Some a \<longrightarrow> is_action a)"
  shows "apply_hooks_actions W L S (single_hooks f ds) (JObject es) =
    JObject (hook_fields W S (\<lambda>n. case map_of ds n of Some d \<Rightarrow> f d | None \<Rightarrow> None) es)"
  using assms(2-)
proof (induction ds arbitrary: es)
  case Nil
  then show ?case
    by (simp add: apply_hooks_actions_def hook_fields_def hook_value_def)
next
  case (Cons e ds)
  obtain n d where e: "e = (n, d)" by (cases e)
  have n: "plain_name n" "map_of ds n = None" using Cons.prems e by (auto simp: map_of_eq_None_iff)
  show ?case
  proof (cases "f d")
    case None
    have "(\<lambda>m. case map_of (e # ds) m of Some d \<Rightarrow> f d | None \<Rightarrow> None) =
        (\<lambda>m. case map_of ds m of Some d \<Rightarrow> f d | None \<Rightarrow> None)"
      using None n(2) by (auto simp: e)
    then show ?thesis using Cons.IH [of es] Cons.prems None e by simp
  next
    case (Some a)
    let ?es = "hook_fields W S (\<lambda>m. if m = n then Some a else None) es"
    have "apply_hook W L S n a (JObject es) = JObject ?es"
      using Cons.prems e Some assms(1) n(1) by (intro apply_hook_fields) auto
    moreover have "apply_hooks_actions W L S (single_hooks f ds) (JObject ?es) =
        JObject (hook_fields W S (\<lambda>n. case map_of ds n of Some d \<Rightarrow> f d | None \<Rightarrow> None) ?es)"
      using Cons.prems by (intro Cons.IH) auto
    moreover have "hook_fields W S (\<lambda>n. case map_of ds n of Some d \<Rightarrow> f d | None \<Rightarrow> None) ?es =
        hook_fields W S (\<lambda>m. case map_of (e # ds) m of Some d \<Rightarrow> f d | None \<Rightarrow> None) es"
      using n(2) Some by (subst hook_fields_twice) (auto simp: e intro!: arg_cong [where f = "\<lambda>g. hook_fields W S g es"])
    ultimately show ?thesis using Some by (simp add: e apply_hooks_actions_def)
  qed
qed

section \<open>Generated hooks are actions\<close>

definition actions_only :: "action option \<times> action option \<Rightarrow> bool" where
  "actions_only p \<longleftrightarrow> pred_option is_action (fst p) \<and> pred_option is_action (snd p)"

lemma actions_only_if: "actions_only x \<Longrightarrow> actions_only y \<Longrightarrow> actions_only (if c then x else y)"
  by simp

lemma actions_only_hooks [simp]:
  "actions_only no_hooks" "actions_only (text_hooks S d)" "actions_only (array_hooks v i l)"
  "actions_only (array_definition_hooks def d)"
proof -
  show a: "actions_only (array_hooks v i l)" for v i l
    by (auto simp: array_hooks_def actions_only_def no_hooks_def split: js_value.splits)
  show "actions_only (array_definition_hooks def d)" by (simp only: array_definition_hooks_def Let_def a)
  show "actions_only no_hooks" by (simp add: no_hooks_def actions_only_def)
  then show "actions_only (text_hooks S d)"
    by (cases "compress_setting d") (auto simp: text_hooks_def actions_only_def Let_def)
qed

lemma actions_only_auto_hooks: "actions_only (auto_hooks S def)"
  unfolding auto_hooks_def Let_def
  by (intro actions_only_if) (simp_all add: actions_only_def, simp_all flip: actions_only_def)

lemma is_action_hooks:
  "fst (auto_hooks S def) = Some a \<Longrightarrow> is_action a" "snd (auto_hooks S def) = Some a \<Longrightarrow> is_action a"
  using actions_only_auto_hooks [of S def] by (simp_all add: actions_only_def)

section \<open>Records\<close>

text \<open>A value that is not taken apart by \<open>flatten\<close>: anything but an object with entries.\<close>

definition leaf :: "js_value \<Rightarrow> bool" where
  "leaf v \<longleftrightarrow> (case v of JObject es \<Rightarrow> es = [] | _ \<Rightarrow> True)"

lemma flatten_leaf: "leaf v \<Longrightarrow> flatten_value True path v = [(path, v)]"
  by (cases "(True, path, v)" rule: flatten_value.cases) (auto simp: leaf_def)

lemma flatten_leaves:
  assumes "es \<noteq> []" "distinct (map fst es)" "\<forall>(n, v) \<in> set es. plain_name n \<and> leaf v"
  shows "flatten True (JObject es) = es"
proof -
  have "\<forall>(n, v) \<in> set es. plain_name n \<and> leaf v \<Longrightarrow> flatten_fields True [] es = es" for es
    by (induction es) (auto simp: flatten_leaf sub_path_def)
  moreover have "flatten_value True [] (JObject es) = flatten_fields True [] es" using assms(1) by (cases es) auto
  moreover have "obj_of es = es" using assms(2,3) by (intro obj_of_plain) (auto simp: plain_name_def)
  ultimately show ?thesis using assms(3) by (simp add: flatten_def)
qed

lemma map_of_obj_fold:
  "map_of (foldl (\<lambda>rest (n, v). obj_set (k n) (g n v) rest) r es) x =
     (case map_of (rev (map (\<lambda>(n, v). (k n, g n v)) es)) x of Some w \<Rightarrow> Some w | None \<Rightarrow> map_of r x)"
proof (induction es rule: rev_induct)
  case (snoc e es)
  then show ?case by (cases e) (simp add: map_of_obj_set)
qed simp

lemma distinct_obj_fold:
  "distinct_keys r \<Longrightarrow> distinct_keys (foldl (\<lambda>rest (n, v). obj_set (k n) (g n v) rest) r es)"
  by (induction es arbitrary: r) auto

lemma map_of_image:
  "map_of (map (\<lambda>(k, w). (h k, out (h k))) es) x = (if x \<in> h ` fst ` set es then Some (out x) else None)"
  by (induction es) auto

lemma unmap_entries_all:
  assumes "\<forall>(k, w) \<in> set es. unmap_attribute W D S (key_for rpm rm k) w = Some (out (key_for rpm rm k))"
  shows "unmap_entries W D S rpm rm es rest =
    Some (foldl (\<lambda>r (k, w). obj_set (key_for rpm rm k) (out (key_for rpm rm k)) r) rest es)"
  using assms by (induction es arbitrary: rest) (auto simp: Let_def)

lemma unflatten_plain:
  assumes "\<forall>n \<in> fst ` set es. plain_name n"
  shows "unflatten es = Some (JObject (obj_of es))"
proof -
  have "set_all (JObject c) (map (\<lambda>(k, v). (split_on 46 k, v)) es) =
      Some (JObject (foldl (\<lambda>ob (k, v). obj_set k v ob) c es))"
    if "\<forall>n \<in> fst ` set es. plain_name n" for es c
    using that
  proof (induction es arbitrary: c)
    case (Cons e es)
    have "split_on 46 (fst e) = [fst e]" using Cons.prems by (simp add: plain_name_def split_on_no_sep)
    then show ?case using Cons by (cases e) (simp add: js_set_def)
  qed simp
  with assms show ?thesis by (simp add: unflatten_def obj_of_def)
qed

lemma no_dollar_copied:
  "\<forall>k \<in> fst ` set m. k = [] \<or> hd k \<noteq> 36 \<Longrightarrow>
    foldl (\<lambda>es (key, v). if starts_with key [36] then obj_set key v es else es) es m = es"
proof (induction m)
  case (Cons e m)
  then have "\<not> starts_with (fst e) [36]" by (cases "fst e") (auto simp: starts_with_def)
  then show ?case using Cons by (simp add: case_prod_beta)
qed simp

text \<open>The hooks of an attribute of a flat schema, applied to a record.\<close>

abbreviation before_hooks :: "action_world \<Rightarrow> schema \<Rightarrow> fields \<Rightarrow> fields" where
  "before_hooks W S \<equiv> hook_fields W S (\<lambda>n. fst (auto_hooks S (def_of S n)))"

lemma hook_fields_cong:
  "(\<And>n. n \<in> fst ` set es \<Longrightarrow> f n = g n) \<Longrightarrow> hook_fields W S f es = hook_fields W S g es"
  by (force simp: hook_fields_def)

lemma apply_before_map:
  assumes "flat_schema S" "lodash_ok L" "distinct (map fst es)" "fst ` set es \<subseteq> fst ` set (sc_attributes S)"
  shows "apply_hooks_actions W L S (hk_before_map (sc_hooks S)) (JObject es) = JObject (before_hooks W S es)"
proof -
  have "apply_hooks_actions W L S (hk_before_map (sc_hooks S)) (JObject es) =
      JObject (hook_fields W S (\<lambda>n. case map_of (sc_attributes S) n of Some d \<Rightarrow> (fst \<circ> auto_hooks S) d | None \<Rightarrow> None) es)"
    using assms(1) unfolding flat_hooks [OF assms(1)] schema_hooks.simps
    by (intro apply_table [OF assms(2,3)]) (auto simp: flat_schema_def is_action_hooks)
  also have "hook_fields W S (\<lambda>n. case map_of (sc_attributes S) n of Some d \<Rightarrow> (fst \<circ> auto_hooks S) d | None \<Rightarrow> None) es =
      before_hooks W S es"
  proof (rule hook_fields_cong)
    fix n assume "n \<in> fst ` set es"
    then have "map_of (sc_attributes S) n \<noteq> None" using assms(4) by (auto simp: map_of_eq_None_iff)
    then show "(case map_of (sc_attributes S) n of Some d \<Rightarrow> (fst \<circ> auto_hooks S) d | None \<Rightarrow> None) =
        fst (auto_hooks S (def_of S n))"
      by (auto simp: def_of_def)
  qed
  finally show ?thesis .
qed

lemma key_of_inj: "flat_schema S \<Longrightarrow> inj_on (key_of S) (fst ` set (sc_attributes S))"
  by (rule inj_onI) (metis flat_schema_key(5) option.inject)

lemma keyed_names: "fst ` set (map (\<lambda>(n, v). (k n, g n v)) es) = k ` fst ` set es"
  by (simp add: image_image case_prod_beta)

lemma keyed_none:
  "\<forall>n \<in> fst ` set es. k n \<noteq> x \<Longrightarrow> map_of (map (\<lambda>(n, v). (k n, g n v)) es) x = None"
  unfolding map_of_eq_None_iff keyed_names by blast

text \<open>What the mapper stores: one field per field of the record, and the version.\<close>

lemma mapper_fields:
  assumes "flat_schema S" "lodash_ok L" "distinct (map fst es)" "es \<noteq> []"
    and names: "fst ` set es \<subseteq> fst ` set (sc_attributes S)" and leaves: "\<forall>v \<in> snd ` set (before_hooks W S es). leaf v"
  shows "distinct_keys (mapper W L D S es)"
    and "map_of (mapper W L D S es) = (map_of (map (\<lambda>(n, v). (key_of S n, stored_value W D S (def_of S n) v)) es))
      (lit ''_v'' \<mapsto> JString (sc_version S))"
proof -
  let ?h = "before_hooks W S es" and ?v = "[(lit ''_v'', JString (sc_version S))]"
  let ?g = "\<lambda>n v. map_value W D (def_of S n) v"
  have plain: "\<forall>n \<in> fst ` set es. plain_name n" using names flat_schema_key(6) [OF assms(1)] by blast
  have "flatten True (JObject ?h) = ?h"
  proof (rule flatten_leaves)
    show "?h \<noteq> []" using assms(4) by (simp add: hook_fields_def)
    show "distinct (map fst ?h)" using assms(3) by simp
    show "\<forall>(n, v) \<in> set ?h. plain_name n \<and> leaf v"
    proof (intro ballI, clarsimp)
      fix n v assume nv: "(n, v) \<in> set ?h"
      have "v \<in> snd ` set ?h" using image_eqI [OF _ nv, of v snd] by simp
      moreover have "n \<in> fst ` set es" using image_eqI [OF _ nv, of n fst] by simp
      ultimately show "plain_name n \<and> leaf v" using plain leaves by blast
    qed
  qed
  then have "mapper W L D S es = foldl (\<lambda>rest (key, v).
      obj_set (key_for (sc_plugin_map S) (sc_map S) key) (map_value W D (attribute_definition S key) v) rest) ?v ?h"
    using apply_before_map [OF assms(1-3) names] by (simp add: mapper_def)
  also have "\<dots> = foldl (\<lambda>rest (n, v). obj_set (key_of S n) (?g n v) rest) ?v ?h"
  proof (rule foldl_cong)
    fix rest e assume e: "e \<in> set ?h"
    have "fst ` set ?h = fst ` set es" by simp
    then have "fst e \<in> fst ` set (sc_attributes S)" using e names by blast
    then show "(\<lambda>rest (key, v). obj_set (key_for (sc_plugin_map S) (sc_map S) key)
          (map_value W D (attribute_definition S key) v) rest) rest e =
        (\<lambda>rest (n, v). obj_set (key_of S n) (?g n v) rest) rest e"
      using key_for_flat(1) [OF assms(1)] attribute_definition_flat [OF assms(1)] by (simp add: case_prod_beta)
  qed simp_all
  finally have m: "mapper W L D S es = foldl (\<lambda>rest (n, v). obj_set (key_of S n) (?g n v) rest) ?v ?h" .
  show "distinct_keys (mapper W L D S es)" unfolding m by (rule distinct_obj_fold) (simp add: distinct_keys_def)
  have st: "map (\<lambda>(n, v). (key_of S n, ?g n v)) ?h = map (\<lambda>(n, v). (key_of S n, stored_value W D S (def_of S n) v)) es"
    by (auto simp: hook_fields_def stored_value_def hook_value_def)
  let ?st = "map (\<lambda>(n, v). (key_of S n, stored_value W D S (def_of S n) v)) es"
  have "distinct (map fst ?st)"
    using assms(3) inj_on_subset [OF key_of_inj [OF assms(1)] names]
    by (simp add: o_def case_prod_beta distinct_map inj_on_def)
  then have rev: "map_of (rev ?st) = map_of ?st"
    by (intro map_of_rev) (simp only: distinct_keys_def)
  have "\<forall>n \<in> fst ` set es. key_of S n \<noteq> lit ''_v''"
    using flat_schema_key(3) [OF assms(1) subsetD [OF names]] by blast
  then have "map_of ?st (lit ''_v'') = None" by (rule keyed_none)
  then show "map_of (mapper W L D S es) = (map_of ?st)(lit ''_v'' \<mapsto> JString (sc_version S))"
    unfolding m by (intro ext, unfold map_of_obj_fold st rev) (simp split: option.splits)
qed

text \<open>What the unmapper makes of stored fields with the keys of distinct attributes.\<close>

lemma loaded_attribute:
  assumes "flat_schema S" "n \<in> fst ` set (sc_attributes S)"
  shows "unmap_attribute W D S n w = loaded_value W D S (def_of S n) w"
proof -
  have d: "distinct (map fst (sc_attributes S))" using assms(1) by (simp add: flat_schema_def)
  obtain d0 where "map_of (sc_attributes S) n = Some d0" using assms(2) by (metis map_of_eq_None_iff not_None_eq)
  then have "map_of (hk_after_unmap (sc_hooks S)) n = map_option (\<lambda>a. [a]) (snd (auto_hooks S (def_of S n)))"
    by (simp add: flat_hooks [OF assms(1)] map_of_single_hooks [OF d] def_of_def)
  then show ?thesis
    by (simp add: unmap_attribute_def attribute_definition_flat [OF assms] loaded_value_def)
qed

lemma unmapper_fields:
  assumes "flat_schema S" "distinct_keys m"
    and stored: "map_of m = (map_of (map (\<lambda>(n, v). (key_of S n, st n v)) es))(lit ''_v'' \<mapsto> ver)"
    and names: "fst ` set es \<subseteq> fst ` set (sc_attributes S)" and d: "distinct (map fst es)"
    and loads: "\<forall>(n, v) \<in> set es. loaded_value W D S (def_of S n) (st n v) = Some (out n)"
  shows "\<exists>es'. unmapper W L D S None None m = Some es' \<and>
    map_of es' = (\<lambda>n. if n \<in> fst ` set es then Some (out n) else None)"
proof -
  let ?st = "map (\<lambda>(n, v). (key_of S n, st n v)) es" and ?del = "AList.delete (lit ''_v'') m"
  let ?nm = "key_for (sc_plugin_reversed S) (sc_reversed S)"
  let ?rest = "foldl (\<lambda>r (k, w). obj_set (?nm k) (out (?nm k)) r) [] ?del"
  have key: "n \<in> fst ` set es \<Longrightarrow> ?nm (key_of S n) = n \<and> key_of S n \<noteq> lit ''_v'' \<and> hd (key_of S n) \<noteq> 36" for n
    using key_for_flat(2) [OF assms(1) subsetD [OF names]] flat_schema_key(3,4) [OF assms(1) subsetD [OF names]] by blast
  have "map_of ?st (lit ''_v'') = None" using key by (intro keyed_none) blast
  then have del: "map_of ?del = map_of ?st" by (auto simp: map_of_delete stored)
  have entries: "\<exists>n v. (n, v) \<in> set es \<and> k = key_of S n \<and> w = st n v" if "(k, w) \<in> set ?del" for k w
  proof -
    have "map_of ?st k = Some w" using that assms(2) del by (metis distinct_keys_delete distinct_keys_def map_of_is_SomeI)
    then have "(k, w) \<in> set ?st" by (rule map_of_SomeD)
    then show ?thesis by (auto simp del: ex_simps)
  qed
  have "\<forall>(k, w) \<in> set ?del. unmap_attribute W D S (?nm k) w = Some (out (?nm k))"
  proof (intro ballI, clarify)
    fix k w assume "(k, w) \<in> set ?del"
    then obtain n v where n: "(n, v) \<in> set es" "k = key_of S n" "w = st n v" using entries by blast
    then have m: "n \<in> fst ` set es" by force
    then have "unmap_attribute W D S n w = Some (out n)" using loaded_attribute [OF assms(1) subsetD [OF names m]] bspec [OF loads n(1)] n(3) by simp
    then show "unmap_attribute W D S (?nm k) w = Some (out (?nm k))" using key [OF m] n by simp
  qed
  then have run: "unmap_entries W D S (sc_plugin_reversed S) (sc_reversed S) ?del [] = Some ?rest"
    by (rule unmap_entries_all)
  have "?nm ` fst ` set ?del = fst ` set es"
  proof -
    have "fst ` set ?del = fst ` set ?st" unfolding dom_map_of_conv_image_fst [symmetric] del ..
    also have "\<dots> = key_of S ` fst ` set es" by (rule keyed_names)
    finally have "?nm ` fst ` set ?del = (\<lambda>n. ?nm (key_of S n)) ` fst ` set es" by (simp only: image_image)
    also have "\<dots> = (\<lambda>n. n) ` fst ` set es" using key by (intro image_cong refl) blast
    finally show ?thesis by simp
  qed
  then have mr: "map_of ?rest = (\<lambda>n. if n \<in> fst ` set es then Some (out n) else None)"
    by (intro ext, unfold map_of_obj_fold rev_map map_of_image set_rev) simp
  then have "fst ` set ?rest = fst ` set es"
    by (simp add: dom_map_of_conv_image_fst [symmetric] dom_def)
  then have "\<forall>n \<in> fst ` set ?rest. plain_name n" using names flat_schema_key(6) [OF assms(1)] by blast
  then have un: "unflatten ?rest = Some (JObject (obj_of ?rest))" by (rule unflatten_plain)
  have "distinct_keys ?rest" by (rule distinct_obj_fold) simp
  then have mo: "map_of (obj_of ?rest) = map_of ?rest" by (rule map_of_obj_of)
  have "\<forall>k \<in> fst ` set m. k = [] \<or> hd k \<noteq> 36"
  proof
    fix k assume "k \<in> fst ` set m"
    also have "fst ` set m = dom (map_of m)" by (rule dom_map_of_conv_image_fst [symmetric])
    also have "\<dots> = insert (lit ''_v'') (dom (map_of ?st))" unfolding stored by (simp only: dom_fun_upd) simp
    finally have "k \<in> insert (lit ''_v'') (fst ` set ?st)" unfolding dom_map_of_conv_image_fst .
    then show "k = [] \<or> hd k \<noteq> 36" using key unfolding keyed_names by auto
  qed
  note copy = no_dollar_copied [OF this]
  have "unmapper W L D S None None m = Some (obj_of ?rest)"
    unfolding unmapper_def flat_hooks [OF assms(1)] apply_hooks_actions_def Let_def
    by (simp only: schema_hooks.select_convs fold.simps id_apply option.case spread_entries.simps js_value.case run un copy)
  moreover have "map_of (obj_of ?rest) = (\<lambda>n. if n \<in> fst ` set es then Some (out n) else None)"
    using mo mr by (rule trans)
  ultimately show ?thesis by (intro exI conjI)
qed


definition plain_lodash :: lodash where
  "plain_lodash =
     \<lparr>ld_get = js_get,
      ld_set = (\<lambda>ob n v. case ob of JObject es \<Rightarrow> JObject (obj_set n v es) | _ \<Rightarrow> ob),
      ld_invert = map prod.swap\<rparr>"

lemma plain_lodash_ok: "lodash_ok plain_lodash"
  by (simp add: lodash_ok_def plain_lodash_def js_get_def)

definition user_schema :: schema where
  "user_schema = (sample_schema
        [(lit ''email'', JString (lit ''string'')), (lit ''active'', JString (lit ''boolean'')),
         (lit ''age'', JString (lit ''number|integer:true''))])
        \<lparr>sc_map := [(lit ''email'', lit ''0''), (lit ''active'', lit ''1''), (lit ''age'', lit ''2'')],
         sc_reversed := [(lit ''0'', lit ''email''), (lit ''1'', lit ''active''), (lit ''2'', lit ''age'')],
         sc_hooks := \<lparr>hk_before_map = [(lit ''active'', [From_Bool]), (lit ''age'', [To_Base62])], hk_after_map = [],
           hk_before_unmap = [], hk_after_unmap = [(lit ''active'', [To_Bool]), (lit ''age'', [From_Base62])]\<rparr>\<rparr>"

lemma user_schema_flat: "flat_schema user_schema"
  by code_simp


end
