(* ===== verification/Partitions.thy ===== *)
theory Partitions
  imports Schema_Values
begin

text \<open>
  The partition index of a resource, \<open>core/src/core/resource-partitions.class.ts\<close>: next to every record,
  one empty object per partition whose key spells the values of the partition's fields, so that the
  records with some values are found by listing a prefix.

  The index is the list of these objects: their keys with the version stored in their metadata. Its client
  is given by the calls that fail. \<open>mapWithConcurrency\<close> runs up to ten of the calls at a time; each touches
  the keys of one partition only, so they are taken one after the other, in the order of the partitions.
  Records hold no \<open>Date\<close> objects.
\<close>

type_synonym partition_fields = "(ustring \<times> ustring) list"
type_synonym partitions = "(ustring \<times> partition_fields) list"

record partition_world =
  pw_num_text :: "js_number \<Rightarrow> ustring"
  pw_dates :: dates
  pw_order :: "ustring \<Rightarrow> ustring \<Rightarrow> bool"

text \<open>\<open>pw_order a b\<close> stands for \<open>a.localeCompare(b) <= 0\<close>.\<close>

record resource =
  rs_name :: ustring
  rs_version :: ustring
  rs_attributes :: fields
  rs_partitions :: partitions
  rs_strict :: bool

datatype partition_error =
    Partition_Not_Found ustring
  | Missing_Field ustring ustring
  | No_Key_For ustring
  | No_Values ustring
  | Unsafe_Segment ustring
  | Not_In_Partition ustring ustring
  | Storage_Failed ustring

section \<open>Fields\<close>

text \<open>\<open>k in v\<close> for the own properties.\<close>

definition has_key :: "js_value \<Rightarrow> ustring \<Rightarrow> bool" where
  "has_key v k =
     (case v of
        JObject es \<Rightarrow> k \<in> fst ` set es
      | JArray vs \<Rightarrow> k = lit ''length'' \<or> (case index_key k of Some i \<Rightarrow> i < length vs | None \<Rightarrow> False)
      | _ \<Rightarrow> False)"

definition member :: "js_value \<Rightarrow> ustring \<Rightarrow> js_value" where
  "member v k =
     (case v of
        JArray vs \<Rightarrow> if k = lit ''length'' then JNumber (Num (of_nat (length vs))) else js_get v k
      | _ \<Rightarrow> js_get v k)"

fun walk :: "js_value \<Rightarrow> ustring list \<Rightarrow> js_value option" where
  "walk v [] = Some v"
| "walk v (k # ks) = (if has_key v k then walk (member v k) ks else None)"

definition field_exists :: "fields \<Rightarrow> ustring \<Rightarrow> bool" where
  "field_exists attributes name =
     (if starts_with name [95] then True
      else if 46 \<notin> set name then name \<in> fst ` set attributes
      else walk (JObject attributes) (split_on 46 name) \<noteq> None)"

definition nested_value :: "fields \<Rightarrow> ustring \<Rightarrow> js_value" where
  "nested_value data path =
     (if 46 \<notin> set path then prop_of data path
      else case walk (JObject data) (split_on 46 path) of Some v \<Rightarrow> v | None \<Rightarrow> JUndefined)"

section \<open>Validation\<close>

definition missing_fields :: "resource \<Rightarrow> partition_fields \<Rightarrow> ustring list" where
  "missing_fields R fs = filter (\<lambda>n. \<not> field_exists (rs_attributes R) n) (map fst fs)"

definition validate_partitions :: "resource \<Rightarrow> partition_error option" where
  "validate_partitions R =
     (if \<not> rs_strict R then None
      else map_option (\<lambda>(p, fs). Missing_Field p (hd (missing_fields R fs)))
        (find (\<lambda>(p, fs). missing_fields R fs \<noteq> []) (rs_partitions R)))"

definition find_orphaned :: "resource \<Rightarrow> (ustring \<times> ustring list) list" where
  "find_orphaned R =
     filter (\<lambda>(p, missing). missing \<noteq> []) (map (\<lambda>(p, fs). (p, missing_fields R fs)) (rs_partitions R))"

definition remove_orphaned :: "bool \<Rightarrow> resource \<Rightarrow> (ustring \<times> ustring list) list \<times> resource" where
  "remove_orphaned dryRun R =
     (let orphaned = find_orphaned R in
      if orphaned = [] then ([], R)
      else if dryRun then (orphaned, R)
      else (orphaned, R\<lparr>rs_partitions := filter (\<lambda>(p, _). p \<notin> fst ` set orphaned) (rs_partitions R)\<rparr>))"

section \<open>Keys\<close>

text \<open>Rules shorten texts and cut them, or what the date constructor reads in them, down to the day.\<close>

definition shorten :: "ustring \<Rightarrow> js_value \<Rightarrow> js_value" where
  "shorten rule v =
     (case (number_after (lit ''maxlength:'') rule, v) of
        (Some n, JString s) \<Rightarrow> if length s > n then JString (take n s) else v
      | _ \<Rightarrow> v)"

definition to_day :: "dates \<Rightarrow> js_value \<Rightarrow> js_value" where
  "to_day D v =
     (case v of
        JString s \<Rightarrow>
          if 84 \<in> set s \<and> 90 \<in> set s then JString (hd (split_on 84 s))
          else (case date_of_text D s of Some t \<Rightarrow> JString (hd (split_on 84 (iso_text D t))) | None \<Rightarrow> v)
      | _ \<Rightarrow> v)"

definition apply_rule :: "partition_world \<Rightarrow> js_value \<Rightarrow> ustring \<Rightarrow> js_value" where
  "apply_rule W v rule =
     (if is_nullish v then v
      else
        (let v = (if contains rule (lit ''maxlength:'') then shorten rule v else v)
         in if contains rule (lit ''date'') then to_day (pw_dates W) v else v))"

text \<open>\<open>Array.prototype.sort\<close> with a comparator is stable; \<open>le a b\<close> when it puts \<open>a\<close> no later than \<open>b\<close>.\<close>

fun insert_by :: "('a \<Rightarrow> 'a \<Rightarrow> bool) \<Rightarrow> 'a \<Rightarrow> 'a list \<Rightarrow> 'a list" where
  "insert_by le x [] = [x]"
| "insert_by le x (y # ys) = (if le x y then x # y # ys else y # insert_by le x ys)"

definition sort_by :: "('a \<Rightarrow> 'a \<Rightarrow> bool) \<Rightarrow> 'a list \<Rightarrow> 'a list" where
  "sort_by le xs = foldr (insert_by le) xs []"

definition sorted_fields :: "partition_world \<Rightarrow> partition_fields \<Rightarrow> partition_fields" where
  "sorted_fields W fs = sort_by (\<lambda>a b. pw_order W (fst a) (fst b)) fs"

definition segment_of :: "partition_world \<Rightarrow> ustring \<Rightarrow> js_value \<Rightarrow> ustring" where
  "segment_of W name v = name @ [61] @ js_string (pw_num_text W) v"

fun key_segments :: "partition_world \<Rightarrow> fields \<Rightarrow> partition_fields \<Rightarrow> ustring list option" where
  "key_segments W data [] = Some []"
| "key_segments W data ((name, rule) # fs) =
     (let v = apply_rule W (nested_value data name) rule in
      if is_nullish v then None
      else map_option ((#) (segment_of W name v)) (key_segments W data fs))"

text \<open>\<open>join\<close> of \<open>path\<close> on a POSIX system: the arguments between slashes, normalized.\<close>

fun normal_segments :: "bool \<Rightarrow> ustring list \<Rightarrow> ustring list \<Rightarrow> ustring list" where
  "normal_segments up stack [] = rev stack"
| "normal_segments up stack (s # ss) =
     (if s = [] \<or> s = [46] then normal_segments up stack ss
      else if s = [46, 46] then
        (if stack \<noteq> [] \<and> hd stack \<noteq> [46, 46] then normal_segments up (tl stack) ss
         else if up then normal_segments up (s # stack) ss
         else normal_segments up stack ss)
      else normal_segments up (s # stack) ss)"

definition path_normalize :: "ustring \<Rightarrow> ustring" where
  "path_normalize p =
     (if p = [] then [46]
      else
        (let root = (hd p = 47); trail = (last p = 47);
             n = join [47] (normal_segments (\<not> root) [] (split_on 47 p)) in
         if n = [] then (if root then [47] else if trail then [46, 47] else [46])
         else (if root then [47] else []) @ n @ (if trail then [47] else [])))"

definition path_join :: "ustring list \<Rightarrow> ustring" where
  "path_join parts =
     (let parts = filter (\<lambda>p. p \<noteq> []) parts in if parts = [] then [46] else path_normalize (join [47] parts))"

definition partition_path :: "resource \<Rightarrow> ustring \<Rightarrow> ustring list" where
  "partition_path R name = [lit ''resource='' @ rs_name R, lit ''partition='' @ name]"

definition get_key :: "partition_world \<Rightarrow> resource \<Rightarrow> ustring \<Rightarrow> js_value \<Rightarrow> fields \<Rightarrow> partition_error + ustring option" where
  "get_key W R name ident data =
     (case map_of (rs_partitions R) name of
        None \<Rightarrow> Inl (Partition_Not_Found name)
      | Some fs \<Rightarrow>
          (case key_segments W data (sorted_fields W fs) of
             None \<Rightarrow> Inr None
           | Some segs \<Rightarrow>
               let finalId = (if js_truthy ident then ident else prop_of data (lit ''id'')) in
               if segs = [] \<or> \<not> js_truthy finalId then Inr None
               else Inr (Some (path_join (partition_path R name @ segs @ [segment_of W (lit ''id'') finalId])))))"

definition value_segments :: "partition_world \<Rightarrow> partition_fields \<Rightarrow> fields \<Rightarrow> ustring list" where
  "value_segments W fs values =
     map (\<lambda>(name, rule). segment_of W name (apply_rule W (prop_of values name) rule))
       (filter (\<lambda>(name, _). \<not> is_nullish (prop_of values name)) (sorted_fields W fs))"

definition build_prefix :: "partition_world \<Rightarrow> resource \<Rightarrow> ustring \<Rightarrow> partition_fields \<Rightarrow> fields \<Rightarrow> ustring" where
  "build_prefix W R name fs values = join [47] (partition_path R name @ value_segments W fs values)"

text \<open>\<open>replace\<close> of a text by nothing, at its first occurrence.\<close>

definition without :: "ustring \<Rightarrow> ustring \<Rightarrow> ustring" where
  "without s p = (case index_of s p of Some i \<Rightarrow> take i s @ drop (i + length p) s | None \<Rightarrow> s)"

definition extract_values ::
    "ustring \<Rightarrow> ustring list \<Rightarrow> partition_fields \<Rightarrow> partition_error + (ustring \<times> ustring) list" where
  "extract_values ident keys fs =
     (case find (\<lambda>key. lit ''id='' @ ident \<in> set (split_on 47 key)) keys of
        None \<Rightarrow> Inl (No_Key_For ident)
      | Some key \<Rightarrow>
          Inr (foldl (\<lambda>found (name, _).
              case find (\<lambda>part. starts_with part (name @ [61])) (split_on 47 key) of
                Some part \<Rightarrow> obj_set name (without part (name @ [61])) found
              | None \<Rightarrow> found) [] fs))"

section \<open>Keeping the index\<close>

type_synonym index = "(ustring \<times> ustring) list"

record index_client =
  ic_put_fails :: "ustring \<Rightarrow> bool"
  ic_delete_fails :: "ustring \<Rightarrow> bool"
  ic_delete_all_fails :: "ustring list \<Rightarrow> bool"
  ic_list_fails :: "ustring \<Rightarrow> bool"
  ic_partition_index :: bool

definition put_key :: "index_client \<Rightarrow> resource \<Rightarrow> ustring \<Rightarrow> index \<Rightarrow> bool \<times> index" where
  "put_key C R key ix =
     (if ic_put_fails C key then (False, ix) else (True, AList.update key (rs_version R) ix))"

definition delete_key :: "index_client \<Rightarrow> ustring \<Rightarrow> index \<Rightarrow> bool \<times> index" where
  "delete_key C key ix = (if ic_delete_fails C key then (False, ix) else (True, AList.delete key ix))"

definition delete_keys :: "index_client \<Rightarrow> ustring list \<Rightarrow> index \<Rightarrow> bool \<times> index" where
  "delete_keys C keys ix =
     (if ic_delete_all_fails C keys then (False, ix) else (True, filter (\<lambda>(k, _). k \<notin> set keys) ix))"

text \<open>The keys of a record, one for each partition that has all of its fields.\<close>

definition record_key :: "partition_world \<Rightarrow> resource \<Rightarrow> fields \<Rightarrow> ustring \<Rightarrow> ustring option" where
  "record_key W R data name =
     (case get_key W R name (prop_of data (lit ''id'')) data of Inr (Some key) \<Rightarrow> Some key | _ \<Rightarrow> None)"

definition record_keys :: "partition_world \<Rightarrow> resource \<Rightarrow> fields \<Rightarrow> ustring list" where
  "record_keys W R data = List.map_filter (\<lambda>(name, _). record_key W R data name) (rs_partitions R)"

fun put_all :: "index_client \<Rightarrow> resource \<Rightarrow> ustring list \<Rightarrow> index \<Rightarrow> ustring list \<times> index" where
  "put_all C R [] ix = ([], ix)"
| "put_all C R (key # keys) ix =
     (let (ok, ix) = put_key C R key ix; (failed, ix) = put_all C R keys ix in
      (if ok then failed else key # failed, ix))"

text \<open>A failed write of a new record's reference is only a warning: the keys that failed.\<close>

definition create_references :: "partition_world \<Rightarrow> index_client \<Rightarrow> resource \<Rightarrow> fields \<Rightarrow> index \<Rightarrow> ustring list \<times> index" where
  "create_references W C R data ix = put_all C R (record_keys W R data) ix"

definition delete_references ::
    "partition_world \<Rightarrow> index_client \<Rightarrow> resource \<Rightarrow> fields \<Rightarrow> index \<Rightarrow> partition_error option \<times> index" where
  "delete_references W C R data ix =
     (let keys = record_keys W R data in
      if keys = [] then (None, ix)
      else case delete_keys C keys ix of
        (ok, ix) \<Rightarrow> (if ok then None else Some (Storage_Failed (lit ''deleteReferences'')), ix))"

definition update_references ::
    "partition_world \<Rightarrow> index_client \<Rightarrow> resource \<Rightarrow> fields \<Rightarrow> index \<Rightarrow> partition_error option \<times> index" where
  "update_references W C R data ix =
     (case put_all C R (record_keys W R data) ix of
        (failed, ix) \<Rightarrow> (if failed = [] then None else Some (Storage_Failed (lit ''updateReferences'')), ix))"

text \<open>
  The new key is written and the old one deleted; both calls are made whether or not the other one fails,
  and when both fail the first failure in time is reported (here the deletion).
\<close>

definition update_reference ::
    "partition_world \<Rightarrow> index_client \<Rightarrow> resource \<Rightarrow> ustring \<Rightarrow> fields \<Rightarrow> fields \<Rightarrow> index \<Rightarrow>
       partition_error option \<times> index" where
  "update_reference W C R name oldData newData ix =
     (let newId = prop_of newData (lit ''id'');
          ident = (if js_truthy newId then newId else prop_of oldData (lit ''id'')) in
      case (get_key W R name ident oldData, get_key W R name ident newData) of
        (Inr oldKey, Inr newKey) \<Rightarrow>
          if oldKey \<noteq> newKey then
            (let (okDelete, ix) = (case oldKey of Some k \<Rightarrow> delete_key C k ix | None \<Rightarrow> (True, ix));
                 (okPut, ix) = (case newKey of Some k \<Rightarrow> put_key C R k ix | None \<Rightarrow> (True, ix)) in
             (if \<not> okDelete then Some (Storage_Failed (lit ''handleReferenceUpdate.deleteOld''))
              else if \<not> okPut then Some (Storage_Failed (lit ''handleReferenceUpdate.putNew''))
              else None, ix))
          else (case newKey of
              Some k \<Rightarrow> (case put_key C R k ix of
                (ok, ix) \<Rightarrow> (if ok then None else Some (Storage_Failed (lit ''handleReferenceUpdate.refreshCurrent'')), ix))
            | None \<Rightarrow> (None, ix))
      | (Inl e, _) \<Rightarrow> (Some e, ix)
      | (_, Inl e) \<Rightarrow> (Some e, ix))"

text \<open>References of the record with other values, whoever wrote them, are removed.\<close>

definition clean_partition ::
    "partition_world \<Rightarrow> index_client \<Rightarrow> resource \<Rightarrow> ustring \<Rightarrow> js_value \<Rightarrow> fields \<Rightarrow> index \<Rightarrow>
       partition_error option \<times> index" where
  "clean_partition W C R name ident newData ix =
     (let prefix = join [47] (partition_path R name) @ [47] in
      if ic_list_fails C prefix
      then (Some (Storage_Failed (lit ''handleReferenceUpdates.listPartitionKeys'')), ix)
      else case get_key W R name ident newData of
        Inl e \<Rightarrow> (Some e, ix)
      | Inr validKey \<Rightarrow>
          (let keys = filter (\<lambda>k. starts_with k prefix) (map fst ix);
               stale = filter (\<lambda>k. ends_with k (lit ''/id='' @ js_string (pw_num_text W) ident) \<and> Some k \<noteq> validKey) keys in
           if stale = [] then (None, ix)
           else case delete_keys C stale ix of
             (ok, ix) \<Rightarrow>
               (if ok then None else Some (Storage_Failed (lit ''handleReferenceUpdates.deleteStalePartitionKeys'')), ix)))"

fun each_partition ::
    "(ustring \<Rightarrow> index \<Rightarrow> partition_error option \<times> index) \<Rightarrow> ustring list \<Rightarrow> index \<Rightarrow>
       partition_error option \<times> index" where
  "each_partition f [] ix = (None, ix)"
| "each_partition f (name # names) ix =
     (case f name ix of (e, ix) \<Rightarrow>
        (case each_partition f names ix of (e', ix) \<Rightarrow> (case e of Some e \<Rightarrow> Some e | None \<Rightarrow> e', ix)))"

definition update_all_references ::
    "partition_world \<Rightarrow> index_client \<Rightarrow> resource \<Rightarrow> fields \<Rightarrow> fields \<Rightarrow> index \<Rightarrow> partition_error option \<times> index" where
  "update_all_references W C R oldData newData ix =
     (let names = map fst (rs_partitions R);
          newId = prop_of newData (lit ''id'');
          ident = (if js_truthy newId then newId else prop_of oldData (lit ''id'')) in
      case each_partition (\<lambda>name. update_reference W C R name oldData newData) names ix of
        (Some e, ix) \<Rightarrow> (Some e, ix)
      | (None, ix) \<Rightarrow>
          if oldData \<noteq> [] \<and> \<not> ic_partition_index C
          then each_partition (\<lambda>name. clean_partition W C R name ident newData) names ix
          else (None, ix))"

section \<open>Reading through a partition\<close>

definition unsafe_segment :: "ustring \<Rightarrow> bool" where
  "unsafe_segment s \<longleftrightarrow> list_ex (\<lambda>u. u = 92 \<or> u = 47 \<or> u = 61 \<or> u = 37) s"

text \<open>
  The key that must exist for a record to be read through a partition; the read itself is the read of the
  record by its id. The look at the index does not fail for other reasons.
\<close>

definition partition_lookup :: "partition_world \<Rightarrow> resource \<Rightarrow> ustring \<Rightarrow> ustring \<Rightarrow> fields \<Rightarrow> partition_error + ustring" where
  "partition_lookup W R ident name values =
     (if unsafe_segment ident then Inl (Unsafe_Segment (lit ''id''))
      else case find (\<lambda>(_, v). \<not> is_nullish v \<and> unsafe_segment (js_string (pw_num_text W) v)) values of
        Some (field, _) \<Rightarrow> Inl (Unsafe_Segment (lit ''partitionValues.'' @ field))
      | None \<Rightarrow>
          (case map_of (rs_partitions R) name of
             None \<Rightarrow> Inl (Partition_Not_Found name)
           | Some fs \<Rightarrow>
               let segs = value_segments W fs values in
               if segs = [] then Inl (No_Values name)
               else Inr (path_join (partition_path R name @ segs @ [lit ''id='' @ ident]))))"

definition get_from_partition ::
    "partition_world \<Rightarrow> resource \<Rightarrow> (ustring \<Rightarrow> fields option) \<Rightarrow> ustring \<Rightarrow> ustring \<Rightarrow> fields \<Rightarrow> index \<Rightarrow>
       partition_error + fields option" where
  "get_from_partition W R get ident name values ix =
     (case partition_lookup W R ident name values of
        Inl e \<Rightarrow> Inl e
      | Inr key \<Rightarrow>
          if key \<in> fst ` set ix
          then Inr (map_option (\<lambda>data. obj_set (lit ''_partitionValues'') (JObject values)
              (obj_set (lit ''_partition'') (JString name) data)) (get ident))
          else Inl (Not_In_Partition ident name))"

end
