(* ===== verification/Partition_Queries.thy ===== *)
theory Partition_Queries
  imports Partitions
begin

text \<open>
  Listing and querying a resource, \<open>core/src/core/resource-query.class.ts\<close>, on a client with the listing
  calls only (\<open>getFilteredObjectsPage\<close> and \<open>getObjects\<close> are optional and absent): which prefix is listed,
  which partition a filter is served from, and what is compared afterwards.

  \<open>keys\<close> are all keys of the store in the order of its listing, \<open>get\<close> reads a record by its id (\<open>None\<close> when it
  fails; such an item is dropped). Hooks and events around the calls are left out, and so is the cache.
\<close>

section \<open>Planning\<close>

definition usable :: "js_value \<Rightarrow> bool" where
  "usable v \<longleftrightarrow> \<not> is_nullish v"

record candidate =
  cd_partition :: ustring
  cd_values :: fields
  cd_total :: nat

definition candidate_for :: "fields \<Rightarrow> ustring \<times> partition_fields \<Rightarrow> candidate option" where
  "candidate_for flt = (\<lambda>(name, fs).
     let values = List.map_filter (\<lambda>(n, _). case map_of flt n of
           Some v \<Rightarrow> if usable v then Some (n, v) else None | None \<Rightarrow> None) fs in
     if fs = [] \<or> values = [] then None
     else Some \<lparr>cd_partition = name, cd_values = values, cd_total = length fs\<rparr>)"

definition no_worse :: "partition_world \<Rightarrow> candidate \<Rightarrow> candidate \<Rightarrow> bool" where
  "no_worse W a b =
     (if length (cd_values b) \<noteq> length (cd_values a) then length (cd_values b) < length (cd_values a)
      else if cd_total a \<noteq> cd_total b then cd_total a < cd_total b
      else pw_order W (cd_partition a) (cd_partition b))"

definition resolve_partition :: "partition_world \<Rightarrow> resource \<Rightarrow> fields \<Rightarrow> (ustring \<times> fields) option" where
  "resolve_partition W R flt =
     (case sort_by (no_worse W) (List.map_filter (candidate_for flt) (rs_partitions R)) of
        [] \<Rightarrow> None
      | c # _ \<Rightarrow> Some (cd_partition c, cd_values c))"

definition enrich_values :: "resource \<Rightarrow> ustring option \<Rightarrow> fields \<Rightarrow> fields \<Rightarrow> fields" where
  "enrich_values R pt values flt =
     (case Option.bind pt (map_of (rs_partitions R)) of
        None \<Rightarrow> values
      | Some fs \<Rightarrow>
          foldl (\<lambda>vs (n, _).
              if n \<in> fst ` set vs then vs
              else (case map_of flt n of Some v \<Rightarrow> if usable v then obj_set n v vs else vs | None \<Rightarrow> vs))
            values fs)"

text \<open>
  \<open>===\<close>: a number that is none differs from itself. Arrays and objects are the same when they are equal, as
  those that both come from the filter are.
\<close>

definition strict_equals :: "js_value \<Rightarrow> js_value \<Rightarrow> bool" where
  "strict_equals v w \<longleftrightarrow> v = w \<and> v \<noteq> JNumber NaN"

definition residual_filter :: "partition_world \<Rightarrow> resource \<Rightarrow> fields \<Rightarrow> ustring option \<Rightarrow> fields \<Rightarrow> fields" where
  "residual_filter W R flt pt values =
     (case Option.bind pt (map_of (rs_partitions R)) of
        None \<Rightarrow> flt
      | Some fs \<Rightarrow>
          foldl (\<lambda>flt (n, rule).
              case (map_of flt n, map_of values n) of
                (Some v, Some planned) \<Rightarrow>
                  if strict_equals (apply_rule W planned rule) (apply_rule W v rule) then AList.delete n flt else flt
              | _ \<Rightarrow> flt)
            flt fs)"

section \<open>Listing\<close>

definition data_prefix :: "resource \<Rightarrow> ustring" where
  "data_prefix R = lit ''resource='' @ rs_name R @ lit ''/data''"

text \<open>The prefix of \<open>count\<close> and \<open>listIds\<close>: a partition without values is passed over.\<close>

definition ids_prefix :: "partition_world \<Rightarrow> resource \<Rightarrow> ustring option \<Rightarrow> fields \<Rightarrow> partition_error + ustring" where
  "ids_prefix W R pt values =
     (case pt of
        Some p \<Rightarrow>
          if values = [] then Inr (data_prefix R)
          else (case map_of (rs_partitions R) p of
                  None \<Rightarrow> Inl (Partition_Not_Found p)
                | Some fs \<Rightarrow> Inr (build_prefix W R p fs values))
      | None \<Rightarrow> Inr (data_prefix R))"

definition keys_page :: "ustring list \<Rightarrow> ustring \<Rightarrow> nat \<Rightarrow> nat \<Rightarrow> ustring list" where
  "keys_page keys prefix offset amount = take amount (drop offset (filter (\<lambda>k. starts_with k prefix) keys))"

definition extract_ids :: "ustring list \<Rightarrow> ustring list" where
  "extract_ids keys =
     List.map_filter (\<lambda>key. map_option (\<lambda>part. without part (lit ''id=''))
       (find (\<lambda>part. starts_with part (lit ''id='')) (split_on 47 key))) keys"

definition amount_of :: "nat \<Rightarrow> nat" where
  "amount_of limit = (if limit = 0 then 1000 else limit)"

definition count_records :: "partition_world \<Rightarrow> resource \<Rightarrow> ustring list \<Rightarrow> ustring option \<Rightarrow> fields \<Rightarrow> partition_error + nat" where
  "count_records W R keys pt values =
     (case ids_prefix W R pt values of
        Inl e \<Rightarrow> Inl e
      | Inr prefix \<Rightarrow> Inr (length (filter (\<lambda>k. starts_with k prefix) keys)))"

definition list_ids ::
    "partition_world \<Rightarrow> resource \<Rightarrow> ustring list \<Rightarrow> ustring option \<Rightarrow> fields \<Rightarrow> nat \<Rightarrow> nat \<Rightarrow> partition_error + ustring list" where
  "list_ids W R keys pt values limit offset =
     (case ids_prefix W R pt values of
        Inl e \<Rightarrow> Inl e
      | Inr prefix \<Rightarrow> Inr (extract_ids (keys_page keys prefix offset (amount_of limit))))"

definition values_from_data :: "partition_world \<Rightarrow> partition_fields \<Rightarrow> fields \<Rightarrow> fields" where
  "values_from_data W fs data =
     foldl (\<lambda>vs (n, rule). if usable (nested_value data n) then obj_set n (apply_rule W (nested_value data n) rule) vs else vs)
       [] fs"

definition hydrate :: "(ustring \<Rightarrow> fields option) \<Rightarrow> (fields \<Rightarrow> fields) \<Rightarrow> ustring list \<Rightarrow> fields list" where
  "hydrate get decorate ids = List.map_filter (\<lambda>i. map_option decorate (get i)) ids"

definition decorate :: "partition_world \<Rightarrow> ustring \<Rightarrow> partition_fields \<Rightarrow> fields \<Rightarrow> fields" where
  "decorate W p fs data =
     obj_set (lit ''_partitionValues'') (JObject (values_from_data W fs data)) (obj_set (lit ''_partition'') (JString p) data)"

text \<open>What a listing reads: the prefix, and what is added to each record; an unknown partition has none.\<close>

definition listing :: "partition_world \<Rightarrow> resource \<Rightarrow> ustring option \<Rightarrow> fields \<Rightarrow> (ustring \<times> (fields \<Rightarrow> fields)) option" where
  "listing W R pt values =
     (case pt of
        None \<Rightarrow> Some (data_prefix R, id)
      | Some p \<Rightarrow> map_option (\<lambda>fs. (build_prefix W R p fs values, decorate W p fs)) (map_of (rs_partitions R) p))"

definition list_records ::
    "partition_world \<Rightarrow> resource \<Rightarrow> ustring list \<Rightarrow> (ustring \<Rightarrow> fields option) \<Rightarrow> ustring option \<Rightarrow> fields \<Rightarrow> nat \<Rightarrow> nat \<Rightarrow>
       fields list" where
  "list_records W R keys get pt values limit offset =
     (case listing W R pt values of
        None \<Rightarrow> []
      | Some (prefix, dec) \<Rightarrow> hydrate get dec (extract_ids (keys_page keys prefix offset (amount_of limit))))"

section \<open>Queries\<close>

definition matches :: "fields \<Rightarrow> fields \<Rightarrow> bool" where
  "matches flt data \<longleftrightarrow> list_all (\<lambda>(n, v). strict_equals (nested_value data n) v) flt"

lemma list_records_past_end:
  "list_records W R keys get pt values limit offset \<noteq> [] \<Longrightarrow> offset < length keys"
proof (rule ccontr)
  assume "\<not> offset < length keys"
  then have "length (filter P keys) \<le> offset" for P
    using length_filter_le [of P keys] by linarith
  then have "keys_page keys prefix offset amount = []" for prefix amount by (simp add: keys_page_def)
  then have "list_records W R keys get pt values limit offset = []"
    by (simp add: list_records_def extract_ids_def hydrate_def map_filter_simps split: option.splits)
  moreover assume "list_records W R keys get pt values limit offset \<noteq> []"
  ultimately show False by simp
qed

text \<open>
  The loop over batches of a listing. It ends: a batch that is not empty starts before the last key, and
  the next one starts later.
\<close>

function query_loop ::
    "partition_world \<Rightarrow> resource \<Rightarrow> ustring list \<Rightarrow> (ustring \<Rightarrow> fields option) \<Rightarrow> ustring option \<Rightarrow> fields \<Rightarrow> fields \<Rightarrow> nat \<Rightarrow>
       nat \<Rightarrow> fields list \<Rightarrow> fields list" where
  "query_loop W R keys get pt values flt limit offset results =
     (if length results < limit then
        (let size = min limit 50; batch = list_records W R keys get pt values size offset in
         if batch = [] then results
         else
           (let results = results @ filter (matches flt) batch in
            if length batch < size then results
            else query_loop W R keys get pt values flt limit (offset + size) results))
      else results)"
  by pat_completeness auto
termination
  by (relation "measure (\<lambda>(W, R, keys, get, pt, values, flt, limit, offset, results). length keys - offset)")
    (auto dest: list_records_past_end)

declare query_loop.simps [simp del]

text \<open>A partition is served from when it is asked for, or else the best one that has a field of the filter.\<close>

definition plan :: "partition_world \<Rightarrow> resource \<Rightarrow> fields \<Rightarrow> ustring option \<Rightarrow> fields \<Rightarrow> ustring option \<times> fields" where
  "plan W R flt pt values =
     (let (pt, values) =
        (case pt of
           Some p \<Rightarrow> (Some p, values)
         | None \<Rightarrow> (case resolve_partition W R flt of Some (p, vs) \<Rightarrow> (Some p, vs) | None \<Rightarrow> (None, values)))
      in (pt, enrich_values R pt values flt))"

definition query ::
    "partition_world \<Rightarrow> resource \<Rightarrow> ustring list \<Rightarrow> (ustring \<Rightarrow> fields option) \<Rightarrow> fields \<Rightarrow> nat \<Rightarrow> nat \<Rightarrow> ustring option \<Rightarrow>
       fields \<Rightarrow> partition_error + fields list" where
  "query W R keys get flt limit offset pt values =
     (if flt = [] then Inr (list_records W R keys get pt values limit offset)
      else
        (let (qp, qv) = plan W R flt pt values; residual = residual_filter W R flt qp qv in
         if residual = [] then Inr (list_records W R keys get qp qv limit offset)
         else (case listing W R qp qv of
             None \<Rightarrow> Inl (Partition_Not_Found (case qp of Some p \<Rightarrow> p | None \<Rightarrow> []))
           | Some _ \<Rightarrow> Inr (take limit (query_loop W R keys get qp qv residual limit offset [])))))"

end
