(* ===== verification/Partitions_Props.thy ===== *)
theory Partitions_Props
  imports Partitions
begin

text \<open>
  The partition index holds exactly the keys of the stored records, an update repairs it, and what a prefix
  finds.
\<close>

section \<open>Keys without slashes in their parts\<close>

definition clean :: "ustring \<Rightarrow> bool" where
  "clean s \<longleftrightarrow> 47 \<notin> set s"

definition clean_resource :: "resource \<Rightarrow> bool" where
  "clean_resource R \<longleftrightarrow>
     clean (rs_name R) \<and> distinct (map fst (rs_partitions R)) \<and>
     (\<forall>(p, fs) \<in> set (rs_partitions R). clean p \<and> (\<forall>f \<in> set fs. clean (fst f)))"

text \<open>A record with a text as its id and without a slash in what the partitions make of its fields.\<close>

definition record_ident :: "fields \<Rightarrow> ustring" where
  "record_ident data = (case prop_of data (lit ''id'') of JString i \<Rightarrow> i | _ \<Rightarrow> [])"

definition field_text :: "partition_world \<Rightarrow> fields \<Rightarrow> ustring \<times> ustring \<Rightarrow> ustring" where
  "field_text W data f = js_string (pw_num_text W) (apply_rule W (nested_value data (fst f)) (snd f))"

definition clean_record :: "partition_world \<Rightarrow> resource \<Rightarrow> fields \<Rightarrow> bool" where
  "clean_record W R data \<longleftrightarrow>
     prop_of data (lit ''id'') = JString (record_ident data) \<and> record_ident data \<noteq> [] \<and> clean (record_ident data) \<and>
     (\<forall>(p, fs) \<in> set (rs_partitions R). \<forall>f \<in> set fs. clean (field_text W data f))"

definition part :: "ustring \<Rightarrow> bool" where
  "part s \<longleftrightarrow> 61 \<in> set s \<and> clean s"

lemma part_append [simp]: "part (n @ 61 # v) \<longleftrightarrow> clean n \<and> clean v"
  by (auto simp: part_def clean_def)

lemma normal_parts: "\<forall>s \<in> set ss. part s \<Longrightarrow> normal_segments up stack ss = rev stack @ ss"
  by (induction ss arbitrary: stack) (auto simp: part_def)

lemma last_join:
  "ss \<noteq> [] \<Longrightarrow> \<forall>s \<in> set ss. s \<noteq> [] \<Longrightarrow>
    join c ss \<noteq> [] \<and> hd (join c ss) = hd (hd ss) \<and> last (join c ss) = last (last ss)"
  by (induction c ss rule: join.induct) auto

lemma path_join_parts:
  assumes "ss \<noteq> []" "\<forall>s \<in> set ss. part s"
  shows "path_join ss = join [47] ss"
proof -
  have n: "\<forall>s \<in> set ss. s \<noteq> [] \<and> 47 \<notin> set s" using assms(2) by (auto simp: part_def clean_def)
  then have f: "filter (\<lambda>p. p \<noteq> []) ss = ss" by (simp add: filter_id_conv)
  have j: "join [47] ss \<noteq> []" "hd (join [47] ss) = hd (hd ss)" "last (join [47] ss) = last (last ss)"
    using last_join [OF assms(1)] n by auto
  have "hd (hd ss) \<in> set (hd ss)" "last (last ss) \<in> set (last ss)" "hd ss \<in> set ss" "last ss \<in> set ss"
    using assms(1) n by simp_all
  then have "hd (hd ss) \<noteq> 47" "last (last ss) \<noteq> 47" using n by metis+
  moreover have "split_on 47 (join [47] ss) = ss" using assms(1) n by (intro split_on_join) auto
  ultimately show ?thesis
    using assms f j by (simp add: path_join_def path_normalize_def normal_parts Let_def)
qed

lemma set_sort_by [simp]: "set (sort_by le xs) = set xs"
proof -
  have "set (insert_by le x ys) = insert x (set ys)" for x ys
    by (induction ys) auto
  then show ?thesis by (induction xs) (simp_all add: sort_by_def)
qed

lemma sorted_fields_set [simp]: "set (sorted_fields W fs) = set fs"
  by (simp add: sorted_fields_def)

lemma key_segments_eq:
  "key_segments W data fs =
     (if \<exists>f \<in> set fs. is_nullish (apply_rule W (nested_value data (fst f)) (snd f)) then None
      else Some (map (\<lambda>f. fst f @ [61] @ field_text W data f) fs))"
proof (induction fs)
  case (Cons f fs)
  then show ?case by (cases f) (simp add: segment_of_def field_text_def Let_def)
qed simp

text \<open>The parts of the key of a record in a partition.\<close>

definition key_parts :: "partition_world \<Rightarrow> resource \<Rightarrow> fields \<Rightarrow> ustring \<Rightarrow> partition_fields \<Rightarrow> ustring list" where
  "key_parts W R data p fs =
     partition_path R p @ map (\<lambda>f. fst f @ [61] @ field_text W data f) fs @ [lit ''id='' @ record_ident data]"

definition has_fields :: "partition_world \<Rightarrow> fields \<Rightarrow> partition_fields \<Rightarrow> bool" where
  "has_fields W data fs \<longleftrightarrow> fs \<noteq> [] \<and> (\<forall>f \<in> set fs. \<not> is_nullish (apply_rule W (nested_value data (fst f)) (snd f)))"

lemma key_parts_part:
  assumes "clean_resource R" "clean_record W R data" "(p, fs) \<in> set (rs_partitions R)" "set fs' \<subseteq> set fs"
  shows "\<forall>s \<in> set (key_parts W R data p fs'). part s"
proof -
  have "clean (rs_name R)" "clean p" "\<forall>f \<in> set fs. clean (fst f)" "\<forall>f \<in> set fs. clean (field_text W data f)"
    "clean (record_ident data)"
    using assms(1-3) by (auto simp: clean_resource_def clean_record_def)
  moreover from this have "\<forall>f \<in> set fs'. clean (fst f)" "\<forall>f \<in> set fs'. clean (field_text W data f)"
    using assms(4) by blast+
  ultimately show ?thesis by (auto simp: key_parts_def partition_path_def part_def clean_def)
qed

lemma sorted_fields_Nil [simp]: "sorted_fields W fs = [] \<longleftrightarrow> fs = []"
  by (metis set_empty sorted_fields_set)

lemma get_key_clean:
  assumes "clean_resource R" "clean_record W R data" "(p, fs) \<in> set (rs_partitions R)" "clean_record W R data"
    and "ident = JString (record_ident data)"
  shows "get_key W R p ident data =
    Inr (if has_fields W data fs then Some (join [47] (key_parts W R data p (sorted_fields W fs))) else None)"
proof -
  have "map_of (rs_partitions R) p = Some fs" using assms(1,3) by (simp add: clean_resource_def)
  moreover have "path_join (key_parts W R data p (sorted_fields W fs)) = join [47] (key_parts W R data p (sorted_fields W fs))"
    using key_parts_part [OF assms(1-3), of "sorted_fields W fs"] by (intro path_join_parts) (auto simp: key_parts_def)
  moreover have "partition_path R p @ map (\<lambda>f. fst f @ [61] @ field_text W data f) (sorted_fields W fs) @
      [segment_of W (lit ''id'') ident] = key_parts W R data p (sorted_fields W fs)"
    by (simp add: key_parts_def segment_of_def assms(5))
  moreover have "js_truthy ident" using assms(2,5) by (simp add: clean_record_def)
  ultimately show ?thesis
    by (auto simp: get_key_def key_segments_eq has_fields_def Let_def)
qed

lemma record_key_clean:
  assumes "clean_resource R" "clean_record W R data" "(p, fs) \<in> set (rs_partitions R)"
  shows "record_key W R data p =
    (if has_fields W data fs then Some (join [47] (key_parts W R data p (sorted_fields W fs))) else None)"
  using get_key_clean [OF assms assms(2)] assms(2)
  by (simp add: record_key_def clean_record_def)

lemma split_key:
  assumes "clean_resource R" "clean_record W R data" "p \<in> fst ` set (rs_partitions R)" "record_key W R data p = Some k"
  shows "\<exists>segs. segs \<noteq> [] \<and> split_on 47 k = partition_path R p @ segs @ [lit ''id='' @ record_ident data] \<and>
    k = join [47] (partition_path R p @ segs @ [lit ''id='' @ record_ident data])"
proof -
  obtain fs where fs: "(p, fs) \<in> set (rs_partitions R)" using assms(3) by auto
  let ?parts = "key_parts W R data p (sorted_fields W fs)"
  have k: "k = join [47] ?parts" "has_fields W data fs"
    using assms(4) record_key_clean [OF assms(1,2) fs] by (auto split: if_splits)
  have "\<forall>s \<in> set ?parts. part s" using key_parts_part [OF assms(1,2) fs, of "sorted_fields W fs"] by simp
  then have "split_on 47 k = ?parts"
    unfolding k by (intro split_on_join) (auto simp: part_def clean_def key_parts_def)
  with k show ?thesis by (auto simp: key_parts_def has_fields_def)
qed

lemma key_determines:
  assumes "clean_resource R" "clean_record W R data" "clean_record W R data'"
    and "p \<in> fst ` set (rs_partitions R)" "p' \<in> fst ` set (rs_partitions R)"
    and "record_key W R data p = Some k" "record_key W R data' p' = Some k"
  shows "p = p' \<and> record_ident data = record_ident data'"
  using split_key [OF assms(1,2,4,6)] split_key [OF assms(1,3,5,7)]
  by (auto simp: partition_path_def)

lemma split_on_middle: "split_on c (r @ c # t) = split_on c r @ split_on c t"
  by (induction r) (auto split: list.splits)

lemma split_on_join_append:
  "ss \<noteq> [] \<Longrightarrow> \<forall>s \<in> set ss. clean s \<Longrightarrow> split_on 47 (join [47] ss @ 47 # t) = ss @ split_on 47 t"
  by (simp add: split_on_middle split_on_join clean_def)

lemma ends_with_iff: "ends_with s p \<longleftrightarrow> (\<exists>r. s = r @ p)"
  by (metis append_take_drop_id ends_with_append ends_with_def)

section \<open>The index holds the keys of the records\<close>

definition reliable :: "index_client \<Rightarrow> bool" where
  "reliable C \<longleftrightarrow> (\<forall>k. \<not> ic_put_fails C k \<and> \<not> ic_delete_fails C k \<and> \<not> ic_list_fails C k) \<and>
     (\<forall>ks. \<not> ic_delete_all_fails C ks)"

abbreviation keys_of :: "index \<Rightarrow> ustring set" where
  "keys_of ix \<equiv> fst ` set ix"

lemma keys_update [simp]: "keys_of (AList.update k v ix) = insert k (keys_of ix)"
  by (induction ix) auto

lemma keys_delete [simp]: "keys_of (AList.delete k ix) = keys_of ix - {k}"
  by (induction ix) auto

lemma client_calls:
  assumes "reliable C"
  shows "put_key C R k ix = (True, AList.update k (rs_version R) ix)" "delete_key C k ix = (True, AList.delete k ix)"
    "delete_keys C ks ix = (True, filter (\<lambda>(k, _). k \<notin> set ks) ix)" "\<not> ic_list_fails C k"
  using assms by (simp_all add: reliable_def put_key_def delete_key_def delete_keys_def)

lemma put_all_keys:
  "reliable C \<Longrightarrow> fst (put_all C R ks ix) = [] \<and> keys_of (snd (put_all C R ks ix)) = keys_of ix \<union> set ks"
  by (induction ks arbitrary: ix) (auto simp: client_calls Let_def split: prod.splits)

lemma keys_filter: "keys_of (filter (\<lambda>(k, _). k \<notin> A) ix) = keys_of ix - A"
  by force

lemma set_map_filter_iff: "set (List.map_filter f xs) = {y. \<exists>x \<in> set xs. f x = Some y}"
  by (induction xs) (auto simp: map_filter_simps split: option.splits)

lemma record_keys_set: "set (record_keys W R data) = {k. \<exists>p \<in> fst ` set (rs_partitions R). record_key W R data p = Some k}"
  by (simp add: record_keys_def set_map_filter_iff case_prod_beta)

text \<open>What an update does to one partition, and to all of them.\<close>

definition key_set :: "partition_world \<Rightarrow> resource \<Rightarrow> fields \<Rightarrow> ustring \<Rightarrow> ustring set" where
  "key_set W R data p = set_option (record_key W R data p)"

lemma get_key_record:
  assumes "clean_resource R" "clean_record W R data" "p \<in> fst ` set (rs_partitions R)"
    and "ident = JString (record_ident data)"
  shows "get_key W R p ident data = Inr (record_key W R data p)"
proof -
  obtain fs where fs: "(p, fs) \<in> set (rs_partitions R)" using assms(3) by auto
  show ?thesis using get_key_clean [OF assms(1,2) fs assms(2,4)] record_key_clean [OF assms(1,2) fs] by simp
qed

lemma update_reference_keys:
  assumes "reliable C" "clean_resource R" "clean_record W R old" "clean_record W R new" "record_ident old = record_ident new"
    and "p \<in> fst ` set (rs_partitions R)"
  shows "fst (update_reference W C R p old new ix) = None \<and>
    keys_of (snd (update_reference W C R p old new ix)) = keys_of ix - key_set W R old p \<union> key_set W R new p"
proof -
  let ?i = "JString (record_ident new)"
  have i: "prop_of new (lit ''id'') = ?i" "js_truthy ?i" using assms(4) by (simp_all add: clean_record_def)
  have k: "get_key W R p ?i old = Inr (record_key W R old p)" "get_key W R p ?i new = Inr (record_key W R new p)"
    using get_key_record [OF assms(2,3,6)] get_key_record [OF assms(2,4,6)] assms(5) by simp_all
  have n: "record_ident new \<noteq> []" using i(2) by simp
  note defs = update_reference_def Let_def i(1) n k client_calls [OF assms(1)] key_set_def
  show ?thesis
  proof (cases "record_key W R old p")
    case None
    then show ?thesis by (cases "record_key W R new p") (simp_all add: defs del: lit_Cons lit_Nil)
  next
    case (Some a)
    then show ?thesis
    proof (cases "record_key W R new p")
      case (Some b)
      then show ?thesis using \<open>record_key W R old p = Some a\<close> by (cases "a = b") (auto simp add: defs simp del: lit_Cons lit_Nil)
    qed (auto simp: defs simp del: lit_Cons lit_Nil)
  qed
qed

lemma each_partition_keys:
  assumes "\<And>p ix. p \<in> set ps \<Longrightarrow> fst (f p ix) = None \<and> keys_of (snd (f p ix)) = keys_of ix - A p \<union> B p"
    and "\<And>p q. p \<in> set ps \<Longrightarrow> q \<in> set ps \<Longrightarrow> p \<noteq> q \<Longrightarrow> A p \<inter> B q = {}"
    and "distinct ps"
  shows "fst (each_partition f ps ix) = None \<and>
    keys_of (snd (each_partition f ps ix)) = keys_of ix - (\<Union>p \<in> set ps. A p) \<union> (\<Union>p \<in> set ps. B p)"
  using assms
proof (induction ps arbitrary: ix)
  case (Cons p ps)
  obtain e ix1 where 1: "f p ix = (e, ix1)" by fastforce
  obtain e' ix2 where 2: "each_partition f ps ix1 = (e', ix2)" by fastforce
  have h: "e = None" "keys_of ix1 = keys_of ix - A p \<union> B p" using Cons.prems(1) [of p ix] 1 by simp_all
  have t: "e' = None" "keys_of ix2 = keys_of ix1 - (\<Union>p \<in> set ps. A p) \<union> (\<Union>p \<in> set ps. B p)"
    using Cons.IH [of ix1] Cons.prems 2 by simp_all
  have "B p \<inter> (\<Union>q \<in> set ps. A q) = {}" using Cons.prems(2,3) by fastforce
  then show ?case using 1 2 h t by auto
qed simp

definition stale_keys :: "partition_world \<Rightarrow> resource \<Rightarrow> fields \<Rightarrow> ustring \<Rightarrow> ustring set" where
  "stale_keys W R data p =
     {k. starts_with k (join [47] (partition_path R p) @ [47]) \<and> ends_with k (lit ''/id='' @ record_ident data) \<and>
        Some k \<noteq> record_key W R data p}"

lemma clean_partition_keys:
  assumes "reliable C" "clean_resource R" "clean_record W R new" "p \<in> fst ` set (rs_partitions R)"
  shows "fst (clean_partition W C R p (JString (record_ident new)) new ix) = None \<and>
    keys_of (snd (clean_partition W C R p (JString (record_ident new)) new ix)) = keys_of ix - stale_keys W R new p"
proof -
  let ?prefix = "join [47] (partition_path R p) @ [47]"
  let ?stale = "filter (\<lambda>k. ends_with k (lit ''/id='' @ record_ident new) \<and> Some k \<noteq> record_key W R new p)
      (filter (\<lambda>k. starts_with k ?prefix) (map fst ix))"
  have g: "get_key W R p (JString (record_ident new)) new = Inr (record_key W R new p)"
    by (rule get_key_record [OF assms(2-4) refl])
  have stale: "set ?stale = keys_of ix \<inter> stale_keys W R new p" by (auto simp: stale_keys_def)
  have "clean_partition W C R p (JString (record_ident new)) new ix =
      (None, if ?stale = [] then ix else filter (\<lambda>(k, _). k \<notin> set ?stale) ix)"
    unfolding clean_partition_def Let_def using client_calls [OF assms(1)]
    by (simp add: g del: lit_Cons lit_Nil filter_filter set_filter)
  moreover have "keys_of (if ?stale = [] then ix else filter (\<lambda>(k, _). k \<notin> set ?stale) ix) = keys_of ix - set ?stale"
    using keys_filter [of "set ?stale" ix] by (cases "?stale = []") (simp_all del: filter_filter set_filter)
  ultimately show ?thesis using stale by auto
qed

lemma key_partition_prefix:
  assumes "clean_resource R" "clean_record W R data" "p \<in> fst ` set (rs_partitions R)" "record_key W R data p = Some k"
    and "q \<in> fst ` set (rs_partitions R)" "starts_with k (join [47] (partition_path R q) @ [47])"
  shows "p = q"
proof -
  have c: "clean (lit ''resource='' @ rs_name R)" "clean (lit ''partition='' @ q)"
    using assms(1,5) by (auto simp: clean_resource_def clean_def)
  obtain r where "k = join [47] (partition_path R q) @ 47 # r" using assms(6) by (auto simp: starts_with_iff)
  then have "split_on 47 k = partition_path R q @ split_on 47 r"
    using c by (simp only:) (rule split_on_join_append, simp_all add: partition_path_def)
  then show ?thesis using split_key [OF assms(1-4)] by (auto simp: partition_path_def)
qed

lemma key_ident_suffix:
  assumes "clean_resource R" "clean_record W R data" "p \<in> fst ` set (rs_partitions R)" "record_key W R data p = Some k"
    and "clean i" "ends_with k (lit ''/id='' @ i)"
  shows "record_ident data = i"
proof -
  obtain r where "k = r @ lit ''/id='' @ i" using assms(6) by (auto simp only: ends_with_iff)
  then have "k = r @ 47 # lit ''id='' @ i" by simp
  then have "last (split_on 47 k) = lit ''id='' @ i"
    using assms(5) by (simp only: split_on_middle, subst split_on_no_sep [of 47 "lit ''id='' @ i"]) (auto simp: clean_def)
  then show ?thesis using split_key [OF assms(1-4)] by auto
qed

lemma update_all_keys:
  assumes "reliable C" "clean_resource R" "clean_record W R old" "clean_record W R new" "record_ident old = record_ident new"
  shows "fst (update_all_references W C R old new ix) = None \<and>
    keys_of (snd (update_all_references W C R old new ix)) =
      keys_of ix - set (record_keys W R old) -
        (if ic_partition_index C then {} else \<Union>p \<in> fst ` set (rs_partitions R). stale_keys W R new p) \<union>
      set (record_keys W R new)"
proof -
  let ?ps = "map fst (rs_partitions R)" and ?A = "key_set W R old" and ?B = "key_set W R new"
  have i: "prop_of new (lit ''id'') = JString (record_ident new)" "record_ident new \<noteq> []"
    using assms(4) by (simp_all add: clean_record_def)
  have d: "distinct ?ps" using assms(2) by (simp add: clean_resource_def)
  have AB: "?A p \<inter> ?B q = {}" if "p \<in> set ?ps" "q \<in> set ?ps" "p \<noteq> q" for p q
    using key_determines [OF assms(2-4)] that by (fastforce simp: key_set_def)
  have "?B p \<inter> stale_keys W R new q = {}" if "p \<in> set ?ps" "q \<in> set ?ps" for p q
    using key_partition_prefix [OF assms(2,4)] that by (fastforce simp: key_set_def stale_keys_def)
  then have BS: "(\<Union>p \<in> set ?ps. ?B p) \<inter> (\<Union>p \<in> set ?ps. stale_keys W R new p) = {}" by blast
  have un: "(\<Union>p \<in> set ?ps. key_set W R data p) = set (record_keys W R data)" for data
    by (auto simp: record_keys_set key_set_def)
  let ?U = "each_partition (\<lambda>name. update_reference W C R name old new) ?ps"
  let ?S = "each_partition (\<lambda>name. clean_partition W C R name (JString (record_ident new)) new) ?ps"
  have U: "fst (?U ix) = None \<and> keys_of (snd (?U ix)) = keys_of ix - set (record_keys W R old) \<union> set (record_keys W R new)"
    using each_partition_keys [OF update_reference_keys [OF assms] AB d] un by simp
  have S: "fst (?S jx) = None \<and> keys_of (snd (?S jx)) = keys_of jx - (\<Union>p \<in> set ?ps. stale_keys W R new p)" for jx
    using each_partition_keys [of ?ps "\<lambda>name. clean_partition W C R name (JString (record_ident new)) new" "stale_keys W R new" "\<lambda>_. {}" jx]
      clean_partition_keys [OF assms(1,2,4)] d by simp
  have "old \<noteq> []" using assms(3) by (auto simp: clean_record_def prop_of_def)
  then have "update_all_references W C R old new ix =
      (if ic_partition_index C then (None, snd (?U ix)) else ?S (snd (?U ix)))"
    using i U by (simp add: update_all_references_def Let_def case_prod_beta del: lit_Cons lit_Nil)
  then show ?thesis using U S [of "snd (?U ix)"] BS unfolding un by (cases "ic_partition_index C") auto
qed

section \<open>Histories\<close>

text \<open>
  The records of a resource and its index under the hooks: the insert hook, the update of a stored record
  and the delete hook.
\<close>

inductive reachable :: "partition_world \<Rightarrow> index_client \<Rightarrow> resource \<Rightarrow> (ustring \<Rightarrow> fields option) \<Rightarrow> index \<Rightarrow> bool"
  for W C R where
  reachable_start: "reachable W C R (\<lambda>_. None) []"
| reachable_insert:
    "reachable W C R recs ix \<Longrightarrow> clean_record W R data \<Longrightarrow> recs (record_ident data) = None \<Longrightarrow>
     reachable W C R (recs(record_ident data \<mapsto> data)) (snd (create_references W C R data ix))"
| reachable_update:
    "reachable W C R recs ix \<Longrightarrow> clean_record W R new \<Longrightarrow> recs (record_ident new) = Some old \<Longrightarrow>
     reachable W C R (recs(record_ident new \<mapsto> new)) (snd (update_all_references W C R old new ix))"
| reachable_delete:
    "reachable W C R recs ix \<Longrightarrow> recs i = Some data \<Longrightarrow>
     reachable W C R (recs(i := None)) (snd (delete_references W C R data ix))"

definition owned :: "partition_world \<Rightarrow> resource \<Rightarrow> fields option \<Rightarrow> ustring set" where
  "owned W R r = (case r of Some data \<Rightarrow> set (record_keys W R data) | None \<Rightarrow> {})"

definition index_spec :: "partition_world \<Rightarrow> resource \<Rightarrow> (ustring \<Rightarrow> fields option) \<Rightarrow> ustring set" where
  "index_spec W R recs = (\<Union>i. owned W R (recs i))"

definition recs_ok :: "partition_world \<Rightarrow> resource \<Rightarrow> (ustring \<Rightarrow> fields option) \<Rightarrow> bool" where
  "recs_ok W R recs \<longleftrightarrow> (\<forall>i data. recs i = Some data \<longrightarrow> clean_record W R data \<and> record_ident data = i)"

lemma keys_disjoint:
  assumes "clean_resource R" "clean_record W R data" "clean_record W R data'" "record_ident data \<noteq> record_ident data'"
  shows "set (record_keys W R data) \<inter> set (record_keys W R data') = {}"
  using key_determines [OF assms(1-3)] assms(4) by (fastforce simp: record_keys_set)

lemma stale_disjoint:
  assumes "clean_resource R" "clean_record W R data" "clean_record W R new" "record_ident data \<noteq> record_ident new"
  shows "set (record_keys W R data) \<inter> stale_keys W R new p = {}"
  using key_ident_suffix [OF assms(1,2)] assms(3,4)
  by (fastforce simp: record_keys_set stale_keys_def clean_record_def)

lemma owned_simps [simp]: "owned W R None = {}" "owned W R (Some data) = set (record_keys W R data)"
  by (simp_all add: owned_def)

lemma owned_disjoint:
  assumes "clean_resource R" "recs_ok W R recs" "i \<noteq> j"
  shows "owned W R (recs i) \<inter> owned W R (recs j) = {}"
  using keys_disjoint [OF assms(1)] assms(2,3)
  by (cases "recs i"; cases "recs j") (auto simp: recs_ok_def simp del: disjoint_iff)

lemma index_spec_upd:
  assumes "clean_resource R" "recs_ok W R recs"
  shows "index_spec W R (recs(i := r)) = (index_spec W R recs - owned W R (recs i)) \<union> owned W R r"
proof -
  have "index_spec W R (recs(i := r)) = (\<Union>j \<in> - {i}. owned W R (recs j)) \<union> owned W R r"
    by (auto simp: index_spec_def split: if_splits)
  moreover have "(\<Union>j \<in> - {i}. owned W R (recs j)) = index_spec W R recs - owned W R (recs i)"
  proof -
    have "(\<Union>j \<in> - {i}. owned W R (recs j)) \<inter> owned W R (recs i) = {}"
      using owned_disjoint [OF assms] by blast
    moreover have "index_spec W R recs = (\<Union>j \<in> - {i}. owned W R (recs j)) \<union> owned W R (recs i)"
    proof -
      have "UNIV = insert i (- {i})" by auto
      then show ?thesis unfolding index_spec_def by (metis UN_insert Un_commute)
    qed
    ultimately show ?thesis by (simp only: Un_Diff Diff_cancel Un_empty_right Diff_triv)
  qed
  ultimately show ?thesis by simp
qed

lemma disjoint_smaller: "A \<subseteq> B \<Longrightarrow> B \<inter> S = {} \<Longrightarrow> A \<inter> S = {}"
  by blast

lemma stale_not_others:
  assumes "clean_resource R" "recs_ok W R recs" "clean_record W R new"
  shows "(index_spec W R recs - owned W R (recs (record_ident new))) \<inter> stale_keys W R new p = {}"
proof -
  have others: "owned W R (recs j) \<inter> stale_keys W R new p = {}" if "j \<noteq> record_ident new" for j
  proof (cases "recs j")
    case (Some data)
    then have "clean_record W R data" "record_ident data = j" using assms(2) by (simp_all add: recs_ok_def)
    then show ?thesis using stale_disjoint [OF assms(1) _ assms(3)] Some that by simp
  qed simp
  have "index_spec W R recs - owned W R (recs (record_ident new)) \<subseteq>
      (\<Union>j \<in> - {record_ident new}. owned W R (recs j))"
    by (auto simp: index_spec_def)
  moreover have "(\<Union>j \<in> - {record_ident new}. owned W R (recs j)) \<inter> stale_keys W R new p = {}"
    using others by (auto simp: Int_UN_distrib2)
  ultimately show ?thesis by (rule disjoint_smaller)
qed

lemma recs_ok_upd:
  "recs_ok W R recs \<Longrightarrow> clean_record W R data \<Longrightarrow> recs_ok W R (recs(record_ident data \<mapsto> data))"
  "recs_ok W R recs \<Longrightarrow> recs_ok W R (recs(i := None))"
  by (auto simp: recs_ok_def)

lemma reachable_inv:
  assumes "reachable W C R recs ix" "reliable C" "clean_resource R"
  shows "recs_ok W R recs \<and> keys_of ix = index_spec W R recs"
  using assms(1)
proof induction
  case reachable_start
  then show ?case by (simp add: recs_ok_def index_spec_def)
next
  case (reachable_insert recs ix data)
  then show ?case
    using put_all_keys [OF assms(2), of R "record_keys W R data" ix] index_spec_upd [OF assms(3)] recs_ok_upd(1)
    by (simp add: create_references_def del: fun_upd_apply)
next
  case (reachable_update recs ix new old)
  then have old: "clean_record W R old" "record_ident old = record_ident new" by (auto simp: recs_ok_def)
  have "(index_spec W R recs - set (record_keys W R old)) \<inter> stale_keys W R new p = {}" for p
    using stale_not_others [OF assms(3), of W recs new p] reachable_update by simp
  then have "keys_of (snd (update_all_references W C R old new ix)) =
      index_spec W R recs - set (record_keys W R old) \<union> set (record_keys W R new)"
    using update_all_keys [OF assms(2,3) old(1) reachable_update.hyps(2) old(2), of ix] reachable_update.IH
    by (auto split: if_splits)
  then show ?case using index_spec_upd [OF assms(3)] recs_ok_upd(1) reachable_update by (simp del: fun_upd_apply)
next
  case (reachable_delete recs ix i data)
  have "keys_of (snd (delete_references W C R data ix)) = keys_of ix - set (record_keys W R data)"
    using keys_filter [of "set (record_keys W R data)" ix]
    by (simp add: delete_references_def client_calls [OF assms(2)] Let_def)
  then show ?case using index_spec_upd [OF assms(3)] recs_ok_upd(2) reachable_delete by (simp del: fun_upd_apply)
qed

text \<open>
  C32: whatever records are inserted, updated and deleted through the hooks, in whatever order, the index holds
  exactly one key for every stored record and partition whose fields the record has, as long as the storage does not
  fail and the values of partition fields, the names and the ids hold no slash.
\<close>

theorem partition_index_refines:
  assumes "reachable W C R recs ix" "reliable C" "clean_resource R"
  shows "keys_of ix = index_spec W R recs"
  using reachable_inv [OF assms] by simp

section \<open>Repair\<close>

lemma join_append: "xs \<noteq> [] \<Longrightarrow> ys \<noteq> [] \<Longrightarrow> join c (xs @ ys) = join c xs @ c @ join c ys"
  by (induction c xs rule: join.induct) (auto simp: neq_Nil_conv)

lemma key_in_partition:
  assumes "clean_resource R" "clean_record W R data" "p \<in> fst ` set (rs_partitions R)" "record_key W R data p = Some k"
  shows "starts_with k (join [47] (partition_path R p) @ [47])" "ends_with k (lit ''/id='' @ record_ident data)"
proof -
  obtain segs where segs: "segs \<noteq> []"
    "k = join [47] (partition_path R p @ segs @ [lit ''id='' @ record_ident data])"
    using split_key [OF assms] by blast
  have "k = (join [47] (partition_path R p) @ [47]) @ join [47] (segs @ [lit ''id='' @ record_ident data])"
    using segs(2) join_append [of "partition_path R p" "segs @ [lit ''id='' @ record_ident data]" "[47]"]
    by (simp add: partition_path_def)
  then show "starts_with k (join [47] (partition_path R p) @ [47])" by (metis starts_with_append)
  have "k = join [47] (partition_path R p @ segs) @ [47] @ (lit ''id='' @ record_ident data)"
    using segs join_append [of "partition_path R p @ segs" "[lit ''id='' @ record_ident data]" "[47]"]
    by (simp add: partition_path_def)
  moreover have "[47] @ (lit ''id='' @ record_ident data) = lit ''/id='' @ record_ident data" by simp
  ultimately show "ends_with k (lit ''/id='' @ record_ident data)" by (metis ends_with_append)
qed

text \<open>
  C33: an update leaves exactly one reference of the record in each partition, the one with its new values (none
  when a field is missing), whatever the index held before, on a client that does not keep the index itself.
\<close>

theorem update_repairs_index:
  assumes "reliable C" "clean_resource R" "clean_record W R old" "clean_record W R new"
    and "record_ident old = record_ident new" "\<not> ic_partition_index C" "p \<in> fst ` set (rs_partitions R)"
  shows "fst (update_all_references W C R old new ix) = None \<and>
    {k \<in> keys_of (snd (update_all_references W C R old new ix)).
       starts_with k (join [47] (partition_path R p) @ [47]) \<and> ends_with k (lit ''/id='' @ record_ident new)} =
    set_option (record_key W R new p)"
proof -
  let ?in = "\<lambda>k. starts_with k (join [47] (partition_path R p) @ [47]) \<and> ends_with k (lit ''/id='' @ record_ident new)"
  note keys = update_all_keys [OF assms(1-5), of ix]
  have new: "record_key W R new p = Some k" if "?in k" "k \<in> set (record_keys W R new)" for k
    using key_partition_prefix [OF assms(2,4) _ _ assms(7)] that by (auto simp: record_keys_set)
  have old: "record_key W R new p = Some k" if "?in k" "k \<notin> stale_keys W R new p" for k
    using that by (auto simp: stale_keys_def)
  have mem: "k \<in> set (record_keys W R new) \<and> ?in k" if "record_key W R new p = Some k" for k
    using key_in_partition [OF assms(2,4,7) that] that assms(7) by (auto simp: record_keys_set)
  show ?thesis
  proof (intro conjI set_eqI iffI)
    show "fst (update_all_references W C R old new ix) = None" using keys by simp
  next
    fix k assume "k \<in> {k \<in> keys_of (snd (update_all_references W C R old new ix)). ?in k}"
    then have "?in k" "k \<in> set (record_keys W R new) \<or> k \<notin> stale_keys W R new p"
      using keys assms(6,7) by auto
    then show "k \<in> set_option (record_key W R new p)" using new old by auto
  next
    fix k assume "k \<in> set_option (record_key W R new p)"
    then show "k \<in> {k \<in> keys_of (snd (update_all_references W C R old new ix)). ?in k}"
      using mem [of k] keys by simp
  qed
qed

section \<open>What a prefix finds\<close>

definition value_text :: "partition_world \<Rightarrow> fields \<Rightarrow> ustring \<times> ustring \<Rightarrow> ustring" where
  "value_text W values f = js_string (pw_num_text W) (apply_rule W (prop_of values (fst f)) (snd f))"

lemma starts_with_sep:
  "clean a \<Longrightarrow> clean b \<Longrightarrow> starts_with (a @ 47 # u) (b @ 47 # v) \<longleftrightarrow> a = b \<and> starts_with u v"
proof (induction a arbitrary: b)
  case Nil
  then show ?case by (cases b) (auto simp: clean_def starts_with_def)
next
  case (Cons x a)
  then show ?case by (cases b) (auto simp: clean_def starts_with_def)
qed

lemma starts_with_clean: "clean y \<Longrightarrow> starts_with (x @ 47 # r) y \<longleftrightarrow> starts_with x y"
proof (induction x arbitrary: y)
  case Nil
  then show ?case by (cases y) (auto simp: clean_def starts_with_def)
next
  case (Cons a x)
  then show ?case by (cases y) (auto simp: clean_def starts_with_def)
qed

lemma starts_with_join:
  assumes "\<forall>x \<in> set xs. clean x" "\<forall>y \<in> set ys. clean y" "length xs = length ys" "clean y" "r \<noteq> []"
  shows "starts_with (join [47] (xs @ x # r)) (join [47] (ys @ [y])) \<longleftrightarrow> xs = ys \<and> starts_with x y"
  using assms(3,1,2)
proof (induction xs ys rule: list_induct2)
  case Nil
  then show ?case using assms(4,5) by (cases r) (simp_all add: starts_with_clean)
next
  case (Cons a xs b ys)
  have "join [47] (a # xs @ x # r) = a @ 47 # join [47] (xs @ x # r)" by (cases "xs @ x # r") simp_all
  moreover have "join [47] (b # ys @ [y]) = b @ 47 # join [47] (ys @ [y])" by (cases "ys @ [y]") simp_all
  ultimately show ?case using Cons by (simp add: starts_with_sep)
qed

lemma prefix_finds:
  assumes "clean_resource R" "clean_record W R data" "(p, fs) \<in> set (rs_partitions R)" "record_key W R data p = Some k"
    and "sorted_fields W fs = fs1 @ f # fs2"
    and "\<forall>g \<in> set fs1 \<union> {f}. \<not> is_nullish (prop_of values (fst g)) \<and> clean (value_text W values g)"
    and "\<forall>g \<in> set fs2. is_nullish (prop_of values (fst g))"
  shows "starts_with k (build_prefix W R p fs values) \<longleftrightarrow>
    (\<forall>g \<in> set fs1. value_text W values g = field_text W data g) \<and> starts_with (field_text W data f) (value_text W values f)"
proof -
  let ?seg = "\<lambda>g. fst g @ [61] @ value_text W values g" and ?key = "\<lambda>g. fst g @ [61] @ field_text W data g"
  have segs: "value_segments W fs values = map ?seg fs1 @ [?seg f]"
    unfolding value_segments_def assms(5)
    using assms(6,7) by (simp add: value_text_def segment_of_def case_prod_beta filter_id_conv filter_empty_conv)
  have c: "\<forall>g \<in> set fs. clean (fst g) \<and> clean (field_text W data g)" "clean (lit ''resource='' @ rs_name R)"
    "clean (lit ''partition='' @ p)"
    using assms(1-3) by (auto simp: clean_resource_def clean_record_def clean_def)
  have fs: "set fs = set fs1 \<union> {f} \<union> set fs2" using sorted_fields_set [of W fs] unfolding assms(5) by auto
  have k: "k = join [47] ((partition_path R p @ map ?key fs1) @ ?key f # map ?key fs2 @ [lit ''id='' @ record_ident data])"
    using record_key_clean [OF assms(1-3)] assms(4,5) by (auto simp: key_parts_def split: if_splits)
  have "starts_with k (join [47] ((partition_path R p @ map ?seg fs1) @ [?seg f])) \<longleftrightarrow>
      partition_path R p @ map ?key fs1 = partition_path R p @ map ?seg fs1 \<and> starts_with (?key f) (?seg f)"
    unfolding k by (rule starts_with_join) (use c fs assms(6) in \<open>auto simp: partition_path_def clean_def\<close>)
  moreover have "starts_with (?key f) (?seg f) \<longleftrightarrow> starts_with (field_text W data f) (value_text W values f)"
    by (simp add: starts_with_def)
  ultimately show ?thesis unfolding build_prefix_def segs by auto
qed

end
