(* ===== verification/Partition_Queries_Props.thy ===== *)
theory Partition_Queries_Props
  imports Partition_Queries Partitions_Props
begin

text \<open>
  Queries against their specification, listings of a partition against the stored records, and what goes
  wrong between them.
\<close>

section \<open>The batch loop\<close>

definition row_of :: "(ustring \<Rightarrow> fields option) \<Rightarrow> (fields \<Rightarrow> fields) \<Rightarrow> ustring \<Rightarrow> fields" where
  "row_of get dec k = dec (the (get (hd (extract_ids [k]))))"

definition all_readable :: "(ustring \<Rightarrow> fields option) \<Rightarrow> ustring list \<Rightarrow> bool" where
  "all_readable get ks \<longleftrightarrow> (\<forall>k \<in> set ks. \<exists>i d. extract_ids [k] = [i] \<and> get i = Some d)"

lemma extract_ids_Cons: "extract_ids (k # ks) = extract_ids [k] @ extract_ids ks"
  by (simp add: extract_ids_def map_filter_simps split: option.splits)

lemma hydrate_rows: "all_readable get ks \<Longrightarrow> hydrate get dec (extract_ids ks) = map (row_of get dec) ks"
proof (induction ks)
  case Nil
  then show ?case by (simp add: hydrate_def extract_ids_def map_filter_simps)
next
  case (Cons k ks)
  obtain i d where "extract_ids [k] = [i]" "get i = Some d" using Cons.prems by (auto simp: all_readable_def)
  then show ?case
    using Cons by (simp add: extract_ids_Cons [of k ks] hydrate_def map_filter_simps row_of_def all_readable_def)
qed

lemma all_readable_subset: "all_readable get ks \<Longrightarrow> set ks' \<subseteq> set ks \<Longrightarrow> all_readable get ks'"
  by (auto simp: all_readable_def)

lemma list_records_rows:
  assumes "listing W R pt values = Some (prefix, dec)" "all_readable get (filter (\<lambda>k. starts_with k prefix) keys)"
  shows "list_records W R keys get pt values limit offset =
    take (amount_of limit) (drop offset (map (row_of get dec) (filter (\<lambda>k. starts_with k prefix) keys)))"
proof -
  have "set (keys_page keys prefix offset (amount_of limit)) \<subseteq> set (filter (\<lambda>k. starts_with k prefix) keys)"
    unfolding keys_page_def by (meson order_trans set_drop_subset set_take_subset)
  then have "all_readable get (keys_page keys prefix offset (amount_of limit))"
    using assms(2) by (rule all_readable_subset [rotated])
  then show ?thesis
    using assms(1) by (simp add: list_records_def hydrate_rows) (simp add: keys_page_def take_map drop_map)
qed

lemma take_short: "length (take n xs) < n \<Longrightarrow> take n xs = xs"
  by simp

lemma query_loop_rows:
  assumes "listing W R pt vals = Some (prefix, dec)" "all_readable get (filter (\<lambda>k. starts_with k prefix) keys)"
  shows "take limit (query_loop W R keys get pt vals flt limit offset results) =
    take limit (results @ filter (matches flt) (drop offset (map (row_of get dec) (filter (\<lambda>k. starts_with k prefix) keys))))"
  using assms
proof (induction W R keys get pt vals flt limit offset results rule: query_loop.induct)
  case (1 W R keys get pt vals flt limit offset results)
  let ?rows = "map (row_of get dec) (filter (\<lambda>k. starts_with k prefix) keys)" and ?size = "min limit 50"
  let ?batch = "list_records W R keys get pt vals ?size offset"
  show ?case
  proof (cases "length results < limit")
    case True
    then have size: "?size > 0" by simp
    then have b: "?batch = take ?size (drop offset ?rows)"
      using list_records_rows [OF "1.prems", of ?size offset] by (simp add: amount_of_def)
    consider "?batch = []" | "?batch \<noteq> []" "length ?batch < ?size" | "?batch \<noteq> []" "\<not> length ?batch < ?size" by blast
    then show ?thesis
    proof cases
      case 1
      then have "drop offset ?rows = []" using b size by (metis take_eq_Nil less_not_refl)
      then show ?thesis using True 1 by (subst query_loop.simps) (simp del: drop_eq_Nil)
    next
      case 2
      then have "drop offset ?rows = ?batch" unfolding b by (metis take_short)
      then show ?thesis using True 2 by (subst query_loop.simps) (simp add: Let_def)
    next
      case 3
      have "filter P (drop offset ?rows) = filter P ?batch @ filter P (drop (offset + ?size) ?rows)" for P
        using append_take_drop_id [of ?size "drop offset ?rows"] b
        by (metis add.commute drop_drop filter_append)
      moreover have "query_loop W R keys get pt vals flt limit offset results =
          query_loop W R keys get pt vals flt limit (offset + ?size) (results @ filter (matches flt) ?batch)"
        using True 3 by (subst query_loop.simps) (simp only: Let_def if_True if_False)
      ultimately show ?thesis
        using "1.IH" [OF True refl refl 3(1) refl 3(2) "1.prems"] by simp
    qed
  qed (subst query_loop.simps, simp)
qed


section \<open>Listing a partition\<close>

lemma starts_with_id: "starts_with (lit ''id='' @ i) (lit ''id='')"
  by (rule starts_with_append)

lemma without_prefix: "without (p @ i) p = i"
  by (subst without_def, subst index_of.simps) simp

lemma extract_key:
  assumes "clean_resource R" "clean_record W R data" "(p, fs) \<in> set (rs_partitions R)" "record_key W R data p = Some k"
    and "\<forall>g \<in> set fs. \<not> starts_with (fst g @ [61]) (lit ''id='')"
  shows "extract_ids [k] = [record_ident data]"
proof -
  let ?parts = "key_parts W R data p (sorted_fields W fs)"
  have k: "k = join [47] ?parts" "has_fields W data fs"
    using assms(4) record_key_clean [OF assms(1-3)] by (auto split: if_splits)
  have "\<forall>s \<in> set ?parts. part s" using key_parts_part [OF assms(1-3), of "sorted_fields W fs"] by simp
  then have s: "split_on 47 k = ?parts"
    unfolding k by (intro split_on_join) (auto simp: part_def clean_def key_parts_def)
  have field: "\<not> starts_with (n @ 61 # t) (lit ''id='')" if "\<not> starts_with (n @ [61]) (lit ''id='')" for n t
  proof (cases "length n < 3")
    case True
    then have "n = [] \<or> (\<exists>a. n = [a]) \<or> (\<exists>a b. n = [a, b])" by (cases n; cases "tl n"; cases "tl (tl n)") auto
    then show ?thesis using that by (auto simp: starts_with_def)
  qed (use that in \<open>auto simp: starts_with_def not_less\<close>)
  have "find (\<lambda>part. starts_with part (lit ''id='')) ?parts = Some (lit ''id='' @ record_ident data)"
  proof -
    have none: "find P (xs @ [x]) = Some x" if "\<forall>y \<in> set xs. \<not> P y" "P x" for P :: "ustring \<Rightarrow> bool" and xs x
      using that by (induction xs) auto
    have "\<forall>y \<in> set (partition_path R p @ map (\<lambda>f. fst f @ [61] @ field_text W data f) (sorted_fields W fs)).
        \<not> starts_with y (lit ''id='')"
      using field assms(5) by (auto simp: partition_path_def simp del: lit_Cons lit_Nil) (simp_all add: starts_with_def)
    then show ?thesis
      unfolding key_parts_def append_assoc [symmetric] using starts_with_id by (rule none)
  qed
  then show ?thesis
    unfolding extract_ids_def map_filter_simps s by (simp only: option.map option.case without_prefix list.map)
qed

lemma starts_with_longer: "starts_with k (p @ q) \<Longrightarrow> starts_with k p"
  by (auto simp: starts_with_iff)

lemma key_of_record:
  assumes "reachable W C R recs ix" "reliable C" "clean_resource R" "(p, fs) \<in> set (rs_partitions R)"
    and "k \<in> keys_of ix" "starts_with k (join [47] (partition_path R p) @ [47])"
  shows "\<exists>d. recs (record_ident d) = Some d \<and> clean_record W R d \<and> record_key W R d p = Some k"
proof -
  note inv = reachable_inv [OF assms(1-3)]
  obtain i where i: "k \<in> owned W R (recs i)" using inv assms(5) by (auto simp: index_spec_def)
  then obtain d where d: "recs i = Some d" "k \<in> set (record_keys W R d)" by (cases "recs i") auto
  then have ok: "clean_record W R d" "record_ident d = i" using inv by (auto simp: recs_ok_def)
  obtain q where q: "q \<in> fst ` set (rs_partitions R)" "record_key W R d q = Some k"
    using d(2) by (auto simp: record_keys_set)
  have "p \<in> fst ` set (rs_partitions R)" using assms(4) by force
  then have "q = p" using key_partition_prefix [OF assms(3) ok(1) q _ assms(6)] by simp
  then show ?thesis using d ok q by auto
qed

text \<open>
  C34: listing a partition, after any history of inserts, updates and deletes, gives exactly the records that have all
  fields of the partition, agree with the values given for its first fields (in the order of the key), and
  whose text for the last value given starts with that value.
\<close>

theorem partition_listing_exact:
  assumes "reachable W C R recs ix" "reliable C" "clean_resource R" "(p, fs) \<in> set (rs_partitions R)"
    and "sorted_fields W fs = fs1 @ f # fs2"
    and "\<forall>g \<in> set fs1 \<union> {f}. \<not> is_nullish (prop_of vals (fst g)) \<and> clean (value_text W vals g)"
    and "\<forall>g \<in> set fs2. is_nullish (prop_of vals (fst g))"
    and "\<forall>g \<in> set fs. \<not> starts_with (fst g @ [61]) (lit ''id='')"
    and same: "{k \<in> set keys. starts_with k (join [47] (partition_path R p) @ [47])} =
      {k \<in> keys_of ix. starts_with k (join [47] (partition_path R p) @ [47])}"
    and "length keys \<le> limit" "limit > 0"
  shows "set (list_records W R keys recs (Some p) vals limit 0) = decorate W p fs ` {d \<in> ran recs. has_fields W d fs \<and>
    (\<forall>g \<in> set fs1. field_text W d g = value_text W vals g) \<and> starts_with (field_text W d f) (value_text W vals f)}"
proof -
  let ?prefix = "build_prefix W R p fs vals" and ?base = "join [47] (partition_path R p) @ [47]"
  have assms9: "starts_with k ?base \<Longrightarrow> k \<in> set keys \<longleftrightarrow> k \<in> keys_of ix" for k using same by blast
  let ?found = "filter (\<lambda>k. starts_with k ?prefix) keys" and ?row = "row_of recs (decorate W p fs)"
  have m: "map_of (rs_partitions R) p = Some fs" using assms(3,4) by (simp add: clean_resource_def)
  then have l: "listing W R (Some p) vals = Some (?prefix, decorate W p fs)" by (simp add: listing_def)
  have "value_segments W fs vals \<noteq> []"
    unfolding value_segments_def assms(5) using assms(6) by (simp add: case_prod_beta)
  then have "?prefix = ?base @ join [47] (value_segments W fs vals)"
    unfolding build_prefix_def append_assoc by (intro join_append) (simp_all add: partition_path_def)
  then have base: "starts_with k ?base" if "starts_with k ?prefix" for k
    using that starts_with_longer by metis
  have rec: "\<exists>d. recs (record_ident d) = Some d \<and> clean_record W R d \<and> record_key W R d p = Some k \<and>
      extract_ids [k] = [record_ident d]" if "k \<in> set ?found" for k
    using key_of_record [OF assms(1-4), of k] extract_key [OF assms(3) _ assms(4) _ assms(8)] that base assms9 by fastforce
  have "all_readable recs ?found" using rec unfolding all_readable_def by blast
  then have "list_records W R keys recs (Some p) vals limit 0 = take limit (map ?row ?found)"
    using list_records_rows [OF l] assms(11) by (simp add: amount_of_def)
  also have "\<dots> = map ?row ?found"
    using assms(10) by (simp add: order_trans [OF length_filter_le])
  finally have lr: "set (list_records W R keys recs (Some p) vals limit 0) = ?row ` set ?found" by simp
  let ?ok = "\<lambda>d. has_fields W d fs \<and> (\<forall>g \<in> set fs1. field_text W d g = value_text W vals g) \<and>
    starts_with (field_text W d f) (value_text W vals f)"
  have finds: "starts_with k ?prefix \<longleftrightarrow> (\<forall>g \<in> set fs1. field_text W d g = value_text W vals g) \<and>
      starts_with (field_text W d f) (value_text W vals f)"
    if "clean_record W R d" "record_key W R d p = Some k" for d k
    using prefix_finds [OF assms(3) that(1) assms(4) that(2) assms(5-7)] by metis
  have has: "has_fields W d fs \<longleftrightarrow> (\<exists>k. record_key W R d p = Some k)" if "clean_record W R d" for d
    using record_key_clean [OF assms(3) that assms(4)] by simp
  show ?thesis
  proof (intro set_eqI iffI)
    fix x assume "x \<in> set (list_records W R keys recs (Some p) vals limit 0)"
    then obtain k where k: "k \<in> set ?found" "x = ?row k" using lr by auto
    obtain d where d: "recs (record_ident d) = Some d" "clean_record W R d" "record_key W R d p = Some k"
      "extract_ids [k] = [record_ident d]" using rec [OF k(1)] by blast
    have "?ok d" using finds [OF d(2,3)] has [OF d(2)] d(3) k(1) by auto
    moreover have "d \<in> ran recs" using d(1) by (rule ranI)
    moreover have "x = decorate W p fs d" using k(2) d by (simp add: row_of_def)
    ultimately show "x \<in> decorate W p fs ` {d \<in> ran recs. ?ok d}" by blast
  next
    fix x assume "x \<in> decorate W p fs ` {d \<in> ran recs. ?ok d}"
    then obtain d i where d: "recs i = Some d" "?ok d" "x = decorate W p fs d" by (auto simp: ran_def)
    note inv = reachable_inv [OF assms(1-3)]
    have ok: "clean_record W R d" "record_ident d = i" using inv d(1) by (auto simp: recs_ok_def)
    obtain k where k: "record_key W R d p = Some k" using has [OF ok(1)] d(2) by blast
    have p: "p \<in> fst ` set (rs_partitions R)" using assms(4) by force
    have "k \<in> owned W R (recs i)" using d(1) k p by (auto simp: record_keys_set)
    then have "k \<in> keys_of ix" using inv by (auto simp: index_spec_def)
    then have "k \<in> set keys" using assms9 key_in_partition(1) [OF assms(3) ok(1) p k] by simp
    then have "k \<in> set ?found" using finds [OF ok(1) k] d(2) by simp
    moreover have "?row k = x"
      using extract_key [OF assms(3) ok(1) assms(4) k assms(8)] d ok(2) by (simp add: row_of_def)
    ultimately show "x \<in> set (list_records W R keys recs (Some p) vals limit 0)" using lr by blast
  qed
qed

section \<open>Examples\<close>

definition plain_pw :: partition_world where
  "plain_pw =
     \<lparr>pw_num_text = (\<lambda>_. lit ''7''),
      pw_dates = \<lparr>date_of_text = (\<lambda>_. None), date_of_number = (\<lambda>_. None), iso_text = (\<lambda>_. [])\<rparr>,
      pw_order = (\<le>)\<rparr>"

definition plain_client :: index_client where
  "plain_client =
     \<lparr>ic_put_fails = (\<lambda>_. False), ic_delete_fails = (\<lambda>_. False), ic_delete_all_fails = (\<lambda>_. False),
      ic_list_fails = (\<lambda>_. False), ic_partition_index = False\<rparr>"

definition user_partitions :: resource where
  "user_partitions =
     \<lparr>rs_name = lit ''users'', rs_version = lit ''1'',
      rs_attributes = [(lit ''country'', JString (lit ''string'')), (lit ''role'', JString (lit ''string''))],
      rs_partitions = [(lit ''place'', [(lit ''country'', lit ''string''), (lit ''role'', lit ''string|maxlength:3'')])],
      rs_strict = True\<rparr>"

definition user :: "string \<Rightarrow> string \<Rightarrow> string \<Rightarrow> fields" where
  "user i c r = [(lit ''id'', JString (lit i)), (lit ''country'', JString (lit c)), (lit ''role'', JString (lit r))]"

lemma plain_reliable: "reliable plain_client"
  by (simp add: reliable_def plain_client_def)

lemma user_partitions_clean: "clean_resource user_partitions"
  by code_simp

lemma users_clean: "clean_record plain_pw user_partitions (user ''1'' ''BR'' ''admin'')"
  "clean_record plain_pw user_partitions (user ''1'' ''US'' ''admin'')"
  by code_simp+

definition user_records :: "ustring \<Rightarrow> fields option" where
  "user_records = (\<lambda>_. None)(lit ''1'' \<mapsto> user ''1'' ''US'' ''admin'')"

definition user_index :: index where
  "user_index = [(lit ''resource=users/partition=place/country=US/role=adm/id=1'', lit ''1'')]"

lemma user_history: "reachable plain_pw plain_client user_partitions user_records user_index"
proof -
  let ?old = "user ''1'' ''BR'' ''admin''" and ?new = "user ''1'' ''US'' ''admin''"
  let ?ix = "snd (create_references plain_pw plain_client user_partitions ?old [])"
  let ?recs = "(\<lambda>_. None)(lit ''1'' \<mapsto> ?old)"
  have i: "record_ident ?old = lit ''1''" "record_ident ?new = lit ''1''" by code_simp+
  have 1: "reachable plain_pw plain_client user_partitions ?recs ?ix"
    using reachable_insert [OF reachable_start users_clean(1), of plain_client] i by simp
  have 2: "snd (update_all_references plain_pw plain_client user_partitions ?old ?new ?ix) = user_index" by code_simp
  show ?thesis
    using reachable_update [OF 1 users_clean(2)] i 2 by (simp add: user_records_def)
qed

theorem partition_index_refines_witness:
  "fst ` set user_index = index_spec plain_pw user_partitions user_records \<and> user_index \<noteq> []"
  using partition_index_refines [OF user_history plain_reliable user_partitions_clean]
  by (simp add: user_index_def)

theorem update_repairs_index_witness:
  "{k \<in> fst ` set (snd (update_all_references plain_pw plain_client user_partitions (user ''1'' ''BR'' ''admin'')
        (user ''1'' ''US'' ''admin'') [(lit ''resource=users/partition=place/country=FR/role=adm/id=1'', lit ''1'')])).
     starts_with k (lit ''resource=users/partition=place/'') \<and> ends_with k (lit ''/id=1'')} =
   {lit ''resource=users/partition=place/country=US/role=adm/id=1''}"
proof -
  let ?old = "user ''1'' ''BR'' ''admin''" and ?new = "user ''1'' ''US'' ''admin''"
  have "record_ident ?old = record_ident ?new" "\<not> ic_partition_index plain_client"
    "lit ''place'' \<in> fst ` set (rs_partitions user_partitions)" by code_simp+
  note r = update_repairs_index [OF plain_reliable user_partitions_clean users_clean this,
      of "[(lit ''resource=users/partition=place/country=FR/role=adm/id=1'', lit ''1'')]"]
  have e: "join [47] (partition_path user_partitions (lit ''place'')) @ [47] = lit ''resource=users/partition=place/''"
    "lit ''/id='' @ record_ident ?new = lit ''/id=1''"
    "record_key plain_pw user_partitions ?new (lit ''place'') = Some (lit ''resource=users/partition=place/country=US/role=adm/id=1'')"
    by code_simp+
  show ?thesis using r unfolding e by simp
qed

definition user_keys :: "ustring list" where
  "user_keys = map fst user_index @ [lit ''resource=users/data/id=1'']"


theorem partition_listing_exact_witness:
  "set (list_records plain_pw user_partitions user_keys user_records (Some (lit ''place''))
     [(lit ''country'', JString (lit ''US''))] 10 0) =
   {decorate plain_pw (lit ''place'') [(lit ''country'', lit ''string''), (lit ''role'', lit ''string|maxlength:3'')]
      (user ''1'' ''US'' ''admin'')}"
proof -
  let ?fs = "[(lit ''country'', lit ''string''), (lit ''role'', lit ''string|maxlength:3'')]"
  let ?vals = "[(lit ''country'', JString (lit ''US''))]"
  have h: "(lit ''place'', ?fs) \<in> set (rs_partitions user_partitions)" by (simp add: user_partitions_def)
  have s: "sorted_fields plain_pw ?fs = [] @ (lit ''country'', lit ''string'') # [(lit ''role'', lit ''string|maxlength:3'')]"
    by code_simp
  have 1: "\<forall>g \<in> set [] \<union> {(lit ''country'', lit ''string'')}.
      \<not> is_nullish (prop_of ?vals (fst g)) \<and> clean (value_text plain_pw ?vals g)" by code_simp
  have 2: "\<forall>g \<in> set [(lit ''role'', lit ''string|maxlength:3'')]. is_nullish (prop_of ?vals (fst g))" by code_simp
  have 3: "\<forall>g \<in> set ?fs. \<not> starts_with (fst g @ [61]) (lit ''id='')" by code_simp
  have 4: "{k \<in> set user_keys. starts_with k (join [47] (partition_path user_partitions (lit ''place'')) @ [47])} =
      {k \<in> fst ` set user_index. starts_with k (join [47] (partition_path user_partitions (lit ''place'')) @ [47])}"
    by code_simp
  have 5: "length user_keys \<le> 10" "(10 :: nat) > 0" by (simp_all add: user_keys_def user_index_def)
  note l = partition_listing_exact [OF user_history plain_reliable user_partitions_clean h s 1 2 3 4 5]
  have "ran user_records = {user ''1'' ''US'' ''admin''}" by (auto simp: user_records_def ran_def)
  moreover have "has_fields plain_pw (user ''1'' ''US'' ''admin'') ?fs"
    "starts_with (field_text plain_pw (user ''1'' ''US'' ''admin'') (lit ''country'', lit ''string''))
       (value_text plain_pw ?vals (lit ''country'', lit ''string''))" by code_simp+
  ultimately show ?thesis using l by auto
qed

section \<open>Defects\<close>

definition two_records :: "ustring \<Rightarrow> fields option" where
  "two_records = map_of [(lit ''1'', user ''1'' ''US'' ''admin''), (lit ''2'', user ''2'' ''USA'' ''admin''), (lit ''3'', user ''3'' ''US'' ''admiral'')]"

definition two_keys :: "ustring list" where
  "two_keys =
     concat (map (\<lambda>d. record_keys plain_pw user_partitions d)
       [user ''1'' ''US'' ''admin'', user ''3'' ''US'' ''admiral'', user ''2'' ''USA'' ''admin'']) @
     [lit ''resource=users/data/id=1'', lit ''resource=users/data/id=2'', lit ''resource=users/data/id=3'']"

definition found_ids :: "partition_error + fields list \<Rightarrow> ustring list" where
  "found_ids r = (case r of Inr ds \<Rightarrow> map record_ident ds | Inl _ \<Rightarrow> [])"


end
