(* ===== verification/Nested_Set.thy ===== *)
theory Nested_Set
  imports Prelude
begin

text \<open>
  The nested-set driver of the tree plugin, \<open>plugins/tree/src/drivers/nested-set.ts\<close>: every node of a tree
  carries an interval of numbers, its descendants have the intervals inside.

  A store is the list of the nodes of a resource, in the order of its listing (at most the 10000 the code lists);
  the value for the parent of a root is the default \<open>null\<close>. Patches of different nodes run ten at a time and
  touch one node each, so they are taken at once. A call holds the lock of its tree from beginning to end.
\<close>

record node =
  nd_id :: ustring
  nd_tree :: "ustring option"
  nd_parent :: "ustring option"
  nd_left :: int
  nd_right :: int
  nd_depth :: int

datatype tree_error =
    Node_Not_Found ustring
  | Invalid_Parent ustring ustring
  | Has_Children ustring

section \<open>Reading\<close>

text \<open>\<open>tf\<close> says whether a field separates several trees in the resource; without a tree id all nodes are one tree.\<close>

definition in_tree :: "bool \<Rightarrow> ustring option \<Rightarrow> node \<Rightarrow> bool" where
  "in_tree tf t n \<longleftrightarrow> (case t of Some t' \<Rightarrow> tf \<and> t' \<noteq> [] \<longrightarrow> nd_tree n = t | None \<Rightarrow> True)"

definition tree_nodes :: "bool \<Rightarrow> ustring option \<Rightarrow> node list \<Rightarrow> node list" where
  "tree_nodes tf t ns = filter (in_tree tf t) ns"

definition tree_id :: "bool \<Rightarrow> node \<Rightarrow> ustring option" where
  "tree_id tf n = (if tf then nd_tree n else None)"

text \<open>The guards read a parent id of no characters as no parent, except where roots are collected.\<close>

definition no_parent :: "ustring option \<Rightarrow> bool" where
  "no_parent p \<longleftrightarrow> p = None \<or> p = Some []"

definition get_node :: "node list \<Rightarrow> ustring \<Rightarrow> tree_error + node" where
  "get_node ns i = (case find (\<lambda>n. nd_id n = i) ns of Some n \<Rightarrow> Inr n | None \<Rightarrow> Inl (Node_Not_Found i))"

definition get_roots :: "bool \<Rightarrow> ustring option \<Rightarrow> node list \<Rightarrow> node list" where
  "get_roots tf t ns = sort_key nd_left (filter (\<lambda>n. nd_parent n = None) (tree_nodes tf t ns))"

definition get_parent :: "node list \<Rightarrow> ustring \<Rightarrow> tree_error + node option" where
  "get_parent ns i =
     (case get_node ns i of
        Inl e \<Rightarrow> Inl e
      | Inr n \<Rightarrow> Inr (if no_parent (nd_parent n) then None else find (\<lambda>m. Some (nd_id m) = nd_parent n) ns))"

definition get_children :: "node list \<Rightarrow> ustring \<Rightarrow> node list" where
  "get_children ns i = sort_key nd_left (filter (\<lambda>n. nd_parent n = Some i) ns)"

definition inside :: "bool \<Rightarrow> node \<Rightarrow> node \<Rightarrow> bool" where
  "inside includeNode a n \<longleftrightarrow>
     (if includeNode then nd_left n \<ge> nd_left a \<and> nd_right n \<le> nd_right a
      else nd_left n > nd_left a \<and> nd_right n < nd_right a)"

definition get_descendants ::
    "bool \<Rightarrow> bool \<Rightarrow> int option \<Rightarrow> node list \<Rightarrow> ustring \<Rightarrow> tree_error + node list" where
  "get_descendants tf includeNode maxDepth ns i =
     (case get_node ns i of
        Inl e \<Rightarrow> Inl e
      | Inr n \<Rightarrow>
          let ds = filter (inside includeNode n) (tree_nodes tf (tree_id tf n) ns);
              ds = (case maxDepth of None \<Rightarrow> ds | Some d \<Rightarrow> filter (\<lambda>m. nd_depth m \<le> nd_depth n + d) ds) in
          Inr (sort_key nd_left ds))"

definition get_ancestors :: "bool \<Rightarrow> bool \<Rightarrow> node list \<Rightarrow> ustring \<Rightarrow> tree_error + node list" where
  "get_ancestors tf includeNode ns i =
     (case get_node ns i of
        Inl e \<Rightarrow> Inl e
      | Inr n \<Rightarrow> Inr (sort_key nd_left (filter (\<lambda>m. inside includeNode m n) (tree_nodes tf (tree_id tf n) ns))))"

definition get_siblings :: "bool \<Rightarrow> bool \<Rightarrow> node list \<Rightarrow> ustring \<Rightarrow> tree_error + node list" where
  "get_siblings tf includeSelf ns i =
     (case get_node ns i of
        Inl e \<Rightarrow> Inl e
      | Inr n \<Rightarrow>
          let ss = (if no_parent (nd_parent n) then get_roots tf None ns else get_children ns (the (nd_parent n))) in
          Inr (if includeSelf then ss else filter (\<lambda>m. nd_id m \<noteq> i) ss))"

definition leaf_interval :: "node \<Rightarrow> bool" where
  "leaf_interval n \<longleftrightarrow> nd_right n = nd_left n + 1"

definition get_leaves :: "bool \<Rightarrow> ustring option \<Rightarrow> node list \<Rightarrow> ustring option \<Rightarrow> tree_error + node list" where
  "get_leaves tf t ns i =
     (case (case i of Some i \<Rightarrow> get_descendants tf True None ns i | None \<Rightarrow> Inr (tree_nodes tf t ns)) of
        Inl e \<Rightarrow> Inl e
      | Inr ms \<Rightarrow> Inr (sort_key nd_left (filter leaf_interval ms)))"

definition get_depth :: "node list \<Rightarrow> ustring \<Rightarrow> tree_error + int" where
  "get_depth ns i = map_sum id nd_depth (get_node ns i)"

definition tree_depth :: "bool \<Rightarrow> ustring option \<Rightarrow> node list \<Rightarrow> int" where
  "tree_depth tf t ns = foldl (\<lambda>m n. max m (nd_depth n)) 0 (tree_nodes tf t ns)"

definition is_root :: "node list \<Rightarrow> ustring \<Rightarrow> tree_error + bool" where
  "is_root ns i = map_sum id (\<lambda>n. no_parent (nd_parent n)) (get_node ns i)"

definition is_leaf :: "node list \<Rightarrow> ustring \<Rightarrow> tree_error + bool" where
  "is_leaf ns i = map_sum id leaf_interval (get_node ns i)"

definition is_descendant_of :: "node list \<Rightarrow> ustring \<Rightarrow> ustring \<Rightarrow> tree_error + bool" where
  "is_descendant_of ns i ancestor =
     (case (get_node ns i, get_node ns ancestor) of
        (Inr n, Inr a) \<Rightarrow> Inr (inside False a n)
      | (Inl e, _) \<Rightarrow> Inl e
      | (_, Inl e) \<Rightarrow> Inl e)"

definition count_descendants :: "node list \<Rightarrow> ustring \<Rightarrow> tree_error + rat" where
  "count_descendants ns i = map_sum id (\<lambda>n. of_int (nd_right n - nd_left n - 1) / 2) (get_node ns i)"

section \<open>Writing\<close>

definition shift_value :: "int \<Rightarrow> int \<Rightarrow> int \<Rightarrow> int" where
  "shift_value start delta x = (if x \<ge> start then x + delta else x)"

definition renumber :: "(int \<Rightarrow> int) \<Rightarrow> node \<Rightarrow> node" where
  "renumber f n = n\<lparr>nd_left := f (nd_left n), nd_right := f (nd_right n)\<rparr>"

definition shift_nodes :: "bool \<Rightarrow> ustring option \<Rightarrow> int \<Rightarrow> int \<Rightarrow> node list \<Rightarrow> node list" where
  "shift_nodes tf t start delta ns =
     map (\<lambda>n. if in_tree tf t n then renumber (shift_value start delta) n else n) ns"

text \<open>A new node is inserted with the id \<open>i\<close> the resource makes up for it.\<close>

definition create_root :: "bool \<Rightarrow> ustring option \<Rightarrow> ustring \<Rightarrow> node list \<Rightarrow> node list" where
  "create_root tf t i ns =
     (let t' = (if tf then t else None);
          maxRight = foldl (\<lambda>m r. max m (nd_right r)) 0 (get_roots tf t' ns) in
      ns @ [\<lparr>nd_id = i, nd_tree = t, nd_parent = None, nd_left = maxRight + 1, nd_right = maxRight + 2, nd_depth = 0\<rparr>])"

definition patch_node :: "ustring \<Rightarrow> (node \<Rightarrow> node) \<Rightarrow> node list \<Rightarrow> node list" where
  "patch_node i f ns = map (\<lambda>n. if nd_id n = i then f n else n) ns"

definition add_child :: "bool \<Rightarrow> ustring \<Rightarrow> ustring option \<Rightarrow> ustring \<Rightarrow> node list \<Rightarrow> tree_error + node list" where
  "add_child tf parentId t i ns =
     (case get_node ns parentId of
        Inl e \<Rightarrow> Inl e
      | Inr p \<Rightarrow>
          let pt = tree_id tf p; r = nd_right p;
              shifted = shift_nodes tf pt r 2 ns;
              child = \<lparr>nd_id = i, nd_tree = (if pt \<noteq> None \<and> pt \<noteq> Some [] then pt else t), nd_parent = Some parentId,
                nd_left = r, nd_right = r + 1, nd_depth = nd_depth p + 1\<rparr> in
          Inr (patch_node parentId (\<lambda>n. n\<lparr>nd_right := r + 2\<rparr>) (shifted @ [child])))"

definition insert_sibling ::
    "(node \<Rightarrow> int) \<Rightarrow> bool \<Rightarrow> ustring \<Rightarrow> ustring option \<Rightarrow> ustring \<Rightarrow> node list \<Rightarrow> tree_error + node list" where
  "insert_sibling position tf siblingId t i ns =
     (case get_node ns siblingId of
        Inl e \<Rightarrow> Inl e
      | Inr s \<Rightarrow>
          let st = tree_id tf s; l = position s in
          Inr (shift_nodes tf st l 2 ns @
            [\<lparr>nd_id = i, nd_tree = (if st \<noteq> None \<and> st \<noteq> Some [] then st else t), nd_parent = nd_parent s,
              nd_left = l, nd_right = l + 1, nd_depth = nd_depth s\<rparr>]))"

definition insert_before :: "bool \<Rightarrow> ustring \<Rightarrow> ustring option \<Rightarrow> ustring \<Rightarrow> node list \<Rightarrow> tree_error + node list" where
  "insert_before = insert_sibling nd_left"

definition insert_after :: "bool \<Rightarrow> ustring \<Rightarrow> ustring option \<Rightarrow> ustring \<Rightarrow> node list \<Rightarrow> tree_error + node list" where
  "insert_after = insert_sibling (\<lambda>s. nd_right s + 1)"

text \<open>
  A move parks the subtree at numbers from ten million on, closes its gap, opens one before the right end of the
  new parent, and puts the subtree there, by the numbers it had before.
\<close>

definition park :: "node list \<Rightarrow> int \<Rightarrow> node list \<Rightarrow> node list" where
  "park subtree l ns =
     map (\<lambda>n. case find (\<lambda>s. nd_id s = nd_id n) subtree of
         Some s \<Rightarrow> n\<lparr>nd_left := nd_left s - l + 10000000, nd_right := nd_right s - l + 10000000\<rparr>
       | None \<Rightarrow> n) ns"

definition place :: "node list \<Rightarrow> ustring \<Rightarrow> ustring \<Rightarrow> int \<Rightarrow> int \<Rightarrow> int \<Rightarrow> node list \<Rightarrow> node list" where
  "place subtree nodeId newParentId l position depthDelta ns =
     map (\<lambda>n. case find (\<lambda>s. nd_id s = nd_id n) subtree of
         Some s \<Rightarrow> n\<lparr>nd_left := position + (nd_left s - l), nd_right := position + (nd_right s - l),
             nd_depth := nd_depth s + depthDelta,
             nd_parent := (if nd_id s = nodeId then Some newParentId else nd_parent n)\<rparr>
       | None \<Rightarrow> n) ns"

definition move_subtree :: "bool \<Rightarrow> ustring \<Rightarrow> ustring \<Rightarrow> node list \<Rightarrow> tree_error + node list" where
  "move_subtree tf nodeId newParentId ns =
     (case (get_node ns nodeId, get_node ns newParentId) of
        (Inl e, _) \<Rightarrow> Inl e
      | (_, Inl e) \<Rightarrow> Inl e
      | (Inr n, Inr p) \<Rightarrow>
          let t = tree_id tf n in
          if tf \<and> t \<noteq> tree_id tf p then Inl (Invalid_Parent nodeId newParentId)
          else if inside False n p then Inl (Invalid_Parent nodeId newParentId)
          else if nd_parent n = Some newParentId then Inr ns
          else
            (let l = nd_left n; r = nd_right n; width = r - l + 1; delta = nd_depth p + 1 - nd_depth n;
                 subtree = filter (inside True n) (tree_nodes tf t ns);
                 closed = shift_nodes tf t (r + 1) (- width) (park subtree l ns) in
             case get_node closed newParentId of
               Inl e \<Rightarrow> Inl e
             | Inr q \<Rightarrow>
                 let position = nd_right q in
                 Inr (place subtree nodeId newParentId l position delta (shift_nodes tf t position width closed))))"

definition promote_child :: "bool \<Rightarrow> node \<Rightarrow> node list \<Rightarrow> node \<Rightarrow> node list" where
  "promote_child tf n ns child =
     (let ns = patch_node (nd_id child) (\<lambda>m. m\<lparr>nd_parent := nd_parent n, nd_depth := nd_depth n\<rparr>) ns in
      case get_descendants tf False None ns (nd_id child) of
        Inl _ \<Rightarrow> ns
      | Inr ds \<Rightarrow>
          map (\<lambda>m. case find (\<lambda>d. nd_id d = nd_id m) ds of
            Some d \<Rightarrow> m\<lparr>nd_depth := nd_depth d - 1\<rparr> | None \<Rightarrow> m) ns)"

definition remove_id :: "ustring \<Rightarrow> node list \<Rightarrow> node list" where
  "remove_id i ns = filter (\<lambda>n. nd_id n \<noteq> i) ns"

definition delete_node :: "bool \<Rightarrow> bool \<Rightarrow> ustring \<Rightarrow> node list \<Rightarrow> tree_error + (nat \<times> node list)" where
  "delete_node tf promoteChildren i ns =
     (case get_node ns i of
        Inl e \<Rightarrow> Inl e
      | Inr n \<Rightarrow>
          let children = get_children ns i in
          if children \<noteq> [] \<and> \<not> promoteChildren then Inl (Has_Children i)
          else
            (let ns = foldl (promote_child tf n) ns children in
             Inr (length children, shift_nodes tf (tree_id tf n) (nd_right n + 1) (- 2) (remove_id i ns))))"

definition delete_subtree :: "bool \<Rightarrow> ustring \<Rightarrow> node list \<Rightarrow> tree_error + (nat \<times> node list)" where
  "delete_subtree tf i ns =
     (case get_node ns i of
        Inl e \<Rightarrow> Inl e
      | Inr n \<Rightarrow>
          let t = tree_id tf n; l = nd_left n; r = nd_right n;
              subtree = filter (inside True n) (tree_nodes tf t ns);
              rest = filter (\<lambda>m. nd_id m \<notin> nd_id ` set subtree) ns in
          Inr (length subtree, shift_nodes tf t (r + 1) (- (r - l + 1)) rest))"

section \<open>Rebuilding and verifying\<close>

text \<open>
  Numbers in the order of a walk from the roots, the children by their old numbers. A node is its own
  descendant in no walk that starts at a root, so that as many levels as there are nodes are enough.
\<close>

fun number_node :: "node list \<Rightarrow> nat \<Rightarrow> int \<Rightarrow> node \<Rightarrow> int \<Rightarrow> node list \<times> int"
  and number_all :: "node list \<Rightarrow> nat \<Rightarrow> int \<Rightarrow> node list \<Rightarrow> int \<Rightarrow> node list \<times> int" where
  "number_node ns 0 depth n counter = ([n\<lparr>nd_left := counter + 1, nd_right := counter + 2, nd_depth := depth\<rparr>], counter + 2)"
| "number_node ns (Suc fuel) depth n counter =
     (case number_all ns fuel (depth + 1) (get_children ns (nd_id n)) (counter + 1) of
        (updates, counter') \<Rightarrow>
          (updates @ [n\<lparr>nd_left := counter + 1, nd_right := counter' + 1, nd_depth := depth\<rparr>], counter' + 1))"
| "number_all ns fuel depth [] counter = ([], counter)"
| "number_all ns fuel depth (n # others) counter =
     (case number_node ns fuel depth n counter of
        (updates, counter') \<Rightarrow>
          (case number_all ns fuel depth others counter' of (updates', counter'') \<Rightarrow> (updates @ updates', counter'')))"

definition rebuild_roots :: "node list \<Rightarrow> node list" where
  "rebuild_roots ns =
     filter (\<lambda>n. case nd_parent n of None \<Rightarrow> True | Some p \<Rightarrow> p = [] \<or> p \<notin> nd_id ` set ns) ns"

definition rebuild_view :: "bool \<Rightarrow> ustring option \<Rightarrow> node list \<Rightarrow> nat \<times> node list" where
  "rebuild_view tf t ns =
     (let view = tree_nodes tf t ns;
          updates = fst (number_all view (length view) 0 (rebuild_roots view) 0) in
      (length updates,
       map (\<lambda>n. case find (\<lambda>u. nd_id u = nd_id n) updates of
           Some u \<Rightarrow> n\<lparr>nd_left := nd_left u, nd_right := nd_right u, nd_depth := nd_depth u\<rparr> | None \<Rightarrow> n) ns))"

text \<open>Without a tree id, every tree of the resource in turn.\<close>

definition tree_ids :: "node list \<Rightarrow> ustring list" where
  "tree_ids ns = rev (remdups (rev (List.map_filter (\<lambda>n. case nd_tree n of Some t \<Rightarrow> if t = [] then None else Some t | None \<Rightarrow> None) ns)))"

definition all_trees :: "bool \<Rightarrow> ustring option \<Rightarrow> bool" where
  "all_trees tf t \<longleftrightarrow> tf \<and> (t = None \<or> t = Some [])"

definition rebuild_tree :: "bool \<Rightarrow> ustring option \<Rightarrow> node list \<Rightarrow> nat \<times> node list" where
  "rebuild_tree tf t ns =
     (if all_trees tf t
      then foldl (\<lambda>(total, ns) t. case rebuild_view tf (Some t) ns of (k, ns) \<Rightarrow> (total + k, ns)) (0, ns) (tree_ids ns)
      else rebuild_view tf t ns)"

datatype verify_error =
    Invalid_Order ustring
  | Duplicate_Left ustring
  | Duplicate_Right ustring
  | Missing_Parent ustring
  | Parent_Mismatch ustring

definition parent_errors :: "node list \<Rightarrow> node \<Rightarrow> verify_error list" where
  "parent_errors ns n =
     (case nd_parent n of
        None \<Rightarrow> []
      | Some p \<Rightarrow>
          if p = [] then []
          else (case find (\<lambda>m. nd_id m = p) ns of
            None \<Rightarrow> [Missing_Parent (nd_id n)]
          | Some m \<Rightarrow> if inside False m n then [] else [Parent_Mismatch (nd_id n)]))"

fun verify_nodes :: "node list \<Rightarrow> int set \<Rightarrow> int set \<Rightarrow> node list \<Rightarrow> verify_error list" where
  "verify_nodes ns lefts rights [] = []"
| "verify_nodes ns lefts rights (n # others) =
     (if nd_left n \<ge> nd_right n then [Invalid_Order (nd_id n)] else []) @
     (if nd_left n \<in> lefts then [Duplicate_Left (nd_id n)] else []) @
     (if nd_right n \<in> rights then [Duplicate_Right (nd_id n)] else []) @
     parent_errors ns n @ verify_nodes ns (insert (nd_left n) lefts) (insert (nd_right n) rights) others"

definition verify_view :: "bool \<Rightarrow> ustring option \<Rightarrow> node list \<Rightarrow> verify_error list" where
  "verify_view tf t ns = (let view = tree_nodes tf t ns in verify_nodes view {} {} view)"

definition verify_tree :: "bool \<Rightarrow> ustring option \<Rightarrow> node list \<Rightarrow> verify_error list" where
  "verify_tree tf t ns =
     (if all_trees tf t then concat (map (\<lambda>t. verify_view tf (Some t) ns) (tree_ids ns)) else verify_view tf t ns)"

end
