(* ===== verification/Nested_Set_Shapes.thy ===== *)
theory Nested_Set_Shapes
  imports Nested_Set
begin

text \<open>
  The numbers of a tree stay those of a nested set under every operation but the deletion of a node with
  children, and then the intervals say what the parents say.
\<close>

section \<open>Shapes\<close>

abbreviation encl :: "node \<Rightarrow> node \<Rightarrow> bool" where
  "encl a n \<equiv> nd_left a < nd_left n \<and> nd_right n < nd_right a"

abbreviation covers :: "node \<Rightarrow> node \<Rightarrow> bool" where
  "covers a n \<equiv> nd_left a \<le> nd_left n \<and> nd_right n \<le> nd_right a"

definition numbers :: "node list \<Rightarrow> int list" where
  "numbers vs = map nd_left vs @ map nd_right vs"

definition crossing :: "node \<Rightarrow> node \<Rightarrow> bool" where
  "crossing a b \<longleftrightarrow> nd_left a < nd_left b \<and> nd_left b < nd_right a \<and> nd_right a < nd_right b"

text \<open>A node has the tightest interval around it as its parent, and as many intervals around it as its depth.\<close>

definition parent_fits :: "node list \<Rightarrow> node \<Rightarrow> bool" where
  "parent_fits vs n \<longleftrightarrow>
     (case nd_parent n of
        None \<Rightarrow> \<forall>m \<in> set vs. \<not> encl m n
      | Some p \<Rightarrow> \<exists>q \<in> set vs. nd_id q = p \<and> encl q n \<and> (\<forall>m \<in> set vs. encl m n \<longrightarrow> covers m q))"

definition levels :: "node list \<Rightarrow> node \<Rightarrow> int" where
  "levels vs n = int (length (filter (\<lambda>m. encl m n) vs))"

definition laminar :: "node list \<Rightarrow> bool" where
  "laminar vs \<longleftrightarrow>
     distinct (map nd_id vs) \<and> distinct (numbers vs) \<and> (\<forall>n \<in> set vs. nd_left n < nd_right n) \<and>
     (\<forall>a \<in> set vs. \<forall>b \<in> set vs. \<not> crossing a b)"

definition shape_ok :: "node list \<Rightarrow> bool" where
  "shape_ok vs \<longleftrightarrow> laminar vs \<and> (\<forall>n \<in> set vs. parent_fits vs n \<and> nd_depth n = levels vs n)"

definition dense :: "node list \<Rightarrow> bool" where
  "dense vs \<longleftrightarrow> set (numbers vs) = {1..2 * int (length vs)}"

definition tree_ok :: "node list \<Rightarrow> bool" where
  "tree_ok vs \<longleftrightarrow> shape_ok vs \<and> dense vs"

lemma numbers_set: "set (numbers vs) = nd_left ` set vs \<union> nd_right ` set vs"
  by (simp add: numbers_def)

lemma numbers_mem [intro]: "n \<in> set vs \<Longrightarrow> nd_left n \<in> set (numbers vs)" "n \<in> set vs \<Longrightarrow> nd_right n \<in> set (numbers vs)"
  by (simp_all add: numbers_set)

lemma distinct_numbers_iff:
  "distinct (numbers vs) \<longleftrightarrow> distinct (map nd_left vs) \<and> distinct (map nd_right vs) \<and>
     (\<forall>a \<in> set vs. \<forall>b \<in> set vs. nd_left a \<noteq> nd_right b)"
  by (auto simp: numbers_def)

lemma same_node:
  assumes "distinct (map f vs)" "a \<in> set vs" "b \<in> set vs" "f a = f b"
  shows "a = b"
  using assms by (meson distinct_map inj_onD)

lemma interval_cases:
  "a \<noteq> c \<Longrightarrow> b \<noteq> d \<Longrightarrow> a \<noteq> d \<Longrightarrow> c \<noteq> b \<Longrightarrow> \<not> (a < c \<and> c < b \<and> b < d) \<Longrightarrow> \<not> (c < a \<and> a < d \<and> d < b) \<Longrightarrow>
    (a < c \<and> d < b) \<or> (c < a \<and> b < d) \<or> b < c \<or> d < (a :: int)"
  by linarith

text \<open>Two nodes of a laminar list are nested or apart.\<close>

lemma laminar_cases:
  assumes "laminar vs" "a \<in> set vs" "b \<in> set vs"
  shows "a = b \<or> encl a b \<or> encl b a \<or> nd_right a < nd_left b \<or> nd_right b < nd_left a"
proof -
  have d: "nd_left a = nd_left b \<Longrightarrow> a = b" "nd_right a = nd_right b \<Longrightarrow> a = b"
    "nd_left a \<noteq> nd_right b" "nd_left b \<noteq> nd_right a"
    using assms same_node [of nd_left vs a b] same_node [of nd_right vs a b]
    by (auto simp: laminar_def distinct_numbers_iff)
  moreover have "\<not> crossing a b" "\<not> crossing b a" using assms by (auto simp: laminar_def)
  ultimately show ?thesis unfolding crossing_def using interval_cases by blast
qed

lemma covers_iff:
  assumes "laminar vs" "a \<in> set vs" "b \<in> set vs"
  shows "covers a b \<longleftrightarrow> a = b \<or> encl a b"
proof -
  have "nd_left a < nd_right a" "nd_left b < nd_right b" using assms by (simp_all add: laminar_def)
  then show ?thesis using laminar_cases [OF assms] by auto
qed

lemma laminar_filter: "laminar vs \<Longrightarrow> laminar (filter P vs)"
  by (auto simp: laminar_def distinct_numbers_iff distinct_map_filter)

lemma laminar_append:
  assumes "laminar vs" "laminar ws" "nd_id ` set vs \<inter> nd_id ` set ws = {}" "set (numbers vs) \<inter> set (numbers ws) = {}"
    and "\<forall>a \<in> set vs. \<forall>b \<in> set ws. \<not> crossing a b \<and> \<not> crossing b a"
  shows "laminar (vs @ ws)"
proof -
  have "nd_left a \<noteq> nd_right b \<and> nd_left b \<noteq> nd_right a" if "a \<in> set vs" "b \<in> set ws" for a b
    using assms(4) that by (auto simp: numbers_set)
  moreover have "distinct (map nd_left (vs @ ws))" "distinct (map nd_right (vs @ ws))"
    using assms(1,2,4) by (simp_all add: laminar_def distinct_numbers_iff numbers_set) blast+
  moreover have "distinct (map nd_id (vs @ ws))" using assms(1-3) by (simp add: laminar_def)
  ultimately show ?thesis
    using assms(1,2,5) unfolding laminar_def distinct_numbers_iff set_append ball_Un by blast
qed

lemma mset_shape:
  assumes "mset vs = mset ws" "shape_ok vs"
  shows "shape_ok ws"
proof -
  have s: "set vs = set ws" using assms(1) by (rule mset_eq_setD)
  have d: "distinct (map f vs) \<longleftrightarrow> distinct (map f ws)" for f :: "node \<Rightarrow> 'a"
    using assms(1) by (metis mset_eq_imp_distinct_iff mset_map)
  have l: "levels vs = levels ws"
    using assms(1) by (auto simp: levels_def fun_eq_iff) (metis mset_filter size_mset)
  have p: "parent_fits vs = parent_fits ws" by (intro ext) (simp only: parent_fits_def s)
  show ?thesis using assms(2) unfolding shape_ok_def laminar_def distinct_numbers_iff s d l p .
qed

lemma mset_dense: "mset vs = mset ws \<Longrightarrow> dense vs \<Longrightarrow> dense ws"
  by (metis dense_def mset_eq_setD numbers_set size_mset)

section \<open>Renumbering\<close>

lemma renumber_simps [simp]:
  "nd_id (renumber f n) = nd_id n" "nd_tree (renumber f n) = nd_tree n" "nd_parent (renumber f n) = nd_parent n"
  "nd_left (renumber f n) = f (nd_left n)" "nd_right (renumber f n) = f (nd_right n)" "nd_depth (renumber f n) = nd_depth n"
  by (simp_all add: renumber_def)

lemma numbers_renumber: "numbers (map (renumber f) vs) = map f (numbers vs)"
  by (simp add: numbers_def)

lemma renumber_less:
  fixes f :: "int \<Rightarrow> int"
  assumes "strict_mono_on (set (numbers vs)) f" "x \<in> set (numbers vs)" "y \<in> set (numbers vs)"
  shows "f x < f y \<longleftrightarrow> x < y" "f x \<le> f y \<longleftrightarrow> x \<le> y"
proof -
  have "\<And>a b. a \<in> set (numbers vs) \<Longrightarrow> b \<in> set (numbers vs) \<Longrightarrow> a < b \<Longrightarrow> f a < f b"
    using strict_mono_onD [OF assms(1)] .
  then show l: "f x < f y \<longleftrightarrow> x < y" using assms(2,3) by (metis less_asym linorder_less_linear)
  show "f x \<le> f y \<longleftrightarrow> x \<le> y"
    using \<open>\<And>a b. a \<in> set (numbers vs) \<Longrightarrow> b \<in> set (numbers vs) \<Longrightarrow> a < b \<Longrightarrow> f a < f b\<close> assms(2,3)
    by (metis less_asym linorder_less_linear order_le_less)
qed

lemma shape_renumber:
  assumes "shape_ok vs" "strict_mono_on (set (numbers vs)) f"
  shows "shape_ok (map (renumber f) vs)"
proof -
  note less = renumber_less [OF assms(2)]
  have e: "encl (renumber f a) (renumber f b) \<longleftrightarrow> encl a b" "covers (renumber f a) (renumber f b) \<longleftrightarrow> covers a b"
    "crossing (renumber f a) (renumber f b) \<longleftrightarrow> crossing a b" "nd_left a < nd_right a \<longleftrightarrow> f (nd_left a) < f (nd_right a)"
    if "a \<in> set vs" "b \<in> set vs" for a b
    using that by (simp_all add: less crossing_def numbers_mem)
  have "inj_on f (set (numbers vs))" using assms(2) by (rule strict_mono_on_imp_inj_on)
  then have "distinct (numbers (map (renumber f) vs))"
    using assms(1) by (simp add: numbers_renumber distinct_map shape_ok_def laminar_def)
  then have "laminar (map (renumber f) vs)"
    using assms(1) e by (auto simp: laminar_def shape_ok_def o_def)
  moreover have "levels (map (renumber f) vs) (renumber f n) = levels vs n" if "n \<in> set vs" for n
  proof -
    have "filter (\<lambda>m. encl (renumber f m) (renumber f n)) vs = filter (\<lambda>m. encl m n) vs"
      using e(1) that by (intro filter_cong) auto
    then show ?thesis by (simp add: levels_def filter_map o_def)
  qed
  moreover have "parent_fits (map (renumber f) vs) (renumber f n)" if n: "n \<in> set vs" "parent_fits vs n" for n
  proof (cases "nd_parent n")
    case None
    then show ?thesis using n e(1) by (fastforce simp: parent_fits_def)
  next
    case (Some p)
    then obtain q where q: "q \<in> set vs" "nd_id q = p" "encl q n" "\<forall>m \<in> set vs. encl m n \<longrightarrow> covers m q"
      using n(2) by (auto simp: parent_fits_def)
    have "encl (renumber f q) (renumber f n)" using e(1) [OF q(1) n(1)] q(3) by simp
    moreover have "covers (renumber f m) (renumber f q)" if "m \<in> set vs" "encl (renumber f m) (renumber f n)" for m
      using e(1) [OF that(1) n(1)] e(2) [OF that(1) q(1)] that q(4) by simp
    ultimately have "\<exists>q' \<in> set (map (renumber f) vs). nd_id q' = p \<and> encl q' (renumber f n) \<and>
        (\<forall>m \<in> set (map (renumber f) vs). encl m (renumber f n) \<longrightarrow> covers m q')"
      using q(1,2) by (intro bexI [of _ "renumber f q"]) auto
    then show ?thesis using Some by (simp add: parent_fits_def)
  qed
  ultimately show ?thesis using assms(1) by (auto simp: shape_ok_def)
qed

section \<open>Taking a subtree out\<close>

lemma shape_laminar [dest]: "shape_ok vs \<Longrightarrow> laminar vs"
  by (simp add: shape_ok_def)

lemma levels_outside:
  assumes "\<not> covers n x"
  shows "levels (filter (\<lambda>m. \<not> covers n m) vs) x = levels vs x"
proof -
  have "filter (\<lambda>m. encl m x) (filter (\<lambda>m. \<not> covers n m) vs) = filter (\<lambda>m. encl m x) vs"
    unfolding filter_filter using assms by (intro filter_cong) auto
  then show ?thesis by (simp only: levels_def)
qed

lemma shape_outside:
  assumes "shape_ok vs"
  shows "shape_ok (filter (\<lambda>m. \<not> covers n m) vs)"
proof -
  have "parent_fits (filter (\<lambda>m. \<not> covers n m) vs) x" if x: "\<not> covers n x" "parent_fits vs x" for x
  proof (cases "nd_parent x")
    case None
    then show ?thesis using x(2) by (simp add: parent_fits_def)
  next
    case (Some p)
    then obtain q where q: "q \<in> set vs" "nd_id q = p" "encl q x" "\<forall>m \<in> set vs. encl m x \<longrightarrow> covers m q"
      using x(2) by (auto simp: parent_fits_def)
    then have "\<not> covers n q" using x(1) by auto
    then show ?thesis using Some q unfolding parent_fits_def by (auto intro!: bexI [of _ q])
  qed
  then show ?thesis
    using assms laminar_filter [of vs] levels_outside [of n] by (simp add: shape_ok_def)
qed

lemma filter_split: "length (filter P vs) = length (filter (\<lambda>m. P m \<and> Q m) vs) + length (filter (\<lambda>m. P m \<and> \<not> Q m) vs)"
  by (induction vs) auto

text \<open>What a subtree knows about itself.\<close>

definition subtree_ok :: "node \<Rightarrow> node list \<Rightarrow> bool" where
  "subtree_ok r ss \<longleftrightarrow> laminar ss \<and> r \<in> set ss \<and> (\<forall>x \<in> set ss. covers r x) \<and>
     (\<forall>x \<in> set ss. x \<noteq> r \<longrightarrow> nd_depth x = nd_depth r + levels ss x \<and>
        (\<exists>q \<in> set ss. nd_parent x = Some (nd_id q) \<and> encl q x \<and> (\<forall>m \<in> set ss. encl m x \<longrightarrow> covers m q)))"

lemma subtree_inside:
  assumes "shape_ok vs" "n \<in> set vs"
  shows "subtree_ok n (filter (covers n) vs)"
proof -
  let ?ss = "filter (covers n) vs"
  note lam = shape_laminar [OF assms(1)]
  have c: "m = n \<or> encl n m \<or> encl m n" if "m \<in> set vs" "x \<in> set vs" "covers n x" "encl m x" for m x
    using laminar_cases [OF lam that(1) assms(2)] that(3,4) lam that(1,2) by (auto simp: laminar_def)
  have lt: "nd_left n < nd_right n" using lam assms(2) by (simp add: laminar_def)
  have lev: "levels vs x = levels vs n + levels ?ss x" if "x \<in> set ?ss" for x
  proof -
    have 1: "filter (\<lambda>m. encl m x \<and> covers n m) vs = filter (\<lambda>m. encl m x) ?ss"
      unfolding filter_filter by (intro filter_cong) auto
    have 2: "filter (\<lambda>m. encl m x \<and> \<not> covers n m) vs = filter (\<lambda>m. encl m n) vs"
    proof (intro filter_cong refl)
      fix m assume m: "m \<in> set vs"
      have x: "x \<in> set vs" "covers n x" using that by simp_all
      show "encl m x \<and> \<not> covers n m \<longleftrightarrow> encl m n"
      proof (cases "encl m x")
        case True
        then show ?thesis using c [OF m x True] by auto
      next
        case False
        then show ?thesis using x(2) by auto
      qed
    qed
    show ?thesis
      unfolding levels_def filter_split [of "\<lambda>m. encl m x" vs "covers n"] 1 2 by simp
  qed
  have par: "\<exists>q \<in> set ?ss. nd_parent x = Some (nd_id q) \<and> encl q x \<and> (\<forall>m \<in> set ?ss. encl m x \<longrightarrow> covers m q)"
    if x: "x \<in> set ?ss" "x \<noteq> n" for x
  proof -
    have nx: "encl n x" using covers_iff [OF lam assms(2), of x] x by auto
    have "parent_fits vs x" using assms(1) x(1) by (simp add: shape_ok_def)
    then obtain q where q: "q \<in> set vs" "nd_parent x = Some (nd_id q)" "encl q x" "\<forall>m \<in> set vs. encl m x \<longrightarrow> covers m q"
      using nx assms(2) by (auto simp: parent_fits_def split: option.splits)
    then have "covers n q" using nx assms(2) by blast
    then show ?thesis using q by auto
  qed
  have dep: "nd_depth x = levels vs x" if "x \<in> set vs" for x using assms(1) that by (simp add: shape_ok_def)
  have "nd_depth x = nd_depth n + levels ?ss x" if x: "x \<in> set ?ss" for x
    using lev [OF x] dep [of x] dep [OF assms(2)] x by simp
  moreover have "laminar ?ss" using lam by (rule laminar_filter)
  moreover have "n \<in> set ?ss" "\<forall>x \<in> set ?ss. covers n x" using assms(2) by simp_all
  ultimately show ?thesis unfolding subtree_ok_def using par by blast
qed

section \<open>Putting a subtree in\<close>

lemma levels_append: "levels (vs @ ws) x = levels vs x + levels ws x"
  by (simp add: levels_def)

lemma shape_graft:
  assumes "shape_ok vs" "subtree_ok r ss" "nd_id ` set vs \<inter> nd_id ` set ss = {}"
    and gap: "\<forall>v \<in> set (numbers vs). v < nd_left r \<or> v > nd_right r"
    and root: "parent_fits vs r" "nd_depth r = levels vs r"
  shows "shape_ok (vs @ ss)"
proof -
  note lam = shape_laminar [OF assms(1)]
  have ss: "laminar ss" "r \<in> set ss" "\<forall>x \<in> set ss. covers r x" using assms(2) by (simp_all add: subtree_ok_def)
  have lt: "nd_left x < nd_right x" if "x \<in> set vs \<union> set ss" for x
    using that lam ss(1) by (auto simp: laminar_def)
  have g: "nd_left m < nd_left r \<or> nd_left m > nd_right r" "nd_right m < nd_left r \<or> nd_right m > nd_right r" if "m \<in> set vs" for m
    using gap that by (auto simp: numbers_set)
  have out: "encl m x \<longleftrightarrow> encl m r" "\<not> encl x m" "\<not> crossing m x" "\<not> crossing x m"
    if "m \<in> set vs" "x \<in> set ss" for m x
    using g [OF that(1)] lt [of m] lt [of x] that ss(3) by (auto simp: crossing_def dest!: bspec)
  have top: "\<not> encl x r" if "x \<in> set ss" for x using ss(3) that by fastforce
  have "laminar (vs @ ss)"
  proof (rule laminar_append [OF lam ss(1) assms(3)])
    show "set (numbers vs) \<inter> set (numbers ss) = {}"
    proof -
      have "nd_left r \<le> v \<and> v \<le> nd_right r" if "v \<in> set (numbers ss)" for v
        using that ss(3) lt by (fastforce simp: numbers_set)
      then show ?thesis using gap by fastforce
    qed
    show "\<forall>a \<in> set vs. \<forall>b \<in> set ss. \<not> crossing a b \<and> \<not> crossing b a" using out by blast
  qed
  moreover have "parent_fits (vs @ ss) m \<and> nd_depth m = levels (vs @ ss) m" if m: "m \<in> set vs" for m
  proof -
    have "levels ss m = 0" using out(2) [OF m] by (simp add: levels_def filter_empty_conv)
    moreover have "parent_fits vs m" "nd_depth m = levels vs m" using assms(1) m by (simp_all add: shape_ok_def)
    ultimately show ?thesis
      using out(2) [OF m] by (auto simp: levels_append parent_fits_def split: option.splits)
  qed
  moreover have "parent_fits (vs @ ss) r \<and> nd_depth r = levels (vs @ ss) r"
  proof -
    have "levels ss r = 0" using top by (simp add: levels_def filter_empty_conv)
    then show ?thesis using root top by (auto simp: levels_append parent_fits_def split: option.splits)
  qed
  moreover have "parent_fits (vs @ ss) x \<and> nd_depth x = levels (vs @ ss) x" if x: "x \<in> set ss" "x \<noteq> r" for x
  proof -
    have "filter (\<lambda>m. encl m x) vs = filter (\<lambda>m. encl m r) vs" using out(1) x(1) by (intro filter_cong) auto
    then have l: "levels vs x = levels vs r" by (simp only: levels_def)
    obtain q where q: "q \<in> set ss" "nd_parent x = Some (nd_id q)" "encl q x" "\<forall>m \<in> set ss. encl m x \<longrightarrow> covers m q"
      and d: "nd_depth x = nd_depth r + levels ss x"
      using assms(2) x by (auto simp: subtree_ok_def)
    have "covers m q" if "m \<in> set vs" "encl m x" for m
      using out(1) [OF that(1) x(1)] that(2) ss(3) q(1) by fastforce
    then show ?thesis using q d l root(2) by (auto simp: levels_append parent_fits_def)
  qed
  ultimately show ?thesis by (auto simp: shape_ok_def)
qed

end
