(* ===== verification/Nested_Set_Grafts.thy ===== *)
theory Nested_Set_Grafts
  imports Nested_Set_Shapes
begin

text \<open>
  Subtrees are put into a tree and taken out of it by the shifts of the driver: what a shift makes of the numbers,
  and which nodes enclose the place where a new node goes.
\<close>

section \<open>Shifts\<close>

lemma shift_up_mono: "w \<ge> 0 \<Longrightarrow> strict_mono_on A (shift_value g w)"
  by (auto simp: strict_mono_on_def shift_value_def)

lemma shift_down_mono: "w \<ge> 0 \<Longrightarrow> \<forall>v \<in> A. v < g - w \<or> g \<le> v \<Longrightarrow> strict_mono_on A (shift_value g (- w))"
  by (force simp: strict_mono_on_def shift_value_def)

lemma shift_up_image:
  fixes g w N :: int
  assumes "1 \<le> g" "g \<le> N + 1" "w \<ge> 0"
  shows "shift_value g w ` {1..N} \<union> {g..g + w - 1} = {1..N + w}"
proof -
  have "v \<in> shift_value g w ` {1..N} \<union> {g..g + w - 1}" if "v \<in> {1..N + w}" for v
  proof -
    have "v < g \<or> v \<in> {g..g + w - 1} \<or> g + w \<le> v" by auto
    moreover have "v \<in> shift_value g w ` {1..N}" if "v < g"
      using that \<open>v \<in> {1..N + w}\<close> assms by (intro image_eqI [of _ _ v]) (auto simp: shift_value_def)
    moreover have "v \<in> shift_value g w ` {1..N}" if "g + w \<le> v"
      using that \<open>v \<in> {1..N + w}\<close> assms by (intro image_eqI [of _ _ "v - w"]) (auto simp: shift_value_def)
    ultimately show ?thesis by blast
  qed
  moreover have "shift_value g w ` {1..N} \<union> {g..g + w - 1} \<subseteq> {1..N + w}"
    using assms by (auto simp: shift_value_def)
  ultimately show ?thesis by blast
qed

lemma shift_down_image:
  fixes l r N :: int
  assumes "1 \<le> l" "l \<le> r" "r \<le> N"
  shows "shift_value (r + 1) (- (r - l + 1)) ` ({1..N} - {l..r}) = {1..N - (r - l + 1)}"
proof -
  have "v \<in> shift_value (r + 1) (- (r - l + 1)) ` ({1..N} - {l..r})" if "v \<in> {1..N - (r - l + 1)}" for v
  proof (cases "v < l")
    case True
    then show ?thesis using that assms by (intro image_eqI [of _ _ v]) (auto simp: shift_value_def)
  next
    case False
    then show ?thesis using that assms by (intro image_eqI [of _ _ "v + (r - l + 1)"]) (auto simp: shift_value_def)
  qed
  moreover have "shift_value (r + 1) (- (r - l + 1)) ` ({1..N} - {l..r}) \<subseteq> {1..N - (r - l + 1)}"
    using assms by (auto simp: shift_value_def)
  ultimately show ?thesis by blast
qed

lemma numbers_length [simp]: "length (numbers vs) = 2 * length vs"
  by (simp add: numbers_def)

lemma numbers_append_set: "set (numbers (vs @ ws)) = set (numbers vs) \<union> set (numbers ws)"
  by (auto simp: numbers_set)

lemma laminar_card: "laminar vs \<Longrightarrow> card (set (numbers vs)) = 2 * length vs"
  by (metis distinct_card laminar_def numbers_length)

lemma tree_shape [dest]: "tree_ok vs \<Longrightarrow> shape_ok vs"
  by (simp add: tree_ok_def)

section \<open>Putting a subtree into a gap\<close>

lemma tree_graft:
  assumes t: "tree_ok vs" and s: "subtree_ok r ss" "set (numbers ss) = {nd_left r..nd_right r}"
    and g: "1 \<le> nd_left r" "nd_left r \<le> 2 * int (length vs) + 1"
    and ids: "nd_id ` set vs \<inter> nd_id ` set ss = {}"
    and root: "parent_fits (map (renumber (shift_value (nd_left r) (nd_right r - nd_left r + 1))) vs) r"
      "nd_depth r = levels (map (renumber (shift_value (nd_left r) (nd_right r - nd_left r + 1))) vs) r"
  shows "tree_ok (map (renumber (shift_value (nd_left r) (nd_right r - nd_left r + 1))) vs @ ss)"
proof -
  let ?w = "nd_right r - nd_left r + 1"
  let ?f = "shift_value (nd_left r) ?w"
  have ss: "laminar ss" "nd_left r < nd_right r" using s(1) by (auto simp: subtree_ok_def laminar_def)
  then have w: "?w \<ge> 0" by simp
  have "shape_ok (map (renumber ?f) vs)"
    using t shift_up_mono [OF w] by (intro shape_renumber) auto
  then have "shape_ok (map (renumber ?f) vs @ ss)"
  proof (rule shape_graft [OF _ s(1)])
    show "nd_id ` set (map (renumber ?f) vs) \<inter> nd_id ` set ss = {}" using ids by (simp add: image_image)
    show "\<forall>v \<in> set (numbers (map (renumber ?f) vs)). v < nd_left r \<or> v > nd_right r"
      by (auto simp: numbers_renumber shift_value_def)
  qed (use root in simp_all)
  moreover have "dense (map (renumber ?f) vs @ ss)"
  proof -
    have "set (numbers vs) = {1..2 * int (length vs)}" using t by (simp add: tree_ok_def dense_def)
    then have "set (numbers (map (renumber ?f) vs @ ss)) = ?f ` {1..2 * int (length vs)} \<union> {nd_left r..nd_left r + ?w - 1}"
      using s(2) by (simp add: numbers_append_set numbers_renumber)
    also have "\<dots> = {1..2 * int (length vs) + ?w}" using g w by (rule shift_up_image)
    finally have n: "set (numbers (map (renumber ?f) vs @ ss)) = {1..2 * int (length vs) + ?w}" .
    have "card {nd_left r..nd_right r} = 2 * length ss" using laminar_card [OF ss(1)] s(2) by simp
    then have "?w = 2 * int (length ss)" using ss(2) by simp
    then show ?thesis using n by (simp add: dense_def)
  qed
  ultimately show ?thesis by (simp add: tree_ok_def)
qed

lemma gap_encl:
  "w \<ge> 1 \<Longrightarrow> nd_left x = g \<Longrightarrow> nd_right x = g + w - 1 \<Longrightarrow>
    encl (renumber (shift_value g w) m) x \<longleftrightarrow> nd_left m < g \<and> g \<le> nd_right m"
  by (auto simp: shift_value_def)

lemma straddles:
  assumes "laminar vs" "p \<in> set vs" "m \<in> set vs"
  shows "nd_left m < nd_right p \<and> nd_right p \<le> nd_right m \<longleftrightarrow> covers m p"
    and "nd_left m < nd_left p \<and> nd_left p \<le> nd_right m \<longleftrightarrow> encl m p"
    and "nd_left m < nd_right p + 1 \<and> nd_right p + 1 \<le> nd_right m \<longleftrightarrow> encl m p"
proof -
  have lt: "nd_left m < nd_right m" "nd_left p < nd_right p" using assms by (simp_all add: laminar_def)
  note c = laminar_cases [OF assms]
  show "nd_left m < nd_right p \<and> nd_right p \<le> nd_right m \<longleftrightarrow> covers m p" using c lt by auto
  show "nd_left m < nd_left p \<and> nd_left p \<le> nd_right m \<longleftrightarrow> encl m p" using c lt by auto
  show "nd_left m < nd_right p + 1 \<and> nd_right p + 1 \<le> nd_right m \<longleftrightarrow> encl m p" using c lt by auto
qed

lemma filter_one_more:
  "distinct vs \<Longrightarrow> p \<in> set vs \<Longrightarrow> \<not> P p \<Longrightarrow> length (filter (\<lambda>m. p = m \<or> P m) vs) = Suc (length (filter P vs))"
proof (induction vs)
  case (Cons a vs)
  have "filter (\<lambda>m. p = m \<or> P m) vs = filter P vs" if "p \<notin> set vs" using that by (intro filter_cong) auto
  then show ?case using Cons by auto
qed simp

lemma levels_renumber:
  "levels (map (renumber f) vs) x = int (length (filter (\<lambda>m. encl (renumber f m) x) vs))"
  by (simp add: levels_def filter_map o_def)

text \<open>A node put before the right end of \<open>p\<close> is a child of \<open>p\<close>.\<close>

lemma graft_child:
  assumes sh: "shape_ok vs" and p: "p \<in> set vs" and g: "nd_right p = g" and w: "w \<ge> 1"
    and x: "nd_left x = g" "nd_right x = g + w - 1" "nd_parent x = Some (nd_id p)"
  shows "parent_fits (map (renumber (shift_value g w)) vs) x"
    and "levels (map (renumber (shift_value g w)) vs) x = nd_depth p + 1"
proof -
  let ?h = "renumber (shift_value g w)"
  note lam = shape_laminar [OF sh]
  have lt: "nd_left p < nd_right p" using lam p by (simp add: laminar_def)
  have e: "encl (?h m) x \<longleftrightarrow> p = m \<or> encl m p" if "m \<in> set vs" for m
    using gap_encl [OF w x(1,2)] straddles(1) [OF lam p that] g covers_iff [OF lam that p] by auto
  have "filter (\<lambda>m. encl (?h m) x) vs = filter (\<lambda>m. p = m \<or> encl m p) vs" using e by (intro filter_cong) auto
  moreover have "distinct vs" using lam by (auto simp: laminar_def distinct_map)
  ultimately have "levels (map ?h vs) x = levels vs p + 1"
    using filter_one_more [OF _ p, of "\<lambda>m. encl m p"] lt by (simp add: levels_renumber levels_def [of vs p])
  then show "levels (map ?h vs) x = nd_depth p + 1" using sh p by (simp add: shape_ok_def)
  have "covers (?h m) (?h p)" if m: "m \<in> set vs" "encl (?h m) x" for m
  proof -
    have "covers m p" using e [OF m(1)] m(2) by auto
    then show ?thesis using w by (auto simp: shift_value_def)
  qed
  then have "\<exists>q \<in> set (map ?h vs). nd_id q = nd_id p \<and> encl q x \<and> (\<forall>m \<in> set (map ?h vs). encl m x \<longrightarrow> covers m q)"
    using p e [OF p] by (intro bexI [of _ "?h p"]) auto
  then show "parent_fits (map ?h vs) x" using x(3) by (simp add: parent_fits_def)
qed

text \<open>A node put beside \<open>s\<close> has the parent of \<open>s\<close>.\<close>

lemma graft_sibling:
  assumes sh: "shape_ok vs" and s: "s \<in> set vs" and g: "g = nd_left s \<or> g = nd_right s + 1" and w: "w \<ge> 1"
    and x: "nd_left x = g" "nd_right x = g + w - 1" "nd_parent x = nd_parent s"
  shows "parent_fits (map (renumber (shift_value g w)) vs) x"
    and "levels (map (renumber (shift_value g w)) vs) x = nd_depth s"
proof -
  let ?h = "renumber (shift_value g w)"
  note lam = shape_laminar [OF sh]
  have e: "encl (?h m) x \<longleftrightarrow> encl m s" if "m \<in> set vs" for m
    unfolding gap_encl [OF w x(1,2)] using g
    by (elim disjE) (simp_all only: straddles(2,3) [OF lam s that])
  have "filter (\<lambda>m. encl (?h m) x) vs = filter (\<lambda>m. encl m s) vs" using e by (intro filter_cong) auto
  then have "levels (map ?h vs) x = levels vs s" by (simp add: levels_renumber levels_def [of vs s])
  then show "levels (map ?h vs) x = nd_depth s" using sh s by (simp add: shape_ok_def)
  have fit: "parent_fits vs s" using sh s by (simp add: shape_ok_def)
  show "parent_fits (map ?h vs) x"
  proof (cases "nd_parent s")
    case None
    then show ?thesis using fit x(3) e unfolding parent_fits_def by auto
  next
    case (Some p)
    then obtain q where q: "q \<in> set vs" "nd_id q = p" "encl q s" "\<forall>m \<in> set vs. encl m s \<longrightarrow> covers m q"
      using fit by (auto simp: parent_fits_def)
    have "covers (?h m) (?h q)" if "m \<in> set vs" "encl (?h m) x" for m
    proof -
      have "covers m q" using e [OF that(1)] that q(4) by auto
      then show ?thesis using w by (auto simp: shift_value_def)
    qed
    then have "\<exists>q' \<in> set (map ?h vs). nd_id q' = p \<and> encl q' x \<and> (\<forall>m \<in> set (map ?h vs). encl m x \<longrightarrow> covers m q')"
      using q(1-3) e [OF q(1)] by (intro bexI [of _ "?h q"]) auto
    then show ?thesis using x(3) Some by (simp add: parent_fits_def)
  qed
qed

lemma subtree_single: "nd_left x < nd_right x \<Longrightarrow> subtree_ok x [x]"
  by (simp add: subtree_ok_def laminar_def numbers_def crossing_def)

section \<open>Taking a subtree out of a tree\<close>

lemma tree_bounds:
  assumes "tree_ok vs" "n \<in> set vs"
  shows "1 \<le> nd_left n" "nd_left n < nd_right n" "nd_right n \<le> 2 * int (length vs)"
proof -
  have "nd_left n \<in> {1..2 * int (length vs)}" "nd_right n \<in> {1..2 * int (length vs)}"
    using assms numbers_mem [OF assms(2)] unfolding tree_ok_def dense_def by blast+
  moreover have "nd_left n < nd_right n" using assms by (auto simp: tree_ok_def shape_ok_def laminar_def)
  ultimately show "1 \<le> nd_left n" "nd_left n < nd_right n" "nd_right n \<le> 2 * int (length vs)" by simp_all
qed

lemma outside_numbers:
  assumes "laminar vs" "n \<in> set vs" "m \<in> set vs" "\<not> covers n m"
  shows "nd_left m < nd_left n \<or> nd_left m > nd_right n" "nd_right m < nd_left n \<or> nd_right m > nd_right n"
proof -
  have lt: "nd_left m < nd_right m" "nd_left n < nd_right n" using assms by (simp_all add: laminar_def)
  show "nd_left m < nd_left n \<or> nd_left m > nd_right n" "nd_right m < nd_left n \<or> nd_right m > nd_right n"
    using laminar_cases [OF assms(1-3)] assms(4) lt by auto
qed

lemma inside_numbers:
  assumes "tree_ok vs" "n \<in> set vs"
  shows "set (numbers (filter (covers n) vs)) = {nd_left n..nd_right n}"
    and "set (numbers (filter (\<lambda>m. \<not> covers n m) vs)) = {1..2 * int (length vs)} - {nd_left n..nd_right n}"
proof -
  let ?in = "set (numbers (filter (covers n) vs))" and ?out = "set (numbers (filter (\<lambda>m. \<not> covers n m) vs))"
  have lam: "laminar vs" using assms(1) by (auto simp: tree_ok_def)
  have "{1..2 * int (length vs)} = ?in \<union> ?out"
  proof -
    have "set vs = set (filter (covers n) vs) \<union> set (filter (\<lambda>m. \<not> covers n m) vs)"
      unfolding set_filter by blast
    then have "set (numbers vs) = ?in \<union> ?out" unfolding numbers_set by (simp only: image_Un Un_ac)
    then show ?thesis using assms(1) by (simp only: tree_ok_def dense_def)
  qed
  moreover have "?in \<subseteq> {nd_left n..nd_right n}"
    using lam by (fastforce simp: numbers_set laminar_def)
  moreover have "v \<notin> {nd_left n..nd_right n}" if "v \<in> ?out" for v
    using that outside_numbers [OF lam assms(2)] by (fastforce simp: numbers_set)
  moreover have "{nd_left n..nd_right n} \<subseteq> {1..2 * int (length vs)}" using tree_bounds [OF assms] by auto
  ultimately show "?in = {nd_left n..nd_right n}" "?out = {1..2 * int (length vs)} - {nd_left n..nd_right n}" by blast+
qed

lemma subtree_width:
  assumes "tree_ok vs" "n \<in> set vs"
  shows "2 * int (length (filter (covers n) vs)) = nd_right n - nd_left n + 1"
proof -
  have "laminar (filter (covers n) vs)" using assms(1) by (auto simp: tree_ok_def intro: laminar_filter)
  then have "2 * length (filter (covers n) vs) = card {nd_left n..nd_right n}"
    using laminar_card inside_numbers(1) [OF assms] by metis
  then show ?thesis using tree_bounds [OF assms] by simp
qed

lemma tree_prune:
  assumes "tree_ok vs" "n \<in> set vs"
  shows "tree_ok (map (renumber (shift_value (nd_right n + 1) (- (nd_right n - nd_left n + 1)))) (filter (\<lambda>m. \<not> covers n m) vs))"
proof -
  let ?w = "nd_right n - nd_left n + 1" and ?out = "filter (\<lambda>m. \<not> covers n m) vs"
  let ?f = "shift_value (nd_right n + 1) (- ?w)"
  note b = tree_bounds [OF assms]
  have "strict_mono_on (set (numbers ?out)) ?f"
  proof (rule shift_down_mono)
    show "\<forall>v \<in> set (numbers ?out). v < nd_right n + 1 - ?w \<or> nd_right n + 1 \<le> v"
      unfolding inside_numbers(2) [OF assms] by auto
  qed (use b in simp)
  then have "shape_ok (map (renumber ?f) ?out)"
    using assms(1) by (intro shape_renumber shape_outside) auto
  moreover have "dense (map (renumber ?f) ?out)"
  proof -
    have "length (filter (covers n) vs) + length ?out = length vs" by (rule sum_length_filter_compl)
    then have "2 * int (length ?out) = 2 * int (length vs) - ?w" using subtree_width [OF assms] by linarith
    moreover have "set (numbers (map (renumber ?f) ?out)) = {1..2 * int (length vs) - ?w}"
      unfolding numbers_renumber set_map inside_numbers(2) [OF assms] using b by (intro shift_down_image) simp_all
    ultimately show ?thesis by (simp add: dense_def)
  qed
  ultimately show ?thesis by (simp add: tree_ok_def)
qed

section \<open>A subtree on its way\<close>

definition transplant :: "ustring \<Rightarrow> ustring \<Rightarrow> int \<Rightarrow> int \<Rightarrow> node \<Rightarrow> node" where
  "transplant i p k d x = x\<lparr>nd_left := nd_left x + k, nd_right := nd_right x + k, nd_depth := nd_depth x + d,
     nd_parent := (if nd_id x = i then Some p else nd_parent x)\<rparr>"

lemma transplant_simps [simp]:
  "nd_id (transplant i p k d x) = nd_id x" "nd_tree (transplant i p k d x) = nd_tree x"
  "nd_left (transplant i p k d x) = nd_left x + k" "nd_right (transplant i p k d x) = nd_right x + k"
  "nd_depth (transplant i p k d x) = nd_depth x + d"
  "nd_parent (transplant i p k d x) = (if nd_id x = i then Some p else nd_parent x)"
  by (simp_all add: transplant_def)

lemma numbers_transplant: "numbers (map (transplant i p k d) ss) = map (\<lambda>v. v + k) (numbers ss)"
  by (simp add: numbers_def)

lemma subtree_transplant:
  assumes "subtree_ok r ss"
  shows "subtree_ok (transplant (nd_id r) p k d r) (map (transplant (nd_id r) p k d) ss)"
proof -
  let ?h = "transplant (nd_id r) p k d"
  have s: "laminar ss" "r \<in> set ss" "\<forall>x \<in> set ss. covers r x" using assms by (simp_all add: subtree_ok_def)
  have "laminar (map ?h ss)"
    using s(1) unfolding laminar_def numbers_transplant
    by (auto simp: distinct_map inj_on_def o_def crossing_def)
  moreover have "\<forall>x \<in> set (map ?h ss). covers (?h r) x" using s(3) by simp
  moreover have "nd_depth (?h x) = nd_depth (?h r) + levels (map ?h ss) (?h x) \<and>
      (\<exists>q \<in> set (map ?h ss). nd_parent (?h x) = Some (nd_id q) \<and> encl q (?h x) \<and>
        (\<forall>m \<in> set (map ?h ss). encl m (?h x) \<longrightarrow> covers m q))"
    if x: "x \<in> set ss" "x \<noteq> r" for x
  proof
    have "nd_id x \<noteq> nd_id r" using x s same_node [of nd_id ss x r] by (auto simp: laminar_def)
    obtain q where q: "q \<in> set ss" "nd_parent x = Some (nd_id q)" "encl q x" "\<forall>m \<in> set ss. encl m x \<longrightarrow> covers m q"
      and dx: "nd_depth x = nd_depth r + levels ss x"
      using assms x by (auto simp: subtree_ok_def)
    have "levels (map ?h ss) (?h x) = levels ss x" by (simp add: levels_def filter_map o_def)
    then show "nd_depth (?h x) = nd_depth (?h r) + levels (map ?h ss) (?h x)" using dx by simp
    show "\<exists>q \<in> set (map ?h ss). nd_parent (?h x) = Some (nd_id q) \<and> encl q (?h x) \<and>
        (\<forall>m \<in> set (map ?h ss). encl m (?h x) \<longrightarrow> covers m q)"
      using q \<open>nd_id x \<noteq> nd_id r\<close> by (intro bexI [of _ "?h q"]) auto
  qed
  ultimately have "\<forall>y \<in> set (map ?h ss). y \<noteq> ?h r \<longrightarrow> nd_depth y = nd_depth (?h r) + levels (map ?h ss) y \<and>
      (\<exists>q \<in> set (map ?h ss). nd_parent y = Some (nd_id q) \<and> encl q y \<and> (\<forall>m \<in> set (map ?h ss). encl m y \<longrightarrow> covers m q))"
    unfolding set_map by blast
  moreover have "?h r \<in> set (map ?h ss)" using s(2) by simp
  ultimately show ?thesis
    unfolding subtree_ok_def using \<open>laminar (map ?h ss)\<close> \<open>\<forall>x \<in> set (map ?h ss). covers (?h r) x\<close> by blast
qed

end
