(* ===== verification/Nested_Set_Props.thy ===== *)
theory Nested_Set_Props
  imports Nested_Set_Grafts
begin

text \<open>
  The numbers of every tree of a resource stay those of a nested set under every operation but the deletion of a
  node with children, and then the intervals say what the parents say.
\<close>

section \<open>Trees of a resource\<close>

definition valid_tree :: "bool \<Rightarrow> ustring option \<Rightarrow> bool" where
  "valid_tree tf t \<longleftrightarrow> (tf \<longrightarrow> t \<noteq> None \<and> t \<noteq> Some [])"

definition forest_ok :: "bool \<Rightarrow> node list \<Rightarrow> bool" where
  "forest_ok tf ns \<longleftrightarrow>
     distinct (map nd_id ns) \<and> (\<forall>n \<in> set ns. valid_tree tf (nd_tree n)) \<and>
     (\<forall>t. valid_tree tf t \<longrightarrow> tree_ok (tree_nodes tf t ns))"

lemma in_tree_iff: "valid_tree tf t \<Longrightarrow> in_tree tf t n \<longleftrightarrow> (tf \<longrightarrow> nd_tree n = t)"
  by (auto simp: in_tree_def valid_tree_def split: option.splits)

lemma valid_tree_id: "valid_tree tf (nd_tree n) \<Longrightarrow> valid_tree tf (tree_id tf n)"
  by (simp add: valid_tree_def tree_id_def)

lemma in_tree_id: "valid_tree tf (nd_tree n) \<Longrightarrow> in_tree tf (tree_id tf n) m \<longleftrightarrow> (tf \<longrightarrow> nd_tree m = nd_tree n)"
  by (simp add: in_tree_iff valid_tree_id) (simp add: tree_id_def)

lemma view_mem: "n \<in> set (tree_nodes tf t ns) \<longleftrightarrow> n \<in> set ns \<and> in_tree tf t n"
  by (auto simp: tree_nodes_def)

lemma view_append [simp]: "tree_nodes tf t (ns @ ms) = tree_nodes tf t ns @ tree_nodes tf t ms"
  by (simp add: tree_nodes_def)

lemma in_tree_cong: "nd_tree m = nd_tree n \<Longrightarrow> in_tree tf t m \<longleftrightarrow> in_tree tf t n"
  by (simp add: in_tree_def split: option.splits)

lemma view_map:
  assumes "\<And>n. nd_tree (f n) = nd_tree n"
  shows "tree_nodes tf t (map f ns) = map f (tree_nodes tf t ns)"
proof -
  have "in_tree tf t (f n) = in_tree tf t n" for n using assms by (rule in_tree_cong)
  then show ?thesis by (simp add: tree_nodes_def filter_map o_def)
qed

lemma own_view: "forest_ok tf ns \<Longrightarrow> n \<in> set ns \<Longrightarrow> n \<in> set (tree_nodes tf (tree_id tf n) ns)"
  by (simp add: view_mem in_tree_id forest_ok_def)

lemma own_valid: "forest_ok tf ns \<Longrightarrow> n \<in> set ns \<Longrightarrow> valid_tree tf (tree_id tf n)"
  by (simp add: forest_ok_def valid_tree_id)

lemma view_ok: "forest_ok tf ns \<Longrightarrow> valid_tree tf t \<Longrightarrow> tree_ok (tree_nodes tf t ns)"
  by (simp add: forest_ok_def)

lemma shift_nodes_ids [simp]: "map nd_id (shift_nodes tf t g d ns) = map nd_id ns"
  by (simp add: shift_nodes_def)

lemma shift_nodes_trees: "\<forall>n \<in> set ns. P (nd_tree n) \<Longrightarrow> \<forall>n \<in> set (shift_nodes tf t g d ns). P (nd_tree n)"
  by (auto simp: shift_nodes_def)

lemma view_same: "tf \<longrightarrow> u = t \<Longrightarrow> valid_tree tf t \<Longrightarrow> valid_tree tf u \<Longrightarrow> tree_nodes tf u ns = tree_nodes tf t ns"
  by (auto simp: tree_nodes_def in_tree_iff)

lemma view_shift:
  assumes "valid_tree tf t"
  shows "tree_nodes tf t (shift_nodes tf t g d ns) = map (renumber (shift_value g d)) (tree_nodes tf t ns)"
proof -
  have "tree_nodes tf t (shift_nodes tf t g d ns) =
      map (\<lambda>n. if in_tree tf t n then renumber (shift_value g d) n else n) (tree_nodes tf t ns)"
    unfolding shift_nodes_def by (rule view_map) simp
  then show ?thesis by (auto simp: tree_nodes_def)
qed

lemma view_shift_other:
  assumes "valid_tree tf t" "valid_tree tf u" "tf" "u \<noteq> t"
  shows "tree_nodes tf u (shift_nodes tf t g d ns) = tree_nodes tf u ns"
proof -
  have "tree_nodes tf u (shift_nodes tf t g d ns) =
      map (\<lambda>n. if in_tree tf t n then renumber (shift_value g d) n else n) (tree_nodes tf u ns)"
    unfolding shift_nodes_def by (rule view_map) simp
  also have "\<dots> = map (\<lambda>n. n) (tree_nodes tf u ns)"
  proof (intro map_cong refl)
    fix n assume "n \<in> set (tree_nodes tf u ns)"
    then have "nd_tree n = u" using assms by (simp add: view_mem in_tree_iff)
    then show "(if in_tree tf t n then renumber (shift_value g d) n else n) = n"
      using assms by (simp add: in_tree_iff)
  qed
  finally show ?thesis by simp
qed

lemma mset_tree: "mset vs = mset ws \<Longrightarrow> tree_ok vs \<Longrightarrow> tree_ok ws"
  unfolding tree_ok_def using mset_shape mset_dense by blast

text \<open>An operation touches one tree.\<close>

lemma forest_update:
  assumes "forest_ok tf ns" "distinct (map nd_id ns')" "\<forall>n \<in> set ns'. valid_tree tf (nd_tree n)"
    and "valid_tree tf t" "tree_ok (tree_nodes tf t ns')"
    and "\<And>u. valid_tree tf u \<Longrightarrow> tf \<Longrightarrow> u \<noteq> t \<Longrightarrow> tree_nodes tf u ns' = tree_nodes tf u ns"
  shows "forest_ok tf ns'"
proof -
  have "tree_ok (tree_nodes tf u ns')" if "valid_tree tf u" for u
  proof (cases "tf \<longrightarrow> u = t")
    case True
    then show ?thesis using view_same [OF True assms(4) that] assms(5) by simp
  next
    case False
    then show ?thesis using assms(6) [OF that] view_ok [OF assms(1) that] by simp
  qed
  then show ?thesis using assms(2,3) by (simp add: forest_ok_def)
qed

lemma get_node_iff:
  assumes "distinct (map nd_id ns)"
  shows "get_node ns i = Inr n \<longleftrightarrow> n \<in> set ns \<and> nd_id n = i"
proof
  assume "get_node ns i = Inr n"
  then show "n \<in> set ns \<and> nd_id n = i" by (auto simp: get_node_def find_Some_iff split: option.splits)
next
  assume n: "n \<in> set ns \<and> nd_id n = i"
  then obtain m where m: "find (\<lambda>n. nd_id n = i) ns = Some m"
    by (cases "find (\<lambda>n. nd_id n = i) ns") (auto simp: find_None_iff)
  then have "m \<in> set ns" "nd_id m = i" by (auto simp: find_Some_iff)
  then have "m = n" using same_node [OF assms, of m n] n by simp
  then show "get_node ns i = Inr n" using m by (simp add: get_node_def)
qed

lemma get_node_forest: "forest_ok tf ns \<Longrightarrow> get_node ns i = Inr n \<Longrightarrow> n \<in> set ns \<and> nd_id n = i"
  by (simp add: forest_ok_def get_node_iff)

section \<open>New nodes\<close>

lemma forest_insert:
  assumes f: "forest_ok tf ns" and t: "valid_tree tf t" "valid_tree tf (nd_tree x)" "tf \<longrightarrow> nd_tree x = t"
    and i: "nd_id x \<notin> nd_id ` set ns"
    and g: "nd_left x = g" "nd_right x = g + 1" "1 \<le> g" "g \<le> 2 * int (length (tree_nodes tf t ns)) + 1"
    and root: "parent_fits (map (renumber (shift_value g 2)) (tree_nodes tf t ns)) x"
      "nd_depth x = levels (map (renumber (shift_value g 2)) (tree_nodes tf t ns)) x"
  shows "forest_ok tf (shift_nodes tf t g 2 ns @ [x])"
proof (rule forest_update [OF f _ _ t(1)])
  show "distinct (map nd_id (shift_nodes tf t g 2 ns @ [x]))"
    using f i by (simp add: forest_ok_def)
  have "\<forall>n \<in> set ns. valid_tree tf (nd_tree n)" using f by (simp add: forest_ok_def)
  then have "\<forall>n \<in> set (shift_nodes tf t g 2 ns). valid_tree tf (nd_tree n)" by (rule shift_nodes_trees)
  then show "\<forall>n \<in> set (shift_nodes tf t g 2 ns @ [x]). valid_tree tf (nd_tree n)"
    using t(2) by auto
  have "in_tree tf t x" using t by (simp add: in_tree_iff)
  then have v: "tree_nodes tf t (shift_nodes tf t g 2 ns @ [x]) = map (renumber (shift_value g 2)) (tree_nodes tf t ns) @ [x]"
    using view_shift [OF t(1)] by (simp add: tree_nodes_def)
  have w: "nd_right x - nd_left x + 1 = 2" using g by simp
  have "set (numbers [x]) = {nd_left x..nd_right x}" using g by (auto simp: numbers_def)
  moreover have "nd_id ` set (tree_nodes tf t ns) \<inter> nd_id ` set [x] = {}" using i by (auto simp: view_mem)
  moreover have "subtree_ok x [x]" using g by (intro subtree_single) simp
  ultimately show "tree_ok (tree_nodes tf t (shift_nodes tf t g 2 ns @ [x]))"
    using tree_graft [OF view_ok [OF f t(1)], of x "[x]"] g root unfolding v w by simp
  show "tree_nodes tf u (shift_nodes tf t g 2 ns @ [x]) = tree_nodes tf u ns"
    if "valid_tree tf u" "tf" "u \<noteq> t" for u
    using view_shift_other [OF t(1) that] t(3) that in_tree_iff [OF that(1), of x] by (simp add: tree_nodes_def)
qed

lemma add_child_shifts:
  assumes f: "forest_ok tf ns" and i: "i \<notin> nd_id ` set ns" and a: "add_child tf parentId t i ns = Inr ns'"
  shows "\<exists>p \<in> set ns. nd_id p = parentId \<and> ns' = shift_nodes tf (tree_id tf p) (nd_right p) 2 ns @
    [\<lparr>nd_id = i, nd_tree = (if tf then nd_tree p else t), nd_parent = Some parentId,
      nd_left = nd_right p, nd_right = nd_right p + 1, nd_depth = nd_depth p + 1\<rparr>]"
proof -
  obtain p where g: "get_node ns parentId = Inr p"
    using a by (cases "get_node ns parentId") (simp_all add: add_child_def)
  have p: "p \<in> set ns" "nd_id p = parentId" using get_node_forest [OF f g] by simp_all
  have v: "valid_tree tf (nd_tree p)" using f p by (simp add: forest_ok_def)
  let ?shifted = "shift_nodes tf (tree_id tf p) (nd_right p) 2 ns"
  have "patch_node parentId (\<lambda>n. n\<lparr>nd_right := nd_right p + 2\<rparr>) ?shifted = map (\<lambda>n. n) ?shifted"
    unfolding patch_node_def
  proof (intro map_cong refl)
    fix m' assume "m' \<in> set ?shifted"
    then obtain m where m: "m \<in> set ns" "m' = (if in_tree tf (tree_id tf p) m then renumber (shift_value (nd_right p) 2) m else m)"
      by (auto simp: shift_nodes_def)
    have "m' = renumber (shift_value (nd_right p) 2) p" if "nd_id m' = parentId"
    proof -
      have "m = p" using same_node [of nd_id ns m p] f m that p by (auto simp: forest_ok_def split: if_splits)
      then show ?thesis using m(2) v by (simp add: in_tree_id)
    qed
    then have "nd_right m' = nd_right p + 2" if "nd_id m' = parentId"
      using that by (simp add: shift_value_def)
    then show "(if nd_id m' = parentId then m'\<lparr>nd_right := nd_right p + 2\<rparr> else m') = m'" by auto
  qed
  moreover have "i \<noteq> parentId" using i p by auto
  ultimately show ?thesis
    using a g p v by (auto simp: add_child_def Let_def patch_node_def tree_id_def valid_tree_def)
qed

lemma forest_add_child:
  assumes f: "forest_ok tf ns" and i: "i \<notin> nd_id ` set ns" and a: "add_child tf parentId t i ns = Inr ns'"
  shows "forest_ok tf ns'"
proof -
  obtain p where p: "p \<in> set ns" "nd_id p = parentId" and ns': "ns' = shift_nodes tf (tree_id tf p) (nd_right p) 2 ns @
    [\<lparr>nd_id = i, nd_tree = (if tf then nd_tree p else t), nd_parent = Some parentId,
      nd_left = nd_right p, nd_right = nd_right p + 1, nd_depth = nd_depth p + 1\<rparr>]" (is "_ = _ @ [?x]")
    using add_child_shifts [OF assms] by blast
  note t = own_valid [OF f p(1)] and o = own_view [OF f p(1)]
  note v = view_ok [OF f t]
  note c = graft_child [OF tree_shape [OF v] o refl, of 2 ?x]
  have "valid_tree tf (nd_tree p)" using f p(1) by (simp add: forest_ok_def)
  then show ?thesis
    unfolding ns' using c p(2) tree_bounds [OF v o]
    by (intro forest_insert [OF f t]) (auto simp: tree_id_def valid_tree_def i)
qed

lemma forest_insert_sibling:
  assumes f: "forest_ok tf ns" and i: "i \<notin> nd_id ` set ns" and a: "insert_sibling position tf siblingId t i ns = Inr ns'"
    and pos: "\<And>s. position s = nd_left s \<or> position s = nd_right s + 1"
  shows "forest_ok tf ns'"
proof -
  obtain s where g: "get_node ns siblingId = Inr s"
    using a by (cases "get_node ns siblingId") (simp_all add: insert_sibling_def)
  have s: "s \<in> set ns" using get_node_forest [OF f g] by simp
  have vt: "valid_tree tf (nd_tree s)" using f s(1) by (simp add: forest_ok_def)
  have ns': "ns' = shift_nodes tf (tree_id tf s) (position s) 2 ns @
      [\<lparr>nd_id = i, nd_tree = (if tf then nd_tree s else t), nd_parent = nd_parent s, nd_left = position s,
        nd_right = position s + 1, nd_depth = nd_depth s\<rparr>]" (is "_ = _ @ [?x]")
    using a g vt by (auto simp: insert_sibling_def Let_def tree_id_def valid_tree_def)
  note t' = own_valid [OF f s] and o = own_view [OF f s]
  note v = view_ok [OF f t']
  note c = graft_sibling [OF tree_shape [OF v] o pos [of s], of 2 ?x]
  have "1 \<le> position s" "position s \<le> 2 * int (length (tree_nodes tf (tree_id tf s) ns)) + 1"
    using tree_bounds [OF v o] pos [of s] by auto
  then show ?thesis
    unfolding ns' using c vt
    by (intro forest_insert [OF f t']) (auto simp: tree_id_def valid_tree_def i)
qed


section \<open>Roots\<close>

lemma foldl_max:
  "foldl (\<lambda>m r. max m (f r)) a ns = b \<longleftrightarrow> b = a \<and> (\<forall>r \<in> set ns. f r \<le> a) \<or>
    b \<ge> a \<and> b \<in> f ` set ns \<and> (\<forall>r \<in> set ns. f r \<le> b)"
  for f :: "'a \<Rightarrow> int"
proof (induction ns arbitrary: a)
  case (Cons x ns)
  show ?case unfolding foldl_Cons Cons.IH by (auto simp: max_def)
qed auto

lemma max_root:
  assumes "tree_ok vs"
  shows "foldl (\<lambda>m r. max m (nd_right r)) 0 (sort_key nd_left (filter (\<lambda>n. nd_parent n = None) vs)) = 2 * int (length vs)"
proof (cases "vs = []")
  case False
  let ?N = "2 * int (length vs)"
  have "length vs > 0" using False by simp
  then have "1 \<le> ?N" by linarith
  then have "?N \<in> set (numbers vs)" using assms by (simp add: tree_ok_def dense_def)
  then obtain m where m: "m \<in> set vs" "nd_left m = ?N \<or> nd_right m = ?N" by (auto simp: numbers_set)
  then have r: "nd_right m = ?N" using tree_bounds [OF assms m(1)] by auto
  have "parent_fits vs m" using assms m(1) by (simp add: tree_ok_def shape_ok_def)
  then have "nd_parent m = None"
    using tree_bounds(3) [OF assms] r by (fastforce simp: parent_fits_def split: option.splits)
  then show ?thesis
    using m(1) r tree_bounds(3) [OF assms] unfolding foldl_max by (force intro!: image_eqI [of _ _ m])
qed simp

lemma forest_create_root:
  assumes f: "forest_ok tf ns" and i: "i \<notin> nd_id ` set ns" and t: "valid_tree tf t"
  shows "forest_ok tf (create_root tf t i ns)"
proof -
  let ?t = "if tf then t else None"
  let ?vs = "tree_nodes tf ?t ns"
  have vt: "valid_tree tf ?t" using t by (simp add: valid_tree_def)
  note v = view_ok [OF f vt]
  let ?g = "2 * int (length ?vs) + 1"
  let ?x = "\<lparr>nd_id = i, nd_tree = t, nd_parent = None, nd_left = ?g, nd_right = ?g + 1, nd_depth = 0\<rparr>"
  have b: "shift_value ?g 2 (nd_left m) = nd_left m" "shift_value ?g 2 (nd_right m) = nd_right m" if "m \<in> set ?vs" for m
    using tree_bounds [OF v that] by (simp_all add: shift_value_def)
  have "\<not> in_tree tf ?t n" if "n \<in> set ns" "n \<notin> set ?vs" for n using that by (simp add: view_mem)
  then have id: "shift_nodes tf ?t ?g 2 ns = ns"
    unfolding shift_nodes_def using b by (intro map_idI) (auto simp: renumber_def view_mem)
  have "create_root tf t i ns = shift_nodes tf ?t ?g 2 ns @ [?x]"
    unfolding id by (simp add: create_root_def get_roots_def max_root [OF v] Let_def)
  moreover have "forest_ok tf (shift_nodes tf ?t ?g 2 ns @ [?x])"
  proof (rule forest_insert [OF f vt])
    have no: "\<not> encl (renumber (shift_value ?g 2) m) ?x" if "m \<in> set ?vs" for m
      using b [OF that] tree_bounds [OF v that] by simp
    then show "parent_fits (map (renumber (shift_value ?g 2)) ?vs) ?x" by (simp add: parent_fits_def)
    show "nd_depth ?x = levels (map (renumber (shift_value ?g 2)) ?vs) ?x"
      using no by (simp add: levels_renumber filter_empty_conv)
  qed (use t i in simp_all)
  ultimately show ?thesis by simp
qed

section \<open>Removing a subtree\<close>

lemma inside_True: "inside True n = covers n"
  by (rule ext) (auto simp: inside_def)

lemma inside_False: "inside False n = encl n"
  by (rule ext) (auto simp: inside_def)

lemma delete_subtree_shape:
  assumes f: "forest_ok tf ns" and a: "delete_subtree tf i ns = Inr (k, ns')"
  shows "\<exists>n \<in> set ns. nd_id n = i \<and> k = length (filter (covers n) (tree_nodes tf (tree_id tf n) ns)) \<and>
    ns' = shift_nodes tf (tree_id tf n) (nd_right n + 1) (- (nd_right n - nd_left n + 1))
      (filter (\<lambda>m. \<not> (in_tree tf (tree_id tf n) m \<and> covers n m)) ns)"
proof -
  obtain n where g: "get_node ns i = Inr n"
    using a by (cases "get_node ns i") (simp_all add: delete_subtree_def)
  have n: "n \<in> set ns" "nd_id n = i" using get_node_forest [OF f g] by simp_all
  let ?t = "tree_id tf n"
  let ?sub = "filter (covers n) (tree_nodes tf ?t ns)"
  have sub: "nd_id m \<in> nd_id ` set ?sub \<longleftrightarrow> m \<in> set ?sub" if "m \<in> set ns" for m
    using that same_node [of nd_id ns m] f by (auto simp: forest_ok_def view_mem)
  have "filter (\<lambda>m. nd_id m \<notin> nd_id ` set ?sub) ns = filter (\<lambda>m. \<not> (in_tree tf ?t m \<and> covers n m)) ns"
  proof (intro filter_cong refl)
    fix m assume m: "m \<in> set ns"
    show "nd_id m \<notin> nd_id ` set ?sub \<longleftrightarrow> \<not> (in_tree tf ?t m \<and> covers n m)"
      unfolding sub [OF m] using m by (auto simp: view_mem)
  qed
  then show ?thesis using a n unfolding delete_subtree_def g sum.case Let_def inside_True by auto
qed

lemma forest_delete_subtree:
  assumes f: "forest_ok tf ns" and a: "delete_subtree tf i ns = Inr (k, ns')"
  shows "forest_ok tf ns'"
proof -
  obtain n where n: "n \<in> set ns" and ns': "ns' = shift_nodes tf (tree_id tf n) (nd_right n + 1) (- (nd_right n - nd_left n + 1))
      (filter (\<lambda>m. \<not> (in_tree tf (tree_id tf n) m \<and> covers n m)) ns)"
    using delete_subtree_shape [OF assms] by blast
  let ?t = "tree_id tf n"
  let ?vs = "tree_nodes tf ?t ns"
  note vt = own_valid [OF f n] and o = own_view [OF f n]
  note v = view_ok [OF f vt]
  let ?g = "nd_right n + 1" and ?w = "nd_right n - nd_left n + 1"
  let ?rest = "filter (\<lambda>m. \<not> (in_tree tf ?t m \<and> covers n m)) ns"
  have "tree_nodes tf ?t ?rest = filter (\<lambda>m. \<not> covers n m) ?vs"
    unfolding tree_nodes_def filter_filter by (intro filter_cong refl) auto
  then have "tree_nodes tf ?t ns' = map (renumber (shift_value ?g (- ?w))) (filter (\<lambda>m. \<not> covers n m) ?vs)"
    unfolding ns' view_shift [OF vt] by simp
  then have "tree_ok (tree_nodes tf ?t ns')" using tree_prune [OF v o] by simp
  moreover have "tree_nodes tf u ns' = tree_nodes tf u ns" if u: "valid_tree tf u" "tf" "u \<noteq> ?t" for u
  proof -
    have "tree_nodes tf u ?rest = tree_nodes tf u ns"
      unfolding tree_nodes_def filter_filter using u vt
      by (intro filter_cong refl) (auto simp: in_tree_iff)
    then show ?thesis unfolding ns' by (simp add: view_shift_other [OF vt u])
  qed
  moreover have "distinct (map nd_id ns')" unfolding ns' using f by (simp add: forest_ok_def distinct_map_filter)
  moreover have "\<forall>m \<in> set ns'. valid_tree tf (nd_tree m)"
    unfolding ns' using f by (intro shift_nodes_trees) (simp add: forest_ok_def)
  ultimately show ?thesis using forest_update [OF f _ _ vt] by simp
qed


section \<open>Moving a subtree\<close>

lemma get_node_map:
  assumes "\<And>n. nd_id (f n) = nd_id n"
  shows "get_node (map f ns) i = map_sum id f (get_node ns i)"
  using assms by (induction ns) (auto simp: get_node_def)

lemma find_self:
  assumes "distinct (map nd_id ns)" "set ss \<subseteq> set ns" "m \<in> set ns"
  shows "find (\<lambda>s. nd_id s = nd_id m) ss = (if m \<in> set ss then Some m else None)"
proof (cases "find (\<lambda>s. nd_id s = nd_id m) ss")
  case None
  then show ?thesis by (auto simp: find_None_iff)
next
  case (Some s)
  then have "s \<in> set ss" "nd_id s = nd_id m" by (auto simp: find_Some_iff)
  then show ?thesis using same_node [OF assms(1), of s m] assms(2,3) Some by auto
qed

definition moved :: "bool \<Rightarrow> node \<Rightarrow> ustring \<Rightarrow> int \<Rightarrow> int \<Rightarrow> node \<Rightarrow> node" where
  "moved tf n p position d m =
     (if in_tree tf (tree_id tf n) m
      then if covers n m then transplant (nd_id n) p (position - nd_left n) d m
        else renumber (shift_value position (nd_right n - nd_left n + 1))
          (renumber (shift_value (nd_right n + 1) (- (nd_right n - nd_left n + 1))) m)
      else m)"

lemma moved_simps [simp]:
  "nd_id (moved tf n p position d m) = nd_id m" "nd_tree (moved tf n p position d m) = nd_tree m"
  by (simp_all add: moved_def)

lemma move_subtree_moved:
  assumes f: "forest_ok tf ns" and a: "move_subtree tf i newParentId ns = Inr ns'" and ne: "i \<noteq> newParentId"
  shows "ns' = ns \<and> (\<exists>n \<in> set ns. nd_id n = i \<and> nd_parent n = Some newParentId) \<or> (\<exists>n \<in> set ns. \<exists>p \<in> set ns. nd_id n = i \<and> nd_id p = newParentId \<and>
    in_tree tf (tree_id tf n) p \<and> \<not> covers n p \<and>
    ns' = map (moved tf n newParentId
      (shift_value (nd_right n + 1) (- (nd_right n - nd_left n + 1)) (nd_right p)) (nd_depth p + 1 - nd_depth n)) ns)"
proof -
  obtain n p where g: "get_node ns i = Inr n" "get_node ns newParentId = Inr p"
    using a by (auto simp: move_subtree_def split: sum.splits)
  have n: "n \<in> set ns" "nd_id n = i" and p: "p \<in> set ns" "nd_id p = newParentId"
    using get_node_forest [OF f] g by auto
  let ?t = "tree_id tf n"
  let ?w = "nd_right n - nd_left n + 1"
  let ?sub = "filter (covers n) (tree_nodes tf ?t ns)"
  let ?f = "shift_value (nd_right n + 1) (- ?w)"
  let ?closed = "shift_nodes tf ?t (nd_right n + 1) (- ?w) (park ?sub (nd_left n) ns)"
  note vt = own_valid [OF f n(1)]
  have ids: "distinct (map nd_id ns)" using f by (simp add: forest_ok_def)
  show ?thesis
  proof (cases "nd_parent n = Some newParentId")
    case True
    then have "ns' = ns" using a g by (simp add: move_subtree_def Let_def split: if_splits)
    then show ?thesis using True n by blast
  next
    case False
    have same: "\<not> (tf \<and> ?t \<noteq> tree_id tf p)" and out: "\<not> encl n p"
      using a g by (auto simp: move_subtree_def Let_def inside_False split: if_splits)
    have ns': "(case get_node ?closed newParentId of Inl e \<Rightarrow> Inl e
        | Inr q \<Rightarrow> Inr (place ?sub i newParentId (nd_left n) (nd_right q) (nd_depth p + 1 - nd_depth n)
            (shift_nodes tf ?t (nd_right q) ?w ?closed))) = Inr ns'"
      using a by (simp only: move_subtree_def g prod.case sum.case Let_def inside_True inside_False same out False if_False)
    have "valid_tree tf (nd_tree n)" using f n(1) by (simp add: forest_ok_def)
    then have tp: "in_tree tf ?t p" using same by (auto simp: in_tree_id) (simp add: tree_id_def)
    have pv: "p \<in> set (tree_nodes tf ?t ns)" using tp p(1) by (simp add: view_mem)
    have lam: "laminar (tree_nodes tf ?t ns)" using view_ok [OF f vt] by (auto simp: tree_ok_def)
    have "\<not> covers n p" using covers_iff [OF lam own_view [OF f n(1)] pv] out ne n(2) p(2) by auto
    have found: "find (\<lambda>s. nd_id s = nd_id m) ?sub = (if in_tree tf ?t m \<and> covers n m then Some m else None)"
      if "m \<in> set ns" for m
      using find_self [OF ids, of ?sub m] that by (auto simp: view_mem)
    define pk where "pk = (\<lambda>m :: node. case find (\<lambda>s. nd_id s = nd_id m) ?sub of
        Some s \<Rightarrow> m\<lparr>nd_left := nd_left s - nd_left n + 10000000, nd_right := nd_right s - nd_left n + 10000000\<rparr>
      | None \<Rightarrow> m)"
    define cl where "cl = (\<lambda>m :: node. if in_tree tf ?t m then renumber ?f m else m)"
    have pk: "nd_id (pk m) = nd_id m" "nd_tree (pk m) = nd_tree m" for m by (simp_all add: pk_def split: option.splits)
    have closed: "?closed = map (\<lambda>m. cl (pk m)) ns" by (simp add: shift_nodes_def park_def pk_def cl_def o_def)
    have "get_node ?closed newParentId = map_sum id (\<lambda>m. cl (pk m)) (get_node ns newParentId)"
      unfolding closed by (rule get_node_map) (simp add: pk cl_def)
    moreover have "cl (pk p) = renumber ?f p"
      using \<open>\<not> covers n p\<close> tp found [OF p(1)] unfolding pk_def cl_def by auto
    ultimately have closed_p: "get_node ?closed newParentId = Inr (renumber ?f p)" using g by simp
    define q where "q = ?f (nd_right p)"
    define d where "d = nd_depth p + 1 - nd_depth n"
    have "ns' = place ?sub i newParentId (nd_left n) q d (shift_nodes tf ?t q ?w ?closed)"
      using ns' unfolding closed_p q_def d_def by simp
    also have "\<dots> = map (moved tf n newParentId q d) ns"
      unfolding closed unfolding place_def shift_nodes_def map_map
    proof (intro map_cong refl)
      fix m assume m: "m \<in> set ns"
      have t: "in_tree tf ?t (cl (pk m)) = in_tree tf ?t m" by (rule in_tree_cong) (simp add: cl_def pk)
      define c where "c \<longleftrightarrow> covers n m"
      have pm: "pk m = (if in_tree tf ?t m \<and> c
          then m\<lparr>nd_left := nd_left m - nd_left n + 10000000, nd_right := nd_right m - nd_left n + 10000000\<rparr> else m)"
        unfolding pk_def found [OF m] c_def by simp
      define m' where "m' = (if in_tree tf ?t m then renumber (shift_value q ?w) (cl (pk m)) else cl (pk m))"
      have i: "nd_id m' = nd_id m" by (simp add: m'_def cl_def pk)
      show "((\<lambda>n'. case find (\<lambda>s. nd_id s = nd_id n') ?sub of
            Some s \<Rightarrow> n'\<lparr>nd_left := q + (nd_left s - nd_left n), nd_right := q + (nd_right s - nd_left n),
              nd_depth := nd_depth s + d, nd_parent := if nd_id s = i then Some newParentId else nd_parent n'\<rparr>
          | None \<Rightarrow> n') \<circ> ((\<lambda>m. if in_tree tf ?t m then renumber (shift_value q ?w) m else m) \<circ> (\<lambda>m. cl (pk m)))) m =
          moved tf n newParentId q d m"
        unfolding o_def t m'_def [symmetric] i found [OF m] moved_def c_def [symmetric]
        by (cases "in_tree tf ?t m"; cases c)
          (simp_all add: transplant_def renumber_def cl_def pm n(2) m'_def add_diff_eq add.commute)
    qed
    finally show ?thesis using n p tp \<open>\<not> covers n p\<close> unfolding q_def d_def by blast
  qed
qed


lemma mset_map_split: "mset (map f (filter (\<lambda>x. \<not> P x) xs) @ map f (filter P xs)) = mset (map f xs)"
  by (induction xs) auto

lemma forest_move:
  assumes f: "forest_ok tf ns" and a: "move_subtree tf i newParentId ns = Inr ns'" and ne: "i \<noteq> newParentId"
  shows "forest_ok tf ns'"
proof (cases "ns' = ns")
  case False
  then obtain n p where n: "n \<in> set ns" and p: "p \<in> set ns" "nd_id p = newParentId" "in_tree tf (tree_id tf n) p" "\<not> covers n p"
    and ns': "ns' = map (moved tf n newParentId
      (shift_value (nd_right n + 1) (- (nd_right n - nd_left n + 1)) (nd_right p)) (nd_depth p + 1 - nd_depth n)) ns"
    using move_subtree_moved [OF assms] by blast
  let ?t = "tree_id tf n" and ?w = "nd_right n - nd_left n + 1"
  let ?f = "shift_value (nd_right n + 1) (- ?w)"
  let ?vs = "tree_nodes tf ?t ns" and ?q = "renumber ?f p"
  let ?mv = "moved tf n newParentId (nd_right ?q) (nd_depth p + 1 - nd_depth n)"
  let ?tr = "transplant (nd_id n) newParentId (nd_right ?q - nd_left n) (nd_depth p + 1 - nd_depth n)"
  note vt = own_valid [OF f n] and o = own_view [OF f n]
  note v = view_ok [OF f vt]
  let ?rest = "map (renumber ?f) (filter (\<lambda>m. \<not> covers n m) ?vs)" and ?sub = "map ?tr (filter (covers n) ?vs)"
  have rest: "tree_ok ?rest" by (rule tree_prune [OF v o])
  have q: "?q \<in> set ?rest" using p by (auto simp: view_mem)
  have lt: "?w \<ge> 1" using tree_bounds(2) [OF v o] by simp
  have tn: "nd_right (?tr n) - nd_left (?tr n) + 1 = ?w" "nd_left (?tr n) = nd_right ?q"
    "nd_right (?tr n) = nd_right ?q + ?w - 1" "nd_parent (?tr n) = Some (nd_id ?q)"
    using p(2) by simp_all
  note c = graft_child [OF tree_shape [OF rest] q refl lt tn(2-4)]
  have s: "subtree_ok (?tr n) ?sub" using subtree_inside [OF tree_shape [OF v] o] by (rule subtree_transplant)
  have num: "set (numbers ?sub) = {nd_left (?tr n)..nd_right (?tr n)}"
    by (simp add: numbers_transplant inside_numbers(1) [OF v o])
  have "distinct (map nd_id ?vs)" using v by (auto simp: tree_ok_def shape_ok_def laminar_def)
  then have ids: "nd_id ` set ?rest \<inter> nd_id ` set ?sub = {}" by (auto simp: distinct_map dest: inj_onD)
  have "tree_ok (map (renumber (shift_value (nd_right ?q) ?w)) ?rest @ ?sub)"
    using tree_graft [OF rest s num _ _ ids] tree_bounds [OF rest q] c unfolding tn(1,2) by simp
  moreover have "map (renumber (shift_value (nd_right ?q) ?w)) ?rest = map ?mv (filter (\<lambda>m. \<not> covers n m) ?vs)"
    unfolding map_map by (intro map_cong refl) (auto simp: moved_def view_mem)
  moreover have "?sub = map ?mv (filter (covers n) ?vs)"
    by (intro map_cong refl) (auto simp: moved_def view_mem)
  ultimately have "tree_ok (map ?mv (filter (\<lambda>m. \<not> covers n m) ?vs) @ map ?mv (filter (covers n) ?vs))" by (simp only:)
  then have "tree_ok (map ?mv ?vs)" by (rule mset_tree [OF mset_map_split])
  moreover have "tree_nodes tf ?t ns' = map ?mv ?vs" unfolding ns' renumber_simps by (rule view_map) simp
  ultimately have own: "tree_ok (tree_nodes tf ?t ns')" by (simp only:)
  show ?thesis
  proof (rule forest_update [OF f _ _ vt own])
    show "distinct (map nd_id ns')" using f by (simp add: ns' o_def forest_ok_def)
    show "\<forall>m \<in> set ns'. valid_tree tf (nd_tree m)" using f by (simp add: ns' forest_ok_def)
    fix u assume u: "valid_tree tf u" "tf" "u \<noteq> ?t"
    have "tree_nodes tf u ns' = map ?mv (tree_nodes tf u ns)" unfolding ns' renumber_simps by (rule view_map) simp
    also have "\<dots> = tree_nodes tf u ns"
      using u vt by (intro map_idI) (auto simp: moved_def view_mem in_tree_iff)
    finally show "tree_nodes tf u ns' = tree_nodes tf u ns" .
  qed
qed (use f in simp)

section \<open>Removing a node without children\<close>

lemma has_child:
  assumes sh: "shape_ok vs" and n: "n \<in> set vs" and x: "x \<in> set vs" "encl n x"
  shows "\<exists>m \<in> set vs. nd_parent m = Some (nd_id n)"
proof -
  let ?S = "{x \<in> set vs. encl n x}"
  have "Min (nd_left ` ?S) \<in> nd_left ` ?S" using x by (intro Min_in) auto
  then obtain m where m: "m \<in> set vs" "encl n m" "nd_left m = Min (nd_left ` ?S)" by auto
  have least: "nd_left m \<le> nd_left y" if "y \<in> set vs" "encl n y" for y
    unfolding m(3) using that by (intro Min_le) auto
  have "parent_fits vs m" using sh m(1) by (simp add: shape_ok_def)
  then obtain q where q: "q \<in> set vs" "nd_parent m = Some (nd_id q)" "encl q m" "covers n q"
    using m(2) n by (auto simp: parent_fits_def split: option.splits)
  then have "n = q \<or> encl n q" using covers_iff [OF shape_laminar [OF sh] n q(1)] by blast
  then have "n = q" using least [OF q(1)] q(3) by auto
  then show ?thesis using m(1) q(2) by auto
qed

lemma filter_one: "distinct vs \<Longrightarrow> n \<in> set vs \<Longrightarrow> filter (\<lambda>m. n = m) vs = [n]"
proof (induction vs)
  case (Cons a vs)
  then show ?case by (cases "a = n") (auto simp: filter_empty_conv)
qed simp

lemma delete_childless:
  assumes f: "forest_ok tf ns" and c: "get_children ns i = []" and a: "delete_node tf promote i ns = Inr (k, ns')"
  shows "delete_subtree tf i ns = Inr (1, ns')"
proof -
  obtain n where g: "get_node ns i = Inr n"
    using a by (cases "get_node ns i") (simp_all add: delete_node_def)
  have n: "n \<in> set ns" "nd_id n = i" using get_node_forest [OF f g] by simp_all
  let ?vs = "tree_nodes tf (tree_id tf n) ns"
  note vt = own_valid [OF f n(1)] and o = own_view [OF f n(1)]
  note v = view_ok [OF f vt]
  have "\<forall>m \<in> set ns. nd_parent m \<noteq> Some i" using c by (auto simp: get_children_def filter_empty_conv dest: arg_cong [of _ _ set])
  then have none: "\<not> encl n x" if "x \<in> set ?vs" for x
    using has_child [OF tree_shape [OF v] o that] n(2) by (auto simp: view_mem)
  have lam: "laminar ?vs" using v by (auto simp: tree_ok_def)
  have "filter (covers n) ?vs = filter (\<lambda>m. n = m) ?vs"
    using covers_iff [OF lam o] none by (intro filter_cong) auto
  moreover have "distinct ?vs" using lam by (auto simp: laminar_def distinct_map)
  ultimately have sub: "filter (covers n) ?vs = [n]"
    using filter_one [OF _ o] by simp
  have w: "nd_right n - nd_left n + 1 = 2" using subtree_width [OF v o] sub by simp
  have "remove_id i ns = filter (\<lambda>m. nd_id m \<notin> nd_id ` set [n]) ns" using n(2) by (simp add: remove_id_def)
  then show ?thesis
    using a c unfolding delete_subtree_def g sum.case Let_def inside_True sub w
    by (simp add: delete_node_def g)
qed


section \<open>Every history\<close>

text \<open>
  What a program does with the trees of a resource that is empty at first, each call to its end. Left out are the
  deletion of a node with children, the move of a node under itself, and rebuilding.
\<close>

definition fresh :: "ustring \<Rightarrow> node list \<Rightarrow> bool" where
  "fresh i ns \<longleftrightarrow> i \<noteq> [] \<and> i \<notin> nd_id ` set ns"

inductive tree_history :: "bool \<Rightarrow> node list \<Rightarrow> bool" where
  no_nodes: "tree_history tf []"
| made_root: "tree_history tf ns \<Longrightarrow> fresh i ns \<Longrightarrow> valid_tree tf t \<Longrightarrow> tree_history tf (create_root tf t i ns)"
| added_child: "tree_history tf ns \<Longrightarrow> fresh i ns \<Longrightarrow> add_child tf p t i ns = Inr ns' \<Longrightarrow> tree_history tf ns'"
| put_before: "tree_history tf ns \<Longrightarrow> fresh i ns \<Longrightarrow> insert_before tf s t i ns = Inr ns' \<Longrightarrow> tree_history tf ns'"
| put_after: "tree_history tf ns \<Longrightarrow> fresh i ns \<Longrightarrow> insert_after tf s t i ns = Inr ns' \<Longrightarrow> tree_history tf ns'"
| moved_under: "tree_history tf ns \<Longrightarrow> i \<noteq> p \<Longrightarrow> move_subtree tf i p ns = Inr ns' \<Longrightarrow> tree_history tf ns'"
| gone_leaf: "tree_history tf ns \<Longrightarrow> get_children ns i = [] \<Longrightarrow> delete_node tf promote i ns = Inr (k, ns') \<Longrightarrow>
    tree_history tf ns'"
| gone_subtree: "tree_history tf ns \<Longrightarrow> delete_subtree tf i ns = Inr (k, ns') \<Longrightarrow> tree_history tf ns'"

lemma history_forest: "tree_history tf ns \<Longrightarrow> forest_ok tf ns"
proof (induction rule: tree_history.induct)
  case (no_nodes tf)
  have "tree_ok []" by (simp add: tree_ok_def shape_ok_def laminar_def dense_def numbers_def)
  then show ?case by (simp add: forest_ok_def tree_nodes_def)
next
  case (made_root tf ns i t)
  then show ?case by (intro forest_create_root) (simp_all add: fresh_def)
next
  case (added_child tf ns i p t ns')
  then show ?case by (intro forest_add_child [OF _ _ added_child(3)]) (simp_all add: fresh_def)
next
  case (put_before tf ns i s t ns')
  then show ?case
    by (intro forest_insert_sibling [OF _ _ put_before(3) [unfolded insert_before_def]]) (simp_all add: fresh_def)
next
  case (put_after tf ns i s t ns')
  then show ?case
    by (intro forest_insert_sibling [OF _ _ put_after(3) [unfolded insert_after_def]]) (simp_all add: fresh_def)
next
  case (moved_under tf ns i p ns')
  show ?case by (rule forest_move [OF moved_under.IH moved_under.hyps(3,2)])
next
  case (gone_leaf tf ns i promote k ns')
  show ?case by (rule forest_delete_subtree [OF gone_leaf.IH delete_childless [OF gone_leaf.IH gone_leaf.hyps(2,3)]])
next
  case (gone_subtree tf ns i k ns')
  show ?case by (rule forest_delete_subtree [OF gone_subtree.IH gone_subtree.hyps(2)])
qed

end
