(* ===== verification/Nested_Set_Queries.thy ===== *)
theory Nested_Set_Queries
  imports Nested_Set_Props
begin

text \<open>
  What the intervals of a tree answer is what its parent links say, a tree passes its own verification, and where
  the driver leaves numbers that are none of a nested set.
\<close>

section \<open>Descendants and ancestors by parents\<close>

definition parent_links :: "node list \<Rightarrow> (ustring \<times> ustring) set" where
  "parent_links ns = {(nd_id m, p) |m p. m \<in> set ns \<and> nd_parent m = Some p}"

lemma view_shape: "forest_ok tf ns \<Longrightarrow> valid_tree tf t \<Longrightarrow> shape_ok (tree_nodes tf t ns)"
  using view_ok by (simp add: tree_ok_def)

text \<open>A parent link leads to the node with the tightest interval, in the same tree.\<close>

lemma link_encl:
  assumes f: "forest_ok tf ns" and t: "valid_tree tf t" and x: "x \<in> set (tree_nodes tf t ns)"
    and l: "(nd_id x, p) \<in> parent_links ns"
  shows "\<exists>q \<in> set (tree_nodes tf t ns). nd_id q = p \<and> encl q x \<and> (\<forall>m \<in> set (tree_nodes tf t ns). encl m x \<longrightarrow> covers m q)"
proof -
  obtain m where m: "m \<in> set ns" "nd_id m = nd_id x" "nd_parent m = Some p" using l by (auto simp: parent_links_def)
  then have "m = x" using x f same_node [of nd_id ns m x] by (simp add: view_mem forest_ok_def)
  moreover have "parent_fits (tree_nodes tf t ns) x" using view_shape [OF f t] x by (simp add: shape_ok_def)
  ultimately show ?thesis using m(3) by (simp add: parent_fits_def)
qed

lemma links_encl:
  assumes f: "forest_ok tf ns" and t: "valid_tree tf t" and l: "(j, i) \<in> (parent_links ns)\<^sup>+"
    and x: "x \<in> set (tree_nodes tf t ns)" "nd_id x = j"
  shows "\<exists>n \<in> set (tree_nodes tf t ns). nd_id n = i \<and> encl n x"
  using l
proof (induction rule: trancl_induct)
  case (base p)
  then show ?case using link_encl [OF f t x(1)] x(2) by auto
next
  case (step p p')
  then obtain q where q: "q \<in> set (tree_nodes tf t ns)" "nd_id q = p" "encl q x" by blast
  then obtain r where "r \<in> set (tree_nodes tf t ns)" "nd_id r = p'" "encl r q"
    using link_encl [OF f t q(1), of p'] step.hyps(2) by blast
  then show ?case using q(3) by fastforce
qed

lemma encl_links:
  assumes f: "forest_ok tf ns" and t: "valid_tree tf t" and n: "n \<in> set (tree_nodes tf t ns)"
    and x: "x \<in> set (tree_nodes tf t ns)" "encl n x"
  shows "(nd_id x, nd_id n) \<in> (parent_links ns)\<^sup>+"
  using x
proof (induction "nat (nd_left x - nd_left n)" arbitrary: x rule: less_induct)
  case less
  have "parent_fits (tree_nodes tf t ns) x"
    using view_shape [OF f t] less.prems(1) by (simp add: shape_ok_def)
  then obtain q where q: "q \<in> set (tree_nodes tf t ns)" "nd_parent x = Some (nd_id q)" "encl q x" "covers n q"
    using less.prems n by (auto simp: parent_fits_def split: option.splits)
  have link: "(nd_id x, nd_id q) \<in> parent_links ns"
    using q(2) less.prems(1) by (auto simp: parent_links_def view_mem)
  show ?case
  proof (cases "n = q")
    case True
    then show ?thesis using link by auto
  next
    case False
    then have "encl n q" using covers_iff [OF shape_laminar [OF view_shape [OF f t]] n q(1)] q(4) by auto
    then have "(nd_id q, nd_id n) \<in> (parent_links ns)\<^sup>+" using less.hyps [of q] q(1,3) by simp
    then show ?thesis using link by (rule trancl_into_trancl2 [rotated])
  qed
qed

lemma descendants_by_links:
  assumes f: "forest_ok tf ns" and n: "n \<in> set ns"
  shows "nd_id ` set (filter (encl n) (tree_nodes tf (tree_id tf n) ns)) = {j. (j, nd_id n) \<in> (parent_links ns)\<^sup>+}"
proof (intro equalityI subsetI)
  fix j assume "j \<in> {j. (j, nd_id n) \<in> (parent_links ns)\<^sup>+}"
  then have l: "(j, nd_id n) \<in> (parent_links ns)\<^sup>+" by simp
  then obtain x where x: "x \<in> set ns" "nd_id x = j" by (auto simp: parent_links_def elim: converse_tranclE)
  obtain m where m: "m \<in> set (tree_nodes tf (tree_id tf x) ns)" "nd_id m = nd_id n" "encl m x"
    using links_encl [OF f own_valid [OF f x(1)] l own_view [OF f x(1)] x(2)] by blast
  then have "m = n" using f n same_node [of nd_id ns m n] by (auto simp: view_mem forest_ok_def)
  then have "n \<in> set (tree_nodes tf (tree_id tf x) ns)" using m(1) by simp
  then have "x \<in> set (tree_nodes tf (tree_id tf n) ns)"
    using f n x(1) by (simp add: view_mem in_tree_id forest_ok_def)
  then show "j \<in> nd_id ` set (filter (encl n) (tree_nodes tf (tree_id tf n) ns))"
    using m(3) \<open>m = n\<close> x(2) by auto
qed (use encl_links [OF f own_valid [OF f n] own_view [OF f n]] in auto)

lemma ancestors_by_links:
  assumes f: "forest_ok tf ns" and n: "n \<in> set ns"
  shows "nd_id ` set (filter (\<lambda>m. encl m n) (tree_nodes tf (tree_id tf n) ns)) = {j. (nd_id n, j) \<in> (parent_links ns)\<^sup>+}"
proof -
  note vt = own_valid [OF f n] and o = own_view [OF f n]
  show ?thesis
  proof (intro equalityI subsetI)
    fix j assume "j \<in> nd_id ` set (filter (\<lambda>m. encl m n) (tree_nodes tf (tree_id tf n) ns))"
    then show "j \<in> {j. (nd_id n, j) \<in> (parent_links ns)\<^sup>+}" using encl_links [OF f vt _ o] by auto
  qed (use links_encl [OF f vt _ o refl] in force)
qed

lemma count_inside:
  assumes "tree_ok vs" "n \<in> set vs"
  shows "nd_right n - nd_left n - 1 = 2 * int (length (filter (encl n) vs))"
proof -
  have lam: "laminar vs" using assms(1) by (auto simp: tree_ok_def)
  have "filter (covers n) vs = filter (\<lambda>m. n = m \<or> encl n m) vs"
    using covers_iff [OF lam assms(2)] by (intro filter_cong) auto
  moreover have "distinct vs" using lam by (auto simp: laminar_def distinct_map)
  ultimately have "length (filter (covers n) vs) = Suc (length (filter (encl n) vs))"
    using filter_one_more [OF _ assms(2), of "encl n"] by simp
  then show ?thesis using subtree_width [OF assms] by simp
qed

section \<open>Verification\<close>

lemma verify_nodes_clean:
  assumes "\<forall>n \<in> set vs. nd_left n < nd_right n \<and> nd_left n \<notin> ls \<and> nd_right n \<notin> rs \<and> parent_errors ws n = []"
    and "distinct (map nd_left vs)" "distinct (map nd_right vs)"
  shows "verify_nodes ws ls rs vs = []"
  using assms
proof (induction vs arbitrary: ls rs)
  case (Cons n vs)
  have "verify_nodes ws (insert (nd_left n) ls) (insert (nd_right n) rs) vs = []"
    using Cons.prems by (intro Cons.IH) (auto simp: image_iff)
  then show ?case using Cons.prems(1) by simp
qed simp

lemma verify_view_clean:
  assumes "shape_ok (tree_nodes tf t ns)"
  shows "verify_view tf t ns = []"
proof -
  let ?vs = "tree_nodes tf t ns"
  have lam: "laminar ?vs" using assms by auto
  have "parent_errors ?vs n = []" if n: "n \<in> set ?vs" for n
  proof (cases "nd_parent n")
    case (Some p)
    have "parent_fits ?vs n" using assms n by (simp add: shape_ok_def)
    then obtain q where q: "q \<in> set ?vs" "nd_id q = p" "encl q n" using Some by (auto simp: parent_fits_def)
    have "find (\<lambda>m. nd_id m = nd_id q) ?vs = Some q"
      using find_self [of ?vs ?vs q] lam q(1) by (simp add: laminar_def)
    then show ?thesis using Some q by (auto simp: parent_errors_def inside_False)
  qed (simp add: parent_errors_def)
  then show ?thesis
    using lam unfolding verify_view_def Let_def by (intro verify_nodes_clean) (simp_all add: laminar_def distinct_numbers_iff)
qed

lemma verify_tree_clean:
  assumes f: "forest_ok tf ns"
  shows "verify_tree tf t ns = []"
proof (cases "all_trees tf t")
  case True
  have "valid_tree tf (Some u)" if "u \<in> set (tree_ids ns)" for u
    using that by (auto simp: tree_ids_def valid_tree_def List.map_filter_def split: option.splits if_splits)
  then show ?thesis
    using True verify_view_clean view_shape [OF f] by (auto simp: verify_tree_def)
next
  case False
  then have "valid_tree tf t" by (auto simp: all_trees_def valid_tree_def)
  then show ?thesis using False verify_view_clean view_shape [OF f] by (simp add: verify_tree_def)
qed


section \<open>Answers of a history\<close>

definition descendants_of :: "node list \<Rightarrow> ustring \<Rightarrow> ustring set" where
  "descendants_of ns i = {j. (j, i) \<in> (parent_links ns)\<^sup>+}"

definition ancestors_of :: "node list \<Rightarrow> ustring \<Rightarrow> ustring set" where
  "ancestors_of ns i = {j. (i, j) \<in> (parent_links ns)\<^sup>+}"

lemma view_distinct: "forest_ok tf ns \<Longrightarrow> distinct (map nd_id (filter P (tree_nodes tf t ns)))"
  by (simp add: forest_ok_def tree_nodes_def distinct_map_filter)

lemma descendants_answer:
  assumes f: "forest_ok tf ns" and a: "get_descendants tf False None ns i = Inr ds"
  shows "nd_id ` set ds = descendants_of ns i \<and> distinct (map nd_id ds) \<and> sorted (map nd_left ds) \<and>
    count_descendants ns i = Inr (of_nat (length ds)) \<and> is_leaf ns i = Inr (ds = [])"
proof -
  obtain n where g: "get_node ns i = Inr n"
    using a by (cases "get_node ns i") (simp_all add: get_descendants_def)
  have n: "n \<in> set ns" "nd_id n = i" using get_node_forest [OF f g] by simp_all
  let ?fs = "filter (encl n) (tree_nodes tf (tree_id tf n) ns)"
  have ds: "ds = sort_key nd_left ?fs"
    using a g by (simp add: get_descendants_def Let_def inside_False)
  have "nd_right n - nd_left n - 1 = 2 * int (length ds)"
    using count_inside [OF view_ok [OF f own_valid [OF f n(1)]] own_view [OF f n(1)]] unfolding ds by simp
  then have "of_int (nd_right n - nd_left n - 1) / 2 = (of_nat (length ds) :: rat)"
    and "nd_right n = nd_left n + 1 \<longleftrightarrow> ds = []" by auto
  moreover have "nd_id ` set ds = descendants_of ns i"
    unfolding ds using descendants_by_links [OF f n(1)] n(2) by (simp add: descendants_of_def)
  moreover have "distinct (map nd_id ds)"
    unfolding ds using view_distinct [OF f] by (simp add: distinct_map)
  moreover have "sorted (map nd_left ds)" unfolding ds by (rule sorted_sort_key)
  ultimately show ?thesis
    using g by (simp add: count_descendants_def is_leaf_def leaf_interval_def)
qed

lemma ancestors_answer:
  assumes f: "forest_ok tf ns" and a: "get_ancestors tf False ns i = Inr as"
  shows "nd_id ` set as = ancestors_of ns i \<and> distinct (map nd_id as) \<and> sorted (map nd_left as) \<and>
    get_depth ns i = Inr (int (length as))"
proof -
  obtain n where g: "get_node ns i = Inr n"
    using a by (cases "get_node ns i") (simp_all add: get_ancestors_def)
  have n: "n \<in> set ns" "nd_id n = i" using get_node_forest [OF f g] by simp_all
  let ?fs = "filter (\<lambda>m. encl m n) (tree_nodes tf (tree_id tf n) ns)"
  have as: "as = sort_key nd_left ?fs"
    using a g by (simp add: get_ancestors_def inside_False)
  have "nd_depth n = int (length as)"
    using view_shape [OF f own_valid [OF f n(1)]] own_view [OF f n(1)] unfolding as by (simp add: shape_ok_def levels_def)
  moreover have "nd_id ` set as = ancestors_of ns i"
    unfolding as using ancestors_by_links [OF f n(1)] n(2) by (simp add: ancestors_of_def)
  moreover have "distinct (map nd_id as)"
    unfolding as using view_distinct [OF f] by (simp add: distinct_map)
  moreover have "sorted (map nd_left as)" unfolding as by (rule sorted_sort_key)
  ultimately show ?thesis using g by (simp add: get_depth_def)
qed

section \<open>A tree of four nodes\<close>

definition plain_node :: "ustring \<Rightarrow> ustring option \<Rightarrow> int \<Rightarrow> int \<Rightarrow> int \<Rightarrow> node" where
  "plain_node i p l r d = \<lparr>nd_id = i, nd_tree = None, nd_parent = p, nd_left = l, nd_right = r, nd_depth = d\<rparr>"

definition one_node :: "node list" where
  "one_node = [plain_node (lit ''r'') None 1 2 0]"

definition two_nodes :: "node list" where
  "two_nodes = [plain_node (lit ''r'') None 1 4 0, plain_node (lit ''a'') (Some (lit ''r'')) 2 3 1]"

definition three_nodes :: "node list" where
  "three_nodes = [plain_node (lit ''r'') None 1 6 0, plain_node (lit ''a'') (Some (lit ''r'')) 2 5 1,
    plain_node (lit ''b'') (Some (lit ''a'')) 3 4 2]"

definition four_nodes :: "node list" where
  "four_nodes = [plain_node (lit ''r'') None 1 8 0, plain_node (lit ''a'') (Some (lit ''r'')) 2 5 1,
    plain_node (lit ''b'') (Some (lit ''a'')) 3 4 2, plain_node (lit ''c'') (Some (lit ''r'')) 6 7 1]"

lemma fresh_iff: "fresh i ns \<longleftrightarrow> i \<noteq> [] \<and> list_all (\<lambda>n. nd_id n \<noteq> i) ns"
  by (auto simp: fresh_def list_all_iff)

lemma two_history: "tree_history False two_nodes"
proof -
  have "create_root False None (lit ''r'') [] = one_node" by code_simp
  moreover have "tree_history False (create_root False None (lit ''r'') [])"
    by (intro made_root no_nodes) (simp_all add: fresh_def valid_tree_def)
  moreover have "fresh (lit ''a'') one_node" unfolding fresh_iff by code_simp
  moreover have "add_child False (lit ''r'') None (lit ''a'') one_node = Inr two_nodes" by code_simp
  ultimately show ?thesis by (metis added_child)
qed

lemma three_history: "tree_history False three_nodes"
proof -
  have "fresh (lit ''b'') two_nodes" unfolding fresh_iff by code_simp
  moreover have "add_child False (lit ''a'') None (lit ''b'') two_nodes = Inr three_nodes" by code_simp
  ultimately show ?thesis using two_history by (rule added_child [rotated])
qed

lemma four_history: "tree_history False four_nodes"
proof -
  have "fresh (lit ''c'') three_nodes" unfolding fresh_iff by code_simp
  moreover have "insert_after False (lit ''a'') None (lit ''c'') three_nodes = Inr four_nodes" by code_simp
  ultimately show ?thesis using three_history by (rule put_after [rotated])
qed

text \<open>
  C37: The nested-set trees of a resource stay trees: after every history of new roots, children and siblings, moves
  under other nodes, and removals of subtrees and of nodes without children, the numbers of each tree are 1 to twice
  its size, each once, no two intervals overlap, every node has the tightest interval around it as its parent and
  as many around it as its depth; the tree then passes its verification.
\<close>

theorem trees_stay_nested:
  assumes "tree_history tf ns"
  shows "distinct (map nd_id ns) \<and> verify_tree tf t ns = [] \<and> (valid_tree tf t \<longrightarrow> tree_ok (tree_nodes tf t ns))"
  using history_forest [OF assms] verify_tree_clean by (auto simp: forest_ok_def)

theorem trees_stay_nested_witness:
  "distinct (map nd_id four_nodes) \<and> verify_tree False None four_nodes = [] \<and>
    tree_ok (tree_nodes False None four_nodes)"
  using trees_stay_nested [OF four_history, of None] by (simp add: valid_tree_def)

text \<open>
  C38: In a history of the trees of a resource the intervals answer what the parent links say: the descendants of a
  node are the nodes from which its id is reached by one parent link or more, each once and in the order of the
  walk, their count and whether there are any is read off the interval alone; the ancestors are the nodes reached
  from it, and their number is its depth.
\<close>

theorem intervals_follow_parents:
  assumes "tree_history tf ns"
    and "get_descendants tf False None ns i = Inr ds" "get_ancestors tf False ns i = Inr as"
  shows "nd_id ` set ds = descendants_of ns i \<and> distinct (map nd_id ds) \<and> sorted (map nd_left ds) \<and>
      count_descendants ns i = Inr (of_nat (length ds)) \<and> is_leaf ns i = Inr (ds = []) \<and>
      nd_id ` set as = ancestors_of ns i \<and> distinct (map nd_id as) \<and> sorted (map nd_left as) \<and>
      get_depth ns i = Inr (int (length as))"
  using descendants_answer [OF history_forest [OF assms(1)] assms(2)]
    ancestors_answer [OF history_forest [OF assms(1)] assms(3)] by blast

theorem intervals_follow_parents_witness:
  "descendants_of four_nodes (lit ''r'') = {lit ''a'', lit ''b'', lit ''c''} \<and> ancestors_of four_nodes (lit ''r'') = {} \<and>
    count_descendants four_nodes (lit ''r'') = Inr 3"
proof -
  have ds: "get_descendants False False None four_nodes (lit ''r'') =
      Inr [plain_node (lit ''a'') (Some (lit ''r'')) 2 5 1, plain_node (lit ''b'') (Some (lit ''a'')) 3 4 2,
        plain_node (lit ''c'') (Some (lit ''r'')) 6 7 1]"
    and as: "get_ancestors False False four_nodes (lit ''r'') = Inr []"
    by code_simp+
  show ?thesis using intervals_follow_parents [OF four_history ds as] by (auto simp: plain_node_def)
qed

section \<open>Edits\<close>

text \<open>A tree as its parent links alone, and what the edits are there.\<close>

definition links :: "node list \<Rightarrow> (ustring \<times> ustring option) list" where
  "links ns = map (\<lambda>n. (nd_id n, nd_parent n)) ns"

definition relink :: "ustring \<Rightarrow> ustring \<Rightarrow> (ustring \<times> ustring option) list \<Rightarrow> (ustring \<times> ustring option) list" where
  "relink i p ls = map (\<lambda>(j, q). (j, if j = i then Some p else q)) ls"

lemma links_shift [simp]: "links (shift_nodes tf t g d ns) = links ns"
  by (simp add: links_def shift_nodes_def)

lemma links_append [simp]: "links (ns @ ms) = links ns @ links ms"
  by (simp add: links_def)

lemma add_child_links:
  assumes "forest_ok tf ns" "fresh i ns" "add_child tf p t i ns = Inr ns'"
  shows "links ns' = links ns @ [(i, Some p)]"
  using add_child_shifts [OF assms(1) _ assms(3)] assms(2) by (auto simp: fresh_def links_def [of "[x]" for x])

lemma move_links:
  assumes f: "forest_ok tf ns" and a: "move_subtree tf i p ns = Inr ns'" "i \<noteq> p"
  shows "links ns' = relink i p (links ns)"
  using move_subtree_moved [OF assms]
proof (elim disjE conjE bexE)
  fix n assume n: "ns' = ns" "n \<in> set ns" "nd_id n = i" "nd_parent n = Some p"
  have "nd_parent m = Some p" if "m \<in> set ns" "nd_id m = i" for m
    using that n same_node [of nd_id ns m n] f by (simp add: forest_ok_def)
  then show ?thesis using n(1) by (auto simp: links_def relink_def)
next
  fix n q assume n: "n \<in> set ns" "nd_id n = i"
    and ns': "ns' = map (moved tf n p (shift_value (nd_right n + 1) (- (nd_right n - nd_left n + 1)) (nd_right q))
      (nd_depth q + 1 - nd_depth n)) ns"
  have "in_tree tf (tree_id tf n) n" "covers n n" using own_view [OF f n(1)] by (simp_all add: view_mem)
  then have "nd_parent (moved tf n p x d m) = (if nd_id m = i then Some p else nd_parent m)" if "m \<in> set ns" for x d m
    using that n same_node [of nd_id ns m n] f by (auto simp: moved_def forest_ok_def)
  then show ?thesis unfolding ns' by (simp add: links_def relink_def)
qed

lemma delete_subtree_links:
  assumes f: "forest_ok tf ns" and a: "delete_subtree tf i ns = Inr (k, ns')"
  shows "links ns' = filter (\<lambda>(j, q). j \<noteq> i \<and> j \<notin> descendants_of ns i) (links ns) \<and> length ns = k + length ns'"
proof -
  obtain n where n: "n \<in> set ns" "nd_id n = i" and k: "k = length (filter (covers n) (tree_nodes tf (tree_id tf n) ns))"
    and ns': "ns' = shift_nodes tf (tree_id tf n) (nd_right n + 1) (- (nd_right n - nd_left n + 1))
      (filter (\<lambda>m. \<not> (in_tree tf (tree_id tf n) m \<and> covers n m)) ns)"
    using delete_subtree_shape [OF assms] by blast
  let ?vs = "tree_nodes tf (tree_id tf n) ns"
  have lam: "laminar ?vs" using view_shape [OF f own_valid [OF f n(1)]] by auto
  have gone: "in_tree tf (tree_id tf n) m \<and> covers n m \<longleftrightarrow> nd_id m = i \<or> nd_id m \<in> descendants_of ns i" if m: "m \<in> set ns" for m
  proof -
    have "nd_id m \<in> descendants_of ns i \<longleftrightarrow> m \<in> set (filter (encl n) ?vs)"
      using descendants_by_links [OF f n(1)] n(2) m f same_node [of nd_id ns m]
      by (auto simp: descendants_of_def view_mem forest_ok_def set_eq_iff image_iff)
    moreover have "nd_id m = i \<longleftrightarrow> n = m" using m n f same_node [of nd_id ns m n] by (auto simp: forest_ok_def)
    ultimately show ?thesis
      using covers_iff [OF lam own_view [OF f n(1)], of m] m own_view [OF f n(1)] by (auto simp: view_mem)
  qed
  have "k = length (filter (\<lambda>m. in_tree tf (tree_id tf n) m \<and> covers n m) ns)"
    unfolding k tree_nodes_def filter_filter by simp
  then have "length ns = k + length ns'"
    unfolding ns' shift_nodes_def length_map by (simp only: sum_length_filter_compl)
  moreover have "links ns' = filter (\<lambda>(j, q). j \<noteq> i \<and> j \<notin> descendants_of ns i) (links ns)"
    unfolding ns' links_shift unfolding links_def filter_map o_def prod.case using gone
    by (intro arg_cong [of _ _ "map _"] filter_cong refl) blast
  ultimately show ?thesis by blast
qed

text \<open>
  C39: The edits of the driver do to the parent links what they are named for, whatever they do to the numbers: a
  new child is linked to its parent and every other link stays, a move links the moved node to its new parent and
  changes no other link, and the removal of a subtree takes away its root and its descendants, counts them, and
  leaves the other links.
\<close>

theorem edits_refine_links:
  assumes "tree_history tf ns"
  shows "(fresh i ns \<longrightarrow> add_child tf p t i ns = Inr ns' \<longrightarrow> links ns' = links ns @ [(i, Some p)]) \<and>
    (i \<noteq> p \<longrightarrow> move_subtree tf i p ns = Inr ns' \<longrightarrow> links ns' = relink i p (links ns)) \<and>
    (delete_subtree tf i ns = Inr (k, ns') \<longrightarrow>
      links ns' = filter (\<lambda>(j, q). j \<noteq> i \<and> j \<notin> descendants_of ns i) (links ns) \<and> length ns = k + length ns')"
  using history_forest [OF assms] add_child_links move_links delete_subtree_links by blast

theorem edits_refine_links_witness:
  "(case add_child False (lit ''b'') None (lit ''d'') four_nodes of Inl _ \<Rightarrow> False
    | Inr ns \<Rightarrow> links ns = links four_nodes @ [(lit ''d'', Some (lit ''b''))]) \<and>
   (case move_subtree False (lit ''c'') (lit ''b'') four_nodes of Inl _ \<Rightarrow> False
    | Inr ns \<Rightarrow> links ns = relink (lit ''c'') (lit ''b'') (links four_nodes)) \<and>
   (case delete_subtree False (lit ''a'') four_nodes of Inl _ \<Rightarrow> False
    | Inr (k, ns) \<Rightarrow> k = 2 \<and> length four_nodes = k + length ns)"
proof -
  let ?a = "add_child False (lit ''b'') None (lit ''d'') four_nodes"
  let ?m = "move_subtree False (lit ''c'') (lit ''b'') four_nodes"
  let ?d = "delete_subtree False (lit ''a'') four_nodes"
  note e = edits_refine_links [OF four_history]
  have a: "\<not> isl ?a" "fresh (lit ''d'') four_nodes" and m: "\<not> isl ?m" and d: "\<not> isl ?d" "fst (projr ?d) = 2"
    unfolding fresh_iff by code_simp+
  show ?thesis
    using e [of "lit ''d''" "lit ''b''" None "projr ?a"] e [of "lit ''c''" "lit ''b''" None "projr ?m"]
      e [of "lit ''a''" "lit ''b''" None "snd (projr ?d)" 2] a m d
    by (auto split: sum.splits)
qed

section \<open>Where the numbers fail\<close>

definition is_some_node :: "ustring \<Rightarrow> tree_error + node option \<Rightarrow> bool" where
  "is_some_node i r = (case r of Inr (Some n) \<Rightarrow> nd_id n = i | _ \<Rightarrow> False)"

definition ids_of :: "tree_error + node list \<Rightarrow> ustring list" where
  "ids_of r = (case r of Inl _ \<Rightarrow> [] | Inr ns \<Rightarrow> map nd_id ns)"

definition two_trees :: "node list" where
  "two_trees =
    create_root True (Some (lit ''x'')) (lit ''r2'')
      (create_root True None (lit ''s'') (create_root True (Some (lit ''x'')) (lit ''r'') []))"


end
