(* ===== verification/Spec2Isabelle.thy ===== *)
theory Spec2Isabelle
  imports Fifo_Task_Queue Memory_Storage_Props Metadata_Encoding Behaviors_Props Memory_Client_Props
    Priority_Queue_Props Plugin_Storage_Props Storage_Mutex Database_Metadata_Props
    Special_Values_Props Ip_Props Flatten_Props Bitmaps_Props Schema_Records
    Partition_Queries_Props Nested_Set_Queries
begin

text \<open>
  Baldim is a document store on object storage. A record of a resource becomes one object: its
  fields are mapped to metadata strings by the schema (\<open>core/src/schema.class.ts\<close>), a behavior
  (\<open>core/src/behaviors\<close>) keeps the metadata below the limit of the store and moves the rest into the
  body, a client (\<open>adapters/*\<close>) adds a key prefix, encodes the metadata values and talks to the store.
  Calls run on task queues with priorities (\<open>core/src/tasks\<close>). Plugins keep their state and their
  locks in the same store (\<open>core/src/plugins/concerns\<close>, \<open>core/src/concerns/distributed-lock.ts\<close>).
  File names below are relative to \<open>src/\<close>.

  The parts, in the order of the calls:

  \<^item> \<open>Prelude\<close>, \<open>Js_Value\<close>: JavaScript strings (lists of UTF-16 code units), the insertion-ordered
    \<open>Map\<close>, values and truthiness; histories of calls and their simulation.
  \<^item> \<open>Task_Queues\<close> (the contracts \<open>task_queue\<close>, \<open>service_queue\<close>, \<open>fifo_queue\<close>), \<open>Fifo_Task_Queue\<close>
    (\<open>core/src/tasks/concerns/fifo-task-queue.ts\<close>), \<open>Priority_Task_Queue\<close> and \<open>Priority_Queue_Props\<close>
    (\<open>priority-task-queue.ts\<close>): the ring buffer refines a list for every history of calls; the heap is
    a stable priority queue without aging, and with aging keeps every task but may serve them out of
    order.
  \<^item> \<open>Text_Encoding\<close>, \<open>Uri_Encoding\<close>: the part of \<open>Buffer\<close>, \<open>encodeURIComponent\<close> and
    \<open>decodeURIComponent\<close> the codecs call, with round trips (contract \<open>byte_codec\<close>).
  \<^item> \<open>Text_Compression\<close>, \<open>Dictionary_Encoding\<close>, \<open>Metadata_Encoding\<close>, \<open>Calculator\<close>
    (\<open>core/src/concerns\<close>): the base-85 codec and tagged compression, the value dictionary, the choice
    of encoding for a metadata value and its decoder, and the exact UTF-8 size. The memo tables of the
    last two meet the contract \<open>memo_cache\<close>, so that they never change an answer.
  \<^item> \<open>Number_Codecs\<close>, \<open>Number_Codecs_Props\<close> (\<open>core/src/concerns/base62.ts\<close>): numbers as base-62 and base-36
    numerals, base-62 decimals and fixed-point batches: exact for integers, for which decimals, and
    within which error.
  \<^item> \<open>Schema_Keys\<close>, \<open>Schema_Plugin_Keys\<close>, \<open>Schema_Keys_Props\<close> (\<open>core/src/schema.class.ts\<close>): under which
    short key a schema stores every attribute, and the registries that keep the assignment across
    versions of the schema: well formed after every history, no key changes hands; the exceptions.
  \<^item> \<open>Value_Texts\<close>, \<open>Validator_Values\<close> (\<open>core/src/validator.class.ts\<close>), \<open>Special_Values\<close>
    (\<open>mapper\<close> and \<open>unmapper\<close> in \<open>core/src/schema.class.ts\<close>), \<open>Value_Numerals\<close>, \<open>Special_Values_Props\<close>:
    identifiers, times, addresses, versions, phone numbers, colours, durations and bar codes: what the
    validator accepts and makes of it, the compact form that is stored, and which accepted values are
    read back. \<open>Ip_Addresses\<close>, \<open>Ip_Props\<close> (\<open>core/src/concerns/ip.ts\<close>): the same for IP addresses.
  \<^item> \<open>Flatten\<close>, \<open>Flatten_Props\<close> (\<open>core/src/concerns/flatten.ts\<close>): nested objects as one level of
    dotted keys and back, with the objects that survive.
  \<^item> \<open>Bitmaps\<close>, \<open>Bitmaps_Props\<close> (\<open>core/src/concerns/binary.ts\<close>): buffers as texts and bitmaps on 8-bit
    words with the 32-bit operators of the language; checked and fast operations agree.
  \<^item> \<open>Geo_Encoding\<close> (\<open>core/src/concerns/geo-encoding.ts\<close>), \<open>Schema_Actions\<close>, \<open>Schema_Values\<close>,
    \<open>Schema_Values_Props\<close>, \<open>Schema_Records\<close> (\<open>SchemaActions\<close>, \<open>generateAutoHooks\<close>, \<open>mapper\<close> and
    \<open>unmapper\<close> in \<open>core/src/schema.class.ts\<close>): the actions that encode a value, the hooks a definition
    gets, and the way of a record to its stored fields and back: which values come back exactly, which
    within half a unit of the last place, and that a record comes back field by field.
  \<^item> \<open>Partitions\<close>, \<open>Partitions_Props\<close> (\<open>core/src/core/resource-partitions.class.ts\<close>): the index of a
    resource, one object per record and partition. It refines the map from records to their keys under
    every history of inserts, updates and deletes, and an update repairs it.
  \<^item> \<open>Partition_Queries\<close>, \<open>Partition_Queries_Props\<close> (\<open>core/src/core/resource-query.class.ts\<close>): planning,
    listing, counting and querying; a query is the filtered listing of what was planned, a listing of a
    partition is given by the records, and where the two part ways with what was asked.
  \<^item> \<open>Database_Metadata\<close>, \<open>Database_Metadata_Props\<close>
    (\<open>core/src/database/database-metadata.class.ts\<close>): the metadata file with the versions and registries of
    all resources, detection of changes, the merge with other processes and the upload; when a merge
    is safe and which keys it gives out twice.
  \<^item> \<open>Behaviors\<close>, \<open>Behaviors_Laws\<close>, \<open>Behaviors_Props\<close>: the five behaviors as functions from mapped
    data to metadata and body and back; reads give back what was inserted, sizes are kept within the
    limit (or not, with the exact condition), truncation is longest-possible and ends.
  \<^item> \<open>Memory_Storage\<close>, \<open>Memory_Storage_Laws\<close>, \<open>Memory_Storage_Props\<close>
    (\<open>adapters/memory/src/memory-storage.class.ts\<close>): the object store with ETags, conditional puts,
    eviction of the least recently used object, byte accounting, paging and snapshots, as functions
    on a record of its fields. One invariant holds after every history of operations.
  \<^item> \<open>Memory_Client\<close>, \<open>Memory_Client_Props\<close> (\<open>memory-client.class.ts\<close>): the client over that store:
    key prefixes, metadata codec, pages of keys, moves and deletions.
  \<^item> \<open>Plugin_Storage\<close>, \<open>Plugin_Sequences\<close>, \<open>Plugin_Storage_Props\<close>
    (\<open>core/src/plugins/concerns/plugin-storage.ts\<close>): the store of plugin state over that client: records
    with a time to live, versioned writes, counters, sequences under a lock.
  \<^item> \<open>Storage_Locks\<close>, \<open>Storage_Mutex\<close> (\<open>core/src/concerns/distributed-lock.ts\<close>,
    \<open>core/src/plugins/concerns/storage-mutex.class.ts\<close>): the two locks as step relations of any number
    of interleaved processes; both meet the contract \<open>lease\<close> when deletes are not overtaken, and both
    can have two holders when they are.

  \<^item> \<open>Nested_Set\<close>, \<open>Nested_Set_Shapes\<close>, \<open>Nested_Set_Grafts\<close>, \<open>Nested_Set_Props\<close>, \<open>Nested_Set_Queries\<close>
    (\<open>plugins/tree/src/drivers/nested-set.ts\<close>): trees of records by intervals of numbers. Shapes says
    what the numbers of a nested set are, Grafts what shifts make of them; Props carries them through
    every operation, Queries shows that intervals and parent links then agree, and where the driver
    leaves other numbers.

  Conventions. Strings are lists of code units (naturals); numbers are rationals where the code
  computes with them and times are in milliseconds; an exception is the left side of a sum. A method
  is a function from the state record to the result and the new state; calls that the code awaits one
  after the other are composed in that order. Operations that several processes interleave are split
  into steps at their awaits, each with at most one access to the store. \<open>JSON.stringify\<close> and
  \<open>JSON.parse\<close>, MD5, random ids and the current time are arguments of the definitions; where a property
  relies on the round trip of JSON it says so as a hypothesis, and its witness runs on a concrete codec.

  Loops. Loops over lists and strings are structural recursion. Four loops may run forever and are
  \<open>partial_function (option)\<close>, so that not returning is \<open>None\<close>: the doubling loop of the ring buffer, the
  truncation loop, the client's loop over listing pages and the lock loop of a sequence. For which
  arguments the first two end is a property of its own. The walk that rebuilds a nested set takes as
  much fuel as there are nodes: no walk from a root meets a node twice.

  Not modelled. The other adapters (S3, SQLite, filesystem, RedDB) are bindings to services and
  drivers with the same client interface. The preparation of a schema's attributes for the validator,
  the resource that composes schema, behavior and partitions, the cursors of its pages and the database
  object are not modelled; the schedulers \<open>TasksPool\<close> and
  \<open>TasksRunner\<close> on the two queues, the small helpers of \<open>core/src/concerns\<close> (ring buffer,
  partition queue, sequences) and the plugins with a protocol of their own (queue, TTL,
  replicator, state machine) come after them. The API, identity, recon, spider, machine-learning,
  cloud and Kubernetes plugins, the command line and the MCP server are glue around services.
\<close>

end
